(* ===== verification/Prelude.thy ===== *)
theory Prelude
  imports Main "HOL-Library.Sublist" "HOL-Library.Multiset" "HOL-Library.Char_ord" "HOL-Library.List_Lexorder"
begin

text \<open>
  Shared vocabulary of the development: the operations of Rust's \<open>str\<close>, \<open>char\<close> and integer
  types that the source uses, association lists for its hash maps, and the lemmas about them
  that the components share.

  A Rust string is a \<^typ>\<open>string\<close>: the list of its \<open>char\<close>s. A \<^typ>\<open>char\<close> of HOL stands for the
  code point of the same number, so the model covers exactly the strings whose code points
  are at most U+00FF. On those the definitions below are the Unicode ones of the Rust
  library: white space is the property \<open>White_Space\<close>, lower case is the simple mapping, and
  \<open>len\<close> counts the bytes of the UTF-8 encoding (two for a code point above U+007F).
  The order on strings is that of the library's lexicographic order on \<^typ>\<open>char\<close>, which agrees with the
  byte-wise order of \<open>str\<close>, since UTF-8 keeps the order of code points.
\<close>

named_theorems str_simps \<open>unfolding of the string operations\<close>
named_theorems key_simps \<open>facts about normal forms of keys (addresses, titles)\<close>

section \<open>Characters\<close>

abbreviation code_point :: "char \<Rightarrow> nat" where
  "code_point c \<equiv> of_char c"

text \<open>\<open>char::is_whitespace\<close> and \<open>char::is_ascii_whitespace\<close>.\<close>

definition is_ws :: "char \<Rightarrow> bool" where
  "is_ws c \<longleftrightarrow> (9 \<le> code_point c \<and> code_point c \<le> 13) \<or> code_point c = 32
     \<or> code_point c = 133 \<or> code_point c = 160"

definition is_ascii_ws :: "char \<Rightarrow> bool" where
  "is_ascii_ws c \<longleftrightarrow> code_point c = 32 \<or> code_point c = 9 \<or> code_point c = 10
     \<or> code_point c = 12 \<or> code_point c = 13"

definition is_ascii_upper :: "char \<Rightarrow> bool" where
  "is_ascii_upper c \<longleftrightarrow> 65 \<le> code_point c \<and> code_point c \<le> 90"

text \<open>\<open>u8::is_ascii_hexdigit\<close>.\<close>

definition strip_suffix :: "string \<Rightarrow> string \<Rightarrow> string option" where
  "strip_suffix p s = (if suffix p s then Some (take (length s - length p) s) else None)"

definition is_hexdigit :: "char \<Rightarrow> bool" where
  "is_hexdigit c \<longleftrightarrow> (48 \<le> code_point c \<and> code_point c \<le> 57) \<or> (65 \<le> code_point c \<and> code_point c \<le> 70)
     \<or> (97 \<le> code_point c \<and> code_point c \<le> 102)"

text \<open>\<open>char::to_ascii_lowercase\<close> and \<open>char::to_lowercase\<close>.\<close>

definition ascii_lower :: "char \<Rightarrow> char" where
  "ascii_lower c = (if is_ascii_upper c then char_of (code_point c + 32) else c)"

definition is_upper :: "char \<Rightarrow> bool" where
  "is_upper c \<longleftrightarrow> is_ascii_upper c
     \<or> (192 \<le> code_point c \<and> code_point c \<le> 222 \<and> code_point c \<noteq> 215)"

definition lower :: "char \<Rightarrow> char" where
  "lower c = (if is_upper c then char_of (code_point c + 32) else c)"

text \<open>The bytes of one character in UTF-8 (\<open>char::len_utf8\<close>).\<close>

definition len_utf8 :: "char \<Rightarrow> nat" where
  "len_utf8 c = (if code_point c < 128 then 1 else 2)"

text \<open>Bitwise forms of the same functions, for evaluation.\<close>

lemma is_ascii_upper_Char [code]:
  "is_ascii_upper (Char b0 b1 b2 b3 b4 b5 b6 b7) \<longleftrightarrow>
     \<not> b7 \<and> b6 \<and> \<not> b5 \<and> (b0 \<or> b1 \<or> b2 \<or> b3 \<or> b4) \<and> \<not> (b4 \<and> b3 \<and> (b2 \<or> b1 \<and> b0))"
  by (cases b7; cases b6; cases b5; cases b4; cases b3; cases b2; cases b1; cases b0)
    (simp_all add: is_ascii_upper_def of_char_def)

lemma is_ws_Char [code]:
  "is_ws (Char b0 b1 b2 b3 b4 b5 b6 b7) \<longleftrightarrow>
     \<not> b6 \<and> \<not> b4 \<and>
     (if b7 then (if b5 then \<not> b3 \<and> \<not> b2 \<and> \<not> b1 \<and> \<not> b0 else \<not> b3 \<and> b2 \<and> \<not> b1 \<and> b0)
      else if b5 then \<not> b3 \<and> \<not> b2 \<and> \<not> b1 \<and> \<not> b0
      else b3 \<and> (if b2 then \<not> b1 else b1 \<or> b0))"
  by (cases b7; cases b6; cases b5; cases b4; cases b3; cases b2; cases b1; cases b0)
    (simp_all add: is_ws_def of_char_def)

lemma is_upper_Char [code]:
  "is_upper (Char b0 b1 b2 b3 b4 b5 b6 b7) \<longleftrightarrow>
     (if b7 then b6 \<and> \<not> b5 \<and> \<not> (b4 \<and> b3 \<and> b2 \<and> b1 \<and> b0) \<and> \<not> (b4 \<and> \<not> b3 \<and> b2 \<and> b1 \<and> b0)
      else is_ascii_upper (Char b0 b1 b2 b3 b4 b5 b6 b7))"
  by (cases b7; cases b6; cases b5; cases b4; cases b3; cases b2; cases b1; cases b0)
    (simp_all add: is_upper_def is_ascii_upper_def of_char_def)

lemma add_32_Char:
  assumes "\<not> b5"
  shows "char_of (code_point (Char b0 b1 b2 b3 b4 b5 b6 b7) + 32) = Char b0 b1 b2 b3 b4 True b6 b7"
proof -
  have "code_point (Char b0 b1 b2 b3 b4 b5 b6 b7) + 32 = code_point (Char b0 b1 b2 b3 b4 True b6 b7)"
    using assms by (simp add: of_char_def)
  then show ?thesis by (simp only: char_of_char)
qed

lemma upper_bit5:
  "is_ascii_upper (Char b0 b1 b2 b3 b4 b5 b6 b7) \<Longrightarrow> \<not> b5"
  "is_upper (Char b0 b1 b2 b3 b4 b5 b6 b7) \<Longrightarrow> \<not> b5"
  by (auto simp: is_ascii_upper_Char is_upper_Char split: if_splits)

lemma ascii_lower_Char [code]:
  "ascii_lower (Char b0 b1 b2 b3 b4 b5 b6 b7) =
     (if is_ascii_upper (Char b0 b1 b2 b3 b4 b5 b6 b7) then Char b0 b1 b2 b3 b4 True b6 b7
      else Char b0 b1 b2 b3 b4 b5 b6 b7)"
  unfolding ascii_lower_def by (rule if_cong [OF refl add_32_Char refl]) (rule upper_bit5)

lemma lower_Char [code]:
  "lower (Char b0 b1 b2 b3 b4 b5 b6 b7) =
     (if is_upper (Char b0 b1 b2 b3 b4 b5 b6 b7) then Char b0 b1 b2 b3 b4 True b6 b7
      else Char b0 b1 b2 b3 b4 b5 b6 b7)"
  unfolding lower_def by (rule if_cong [OF refl add_32_Char refl]) (rule upper_bit5)

lemma len_utf8_Char [code]: "len_utf8 (Char b0 b1 b2 b3 b4 b5 b6 b7) = (if b7 then 2 else 1)"
  by (cases b7; cases b6; cases b5; cases b4; cases b3; cases b2; cases b1; cases b0)
    (simp_all add: len_utf8_def of_char_def)
lemma len_utf8_bounds [simp]: "0 < len_utf8 c" "len_utf8 c \<le> 2"
  by (simp_all add: len_utf8_def)

lemma char_bound: "code_point c < 256"
  by (cases c) (simp add: of_char_def)

lemma ascii_lower_idem [simp]: "ascii_lower (ascii_lower c) = ascii_lower c"
  by (simp add: ascii_lower_def is_ascii_upper_def)

lemma is_ws_ascii_lower [simp]: "is_ws (ascii_lower c) = is_ws c"
  by (auto simp: is_ws_def ascii_lower_def is_ascii_upper_def)

lemma lower_idem [simp]: "lower (lower c) = lower c"
  by (auto simp: lower_def is_upper_def is_ascii_upper_def)

lemma is_ws_lower [simp]: "is_ws (lower c) = is_ws c"
  by (auto simp: is_ws_def lower_def is_upper_def is_ascii_upper_def)

lemma lower_ascii_lower [simp]: "lower (ascii_lower c) = lower c"
  by (auto simp: lower_def ascii_lower_def is_upper_def is_ascii_upper_def)

lemma ascii_lower_eq_iff:
  assumes "\<not> is_ascii_upper d" and "\<not> (97 \<le> code_point d \<and> code_point d \<le> 122)"
  shows "ascii_lower c = d \<longleftrightarrow> c = d"
  using assms by (auto simp: ascii_lower_def is_ascii_upper_def)

section \<open>Strings\<close>

text \<open>\<open>str::len\<close>: the bytes of the UTF-8 encoding.\<close>

definition str_len :: "string \<Rightarrow> nat" where
  "str_len s = sum_list (map len_utf8 s)"

text \<open>\<open>trim_start\<close>, \<open>trim_end\<close>, \<open>trim\<close>.\<close>

definition trim_start :: "string \<Rightarrow> string" where
  "trim_start s = dropWhile is_ws s"

definition trim_end :: "string \<Rightarrow> string" where
  "trim_end s = rev (dropWhile is_ws (rev s))"

definition trim :: "string \<Rightarrow> string" where
  "trim s = trim_end (trim_start s)"

text \<open>\<open>trim_end_matches(c)\<close> for a character, \<open>trim_start_matches(p)\<close> for a pattern string.\<close>

definition trim_end_char :: "char \<Rightarrow> string \<Rightarrow> string" where
  "trim_end_char c s = rev (dropWhile (\<lambda>d. d = c) (rev s))"

text \<open>\<open>to_ascii_lowercase\<close>, \<open>to_lowercase\<close>, \<open>eq_ignore_ascii_case\<close>.\<close>

definition to_ascii_lower :: "string \<Rightarrow> string" where
  "to_ascii_lower s = map ascii_lower s"

definition to_lower :: "string \<Rightarrow> string" where
  "to_lower s = map lower s"

definition eq_ascii_nocase :: "string \<Rightarrow> string \<Rightarrow> bool" where
  "eq_ascii_nocase s t \<longleftrightarrow> to_ascii_lower s = to_ascii_lower t"

text \<open>\<open>contains\<close> for a pattern string; \<open>starts_with\<close> is \<^const>\<open>prefix\<close> with the pattern first.\<close>

fun contains :: "string \<Rightarrow> string \<Rightarrow> bool" where
  "contains [] p = (p = [])"
| "contains (c # s) p = (prefix p (c # s) \<or> contains s p)"

definition strip_prefix :: "string \<Rightarrow> string \<Rightarrow> string option" where
  "strip_prefix p s = (if prefix p s then Some (drop (length p) s) else None)"

text \<open>\<open>split_once(c)\<close>: the parts before and after the first \<open>c\<close>.\<close>

fun split_once :: "char \<Rightarrow> string \<Rightarrow> (string \<times> string) option" where
  "split_once c [] = None"
| "split_once c (d # s) =
     (if d = c then Some ([], s)
      else map_option (\<lambda>(a, b). (d # a, b)) (split_once c s))"

text \<open>\<open>split(c)\<close>: the pieces between the occurrences of \<open>c\<close>, never an empty list.\<close>

fun split_on :: "char \<Rightarrow> string \<Rightarrow> string list" where
  "split_on c [] = [[]]"
| "split_on c (d # s) =
     (if d = c then [] # split_on c s
      else (case split_on c s of [] \<Rightarrow> [[d]] | w # ws \<Rightarrow> (d # w) # ws))"

text \<open>\<open>split_whitespace\<close>: the maximal runs of characters that are no white space.\<close>

function split_whitespace :: "string \<Rightarrow> string list" where
  "split_whitespace s =
     (case trim_start s of
        [] \<Rightarrow> []
      | c # r \<Rightarrow> (c # takeWhile (Not \<circ> is_ws) r) # split_whitespace (dropWhile (Not \<circ> is_ws) r))"
  by pat_completeness auto

lemma length_dropWhile_Suc_le [intro]:
  "dropWhile P s = c # r \<Longrightarrow> length (dropWhile Q r) < length s"
  by (metis length_Cons length_dropWhile_le less_Suc_eq_le order.strict_trans2 order_trans)

termination split_whitespace
  by (relation "measure length") (auto simp: trim_start_def)

declare split_whitespace.simps [simp del]

text \<open>\<open>lines\<close>: split at every line feed, drop one carriage return before it, and no last empty line.\<close>

definition strip_cr :: "string \<Rightarrow> string" where
  "strip_cr l = (if l \<noteq> [] \<and> last l = CHR 0x0D then butlast l else l)"

fun lines :: "string \<Rightarrow> string list" where
  "lines s = (let ps = split_on (CHR 0x0A) s in
     map strip_cr (butlast ps) @ (if last ps = [] then [] else [last ps]))"

text \<open>The decimal notation of a natural number, as \<open>format!\<close> prints it.\<close>

fun dec_digit :: "nat \<Rightarrow> char" where
  "dec_digit d = char_of (48 + d)"

fun nat_str :: "nat \<Rightarrow> string" where
  "nat_str n = (if n < 10 then [dec_digit n] else nat_str (n div 10) @ [dec_digit (n mod 10)])"

declare nat_str.simps [simp del] lines.simps [simp del]

subsection \<open>Laws of the string operations\<close>

lemma str_len_simps [simp]:
  "str_len [] = 0"
  "str_len (c # s) = len_utf8 c + str_len s"
  "str_len (s @ t) = str_len s + str_len t"
  by (simp_all add: str_len_def)

lemma str_len_0_iff [simp]: "str_len s = 0 \<longleftrightarrow> s = []"
  by (cases s) (simp_all add: str_len_def less_not_refl2)

lemma length_le_str_len: "length s \<le> str_len s"
  by (induction s) (auto simp: len_utf8_def)

lemma str_len_concat: "str_len (concat ss) = sum_list (map str_len ss)"
  by (induction ss) auto

lemma dropWhile_idem [simp]: "dropWhile P (dropWhile P s) = dropWhile P s"
  by (induction s) auto

lemma dropWhile_hd: "dropWhile P s = c # r \<Longrightarrow> \<not> P c"
  using hd_dropWhile [of P s] by auto

text \<open>A string is trimmed when neither end is white space.\<close>

definition is_trimmed :: "string \<Rightarrow> bool" where
  "is_trimmed s \<longleftrightarrow> s = [] \<or> (\<not> is_ws (hd s) \<and> \<not> is_ws (last s))"

lemma trim_start_is_trimmed: "is_trimmed s \<Longrightarrow> trim_start s = s"
  by (cases s) (auto simp: is_trimmed_def trim_start_def)

lemma trim_end_is_trimmed: "is_trimmed s \<Longrightarrow> trim_end s = s"
  by (cases s rule: rev_cases) (auto simp: is_trimmed_def trim_end_def)

lemma trim_is_trimmed: "is_trimmed s \<Longrightarrow> trim s = s"
  by (simp add: trim_def trim_start_is_trimmed trim_end_is_trimmed)

lemma trim_end_append:
  "trim_end s = s' \<Longrightarrow> \<exists>w. s = s' @ w \<and> (\<forall>c \<in> set w. is_ws c)"
  by (metis rev_append rev_rev_ident set_rev set_takeWhileD takeWhile_dropWhile_id trim_end_def)

lemma is_trimmed_trim: "is_trimmed (trim s)"
proof (cases "trim s")
  case Nil
  then show ?thesis by (simp add: is_trimmed_def)
next
  case (Cons c r)
  obtain w where w: "trim_start s = trim s @ w"
    using trim_end_append trim_def by metis
  have "\<not> is_ws c"
    using w Cons dropWhile_hd [of is_ws s c "r @ w"] by (simp add: trim_start_def)
  moreover have "\<not> is_ws (last (trim s))"
    using Cons hd_dropWhile [of is_ws "rev (trim_start s)"]
    by (metis last_rev list.discI rev.simps(1) rev_rev_ident trim_def trim_end_def)
  ultimately show ?thesis by (simp add: is_trimmed_def Cons)
qed

lemma trim_idem [simp]: "trim (trim s) = trim s"
  by (simp add: trim_is_trimmed is_trimmed_trim)

lemma set_trim: "set (trim s) \<subseteq> set s"
  by (auto simp: trim_def trim_end_def trim_start_def dest!: set_dropWhileD)

lemma trim_Nil [simp]: "trim [] = []"
  by (simp add: trim_def trim_start_def trim_end_def)

lemma trim_eq_Nil_iff: "trim s = [] \<longleftrightarrow> (\<forall>c \<in> set s. is_ws c)"
  by (auto simp: trim_def trim_start_def trim_end_def dest: set_dropWhileD)
     (metis dropWhile_eq_Nil_conv hd_Cons_tl hd_dropWhile list.set_intros(1))

lemma to_ascii_lower_simps [simp]:
  "to_ascii_lower [] = []"
  "to_ascii_lower (c # s) = ascii_lower c # to_ascii_lower s"
  "to_ascii_lower (s @ t) = to_ascii_lower s @ to_ascii_lower t"
  "length (to_ascii_lower s) = length s"
  by (simp_all add: to_ascii_lower_def)

lemma to_ascii_lower_idem [simp]: "to_ascii_lower (to_ascii_lower s) = to_ascii_lower s"
  by (simp add: to_ascii_lower_def comp_def)

lemma to_lower_idem [simp]: "to_lower (to_lower s) = to_lower s"
  by (simp add: to_lower_def comp_def)

lemma trim_map:
  assumes "\<And>c. is_ws (f c) = is_ws c"
  shows "trim (map f s) = map f (trim s)"
  using assms by (simp add: trim_def trim_start_def trim_end_def dropWhile_map comp_def rev_map)

lemma trim_to_ascii_lower [simp]: "trim (to_ascii_lower s) = to_ascii_lower (trim s)"
  by (simp add: to_ascii_lower_def trim_map)

lemma trim_to_lower [simp]: "trim (to_lower s) = to_lower (trim s)"
  by (simp add: to_lower_def trim_map)

lemma eq_ascii_nocase_refl [simp]: "eq_ascii_nocase s s"
  by (simp add: eq_ascii_nocase_def)

lemma eq_ascii_nocase_sym: "eq_ascii_nocase s t \<longleftrightarrow> eq_ascii_nocase t s"
  by (auto simp: eq_ascii_nocase_def)

lemma contains_iff_sublist: "contains s p \<longleftrightarrow> sublist p s"
  by (induction s) (auto simp: sublist_Cons_right)

lemma contains_refl [simp]: "contains s s"
  by (simp add: contains_iff_sublist)

lemma contains_singleton: "contains s [c] \<longleftrightarrow> c \<in> set s"
  by (induction s) auto

lemma split_once_None_iff: "split_once c s = None \<longleftrightarrow> c \<notin> set s"
  by (induction s) auto

lemma split_once_Some_iff:
  "split_once c s = Some (a, b) \<longleftrightarrow> s = a @ c # b \<and> c \<notin> set a"
proof (induction s arbitrary: a)
  case Nil
  then show ?case by simp
next
  case (Cons d s)
  then show ?case by (cases a) auto
qed

lemma split_on_ne [simp]: "split_on c s \<noteq> []"
  by (cases s) (auto split: list.splits)

text \<open>Joining the pieces again gives the string: \<open>split\<close> loses nothing.\<close>

fun join :: "string \<Rightarrow> string list \<Rightarrow> string" where
  "join sep [] = []"
| "join sep [w] = w"
| "join sep (w # v # ws) = w @ sep @ join sep (v # ws)"

lemma join_Cons_ne: "ws \<noteq> [] \<Longrightarrow> join sep (w # ws) = w @ sep @ join sep ws"
  by (cases ws) auto

lemma join_hd_Cons: "join sep ((d # w) # ws) = d # join sep (w # ws)"
  by (cases ws) auto

lemma join_split_on: "join [c] (split_on c s) = s"
proof (induction s)
  case Nil
  then show ?case by simp
next
  case (Cons d s)
  then show ?case
    by (cases "split_on c s") (auto simp: join_Cons_ne join_hd_Cons)
qed

lemma split_on_no_sep: "\<forall>w \<in> set (split_on c s). c \<notin> set w"
  by (induction s) (auto split: list.splits)

text \<open>\<open>split_whitespace\<close> sees neither white space at the ends nor a change of characters that keeps white space.\<close>

lemma takeWhile_ws_suffix:
  assumes "\<forall>c \<in> set w. is_ws c"
  shows "takeWhile (Not \<circ> is_ws) (r @ w) = takeWhile (Not \<circ> is_ws) r"
  using assms by (induction r; cases w) auto

lemma split_whitespace_eqs:
  "trim_start s = [] \<Longrightarrow> split_whitespace s = []"
  "trim_start s = c # r \<Longrightarrow> split_whitespace s =
     (c # takeWhile (Not \<circ> is_ws) r) # split_whitespace (dropWhile (Not \<circ> is_ws) r)"
  by (simp_all add: split_whitespace.simps [of s])

lemma split_whitespace_blank: "\<forall>c \<in> set w. is_ws c \<Longrightarrow> split_whitespace w = []"
  by (rule split_whitespace_eqs) (simp add: trim_start_def)

lemma split_whitespace_suffix:
  assumes "\<forall>c \<in> set w. is_ws c"
  shows "split_whitespace (s @ w) = split_whitespace s"
proof (induction s rule: split_whitespace.induct)
  case (1 s)
  show ?case
  proof (cases "trim_start s")
    case Nil
    then have "\<forall>c \<in> set s. is_ws c" by (simp add: trim_start_def)
    with assms show ?thesis by (simp add: split_whitespace_blank ball_Un)
  next
    case (Cons c r)
    have "dropWhile is_ws s \<noteq> []" using Cons by (simp add: trim_start_def)
    then have "\<exists>x \<in> set s. \<not> is_ws x" by simp
    then have start: "trim_start (s @ w) = c # r @ w"
      using Cons by (auto simp: trim_start_def dropWhile_append)
    have "split_whitespace (dropWhile (Not \<circ> is_ws) (r @ w)) = split_whitespace (dropWhile (Not \<circ> is_ws) r)"
    proof (cases "\<exists>x \<in> set r. is_ws x")
      case True
      then have "dropWhile (Not \<circ> is_ws) (r @ w) = dropWhile (Not \<circ> is_ws) r @ w"
        by (auto simp: dropWhile_append)
      with 1 Cons show ?thesis by simp
    next
      case False
      then have "dropWhile (Not \<circ> is_ws) (r @ w) = dropWhile (Not \<circ> is_ws) w"
        and "dropWhile (Not \<circ> is_ws) r = []"
        by (simp_all add: dropWhile_append)
      moreover have "\<forall>x \<in> set (dropWhile (Not \<circ> is_ws) w). is_ws x"
        using assms by (auto dest: set_dropWhileD)
      ultimately show ?thesis by (simp only: split_whitespace_blank) (simp add: split_whitespace_blank)
    qed
    then show ?thesis
      using start Cons takeWhile_ws_suffix [OF assms, of r]
      by (simp add: split_whitespace_eqs)
  qed
qed

lemma split_whitespace_trim [simp]: "split_whitespace (trim s) = split_whitespace s"
proof -
  obtain w where "trim_start s = trim s @ w" and "\<forall>c \<in> set w. is_ws c"
    using trim_end_append trim_def by metis
  then have "split_whitespace (trim s) = split_whitespace (trim_start s)"
    by (simp add: split_whitespace_suffix)
  also have "\<dots> = split_whitespace s"
    by (subst (1 2) split_whitespace.simps) (simp add: trim_start_def)
  finally show ?thesis .
qed

lemma split_whitespace_map:
  assumes "\<And>c. is_ws (f c) = is_ws c"
  shows "split_whitespace (map f s) = map (map f) (split_whitespace s)"
proof (induction s rule: split_whitespace.induct)
  case (1 s)
  have ws: "is_ws \<circ> f = is_ws" "Not \<circ> is_ws \<circ> f = Not \<circ> is_ws"
    using assms by auto
  have start: "trim_start (map f s) = map f (trim_start s)"
    by (simp add: trim_start_def dropWhile_map ws)
  show ?case
  proof (cases "trim_start s")
    case Nil
    with start show ?thesis by (simp add: split_whitespace_eqs)
  next
    case (Cons c r)
    with start 1 show ?thesis
      by (simp add: split_whitespace_eqs takeWhile_map dropWhile_map ws)
  qed
qed

section \<open>Machine integers\<close>

text \<open>
  \<open>usize\<close> and \<open>u64\<close> values are natural numbers below \<open>2 ^ 64\<close>, \<open>u32\<close> ones below \<open>2 ^ 32\<close>.
  Where the code saturates, so does the model, at the maximum it is given.
\<close>

definition u32_max :: nat where "u32_max = 2 ^ 32 - 1"

definition usize_max :: nat where "usize_max = 2 ^ 64 - 1"

definition sat_add :: "nat \<Rightarrow> nat \<Rightarrow> nat \<Rightarrow> nat" where
  "sat_add m a b = min m (a + b)"

text \<open>\<open>uN::try_from(x).unwrap_or(uN::MAX)\<close>.\<close>

definition clamp_to :: "nat \<Rightarrow> nat \<Rightarrow> nat" where
  "clamp_to m a = (if a \<le> m then a else m)"

lemma sat_add_le [simp]: "sat_add m a b \<le> m"
  by (simp add: sat_add_def)

lemma clamp_to_le [simp]: "clamp_to m a \<le> m"
  by (simp add: clamp_to_def)

lemma sat_add_exact: "a + b \<le> m \<Longrightarrow> sat_add m a b = a + b"
  by (simp add: sat_add_def)

lemma sat_add_assoc: "sat_add m (sat_add m a b) c = sat_add m a (sat_add m b c)"
  by (simp add: sat_add_def)

lemma sat_add_commute: "sat_add m a b = sat_add m b a"
  by (simp add: sat_add_def add.commute)

lemma sat_add_0: "a \<le> m \<Longrightarrow> sat_add m a 0 = a" "a \<le> m \<Longrightarrow> sat_add m 0 a = a"
  by (simp_all add: sat_add_def)

lemma fold_sat_add:
  "fold (\<lambda>x a. sat_add m a (f x)) xs (min m s) = min m (s + sum_list (map f xs))"
proof (induction xs arbitrary: s)
  case Nil
  then show ?case by simp
next
  case (Cons x xs)
  have "sat_add m (min m s) (f x) = min m (s + f x)"
    by (simp add: sat_add_def)
  then show ?case using Cons [of "s + f x"] by (simp add: add.assoc)
qed

section \<open>Decimal notation\<close>

lemma length_nat_str_mono: "a \<le> b \<Longrightarrow> length (nat_str a) \<le> length (nat_str b)"
proof (induction b arbitrary: a rule: less_induct)
  case (less b)
  show ?case
  proof (cases "a < 10")
    case True
    then show ?thesis
      by (subst (1 2) nat_str.simps) simp
  next
    case False
    with less.prems have "b div 10 < b" and "a div 10 \<le> b div 10"
      by (simp_all add: div_le_mono)
    then have "length (nat_str (a div 10)) \<le> length (nat_str (b div 10))"
      by (rule less.IH)
    with False less.prems show ?thesis
      by (subst (1 2) nat_str.simps) simp
  qed
qed

lemma dec_digit_ascii: "d < 10 \<Longrightarrow> code_point (dec_digit d) = 48 + d"
  by simp

lemma str_len_nat_str: "str_len (nat_str n) = length (nat_str n)"
proof (induction n rule: nat_str.induct)
  case (1 n)
  have "len_utf8 (dec_digit (n mod 10)) = 1"
    by (simp add: len_utf8_def)
  with 1 show ?case
    by (subst (1 2) nat_str.simps) (auto simp: len_utf8_def)
qed

lemma str_len_nat_str_mono: "a \<le> b \<Longrightarrow> str_len (nat_str a) \<le> str_len (nat_str b)"
  by (simp add: str_len_nat_str length_nat_str_mono)

section \<open>Association lists\<close>

text \<open>
  A \<open>HashMap\<close> that the code iterates over is an association list in the order of the
  iteration, which the code does not control: a theorem about it holds for every order, and
  the components prove where the result does not depend on it.
\<close>

type_synonym ('k, 'v) alist = "('k \<times> 'v) list"

text \<open>\<open>entry(k).or_insert(v0)\<close> followed by an update, keeping the entry's place.\<close>

fun upsert :: "'k \<Rightarrow> 'v \<Rightarrow> ('v \<Rightarrow> 'v) \<Rightarrow> ('k, 'v) alist \<Rightarrow> ('k, 'v) alist" where
  "upsert k v0 f [] = [(k, v0)]"
| "upsert k v0 f ((k', v) # m) = (if k' = k then (k', f v) # m else (k', v) # upsert k v0 f m)"

lemma map_of_upsert:
  "map_of (upsert k v0 f m) =
     (map_of m)(k \<mapsto> (case map_of m k of None \<Rightarrow> v0 | Some v \<Rightarrow> f v))"
  by (induction m) (auto simp: fun_eq_iff)

lemma fst_set_upsert: "fst ` set (upsert k v0 f m) = insert k (fst ` set m)"
proof (induction m)
  case Nil
  then show ?case by simp
next
  case (Cons p m)
  then show ?case by (cases p) auto
qed

lemma distinct_upsert: "distinct (map fst m) \<Longrightarrow> distinct (map fst (upsert k v0 f m))"
proof (induction m)
  case Nil
  then show ?case by simp
next
  case (Cons p m)
  then show ?case
    using fst_set_upsert [of k v0 f m] by (cases p) (auto simp: image_iff)
qed

section \<open>Filtered maps\<close>

lemma set_map_filter: "set (List.map_filter f xs) = {y. \<exists>x \<in> set xs. f x = Some y}"
  by (force simp: List.map_filter_def)

lemma map_filter_Nil_iff: "List.map_filter f xs = [] \<longleftrightarrow> (\<forall>x \<in> set xs. f x = None)"
  by (auto simp: List.map_filter_def filter_empty_conv)

section \<open>Least elements\<close>

text \<open>
  \<open>min_by_key\<close>: the first element with the least key. Also the row that \<open>ORDER BY key LIMIT 1\<close>
  yields; among equal keys the database may choose any, the model takes the first.
\<close>

definition min_by_key :: "('a \<Rightarrow> 'k :: linorder) \<Rightarrow> 'a list \<Rightarrow> 'a option" where
  "min_by_key key xs = (if xs = [] then None else Some (arg_min_list key xs))"

lemma min_by_key_None: "min_by_key key xs = None \<longleftrightarrow> xs = []"
  by (simp add: min_by_key_def)

lemma min_by_key_Some:
  "min_by_key key xs = Some m \<Longrightarrow> m \<in> set xs \<and> (\<forall>x \<in> set xs. key m \<le> key x)"
  by (auto simp: min_by_key_def arg_min_list_in f_arg_min_list_f split: if_splits)

section \<open>Folds whose order does not matter\<close>

text \<open>The loop of the source: no value before the first entry, then a merge with every other.\<close>

definition merge_step :: "('a \<Rightarrow> 'a \<Rightarrow> 'a) \<Rightarrow> 'a \<Rightarrow> 'a option \<Rightarrow> 'a option" where
  "merge_step merge x acc = Some (case acc of None \<Rightarrow> x | Some a \<Rightarrow> merge a x)"

definition accumulate :: "('a \<Rightarrow> 'a \<Rightarrow> 'a) \<Rightarrow> 'a list \<Rightarrow> 'a option" where
  "accumulate merge xs = fold (merge_step merge) xs None"

lemma accumulate_None_iff: "accumulate merge xs = None \<longleftrightarrow> xs = []"
proof (cases xs rule: rev_cases)
  case Nil
  then show ?thesis by (simp add: accumulate_def)
next
  case (snoc ys y)
  then show ?thesis by (simp add: accumulate_def merge_step_def)
qed

lemma accumulate_snoc:
  "accumulate merge (xs @ [x]) = merge_step merge x (accumulate merge xs)"
  by (simp add: accumulate_def)

text \<open>
  The interface of a merge: what several entries of a hash map contribute is combined by an
  associative and commutative operation, so the result is the same for every iteration order.
\<close>

locale merge_op =
  fixes merge :: "'a \<Rightarrow> 'a \<Rightarrow> 'a"
  assumes assoc: "merge (merge a b) c = merge a (merge b c)"
    and comm: "merge a b = merge b a"
begin

lemma left_comm: "merge a (merge b c) = merge b (merge a c)"
  by (metis assoc comm)

lemma accumulate_perm:
  assumes "mset xs = mset ys"
  shows "accumulate merge xs = accumulate merge ys"
proof -
  have "fold (merge_step merge) xs = fold (merge_step merge) ys"
    using assms
    by (intro fold_multiset_equiv)
      (auto simp: merge_step_def fun_eq_iff assoc comm left_comm split: option.splits)
  then show ?thesis by (simp add: accumulate_def)
qed

end

section \<open>Refinement of step relations\<close>

text \<open>
  The interface between a detailed system and what it promises: every step of the system,
  seen through the view, is a step of the specification, as long as the invariant
  of the system holds. Whatever the specification keeps is then kept by the system.
\<close>

locale simulation =
  fixes cstep :: "'c \<Rightarrow> 'c \<Rightarrow> bool"
    and cinv :: "'c \<Rightarrow> bool"
    and view :: "'c \<Rightarrow> 'a"
    and astep :: "'a \<Rightarrow> 'a \<Rightarrow> bool"
  assumes cinv_step: "cinv s \<Longrightarrow> cstep s s' \<Longrightarrow> cinv s'"
    and view_step: "cinv s \<Longrightarrow> cstep s s' \<Longrightarrow> astep (view s) (view s')"
begin

lemma reachable:
  assumes "cstep\<^sup>*\<^sup>* s s'" and "cinv s"
  shows "cinv s' \<and> astep\<^sup>*\<^sup>* (view s) (view s')"
  using assms
proof (induction rule: rtranclp_induct)
  case base
  then show ?case by simp
next
  case (step t u)
  then have "cinv t" and "astep\<^sup>*\<^sup>* (view s) (view t)" by auto
  with step.hyps(2) show ?case
    by (blast intro: cinv_step view_step rtranclp.rtrancl_into_rtrancl)
qed

lemma runs: "successively cstep (s # ss) \<Longrightarrow> cinv s \<Longrightarrow> successively astep (map view (s # ss))"
  by (induction ss arbitrary: s) (auto intro: cinv_step view_step)

lemma keeps:
  assumes "cstep\<^sup>*\<^sup>* s s'" and "cinv s" and "P (view s)"
    and "\<And>a a'. P a \<Longrightarrow> astep a a' \<Longrightarrow> P a'"
  shows "P (view s')"
proof -
  have "astep\<^sup>*\<^sup>* (view s) (view s')" using reachable [OF assms(1,2)] by simp
  then show ?thesis
    by (induction rule: rtranclp_induct) (use assms(3,4) in auto)
qed

end

end
