(* ===== verification/Severity.thy ===== *)
theory Severity
  imports Prelude
begin

text \<open>
  Severities of findings and bugs (\<open>src/src/db.rs\<close>): the enumeration \<open>Severity\<close> with its
  derived order, its forgiving parser and its printer, the threshold type \<open>SeverityFloor\<close>, and the
  relation of a disclosed bug to a patch. The names of the constructors of \<open>SeverityFloor\<close> carry
  the prefix \<open>Floor\<close>, those of \<open>Severity\<close> the prefix \<open>Sev\<close>, since HOL has one name space for
  constructors.
\<close>

datatype severity = SevUnknown | SevLow | SevMedium | SevHigh | SevCritical

text \<open>The discriminants written in the source; the derived order compares them.\<close>

fun severity_rank :: "severity \<Rightarrow> nat" where
  "severity_rank SevUnknown = 0"
| "severity_rank SevLow = 1"
| "severity_rank SevMedium = 2"
| "severity_rank SevHigh = 3"
| "severity_rank SevCritical = 4"

lemma severity_rank_inj [simp]: "severity_rank a = severity_rank b \<longleftrightarrow> a = b"
  by (cases a; cases b) auto

instantiation severity :: linorder
begin

definition less_eq_severity :: "severity \<Rightarrow> severity \<Rightarrow> bool" where
  "a \<le> b \<longleftrightarrow> severity_rank a \<le> severity_rank b"

definition less_severity :: "severity \<Rightarrow> severity \<Rightarrow> bool" where
  "a < b \<longleftrightarrow> severity_rank a < severity_rank b"

instance
  by standard (auto simp: less_eq_severity_def less_severity_def)

end

fun severity_as_str :: "severity \<Rightarrow> string" where
  "severity_as_str SevUnknown = ''Unknown''"
| "severity_as_str SevLow = ''Low''"
| "severity_as_str SevMedium = ''Medium''"
| "severity_as_str SevHigh = ''High''"
| "severity_as_str SevCritical = ''Critical''"

definition severity_from_i32 :: "int \<Rightarrow> severity" where
  "severity_from_i32 val =
     (if val = 4 then SevCritical
      else if val = 3 then SevHigh
      else if val = 2 then SevMedium
      else if val = 1 then SevLow
      else SevUnknown)"

definition severity_from_str :: "string \<Rightarrow> severity" where
  "severity_from_str s0 =
     (let s = trim s0 in
      if eq_ascii_nocase s ''critical'' then SevCritical
      else if prefix ''high'' (to_lower s) then SevHigh
      else if prefix ''medium'' (to_lower s) then SevMedium
      else if prefix ''low'' (to_lower s) then SevLow
      else SevUnknown)"

lemma severity_parse_table:
  "severity_from_str (severity_as_str SevUnknown) = SevUnknown"
  "severity_from_str (severity_as_str SevLow) = SevLow"
  "severity_from_str (severity_as_str SevMedium) = SevMedium"
  "severity_from_str (severity_as_str SevHigh) = SevHigh"
  "severity_from_str (severity_as_str SevCritical) = SevCritical"
  by code_simp+

lemma severity_from_str_as_str [simp]: "severity_from_str (severity_as_str v) = v"
  by (cases v) (simp_all only: severity_parse_table)

lemma severity_from_i32_rank [simp]: "severity_from_i32 (int (severity_rank v)) = v"
  by (cases v) (simp_all add: severity_from_i32_def)

text \<open>Thresholds: like a severity, without \<open>Unknown\<close>.\<close>

datatype severity_floor = FloorLow | FloorMedium | FloorHigh | FloorCritical

fun floor_as_str :: "severity_floor \<Rightarrow> string" where
  "floor_as_str FloorLow = ''low''"
| "floor_as_str FloorMedium = ''medium''"
| "floor_as_str FloorHigh = ''high''"
| "floor_as_str FloorCritical = ''critical''"

fun floor_as_severity :: "severity_floor \<Rightarrow> severity" where
  "floor_as_severity FloorLow = SevLow"
| "floor_as_severity FloorMedium = SevMedium"
| "floor_as_severity FloorHigh = SevHigh"
| "floor_as_severity FloorCritical = SevCritical"

text \<open>The derived order follows the order of declaration, which is that of the severities named.\<close>

instantiation severity_floor :: linorder
begin

definition less_eq_severity_floor :: "severity_floor \<Rightarrow> severity_floor \<Rightarrow> bool" where
  "a \<le> b \<longleftrightarrow> floor_as_severity a \<le> floor_as_severity b"

definition less_severity_floor :: "severity_floor \<Rightarrow> severity_floor \<Rightarrow> bool" where
  "a < b \<longleftrightarrow> floor_as_severity a < floor_as_severity b"

lemma floor_as_severity_inj: "floor_as_severity a = floor_as_severity b \<longleftrightarrow> a = b"
  by (cases a; cases b) auto

instance
  by standard
    (auto simp: less_eq_severity_floor_def less_severity_floor_def less_le floor_as_severity_inj)

end

definition floor_admits :: "severity_floor \<Rightarrow> severity \<Rightarrow> bool" where
  "floor_admits fl sev \<longleftrightarrow> sev \<noteq> SevUnknown \<and> floor_as_severity fl \<le> sev"

text \<open>\<open>FromStr for SeverityFloor\<close>; the error keeps the text it could not read.\<close>

definition floor_from_str :: "string \<Rightarrow> string + severity_floor" where
  "floor_from_str raw =
     (let s = to_ascii_lower (trim raw) in
      if s = ''low'' then Inr FloorLow
      else if s = ''medium'' then Inr FloorMedium
      else if s = ''high'' then Inr FloorHigh
      else if s = ''critical'' then Inr FloorCritical
      else Inl raw)"

text \<open>How a related pre-existing bug relates to the patch under review.\<close>

datatype disclosure_relation = SameCode | SamePattern | OtherRelation

fun relation_as_db_str :: "disclosure_relation \<Rightarrow> string" where
  "relation_as_db_str SameCode = ''same_code''"
| "relation_as_db_str SamePattern = ''same_pattern''"
| "relation_as_db_str OtherRelation = ''other''"

definition relation_from_db_str :: "string \<Rightarrow> string + disclosure_relation" where
  "relation_from_db_str raw =
     (if raw = ''same_code'' then Inr SameCode
      else if raw = ''same_pattern'' then Inr SamePattern
      else if raw = ''other'' then Inr OtherRelation
      else Inl raw)"

lemma floor_admits_iff: "floor_admits fl sev \<longleftrightarrow> floor_as_severity fl \<le> sev"
  by (cases fl; cases sev) (auto simp: floor_admits_def less_eq_severity_def)

lemma floor_parse_table:
  "floor_from_str (floor_as_str FloorLow) = Inr FloorLow"
  "floor_from_str (floor_as_str FloorMedium) = Inr FloorMedium"
  "floor_from_str (floor_as_str FloorHigh) = Inr FloorHigh"
  "floor_from_str (floor_as_str FloorCritical) = Inr FloorCritical"
  by code_simp+

lemma floor_from_str_as_str: "floor_from_str (floor_as_str fl) = Inr fl"
  by (cases fl) (simp_all only: floor_parse_table)

lemma relation_roundtrip: "relation_from_db_str (relation_as_db_str r) = Inr r"
  by (cases r) (simp_all add: relation_from_db_str_def)

text \<open>
  C39. Every printed form reads back: the name of a severity, the discriminant stored in the
  database, the name of a threshold and the database name of a relation each parse to the
  value they came from, and a threshold admits exactly the severities at or above its own,
  so never \<open>Unknown\<close>.
\<close>

theorem severity_forms_roundtrip:
  "severity_from_str (severity_as_str v) = v
   \<and> severity_from_i32 (int (severity_rank v)) = v
   \<and> floor_from_str (floor_as_str fl) = Inr fl
   \<and> relation_from_db_str (relation_as_db_str r) = Inr r
   \<and> (floor_admits fl v \<longleftrightarrow> severity_rank (floor_as_severity fl) \<le> severity_rank v)
   \<and> \<not> floor_admits fl SevUnknown"
proof -
  have "0 < severity_rank (floor_as_severity fl)"
    by (cases fl) simp_all
  then show ?thesis
    by (simp add: floor_from_str_as_str relation_roundtrip floor_admits_iff less_eq_severity_def)
qed

lemma severity_as_str_inj [simp]: "severity_as_str a = severity_as_str b \<longleftrightarrow> a = b"
  by (metis severity_from_str_as_str)

end
