(* ===== verification/MaintPatterns.thy ===== *)
theory MaintPatterns
  imports Prelude "HOL-Library.Product_Lexorder"
begin

text \<open>
  The file patterns of MAINTAINERS (\<open>CompiledPattern\<close>, \<open>glob_to_regex\<close>, \<open>MaintainerSection\<close> and its
  \<open>match_file\<close> in \<open>src/src/maintainers.rs\<close>).

  The regular expression engine is a library outside the repository. A compiled \<open>Regex\<close> is its
  source text, and the engine is two arguments of the definitions that use it: \<open>re_ok\<close> says
  whether a text compiles, \<open>re_match r s\<close> whether the expression \<open>r\<close> matches somewhere in \<open>s\<close>.
  The locale \<open>regex_engine\<close> states what the code relies on.
\<close>

section \<open>Paths and patterns\<close>

abbreviation slash :: char where "slash \<equiv> CHR ''/''"

text \<open>\<open>trim_start_matches("./")\<close>: every leading occurrence goes.\<close>

function trim_dot_slash :: "string \<Rightarrow> string" where
  "trim_dot_slash s = (if prefix ''./'' s then trim_dot_slash (drop 2 s) else s)"
  by pat_completeness auto
termination
  by (relation "measure length") (auto dest: prefix_length_le)

declare trim_dot_slash.simps [simp del]

lemma trim_dot_slash_idem [simp]: "trim_dot_slash (trim_dot_slash s) = trim_dot_slash s"
proof (induction s rule: trim_dot_slash.induct)
  case (1 s)
  then show ?case
    by (cases "prefix ''./'' s") (simp_all add: trim_dot_slash.simps [of s])
qed

definition is_wildcard :: "string \<Rightarrow> bool" where
  "is_wildcard s \<longleftrightarrow> list_ex (\<lambda>c. c = CHR ''*'' \<or> c = CHR ''?'') s"

definition ends_with_char :: "char \<Rightarrow> string \<Rightarrow> bool" where
  "ends_with_char c s \<longleftrightarrow> s \<noteq> [] \<and> last s = c"

definition strip_suffix_char :: "char \<Rightarrow> string \<Rightarrow> string option" where
  "strip_suffix_char c s = (if ends_with_char c s then Some (butlast s) else None)"

text \<open>The part of a path up to and including its last slash: \<open>&path[..rfind('/') + 1]\<close>.\<close>

definition upto_last_slash :: "string \<Rightarrow> string" where
  "upto_last_slash s = rev (dropWhile (\<lambda>c. c \<noteq> slash) (rev s))"

definition regex_special :: "char \<Rightarrow> bool" where
  "regex_special c \<longleftrightarrow> List.member (CHR 0x5C # ''.+()|^$[]{}'') c"

fun glob_body :: "string \<Rightarrow> string" where
  "glob_body [] = []"
| "glob_body (c # cs) =
     (if c = CHR ''*'' then
        (case cs of
           [] \<Rightarrow> ''[^/]*'' @ glob_body cs
         | d # ds \<Rightarrow> if d = CHR ''*'' then ''.*'' @ glob_body ds else ''[^/]*'' @ glob_body cs)
      else if c = CHR ''?'' then ''[^/]'' @ glob_body cs
      else if regex_special c then CHR 0x5C # c # glob_body cs
      else c # glob_body cs)"

definition glob_to_regex :: "string \<Rightarrow> string" where
  "glob_to_regex glob = ''^'' @ glob_body glob @ ''$''"

datatype compiled_pattern =
    PrefixDir (cp_text: string) (cp_depth: nat)
  | DirSingleLevel (cp_text: string) (cp_depth: nat)
  | ExactFile (cp_text: string) (cp_depth: nat)
  | Glob (cp_regex: string) (cp_depth: nat) (cp_anchor: string)

definition glob_regex_of :: "(string \<Rightarrow> bool) \<Rightarrow> string \<Rightarrow> string" where
  "glob_regex_of re_ok pattern =
     (let re_str = (if ends_with_char slash pattern then glob_to_regex (pattern @ ''**'')
                    else glob_to_regex pattern)
      in if re_ok re_str then re_str else ''a^'')"

definition glob_anchor_of :: "string \<Rightarrow> string" where
  "glob_anchor_of pattern =
     upto_last_slash (takeWhile (\<lambda>c. c \<noteq> CHR ''*'' \<and> c \<noteq> CHR ''?'') pattern)"

definition compile_pattern :: "(string \<Rightarrow> bool) \<Rightarrow> string \<Rightarrow> compiled_pattern" where
  "compile_pattern re_ok raw =
     (let pattern = trim_dot_slash (trim raw);
          depth = count_list pattern slash
      in if (case strip_suffix_char (CHR ''*'') pattern of
               Some dir_prefix \<Rightarrow> ends_with_char slash dir_prefix \<and> \<not> is_wildcard dir_prefix
             | None \<Rightarrow> False)
         then DirSingleLevel (butlast pattern) depth
         else if ends_with_char slash pattern \<and> \<not> is_wildcard pattern then PrefixDir pattern depth
         else if \<not> is_wildcard pattern then ExactFile pattern depth
         else Glob (glob_regex_of re_ok pattern) depth (glob_anchor_of pattern))"

fun pattern_is_match :: "(string \<Rightarrow> string \<Rightarrow> bool) \<Rightarrow> compiled_pattern \<Rightarrow> string \<Rightarrow> bool" where
  "pattern_is_match re_match (PrefixDir p d) file = prefix p (trim_dot_slash file)"
| "pattern_is_match re_match (DirSingleLevel p d) file =
     (case strip_prefix p (trim_dot_slash file) of
        Some rest \<Rightarrow> \<not> List.member rest slash \<and> rest \<noteq> []
      | None \<Rightarrow> False)"
| "pattern_is_match re_match (ExactFile p d) file = (trim_dot_slash file = p)"
| "pattern_is_match re_match (Glob r d a) file = re_match r (trim_dot_slash file)"

fun pattern_depth :: "compiled_pattern \<Rightarrow> nat" where
  "pattern_depth (PrefixDir p d) = d"
| "pattern_depth (DirSingleLevel p d) = d"
| "pattern_depth (ExactFile p d) = d + 1"
| "pattern_depth (Glob r d a) = d"

section \<open>Sections\<close>

record maintainer_section =
  sec_name :: string
  sec_files :: "compiled_pattern list"
  sec_excludes :: "compiled_pattern list"
  sec_regexes :: "string list"
  sec_mailing_lists :: "string list"
  sec_maintainers :: "string list"
  sec_m_maintainers :: "string list"
  sec_r_reviewers :: "string list"
  sec_trees :: "(string \<times> string option) list"
  sec_catch_all :: bool

definition section_excludes :: "(string \<Rightarrow> string \<Rightarrow> bool) \<Rightarrow> maintainer_section \<Rightarrow> string \<Rightarrow> bool" where
  "section_excludes re_match sec file =
     list_ex (\<lambda>x. pattern_is_match re_match x file) (sec_excludes sec)"

text \<open>The loop over the \<open>F:\<close> lines keeps the greatest depth of a match.\<close>

definition best_depth_step ::
  "(string \<Rightarrow> string \<Rightarrow> bool) \<Rightarrow> string \<Rightarrow> compiled_pattern \<Rightarrow> nat option \<Rightarrow> nat option" where
  "best_depth_step re_match file p best =
     (if pattern_is_match re_match p file
      then Some (case best of None \<Rightarrow> pattern_depth p | Some cur \<Rightarrow> max cur (pattern_depth p))
      else best)"

definition section_match_file ::
  "(string \<Rightarrow> string \<Rightarrow> bool) \<Rightarrow> maintainer_section \<Rightarrow> string \<Rightarrow> nat option" where
  "section_match_file re_match sec file_path =
     (let normalized = trim_dot_slash file_path in
      if section_excludes re_match sec normalized then None
      else (case fold (best_depth_step re_match normalized) (sec_files sec) None of
              Some d \<Rightarrow> Some d
            | None \<Rightarrow> if list_ex (\<lambda>re. re_match re normalized) (sec_regexes sec) then Some 0 else None))"

section \<open>The regular expression engine\<close>

text \<open>
  The expressions that \<^const>\<open>glob_to_regex\<close> writes are sequences of four kinds of token: a
  literal character, one character that is no slash, any number of such characters, any number of
  characters (\<open>.\<close> does not match a line feed).
\<close>

datatype glob_token = TLit char | TOne | TStar | TDeep

fun glob_tokens :: "string \<Rightarrow> glob_token list" where
  "glob_tokens [] = []"
| "glob_tokens (c # cs) =
     (if c = CHR ''*'' then
        (case cs of
           [] \<Rightarrow> TStar # glob_tokens cs
         | d # ds \<Rightarrow> if d = CHR ''*'' then TDeep # glob_tokens ds else TStar # glob_tokens cs)
      else if c = CHR ''?'' then TOne # glob_tokens cs
      else TLit c # glob_tokens cs)"

fun match_tokens :: "glob_token list \<Rightarrow> string \<Rightarrow> bool" where
  "match_tokens [] s = (s = [])"
| "match_tokens (TLit c # ts) [] = False"
| "match_tokens (TLit c # ts) (x # xs) = (x = c \<and> match_tokens ts xs)"
| "match_tokens (TOne # ts) [] = False"
| "match_tokens (TOne # ts) (x # xs) = (x \<noteq> slash \<and> match_tokens ts xs)"
| "match_tokens (TStar # ts) [] = match_tokens ts []"
| "match_tokens (TStar # ts) (x # xs) =
     (match_tokens ts (x # xs) \<or> (x \<noteq> slash \<and> match_tokens (TStar # ts) xs))"
| "match_tokens (TDeep # ts) [] = match_tokens ts []"
| "match_tokens (TDeep # ts) (x # xs) =
     (match_tokens ts (x # xs) \<or> (x \<noteq> CHR 0x0A \<and> match_tokens (TDeep # ts) xs))"

text \<open>What the code relies on: the engine matches a translated glob as its tokens say, and \<open>a^\<close> never.\<close>

locale regex_engine =
  fixes re_match :: "string \<Rightarrow> string \<Rightarrow> bool"
  assumes glob_law: "re_match (glob_to_regex g) s = match_tokens (glob_tokens g) s"
    and never_law: "\<not> re_match ''a^'' s"
begin

lemma literal_prefix:
  assumes "re_match (glob_to_regex (lit @ g)) s" and "\<not> is_wildcard lit"
  shows "prefix lit s"
proof -
  have "match_tokens (glob_tokens (lit @ g)) s \<Longrightarrow> \<not> is_wildcard lit \<Longrightarrow> prefix lit s"
  proof (induction lit arbitrary: s)
    case Nil
    then show ?case by simp
  next
    case (Cons c lit)
    then show ?case by (cases s) (auto simp: is_wildcard_def)
  qed
  with assms show ?thesis by (simp add: glob_law)
qed

end

text \<open>
  A matcher for this fragment, reading the text of the expression: the instance of the interface
  that the closed examples run.
\<close>

function read_fragment :: "string \<Rightarrow> glob_token list" where
  "read_fragment r =
     (if r = [] then []
      else if prefix ''[^/]*'' r then TStar # read_fragment (drop 5 r)
      else if prefix ''[^/]'' r then TOne # read_fragment (drop 4 r)
      else if prefix ''.*'' r then TDeep # read_fragment (drop 2 r)
      else if hd r = CHR 0x5C \<and> tl r \<noteq> [] then TLit (hd (tl r)) # read_fragment (drop 2 r)
      else TLit (hd r) # read_fragment (tl r))"
  by pat_completeness auto
termination
  by (relation "measure length") (auto dest: prefix_length_le)

declare read_fragment.simps [simp del]

definition fragment_match :: "string \<Rightarrow> string \<Rightarrow> bool" where
  "fragment_match r s \<longleftrightarrow> r \<noteq> [] \<and> hd r = CHR ''^'' \<and> last r = CHR ''$''
     \<and> match_tokens (read_fragment (butlast (tl r))) s"

lemma glob_body_head:
  "glob_body g = c # r \<Longrightarrow> c \<noteq> CHR ''*''"
  by (cases g) (auto simp: regex_special_def split: if_splits list.splits)

lemma read_fragment_steps:
  "read_fragment [] = []"
  "read_fragment (''[^/]*'' @ r) = TStar # read_fragment r"
  "\<not> prefix ''*'' r \<Longrightarrow> read_fragment (''[^/]'' @ r) = TOne # read_fragment r"
  "read_fragment (''.*'' @ r) = TDeep # read_fragment r"
  "read_fragment (CHR 0x5C # c # r) = TLit c # read_fragment r"
  by (subst read_fragment.simps; simp)+

lemma read_fragment_literal:
  "\<not> regex_special c \<Longrightarrow> read_fragment (c # r) = TLit c # read_fragment r"
  by (subst read_fragment.simps) (auto simp: regex_special_def)

lemma read_glob_body: "read_fragment (glob_body g) = glob_tokens g"
proof (induction g rule: glob_tokens.induct)
  case 1
  then show ?case by (simp add: read_fragment_steps)
next
  case (2 c cs)
  have "\<not> prefix ''*'' (glob_body cs)"
    by (cases "glob_body cs") (auto dest: glob_body_head)
  with 2 show ?case
    using read_fragment_steps(2-4) read_fragment_literal [of c]
    by (cases cs) (auto simp: read_fragment_steps(5))
qed

interpretation fragment: regex_engine fragment_match
proof
  fix g s
  show "fragment_match (glob_to_regex g) s = match_tokens (glob_tokens g) s"
    by (simp add: fragment_match_def glob_to_regex_def butlast_append read_glob_body)
  show "\<not> fragment_match ''a^'' s"
    by (simp add: fragment_match_def)
qed

end
