(* ===== verification/FileMatcher.thy ===== *)
theory FileMatcher
  imports MaintPatterns
begin

text \<open>
  Matching a path against every section of MAINTAINERS, in the two ways
  \<open>src/src/maintainers.rs\<close> does it: section by section (\<open>MaintainersIndex::match_file\<close>) and
  through the tables of \<open>FileMatcher\<close>, which bucket the patterns by the directory they are
  anchored at. The source promises that the two agree; the theorem at the end proves it for
  every path that does not end in a slash, and shows that the promise fails for one that does.
\<close>

section \<open>Section by section\<close>

text \<open>Deepest pattern first, then by name; the sort is stable.\<close>

definition rank_key :: "maintainer_section \<times> nat \<Rightarrow> int \<times> string" where
  "rank_key m = (- int (snd m), sec_name (fst m))"

definition ranked_names :: "(maintainer_section \<times> nat) list \<Rightarrow> string list" where
  "ranked_names ms = map (\<lambda>m. sec_name (fst m)) (sort_key rank_key ms)"

definition index_match_file ::
  "(string \<Rightarrow> string \<Rightarrow> bool) \<Rightarrow> maintainer_section list \<Rightarrow> string \<Rightarrow> string list" where
  "index_match_file re_match sections file_path =
     ranked_names
       (List.map_filter
          (\<lambda>sec. map_option (\<lambda>d. (sec, d)) (section_match_file re_match sec file_path)) sections)"

section \<open>The bucketed matcher\<close>

type_synonym section_hits = "(nat \<times> nat) list"

record file_matcher =
  fm_exact :: "string \<Rightarrow> section_hits"
  fm_prefix_dirs :: "string \<Rightarrow> section_hits"
  fm_single_level :: "string \<Rightarrow> section_hits"
  fm_globs :: "string \<Rightarrow> (nat \<times> string \<times> nat) list"
  fm_with_regexes :: "nat list"

definition matcher_empty :: file_matcher where
  "matcher_empty = \<lparr>fm_exact = (\<lambda>_. []), fm_prefix_dirs = (\<lambda>_. []), fm_single_level = (\<lambda>_. []),
     fm_globs = (\<lambda>_. []), fm_with_regexes = []\<rparr>"

text \<open>\<open>entry(key).or_default().push(x)\<close>.\<close>

definition push_entry :: "('k \<Rightarrow> 'a list) \<Rightarrow> 'k \<Rightarrow> 'a \<Rightarrow> 'k \<Rightarrow> 'a list" where
  "push_entry m k x = m(k := m k @ [x])"

fun add_pattern :: "nat \<Rightarrow> compiled_pattern \<Rightarrow> file_matcher \<Rightarrow> file_matcher" where
  "add_pattern idx (ExactFile p d) m =
     m\<lparr>fm_exact := push_entry (fm_exact m) p (idx, pattern_depth (ExactFile p d))\<rparr>"
| "add_pattern idx (PrefixDir p d) m =
     m\<lparr>fm_prefix_dirs := push_entry (fm_prefix_dirs m) p (idx, pattern_depth (PrefixDir p d))\<rparr>"
| "add_pattern idx (DirSingleLevel p d) m =
     m\<lparr>fm_single_level := push_entry (fm_single_level m) p (idx, pattern_depth (DirSingleLevel p d))\<rparr>"
| "add_pattern idx (Glob r d a) m =
     m\<lparr>fm_globs := push_entry (fm_globs m) a (idx, r, pattern_depth (Glob r d a))\<rparr>"

definition add_section :: "nat \<times> maintainer_section \<Rightarrow> file_matcher \<Rightarrow> file_matcher" where
  "add_section entry m =
     (let idx = fst entry; sec = snd entry;
          m1 = (if sec_regexes sec \<noteq> [] then m\<lparr>fm_with_regexes := fm_with_regexes m @ [idx]\<rparr> else m)
      in fold (add_pattern idx) (sec_files sec) m1)"

definition file_matcher_new :: "maintainer_section list \<Rightarrow> file_matcher" where
  "file_matcher_new sections = fold add_section (enumerate 0 sections) matcher_empty"

text \<open>The empty anchor and every prefix of the path that ends in a slash, shortest first.\<close>

definition ancestors :: "string \<Rightarrow> string list" where
  "ancestors path = [] # map (\<lambda>i. take (i + 1) path) (filter (\<lambda>i. path ! i = slash) [0..<length path])"

definition record_hit :: "nat \<times> nat \<Rightarrow> (nat, nat) alist \<Rightarrow> (nat, nat) alist" where
  "record_hit h best = upsert (fst h) (snd h) (\<lambda>d. max d (snd h)) best"

definition ancestor_hits ::
  "(string \<Rightarrow> string \<Rightarrow> bool) \<Rightarrow> file_matcher \<Rightarrow> string \<Rightarrow> string \<Rightarrow> section_hits" where
  "ancestor_hits re_match m path anc =
     fm_prefix_dirs m anc @
     map (\<lambda>(idx, r, d). (idx, d)) (filter (\<lambda>(idx, r, d). re_match r path) (fm_globs m anc))"

text \<open>Every hit in the order in which the code records it.\<close>

definition matcher_hits :: "(string \<Rightarrow> string \<Rightarrow> bool) \<Rightarrow> file_matcher \<Rightarrow> string \<Rightarrow> section_hits" where
  "matcher_hits re_match m path =
     fm_exact m path @ fm_single_level m (upto_last_slash path) @
     concat (map (ancestor_hits re_match m path) (ancestors path))"

definition matcher_excluded ::
  "(string \<Rightarrow> string \<Rightarrow> bool) \<Rightarrow> maintainer_section list \<Rightarrow> string \<Rightarrow> nat \<Rightarrow> bool" where
  "matcher_excluded re_match sections path idx = section_excludes re_match (sections ! idx) path"

definition regex_step ::
  "(string \<Rightarrow> string \<Rightarrow> bool) \<Rightarrow> maintainer_section list \<Rightarrow> string \<Rightarrow> nat
     \<Rightarrow> (nat, nat) alist \<Rightarrow> (nat, nat) alist" where
  "regex_step re_match sections path idx best =
     (if idx \<notin> fst ` set best \<and> \<not> matcher_excluded re_match sections path idx
         \<and> list_ex (\<lambda>re. re_match re path) (sec_regexes (sections ! idx))
      then best @ [(idx, 0)] else best)"

definition matcher_table ::
  "(string \<Rightarrow> string \<Rightarrow> bool) \<Rightarrow> maintainer_section list \<Rightarrow> string \<Rightarrow> (nat, nat) alist" where
  "matcher_table re_match sections file_path =
     (let m = file_matcher_new sections;
          path = trim_dot_slash file_path;
          best = fold record_hit (matcher_hits re_match m path) [];
          kept = filter (\<lambda>e. \<not> matcher_excluded re_match sections path (fst e)) best
      in fold (regex_step re_match sections path) (fm_with_regexes m) kept)"

definition table_names :: "maintainer_section list \<Rightarrow> (nat, nat) alist \<Rightarrow> string list" where
  "table_names sections best = ranked_names (map (\<lambda>(idx, d). (sections ! idx, d)) best)"

definition matcher_match_file ::
  "(string \<Rightarrow> string \<Rightarrow> bool) \<Rightarrow> maintainer_section list \<Rightarrow> string \<Rightarrow> string list" where
  "matcher_match_file re_match sections file_path =
     table_names sections (matcher_table re_match sections file_path)"

section \<open>Ranking depends on the multiset of matches only\<close>

lemma ranked_names_alt: "ranked_names ms = map snd (sort (map rank_key ms))"
proof -
  have "map rank_key (sort_key rank_key ms) = sort (map rank_key ms)"
    by (rule properties_for_sort [symmetric]) simp_all
  then show ?thesis
    by (metis (no_types, lifting) list.map_comp map_eq_conv o_apply rank_key_def ranked_names_def
        snd_conv)
qed

lemma ranked_names_mset: "mset ms = mset ms' \<Longrightarrow> ranked_names ms = ranked_names ms'"
  unfolding ranked_names_alt
  by (metis mset_map properties_for_sort mset_sort sorted_sort)

lemma table_names_mset: "mset t = mset t' \<Longrightarrow> table_names sections t = table_names sections t'"
  unfolding table_names_def by (rule ranked_names_mset) simp

text \<open>A list of pairs with distinct keys is determined, as a multiset, by its lookup function.\<close>

lemma mset_map_of_eq:
  assumes "distinct (map fst t)" and "distinct (map fst t')" and "map_of t = map_of t'"
  shows "mset t = mset t'"
proof -
  have "set t = set t'"
    using assms by (metis map_of_is_SomeI subset_antisym subsetI map_of_SomeD prod.collapse)
  with assms(1,2) show ?thesis
    by (simp add: set_eq_iff_mset_eq_distinct distinct_map)
qed

section \<open>What the buckets hold\<close>

lemma set_push_entry: "set (push_entry m k x j) = set (m j) \<union> (if j = k then {x} else {})"
  by (auto simp: push_entry_def)

lemma add_patterns_sets:
  "set (fm_exact (fold (add_pattern i) ps m) k) =
     set (fm_exact m k) \<union> {(i, d + 1) | d. ExactFile k d \<in> set ps}"
  "set (fm_prefix_dirs (fold (add_pattern i) ps m) k) =
     set (fm_prefix_dirs m k) \<union> {(i, d) | d. PrefixDir k d \<in> set ps}"
  "set (fm_single_level (fold (add_pattern i) ps m) k) =
     set (fm_single_level m k) \<union> {(i, d) | d. DirSingleLevel k d \<in> set ps}"
  "set (fm_globs (fold (add_pattern i) ps m) k) =
     set (fm_globs m k) \<union> {(i, r, d) | r d. Glob r d k \<in> set ps}"
  "fm_with_regexes (fold (add_pattern i) ps m) = fm_with_regexes m"
proof (induction ps arbitrary: m)
  case Nil
  {
    case 1 then show ?case by simp
  next
    case 2 then show ?case by simp
  next
    case 3 then show ?case by simp
  next
    case 4 then show ?case by simp
  next
    case 5 then show ?case by simp
  }
next
  case (Cons p ps)
  {
    case 1 then show ?case using Cons(1) by (cases p) (auto simp: set_push_entry)
  next
    case 2 then show ?case using Cons(2) by (cases p) (auto simp: set_push_entry)
  next
    case 3 then show ?case using Cons(3) by (cases p) (auto simp: set_push_entry)
  next
    case 4 then show ?case using Cons(4) by (cases p) (auto simp: set_push_entry)
  next
    case 5 then show ?case using Cons(5) by (cases p) auto
  }
qed

lemma add_section_sets:
  "set (fm_exact (add_section e m) k) =
     set (fm_exact m k) \<union> {(fst e, d + 1) | d. ExactFile k d \<in> set (sec_files (snd e))}"
  "set (fm_prefix_dirs (add_section e m) k) =
     set (fm_prefix_dirs m k) \<union> {(fst e, d) | d. PrefixDir k d \<in> set (sec_files (snd e))}"
  "set (fm_single_level (add_section e m) k) =
     set (fm_single_level m k) \<union> {(fst e, d) | d. DirSingleLevel k d \<in> set (sec_files (snd e))}"
  "set (fm_globs (add_section e m) k) =
     set (fm_globs m k) \<union> {(fst e, r, d) | r d. Glob r d k \<in> set (sec_files (snd e))}"
  "fm_with_regexes (add_section e m) =
     fm_with_regexes m @ (if sec_regexes (snd e) \<noteq> [] then [fst e] else [])"
  by (simp_all add: add_section_def add_patterns_sets Let_def)

lemma fold_sections_sets:
  "set (fm_exact (fold add_section es m) k) =
     set (fm_exact m k) \<union> {(i, d + 1) | i sec d. (i, sec) \<in> set es \<and> ExactFile k d \<in> set (sec_files sec)}"
  "set (fm_prefix_dirs (fold add_section es m) k) =
     set (fm_prefix_dirs m k) \<union> {(i, d) | i sec d. (i, sec) \<in> set es \<and> PrefixDir k d \<in> set (sec_files sec)}"
  "set (fm_single_level (fold add_section es m) k) =
     set (fm_single_level m k) \<union> {(i, d) | i sec d. (i, sec) \<in> set es \<and> DirSingleLevel k d \<in> set (sec_files sec)}"
  "set (fm_globs (fold add_section es m) k) =
     set (fm_globs m k) \<union> {(i, r, d) | i sec r d. (i, sec) \<in> set es \<and> Glob r d k \<in> set (sec_files sec)}"
  "fm_with_regexes (fold add_section es m) =
     fm_with_regexes m @ map fst (filter (\<lambda>e. sec_regexes (snd e) \<noteq> []) es)"
proof (induction es arbitrary: m)
  case Nil
  {
    case 1 then show ?case by simp
  next
    case 2 then show ?case by simp
  next
    case 3 then show ?case by simp
  next
    case 4 then show ?case by simp
  next
    case 5 then show ?case by simp
  }
next
  case (Cons e es)
  {
    case 1 then show ?case using Cons(1) by (cases e) (auto simp: add_section_sets)
  next
    case 2 then show ?case using Cons(2) by (cases e) (auto simp: add_section_sets)
  next
    case 3 then show ?case using Cons(3) by (cases e) (auto simp: add_section_sets)
  next
    case 4 then show ?case using Cons(4) by (cases e) (auto simp: add_section_sets)
  next
    case 5 then show ?case using Cons(5) by (simp add: add_section_sets)
  }
qed

section \<open>Compiled patterns and the directories of a path\<close>

text \<open>What \<^const>\<open>compile_pattern\<close> guarantees of its result.\<close>

definition compiled_ok :: "(string \<Rightarrow> bool) \<Rightarrow> compiled_pattern \<Rightarrow> bool" where
  "compiled_ok re_ok p \<longleftrightarrow> p \<in> range (compile_pattern re_ok)"

lemma compiled_cases:
  assumes "compiled_ok re_ok p"
  obtains (prefix_dir) t d where "p = PrefixDir t d" and "ends_with_char slash t"
    | (single) t d where "p = DirSingleLevel t d" and "ends_with_char slash t"
    | (exact) t d where "p = ExactFile t d"
    | (glob) pat d where "p = Glob (glob_regex_of re_ok pat) d (glob_anchor_of pat)"
        and "is_wildcard pat"
proof -
  from assms obtain raw where "p = compile_pattern re_ok raw"
    by (auto simp: compiled_ok_def)
  then show thesis
    using that
    by (auto simp: compile_pattern_def Let_def strip_suffix_char_def split: if_splits)
qed

lemma ancestors_iff: "a \<in> set (ancestors path) \<longleftrightarrow> prefix a path \<and> (a = [] \<or> ends_with_char slash a)"
proof
  assume "a \<in> set (ancestors path)"
  then consider "a = []" | i where "a = take (Suc i) path" "i < length path" "path ! i = slash"
    by (auto simp: ancestors_def)
  then show "prefix a path \<and> (a = [] \<or> ends_with_char slash a)"
  proof cases
    case 1
    then show ?thesis by simp
  next
    case 2
    then have "a = take i path @ [slash]"
      by (simp add: take_Suc_conv_app_nth)
    then have "ends_with_char slash a"
      by (simp only: ends_with_char_def last_snoc) simp
    then show ?thesis
      using 2(1) take_is_prefix by blast
  qed
next
  assume *: "prefix a path \<and> (a = [] \<or> ends_with_char slash a)"
  show "a \<in> set (ancestors path)"
  proof (cases a rule: rev_cases)
    case Nil
    then show ?thesis by (simp add: ancestors_def)
  next
    case (snoc b c)
    with * obtain r where "path = b @ slash # r" "c = slash"
      by (auto simp: ends_with_char_def prefix_def)
    then show ?thesis
      using snoc by (auto simp: ancestors_def image_iff intro!: exI [of _ "length b"])
  qed
qed

lemma upto_last_slash_split:
  obtains r where "s = upto_last_slash s @ r" and "slash \<notin> set r"
    and "upto_last_slash s = [] \<or> ends_with_char slash (upto_last_slash s)"
proof
  let ?f = "\<lambda>c. c \<noteq> slash"
  show "s = upto_last_slash s @ rev (takeWhile ?f (rev s))"
    by (metis rev_append rev_rev_ident takeWhile_dropWhile_id upto_last_slash_def)
  show "slash \<notin> set (rev (takeWhile ?f (rev s)))"
    by (auto dest: set_takeWhileD)
  show "upto_last_slash s = [] \<or> ends_with_char slash (upto_last_slash s)"
    using hd_dropWhile [of ?f "rev s"] by (auto simp: upto_last_slash_def ends_with_char_def last_rev)
qed

lemma prefix_upto_last_slash: "prefix (upto_last_slash s) s"
  by (rule upto_last_slash_split [of s]) (metis prefixI)

lemma upto_last_slash_end: "upto_last_slash s = [] \<or> ends_with_char slash (upto_last_slash s)"
  by (rule upto_last_slash_split [of s])

lemma upto_last_slash_append:
  assumes "slash \<notin> set r" and "a = [] \<or> ends_with_char slash a"
  shows "upto_last_slash (a @ r) = a"
proof -
  have "dropWhile (\<lambda>c. c \<noteq> slash) (rev r @ rev a) = dropWhile (\<lambda>c. c \<noteq> slash) (rev a)"
    using assms(1) by (intro dropWhile_append2) auto
  also have "\<dots> = rev a"
    using assms(2) by (cases a rule: rev_cases) (auto simp: ends_with_char_def)
  finally show ?thesis by (simp add: upto_last_slash_def)
qed

lemma literal_prefix_not_wild:
  "\<not> is_wildcard (takeWhile (\<lambda>c. c \<noteq> CHR ''*'' \<and> c \<noteq> CHR ''?'') s)"
  by (auto simp: is_wildcard_def list_ex_iff dest: set_takeWhileD)

text \<open>A path that a compiled glob matches starts with the glob's anchor.\<close>

context regex_engine
begin

lemma glob_match_anchor:
  assumes "re_match (glob_regex_of re_ok pat) path"
  shows "prefix (glob_anchor_of pat) path"
proof -
  define lit where "lit = takeWhile (\<lambda>c. c \<noteq> CHR ''*'' \<and> c \<noteq> CHR ''?'') pat"
  define rest where "rest = dropWhile (\<lambda>c. c \<noteq> CHR ''*'' \<and> c \<noteq> CHR ''?'') pat"
  have pat: "pat = lit @ rest"
    unfolding lit_def rest_def by (rule takeWhile_dropWhile_id [symmetric])
  have "re_match (glob_to_regex (lit @ (rest @ ''**''))) path \<or> re_match (glob_to_regex (lit @ rest)) path"
    using assms never_law by (simp add: glob_regex_of_def Let_def pat split: if_splits)
  moreover have "\<not> is_wildcard lit"
    unfolding lit_def by (rule literal_prefix_not_wild)
  ultimately have "prefix lit path"
    using literal_prefix by blast
  moreover have "prefix (glob_anchor_of pat) lit"
    unfolding glob_anchor_of_def lit_def by (rule prefix_upto_last_slash)
  ultimately show ?thesis
    using prefix_order.trans by blast
qed

lemma glob_anchor_is_ancestor:
  assumes "re_match (glob_regex_of re_ok pat) path"
  shows "glob_anchor_of pat \<in> set (ancestors path)"
  using glob_match_anchor [OF assms] upto_last_slash_end
  unfolding ancestors_iff glob_anchor_of_def by blast

end

text \<open>When a path does not end in a slash, looking its directory up is matching \<open>dir/*\<close>.\<close>

lemma single_level_lookup:
  assumes "ends_with_char slash t" and "\<not> ends_with_char slash path"
  shows "(case strip_prefix t path of Some rest \<Rightarrow> \<not> List.member rest slash \<and> rest \<noteq> [] | None \<Rightarrow> False)
         \<longleftrightarrow> upto_last_slash path = t"
proof
  assume "case strip_prefix t path of Some rest \<Rightarrow> \<not> List.member rest slash \<and> rest \<noteq> [] | None \<Rightarrow> False"
  then obtain rest where "path = t @ rest" and "slash \<notin> set rest"
    by (auto simp: strip_prefix_def prefix_def split: if_splits)
  with assms(1) show "upto_last_slash path = t"
    by (simp add: upto_last_slash_append)
next
  assume t: "upto_last_slash path = t"
  then obtain r where "path = t @ r" and "slash \<notin> set r"
    using upto_last_slash_split [of path] by metis
  then show "case strip_prefix t path of Some rest \<Rightarrow> \<not> List.member rest slash \<and> rest \<noteq> [] | None \<Rightarrow> False"
    using assms by (auto simp: strip_prefix_def ends_with_char_def)
qed

section \<open>The hits are the matches\<close>

definition sections_compiled :: "(string \<Rightarrow> bool) \<Rightarrow> maintainer_section list \<Rightarrow> bool" where
  "sections_compiled re_ok sections \<longleftrightarrow>
     (\<forall>sec \<in> set sections. \<forall>p \<in> set (sec_files sec). compiled_ok re_ok p)"

context regex_engine
begin

text \<open>One pattern: it matches a path exactly when the matcher finds it in the bucket it looks into.\<close>

lemma pattern_in_bucket:
  assumes "compiled_ok re_ok p" and "\<not> ends_with_char slash path" and "trim_dot_slash path = path"
  shows "pattern_is_match re_match p path \<longleftrightarrow>
     (case p of ExactFile t d \<Rightarrow> t = path
      | DirSingleLevel t d \<Rightarrow> t = upto_last_slash path
      | PrefixDir t d \<Rightarrow> t \<in> set (ancestors path)
      | Glob r d a \<Rightarrow> a \<in> set (ancestors path) \<and> re_match r path)"
  using assms(1)
proof (cases rule: compiled_cases)
  case (prefix_dir t d)
  then show ?thesis using assms(3) by (auto simp: ancestors_iff)
next
  case (single t d)
  then show ?thesis using single_level_lookup [of t path] assms(2,3) by auto
next
  case (exact t d)
  then show ?thesis using assms(3) by auto
next
  case (glob pat d)
  then show ?thesis using glob_anchor_is_ancestor [of re_ok pat path] assms(3) by auto
qed

lemma set_matcher_hits:
  assumes "sections_compiled re_ok sections" and "\<not> ends_with_char slash path"
    and "trim_dot_slash path = path"
  shows "set (matcher_hits re_match (file_matcher_new sections) path) =
     {(i, pattern_depth p) | i p. i < length sections \<and> p \<in> set (sec_files (sections ! i))
        \<and> pattern_is_match re_match p path}" (is "?hits = ?matches")
proof -
  have entry: "(i, sec) \<in> set (enumerate 0 sections) \<longleftrightarrow> i < length sections \<and> sec = sections ! i"
    for i sec by (auto simp: in_set_enumerate_eq)
  have bucket: "pattern_is_match re_match p path \<longleftrightarrow>
      (case p of ExactFile t d \<Rightarrow> t = path | DirSingleLevel t d \<Rightarrow> t = upto_last_slash path
       | PrefixDir t d \<Rightarrow> t \<in> set (ancestors path)
       | Glob r d a \<Rightarrow> a \<in> set (ancestors path) \<and> re_match r path)"
    if "i < length sections" "p \<in> set (sec_files (sections ! i))" for i p
  proof -
    have "compiled_ok re_ok p"
      using assms(1) that by (auto simp: sections_compiled_def)
    then show ?thesis
      using assms(2,3) by (rule pattern_in_bucket)
  qed
  have "x \<in> ?hits \<longleftrightarrow> x \<in> ?matches" for x
  proof
    assume "x \<in> ?hits"
    moreover have "(i, d + 1) \<in> ?matches"
      if "i < length sections" "ExactFile path d \<in> set (sec_files (sections ! i))" for i d
      using bucket [OF that] that by force
    moreover have "(i, d) \<in> ?matches"
      if "i < length sections" "DirSingleLevel (upto_last_slash path) d \<in> set (sec_files (sections ! i))" for i d
      using bucket [OF that] that by force
    moreover have "(i, d) \<in> ?matches"
      if "i < length sections" "PrefixDir a d \<in> set (sec_files (sections ! i))" "a \<in> set (ancestors path)" for i d a
      using bucket [OF that(1,2)] that by force
    moreover have "(i, d) \<in> ?matches"
      if "i < length sections" "Glob r d a \<in> set (sec_files (sections ! i))" "a \<in> set (ancestors path)"
        "re_match r path" for i d a r
      using bucket [OF that(1,2)] that by force
    ultimately show "x \<in> ?matches"
      by (auto simp only: matcher_hits_def ancestor_hits_def file_matcher_new_def fold_sections_sets
          matcher_empty_def entry set_append set_concat set_map set_filter file_matcher.simps) auto
  next
    assume "x \<in> ?matches"
    then obtain i p where x: "x = (i, pattern_depth p)" and i: "i < length sections"
      and p: "p \<in> set (sec_files (sections ! i))" and m: "pattern_is_match re_match p path"
      by auto
    from m bucket [OF i p] i p x show "x \<in> ?hits"
      by (cases p) (force simp: matcher_hits_def ancestor_hits_def file_matcher_new_def
          fold_sections_sets matcher_empty_def entry)+
  qed
  then show ?thesis by blast
qed

end

section \<open>The table keeps the greatest depth of each section\<close>

lemma accumulate_max: "accumulate max ds = (if ds = [] then None else Some (Max (set (ds :: nat list))))"
proof (induction ds rule: rev_induct)
  case Nil
  then show ?case by (simp add: accumulate_def)
next
  case (snoc d ds)
  then show ?case
    by (auto simp: accumulate_snoc merge_step_def Max_insert max.commute)
qed

lemma map_of_record_hits:
  "map_of (fold record_hit hits t) i =
     fold (merge_step max) (map snd (filter (\<lambda>h. fst h = i) hits)) (map_of t i)"
  by (induction hits arbitrary: t)
    (auto simp: record_hit_def map_of_upsert merge_step_def split: option.splits)

lemma distinct_record_hits:
  "distinct (map fst t) \<Longrightarrow> distinct (map fst (fold record_hit hits t))"
  by (induction hits arbitrary: t) (auto simp: record_hit_def distinct_upsert)

lemma fold_best_depth:
  "fold (best_depth_step re_match path) ps b =
     fold (merge_step max) (map pattern_depth (filter (\<lambda>p. pattern_is_match re_match p path) ps)) b"
  by (induction ps arbitrary: b) (auto simp: best_depth_step_def merge_step_def)

lemma map_of_filter_keys:
  "map_of (filter (\<lambda>e. Q (fst e)) t) i = (if Q i then map_of t i else None)"
  by (induction t) auto

lemma map_of_regex_steps:
  assumes "distinct ws"
  shows "map_of (fold (regex_step re_match sections path) ws t) i =
     (case map_of t i of Some d \<Rightarrow> Some d
      | None \<Rightarrow> if i \<in> set ws \<and> \<not> matcher_excluded re_match sections path i
                   \<and> list_ex (\<lambda>re. re_match re path) (sec_regexes (sections ! i))
                then Some 0 else None)"
  using assms
proof (induction ws arbitrary: t)
  case Nil
  then show ?case by (simp split: option.split)
next
  case (Cons w ws)
  have "map_of (regex_step re_match sections path w t) i =
      (case map_of t i of Some d \<Rightarrow> Some d
       | None \<Rightarrow> if i = w \<and> \<not> matcher_excluded re_match sections path w
                   \<and> list_ex (\<lambda>re. re_match re path) (sec_regexes (sections ! w))
                then Some 0 else None)"
    using map_of_eq_None_iff [of t w]
    by (auto simp: regex_step_def map_add_def split: option.splits)
  with Cons show ?case
    by (auto split: option.splits)
qed

lemma distinct_regex_steps:
  "distinct (map fst t) \<Longrightarrow> distinct (map fst (fold (regex_step re_match sections path) ws t))"
  by (induction ws arbitrary: t) (auto simp: regex_step_def)

section \<open>Both ways agree\<close>

lemma excluded_trim: "section_excludes re_match sec (trim_dot_slash p) = section_excludes re_match sec p"
proof -
  have "pattern_is_match re_match x (trim_dot_slash p) = pattern_is_match re_match x p" for x
    by (cases x) simp_all
  then show ?thesis by (simp add: section_excludes_def)
qed

context regex_engine
begin

lemma map_of_matcher_table:
  assumes "sections_compiled re_ok sections" and "\<not> ends_with_char slash (trim_dot_slash file)"
  shows "map_of (matcher_table re_match sections file) i =
     (if i < length sections then section_match_file re_match (sections ! i) file else None)"
proof -
  define path where "path = trim_dot_slash file"
  define hits where "hits = matcher_hits re_match (file_matcher_new sections) path"
  define ws where "ws = fm_with_regexes (file_matcher_new sections)"
  define sec where "sec = sections ! i"
  define own where "own = map snd (filter (\<lambda>h. fst h = i) hits)"
  define ds where "ds = map pattern_depth (filter (\<lambda>p. pattern_is_match re_match p path) (sec_files sec))"
  have trim: "trim_dot_slash path = path" by (simp add: path_def)
  have set_hits: "set hits = {(i, pattern_depth p) | i p. i < length sections
      \<and> p \<in> set (sec_files (sections ! i)) \<and> pattern_is_match re_match p path}"
    unfolding hits_def using assms trim by (intro set_matcher_hits) (simp_all add: path_def)
  have own: "set own = (if i < length sections then set ds else {})"
    unfolding own_def ds_def sec_def by (auto simp: set_hits image_iff)
  have best: "map_of (fold record_hit hits []) i = accumulate max own"
    by (simp add: map_of_record_hits own_def accumulate_def)
  have ws: "ws = map fst (filter (\<lambda>e. sec_regexes (snd e) \<noteq> []) (enumerate 0 sections))"
    by (simp add: ws_def file_matcher_new_def fold_sections_sets matcher_empty_def)
  then have "distinct ws" and "i \<in> set ws \<longleftrightarrow> i < length sections \<and> sec_regexes sec \<noteq> []"
    by (auto simp: distinct_map inj_on_def in_set_enumerate_eq sec_def image_iff
        intro: distinct_filter distinct_enumerate)
  then have step: "map_of (fold (regex_step re_match sections path) ws t) i =
      (case map_of t i of Some d \<Rightarrow> Some d
       | None \<Rightarrow> if i < length sections \<and> \<not> section_excludes re_match sec path
                     \<and> list_ex (\<lambda>re. re_match re path) (sec_regexes sec)
                 then Some 0 else None)" for t
    by (auto simp: map_of_regex_steps matcher_excluded_def sec_def split: option.splits)
  have kept: "map_of (filter (\<lambda>e. \<not> matcher_excluded re_match sections path (fst e)) (fold record_hit hits [])) i
      = (if section_excludes re_match sec path then None else accumulate max own)"
    using map_of_filter_keys [of "\<lambda>i. \<not> matcher_excluded re_match sections path i" "fold record_hit hits []" i]
    by (simp add: best matcher_excluded_def sec_def)
  have table: "map_of (matcher_table re_match sections file) i =
      (case (if section_excludes re_match sec path then None else accumulate max own) of Some d \<Rightarrow> Some d
       | None \<Rightarrow> if i < length sections \<and> \<not> section_excludes re_match sec path
                     \<and> list_ex (\<lambda>re. re_match re path) (sec_regexes sec)
                 then Some 0 else None)"
    unfolding matcher_table_def Let_def path_def [symmetric] hits_def [symmetric] ws_def [symmetric]
    by (simp only: step kept)
  have sect: "section_match_file re_match sec file =
      (if section_excludes re_match sec path then None
       else (case accumulate max ds of Some d \<Rightarrow> Some d
          | None \<Rightarrow> if list_ex (\<lambda>re. re_match re path) (sec_regexes sec) then Some 0 else None))"
    by (simp add: section_match_file_def Let_def path_def [symmetric] fold_best_depth
        accumulate_def ds_def)
  show ?thesis
  proof (cases "i < length sections")
    case True
    with own have "accumulate max own = accumulate max ds"
      using accumulate_max by (metis set_empty)
    with True table sect show ?thesis by (simp add: sec_def)
  next
    case False
    with own have "accumulate max own = None"
      by (simp add: accumulate_None_iff)
    with False table show ?thesis by simp
  qed
qed

lemma distinct_matcher_table: "distinct (map fst (matcher_table re_match sections file))"
  unfolding matcher_table_def Let_def
  by (intro distinct_regex_steps) (simp add: distinct_map_filter distinct_record_hits)

end

text \<open>The section-by-section result as a table over the section numbers.\<close>

definition section_table ::
  "(string \<Rightarrow> string \<Rightarrow> bool) \<Rightarrow> maintainer_section list \<Rightarrow> string \<Rightarrow> (nat, nat) alist" where
  "section_table re_match sections file =
     List.map_filter
       (\<lambda>i. map_option (Pair i) (section_match_file re_match (sections ! i) file)) [0..<length sections]"

lemma map_filter_nth:
  "List.map_filter f xs = List.map_filter (\<lambda>i. f (xs ! i)) [0..<length xs]"
proof -
  have "List.map_filter f (map ((!) xs) [0..<length xs]) = List.map_filter (\<lambda>i. f (xs ! i)) [0..<length xs]"
    by (simp add: List.map_filter_def filter_map comp_def)
  then show ?thesis by (simp add: map_nth)
qed

lemma index_match_file_table:
  "index_match_file re_match sections file = table_names sections (section_table re_match sections file)"
proof -
  have "map (\<lambda>(idx, d). (sections ! idx, d)) (section_table re_match sections file) =
      List.map_filter (\<lambda>sec. map_option (\<lambda>d. (sec, d)) (section_match_file re_match sec file)) sections"
    by (subst map_filter_nth)
      (auto simp: section_table_def List.map_filter_def comp_def intro!: map_cong)
  then show ?thesis by (simp add: index_match_file_def table_names_def)
qed

lemma map_filter_Pair:
  assumes "distinct is"
  shows "distinct (map fst (List.map_filter (\<lambda>i. map_option (Pair i) (f i)) is))"
    and "map_of (List.map_filter (\<lambda>i. map_option (Pair i) (f i)) is) i = (if i \<in> set is then f i else None)"
proof -
  have fst: "fst ` set (List.map_filter (\<lambda>i. map_option (Pair i) (f i)) is) \<subseteq> set is" for "is"
    by (auto simp: List.map_filter_def)
  from assms show "distinct (map fst (List.map_filter (\<lambda>i. map_option (Pair i) (f i)) is))"
    and "map_of (List.map_filter (\<lambda>i. map_option (Pair i) (f i)) is) i = (if i \<in> set is then f i else None)"
    using fst by (induction "is") (auto simp: List.map_filter_simps split: option.splits)
qed

context regex_engine
begin

lemma matcher_table_agrees:
  assumes "sections_compiled re_ok sections" and "\<not> ends_with_char slash (trim_dot_slash file)"
  shows "mset (matcher_table re_match sections file) = mset (section_table re_match sections file)"
proof (rule mset_map_of_eq)
  show "distinct (map fst (matcher_table re_match sections file))"
    by (rule distinct_matcher_table)
  show "distinct (map fst (section_table re_match sections file))"
    by (simp add: section_table_def map_filter_Pair)
  show "map_of (matcher_table re_match sections file) = map_of (section_table re_match sections file)"
    using assms by (auto simp: fun_eq_iff map_of_matcher_table section_table_def map_filter_Pair)
qed

lemma matcher_agrees:
  assumes "sections_compiled re_ok sections" and "\<not> ends_with_char slash (trim_dot_slash file)"
    and "mset table = mset (matcher_table re_match sections file)"
  shows "table_names sections table = index_match_file re_match sections file"
  using matcher_table_agrees [OF assms(1,2)] assms(3)
  by (metis index_match_file_table table_names_mset)

end

text \<open>
  C17. The bucketed matcher gives exactly the section names, in the same order, as matching
  section by section: for compiled patterns, every path that does not end in a slash, every
  regular expression engine that meets its interface, and every order in which the hash map of
  best depths is iterated.
\<close>

theorem file_matcher_equivalent:
  assumes "regex_engine re_match" and "sections_compiled re_ok sections"
    and "\<not> ends_with_char slash (trim_dot_slash file)"
    and "mset table = mset (matcher_table re_match sections file)"
  shows "table_names sections table = index_match_file re_match sections file"
  using assms by (rule regex_engine.matcher_agrees)

definition example_section :: "string \<Rightarrow> string list \<Rightarrow> maintainer_section" where
  "example_section name files = \<lparr>sec_name = name, sec_files = map (compile_pattern (\<lambda>_. True)) files,
     sec_excludes = [], sec_regexes = [], sec_mailing_lists = [], sec_maintainers = [],
     sec_m_maintainers = [], sec_r_reviewers = [], sec_trees = [], sec_catch_all = False\<rparr>"

lemma file_matcher_equivalent_witness:
  "matcher_match_file fragment_match
     [example_section ''NET'' [''net/''], example_section ''CORE'' [''net/core/*'', ''net/core/d?v.c'']]
     ''./net/core/dev.c'' = [''CORE'', ''NET'']"
proof -
  let ?secs = "[example_section ''NET'' [''net/''], example_section ''CORE'' [''net/core/*'', ''net/core/d?v.c'']]"
  have "sections_compiled (\<lambda>_. True) ?secs"
    by (simp add: sections_compiled_def example_section_def compiled_ok_def)
  moreover have "\<not> ends_with_char slash (trim_dot_slash ''./net/core/dev.c'')"
    by code_simp
  moreover have "index_match_file fragment_match ?secs ''./net/core/dev.c'' = [''CORE'', ''NET'']"
    by code_simp
  ultimately show ?thesis
    using file_matcher_equivalent [OF fragment.regex_engine_axioms _ _ refl]
    by (simp add: matcher_match_file_def)
qed

text \<open>
  The promise that the bucketed matcher is identical to matching section by section does
  not extend to a path that ends in a slash: the bucket of a \<open>dir/*\<close> pattern is consulted without
  checking that a file name follows the directory, so the directory itself is attributed to the
  section, which \<open>CompiledPattern::is_match\<close> refuses.
\<close>

theorem file_matcher_trailing_slash:
  "matcher_match_file fragment_match [example_section ''CORE'' [''net/core/*'']] ''net/core/'' = [''CORE'']
   \<and> index_match_file fragment_match [example_section ''CORE'' [''net/core/*'']] ''net/core/'' = []"
  by (rule conjI) code_simp+

end
