(* ===== verification/Acl.thy ===== *)
theory Acl
  imports Prelude
begin

text \<open>
  The capability lists of the configuration (\<open>Permission\<close>, \<open>AclSettings\<close> in
  \<open>src/src/settings.rs\<close>): who is an operator, a member of the security list, a bug reporter, who
  is blocked, and which of the three server capabilities an address holds.
\<close>

datatype permission = Ingest | Cancel | Review

fun granted_by_local_token :: "permission \<Rightarrow> bool" where
  "granted_by_local_token Ingest = True"
| "granted_by_local_token Cancel = True"
| "granted_by_local_token Review = True"

record acl_settings =
  admins :: "string list"
  security :: "string list"
  bug_reporters :: "string list"
  ingest :: "string list"
  cancel :: "string list"
  review :: "string list"
  blocklist :: "string list"

definition acl_default :: acl_settings where
  "acl_default = \<lparr>admins = [], security = [], bug_reporters = [], ingest = [], cancel = [],
     review = [], blocklist = []\<rparr>"

definition list_contains :: "string list \<Rightarrow> string \<Rightarrow> bool" where
  "list_contains xs email = list_ex (\<lambda>e. eq_ascii_nocase (trim e) (trim email)) xs"

definition is_blocklisted :: "acl_settings \<Rightarrow> string \<Rightarrow> bool" where
  "is_blocklisted acl email = list_contains (blocklist acl) email"

definition is_admin :: "acl_settings \<Rightarrow> string \<Rightarrow> bool" where
  "is_admin acl email = list_contains (admins acl) email"

definition is_security :: "acl_settings \<Rightarrow> string \<Rightarrow> bool" where
  "is_security acl email = list_contains (security acl) email"

definition is_bug_reporter :: "acl_settings \<Rightarrow> string \<Rightarrow> bool" where
  "is_bug_reporter acl email = list_contains (bug_reporters acl) email"

definition is_known_identity :: "acl_settings \<Rightarrow> string \<Rightarrow> bool" where
  "is_known_identity acl email \<longleftrightarrow> \<not> is_blocklisted acl email \<and>
     list_ex (\<lambda>l. list_contains l email)
       [admins acl, security acl, bug_reporters acl, ingest acl, cancel acl, review acl]"

definition has_permission :: "acl_settings \<Rightarrow> string \<Rightarrow> permission \<Rightarrow> bool" where
  "has_permission acl email perm =
     (if is_blocklisted acl email then False
      else if is_admin acl email then True
      else (case perm of
          Ingest \<Rightarrow> list_contains (ingest acl) email
        | Cancel \<Rightarrow> list_contains (cancel acl) email
        | Review \<Rightarrow> list_contains (review acl) email))"

text \<open>Two spellings of one address: the lists cannot tell them apart.\<close>

definition same_address :: "string \<Rightarrow> string \<Rightarrow> bool" where
  "same_address a b \<longleftrightarrow> eq_ascii_nocase (trim a) (trim b)"

lemma list_contains_same_address:
  "same_address a b \<Longrightarrow> list_contains xs a = list_contains xs b"
  by (simp add: list_contains_def same_address_def eq_ascii_nocase_def)

lemma list_contains_iff: "list_contains xs a \<longleftrightarrow> (\<exists>e \<in> set xs. same_address e a)"
  by (auto simp: list_contains_def same_address_def list_ex_iff)

lemmas acl_questions =
  is_blocklisted_def is_admin_def is_security_def is_bug_reporter_def

lemma acl_same_address:
  assumes "same_address a b"
  shows "is_blocklisted acl a = is_blocklisted acl b"
    and "is_admin acl a = is_admin acl b"
    and "is_security acl a = is_security acl b"
    and "is_bug_reporter acl a = is_bug_reporter acl b"
    and "has_permission acl a p = has_permission acl b p"
    and "is_known_identity acl a = is_known_identity acl b"
  using assms list_contains_same_address [OF assms]
  by (simp_all add: acl_questions has_permission_def is_known_identity_def split: permission.splits)

definition capability_list :: "acl_settings \<Rightarrow> permission \<Rightarrow> string list" where
  "capability_list acl perm =
     (case perm of Ingest \<Rightarrow> ingest acl | Cancel \<Rightarrow> cancel acl | Review \<Rightarrow> review acl)"

lemma has_permission_iff:
  "has_permission acl email perm \<longleftrightarrow> \<not> is_blocklisted acl email \<and>
     (is_admin acl email \<or> list_contains (capability_list acl perm) email)"
  by (simp add: has_permission_def capability_list_def split: permission.splits)

text \<open>
  Capabilities fail closed: however the address is spelled (white space around it and
  ASCII case aside), it holds a capability exactly when it is not blocked and is an operator or
  on that capability's own list; every holder is a known identity, so it can sign in; and with
  the default (empty) settings nobody holds anything.
\<close>

theorem permission_fails_closed:
  assumes "same_address email email'"
  shows "(has_permission acl email perm \<longleftrightarrow> \<not> is_blocklisted acl email' \<and>
            (is_admin acl email' \<or> list_contains (capability_list acl perm) email'))
         \<and> (is_known_identity acl email' \<or> \<not> has_permission acl email perm)
         \<and> \<not> has_permission acl_default email perm"
  using acl_same_address [OF assms, of acl]
  by (auto simp: has_permission_iff is_known_identity_def is_admin_def capability_list_def
      acl_default_def list_contains_def split: permission.splits)

lemma permission_fails_closed_witness:
  "has_permission (acl_default\<lparr>review := ['' Ann@x.org'']\<rparr>) ''ann@X.org '' Review"
proof -
  have s: "same_address ''ann@X.org '' ''ann@x.org''"
    by code_simp
  have "\<not> is_blocklisted (acl_default\<lparr>review := ['' Ann@x.org'']\<rparr>) ''ann@x.org''"
    and "list_contains (capability_list (acl_default\<lparr>review := ['' Ann@x.org'']\<rparr>) Review) ''ann@x.org''"
    by code_simp+
  then show ?thesis
    using permission_fails_closed [OF s, of "acl_default\<lparr>review := ['' Ann@x.org'']\<rparr>" Review] by simp
qed

end
