(* ===== verification/MaintIndex.thy ===== *)
theory MaintIndex
  imports FileMatcher Acl
begin

text \<open>
  The MAINTAINERS index (\<open>MaintainersIndex\<close> in \<open>src/src/maintainers.rs\<close>): the parser of the file,
  the address tables built from the parsed sections, and the upstream grants attached to it
  (\<open>src/src/upstream_grants.rs\<close>). The tables are what \<open>Principal::resolve\<close> asks; the locale
  \<open>address_index\<close> states what it may rely on.
\<close>

section \<open>Addresses of an entry\<close>

fun find_char :: "char \<Rightarrow> string \<Rightarrow> nat option" where
  "find_char c [] = None"
| "find_char c (d # s) = (if d = c then Some 0 else map_option Suc (find_char c s))"

definition rfind_char :: "char \<Rightarrow> string \<Rightarrow> nat option" where
  "rfind_char c s = map_option (\<lambda>i. length s - Suc i) (find_char c (rev s))"

definition trim_chars :: "(char \<Rightarrow> bool) \<Rightarrow> string \<Rightarrow> string" where
  "trim_chars P s = rev (dropWhile P (rev (dropWhile P s)))"

definition looks_like_an_address :: "string \<Rightarrow> bool" where
  "looks_like_an_address address \<longleftrightarrow>
     (case split_once (CHR ''@'') address of
        None \<Rightarrow> False
      | Some (local, domain) \<Rightarrow>
          local \<noteq> [] \<and> List.member domain (CHR ''.'') \<and> \<not> prefix ''.'' domain
          \<and> \<not> ends_with_char (CHR ''.'') domain \<and> \<not> list_ex is_ws address
          \<and> count_list address (CHR ''@'') = 1)"

definition maintainer_address :: "string \<Rightarrow> string option" where
  "maintainer_address entry =
     (let candidate =
        (case (find_char (CHR ''<'') entry, rfind_char (CHR ''>'') entry) of
           (Some open, Some close) \<Rightarrow>
             if open + 1 < close then take (close - (open + 1)) (drop (open + 1) entry) else entry
         | _ \<Rightarrow> entry);
        address = to_ascii_lower (trim (trim_chars (\<lambda>c. c = CHR 0x22) (trim candidate)))
      in if looks_like_an_address address then Some address else None)"

definition maintainer_addresses :: "maintainer_section \<Rightarrow> string list" where
  "maintainer_addresses sec = List.map_filter maintainer_address (sec_maintainers sec)"

definition m_maintainer_addresses :: "maintainer_section \<Rightarrow> string list" where
  "m_maintainer_addresses sec = List.map_filter maintainer_address (sec_m_maintainers sec)"

definition r_reviewer_addresses :: "maintainer_section \<Rightarrow> string list" where
  "r_reviewer_addresses sec = List.map_filter maintainer_address (sec_r_reviewers sec)"

lemma trim_matches_lower: "to_ascii_lower s = t \<Longrightarrow> to_ascii_lower t = t"
  by auto

text \<open>What an address of the file is: lower case, with one \<open>@\<close>, no white space and a dotted domain.\<close>

lemma maintainer_address_Some:
  assumes "maintainer_address entry = Some a"
  shows "to_ascii_lower a = a" and "count_list a (CHR ''@'') = 1" and "trim a = a"
    and "\<forall>c \<in> set a. \<not> is_ws c"
    and "\<exists>local domain. a = local @ CHR ''@'' # domain \<and> local \<noteq> [] \<and> CHR ''.'' \<in> set domain"
proof -
  from assms have a: "to_ascii_lower a = a" "looks_like_an_address a"
    by (auto simp: maintainer_address_def Let_def split: if_splits)
  then show "to_ascii_lower a = a" "count_list a (CHR ''@'') = 1"
    and ws: "\<forall>c \<in> set a. \<not> is_ws c"
    by (auto simp: looks_like_an_address_def list_ex_iff split: option.splits)
  from a(2) show "\<exists>local domain. a = local @ CHR ''@'' # domain \<and> local \<noteq> [] \<and> CHR ''.'' \<in> set domain"
    by (auto simp: looks_like_an_address_def split_once_Some_iff split: option.splits) blast
  from ws have "is_trimmed a"
    by (cases a) (auto simp: is_trimmed_def)
  then show "trim a = a" by (rule trim_is_trimmed)
qed

section \<open>Upstream grants\<close>

record raw_upstream_grant =
  raw_section :: string
  raw_grant_paths :: "string list"

record upstream_grant =
  grant_section :: string
  grant_raw_paths :: "string list"
  grant_paths :: "compiled_pattern list"

definition upstream_grant_new :: "(string \<Rightarrow> bool) \<Rightarrow> string \<Rightarrow> string list \<Rightarrow> upstream_grant" where
  "upstream_grant_new re_ok section raw_paths =
     \<lparr>grant_section = section, grant_raw_paths = raw_paths,
      grant_paths = map (compile_pattern re_ok) raw_paths\<rparr>"

definition grant_covers :: "(string \<Rightarrow> string \<Rightarrow> bool) \<Rightarrow> upstream_grant \<Rightarrow> string \<Rightarrow> bool" where
  "grant_covers re_match g file = list_ex (\<lambda>p. pattern_is_match re_match p file) (grant_paths g)"

datatype grant_error = NoPaths | EmptyPath | WholeTree string

fun validate_each :: "string list \<Rightarrow> grant_error + unit" where
  "validate_each [] = Inr ()"
| "validate_each (path # paths) =
     (let trimmed = trim_dot_slash (trim path) in
      if trimmed = [] then Inl EmptyPath
      else if list_all (\<lambda>c. c = CHR ''*'' \<or> c = CHR ''?'' \<or> c = slash) trimmed then Inl (WholeTree path)
      else validate_each paths)"

definition validate_paths :: "string list \<Rightarrow> grant_error + unit" where
  "validate_paths paths = (if paths = [] then Inl NoPaths else validate_each paths)"

text \<open>A valid path names something: it holds a character that is no wildcard and no slash.\<close>

lemma validate_paths_ok:
  "validate_paths paths = Inr () \<longleftrightarrow> paths \<noteq> [] \<and>
     (\<forall>p \<in> set paths. \<exists>c \<in> set (trim_dot_slash (trim p)). c \<noteq> CHR ''*'' \<and> c \<noteq> CHR ''?'' \<and> c \<noteq> slash)"
proof -
  have "validate_each ps = Inr () \<longleftrightarrow>
     (\<forall>p \<in> set ps. \<exists>c \<in> set (trim_dot_slash (trim p)). c \<noteq> CHR ''*'' \<and> c \<noteq> CHR ''?'' \<and> c \<noteq> slash)" for ps
    by (induction ps) (auto simp: Let_def list_all_iff)
  then show ?thesis by (simp add: validate_paths_def)
qed

section \<open>The index\<close>

record maintainers_index =
  idx_sections :: "maintainer_section list"
  idx_subsystems :: "string \<rightharpoonup> string set"
  idx_global :: "string set"
  idx_grants :: "upstream_grant list"

definition index_empty :: maintainers_index where
  "index_empty = \<lparr>idx_sections = [], idx_subsystems = Map.empty, idx_global = {}, idx_grants = []\<rparr>"

text \<open>One address of one section: \<open>entry(address).or_default().insert(name)\<close>, and the global set.\<close>

definition add_address :: "maintainer_section \<Rightarrow> string
     \<Rightarrow> (string \<rightharpoonup> string set) \<times> string set \<Rightarrow> (string \<rightharpoonup> string set) \<times> string set" where
  "add_address sec a tables =
     (let (subs, glob) = tables in
      (subs(a \<mapsto> insert (sec_name sec) (case subs a of None \<Rightarrow> {} | Some S \<Rightarrow> S)),
       if sec_catch_all sec then insert a glob else glob))"

definition from_sections :: "maintainer_section list \<Rightarrow> maintainers_index" where
  "from_sections sections =
     (let (subs, glob) =
        fold (\<lambda>sec. fold (add_address sec) (maintainer_addresses sec)) sections (Map.empty, {})
      in \<lparr>idx_sections = sections, idx_subsystems = subs, idx_global = glob, idx_grants = []\<rparr>)"

definition subsystems_for_address :: "maintainers_index \<Rightarrow> string \<Rightarrow> string set option" where
  "subsystems_for_address idx address = idx_subsystems idx (to_ascii_lower (trim address))"

definition is_global_maintainer :: "maintainers_index \<Rightarrow> string \<Rightarrow> bool" where
  "is_global_maintainer idx address \<longleftrightarrow> to_ascii_lower (trim address) \<in> idx_global idx"

fun keep_grants :: "(string \<Rightarrow> bool) \<Rightarrow> maintainer_section list \<Rightarrow> raw_upstream_grant list \<Rightarrow> upstream_grant list" where
  "keep_grants re_ok sections [] = []"
| "keep_grants re_ok sections (g # gs) =
     (case find (\<lambda>s. eq_ascii_nocase (trim (sec_name s)) (trim (raw_section g))) sections of
        None \<Rightarrow> keep_grants re_ok sections gs
      | Some sec \<Rightarrow>
          if sec_catch_all sec then keep_grants re_ok sections gs
          else (case validate_paths (raw_grant_paths g) of
                  Inl why \<Rightarrow> keep_grants re_ok sections gs
                | Inr _ \<Rightarrow> upstream_grant_new re_ok (sec_name sec) (raw_grant_paths g)
                             # keep_grants re_ok sections gs))"

definition set_upstream_grants ::
  "(string \<Rightarrow> bool) \<Rightarrow> maintainers_index \<Rightarrow> raw_upstream_grant list \<Rightarrow> maintainers_index \<times> nat" where
  "set_upstream_grants re_ok idx grants =
     (let kept = keep_grants re_ok (idx_sections idx) grants in (idx\<lparr>idx_grants := kept\<rparr>, length kept))"

fun grant_sections_loop ::
  "(string \<Rightarrow> string \<Rightarrow> bool) \<Rightarrow> string list \<Rightarrow> upstream_grant list \<Rightarrow> string list \<Rightarrow> string list" where
  "grant_sections_loop re_match files [] out = out"
| "grant_sections_loop re_match files (g # gs) out =
     (if List.member out (grant_section g) then grant_sections_loop re_match files gs out
      else if list_ex (\<lambda>f. grant_covers re_match g f) files
      then grant_sections_loop re_match files gs (out @ [grant_section g])
      else grant_sections_loop re_match files gs out)"

definition upstream_grant_sections ::
  "(string \<Rightarrow> string \<Rightarrow> bool) \<Rightarrow> maintainers_index \<Rightarrow> string list \<Rightarrow> string list" where
  "upstream_grant_sections re_match idx files = grant_sections_loop re_match files (idx_grants idx) []"

definition has_upstream_grants :: "maintainers_index \<Rightarrow> bool" where
  "has_upstream_grants idx \<longleftrightarrow> idx_grants idx \<noteq> []"

text \<open>Matching many paths: every name once, in the order of its first appearance.\<close>

fun push_unseen :: "string list \<Rightarrow> string list \<Rightarrow> string list" where
  "push_unseen [] out = out"
| "push_unseen (n # ns) out = push_unseen ns (if List.member out n then out else out @ [n])"

definition match_files ::
  "(string \<Rightarrow> string \<Rightarrow> bool) \<Rightarrow> maintainers_index \<Rightarrow> string list \<Rightarrow> string list" where
  "match_files re_match idx files =
     fold (\<lambda>path. push_unseen (index_match_file re_match (idx_sections idx) path)) files []"

definition match_mailing_lists ::
  "(string \<Rightarrow> string \<Rightarrow> bool) \<Rightarrow> maintainers_index \<Rightarrow> string list \<Rightarrow> string list" where
  "match_mailing_lists re_match idx files =
     fold (\<lambda>path. fold (\<lambda>sec out. if section_match_file re_match sec path = None then out
                                 else push_unseen (sec_mailing_lists sec) out)
                  (idx_sections idx)) files []"

datatype subsystem_source = MaintainersSection | PathPrefix | UpstreamGrant | CallerSupplied

record attributed_subsystem =
  att_name :: string
  att_source :: subsystem_source

definition attribute_files ::
  "(string \<Rightarrow> string \<Rightarrow> bool) \<Rightarrow> maintainers_index \<Rightarrow> string list \<Rightarrow> attributed_subsystem list" where
  "attribute_files re_match idx files =
     map (\<lambda>n. \<lparr>att_name = n, att_source = MaintainersSection\<rparr>) (match_files re_match idx files) @
     map (\<lambda>n. \<lparr>att_name = n, att_source = UpstreamGrant\<rparr>) (upstream_grant_sections re_match idx files)"

section \<open>What the tables hold\<close>

lemma fold_add_address:
  "fold (add_address sec) as (subs, glob) =
     ((\<lambda>a. if a \<in> set as then Some (insert (sec_name sec) (case subs a of None \<Rightarrow> {} | Some S \<Rightarrow> S)) else subs a),
      if sec_catch_all sec then set as \<union> glob else glob)"
  by (induction as arbitrary: subs glob)
    (auto simp: add_address_def fun_eq_iff split: option.splits)

lemma from_sections_tables:
  "fold (\<lambda>sec. fold (add_address sec) (maintainer_addresses sec)) secs (subs, glob) =
     ((\<lambda>a. let names = {sec_name s | s. s \<in> set secs \<and> a \<in> set (maintainer_addresses s)}
           in if names = {} then subs a else Some (names \<union> (case subs a of None \<Rightarrow> {} | Some S \<Rightarrow> S))),
      {a. \<exists>s \<in> set secs. sec_catch_all s \<and> a \<in> set (maintainer_addresses s)} \<union> glob)"
proof (induction secs arbitrary: subs glob)
  case Nil
  then show ?case by (simp add: Let_def)
next
  case (Cons s secs)
  show ?case
    by (simp add: fold_add_address Cons Let_def) (auto simp: fun_eq_iff split: option.splits)
qed

lemma subsystems_from_sections:
  "subsystems_for_address (from_sections secs) address =
     (let names = {sec_name s | s. s \<in> set secs \<and> to_ascii_lower (trim address) \<in> set (maintainer_addresses s)}
      in if names = {} then None else Some names)"
  by (simp add: subsystems_for_address_def from_sections_def from_sections_tables Let_def)

lemma global_from_sections:
  "is_global_maintainer (from_sections secs) address \<longleftrightarrow>
     (\<exists>s \<in> set secs. sec_catch_all s \<and> to_ascii_lower (trim address) \<in> set (maintainer_addresses s))"
  by (simp add: is_global_maintainer_def from_sections_def from_sections_tables)

lemma idx_sections_from_sections [simp]: "idx_sections (from_sections secs) = secs"
  by (simp add: from_sections_def split: prod.split)

lemma grants_keep_tables [simp]:
  "idx_sections (fst (set_upstream_grants re_ok idx gs)) = idx_sections idx"
  "subsystems_for_address (fst (set_upstream_grants re_ok idx gs)) = subsystems_for_address idx"
  "is_global_maintainer (fst (set_upstream_grants re_ok idx gs)) = is_global_maintainer idx"
  by (simp_all add: set_upstream_grants_def Let_def subsystems_for_address_def fun_eq_iff
      is_global_maintainer_def)

text \<open>An index as the program builds it: from parsed sections, with grants attached any number of times.\<close>

inductive built_index :: "(string \<Rightarrow> bool) \<Rightarrow> maintainers_index \<Rightarrow> bool" for re_ok where
  empty: "built_index re_ok index_empty"
| sections: "sections_compiled re_ok secs \<Longrightarrow> built_index re_ok (from_sections secs)"
| grants: "built_index re_ok idx \<Longrightarrow> built_index re_ok (fst (set_upstream_grants re_ok idx gs))"

lemma index_empty_from_sections: "index_empty = from_sections []"
  by (simp add: index_empty_def from_sections_def)

lemma built_index_tables:
  assumes "built_index re_ok idx"
  shows "subsystems_for_address idx = subsystems_for_address (from_sections (idx_sections idx))"
    and "is_global_maintainer idx = is_global_maintainer (from_sections (idx_sections idx))"
    and "sections_compiled re_ok (idx_sections idx)"
  using assms
  by (induction rule: built_index.induct)
    (simp_all add: index_empty_from_sections sections_compiled_def)

section \<open>The interface of the address tables\<close>

text \<open>
  What \<open>Principal::resolve\<close> relies on: the answers depend on the address only up to white
  space around it and ASCII case, an address with an entry has at least one section, and a
  global maintainer has an entry.
\<close>

locale address_index =
  fixes sections_of :: "string \<Rightarrow> string set option" and global :: "string \<Rightarrow> bool"
  assumes spelling: "same_address a b \<Longrightarrow> sections_of a = sections_of b \<and> global a = global b"
    and entry_nonempty: "sections_of a = Some S \<Longrightarrow> S \<noteq> {}"
    and global_listed: "global a \<Longrightarrow> sections_of a \<noteq> None"
begin

lemma global_has_section: "global a \<Longrightarrow> \<exists>S s. sections_of a = Some S \<and> s \<in> S"
  using global_listed entry_nonempty by (metis all_not_in_conv option.exhaust)

end

lemma same_address_iff: "same_address a b \<longleftrightarrow> to_ascii_lower (trim a) = to_ascii_lower (trim b)"
  by (simp add: same_address_def eq_ascii_nocase_def)

interpretation section_tables: address_index
  "subsystems_for_address (from_sections secs)" "is_global_maintainer (from_sections secs)"
  for secs
  by unfold_locales
    (auto simp: subsystems_from_sections global_from_sections same_address_iff Let_def split: if_splits)

lemma built_index_interface:
  assumes "built_index re_ok idx"
  shows "address_index (subsystems_for_address idx) (is_global_maintainer idx)"
  using section_tables.address_index_axioms [of "idx_sections idx"] built_index_tables [OF assms]
  by simp

section \<open>Grants\<close>

lemma keep_grants_origin:
  assumes "k \<in> set (keep_grants re_ok sections gs)"
  shows "\<exists>g sec. g \<in> set gs \<and> sec \<in> set sections \<and> \<not> sec_catch_all sec
     \<and> eq_ascii_nocase (trim (sec_name sec)) (trim (raw_section g))
     \<and> validate_paths (raw_grant_paths g) = Inr ()
     \<and> k = upstream_grant_new re_ok (sec_name sec) (raw_grant_paths g)"
  using assms
proof (induction gs)
  case Nil
  then show ?case by simp
next
  case (Cons r gs)
  show ?case
  proof (cases "k \<in> set (keep_grants re_ok sections gs)")
    case True
    with Cons.IH show ?thesis by (meson list.set_intros(2))
  next
    case False
    with Cons.prems obtain sec where "find (\<lambda>s. eq_ascii_nocase (trim (sec_name s)) (trim (raw_section r))) sections = Some sec"
      and "\<not> sec_catch_all sec" and "validate_paths (raw_grant_paths r) = Inr ()"
      and "k = upstream_grant_new re_ok (sec_name sec) (raw_grant_paths r)"
      by (auto split: option.splits if_splits sum.splits)
    then show ?thesis
      by (intro exI [of _ r] exI [of _ sec]) (auto simp: find_Some_iff)
  qed
qed

lemma grant_sections_loop_spec:
  assumes "distinct out"
  shows "distinct (grant_sections_loop re_match files gs out)"
    and "set (grant_sections_loop re_match files gs out) =
      set out \<union> {grant_section g | g. g \<in> set gs \<and> (\<exists>f \<in> set files. grant_covers re_match g f)}"
  using assms by (induction re_match files gs out rule: grant_sections_loop.induct)
    (auto simp: list_ex_iff)

lemma push_unseen_spec:
  "set (push_unseen ns out) = set out \<union> set ns"
  "distinct out \<Longrightarrow> distinct (push_unseen ns out)"
  by (induction ns out rule: push_unseen.induct) auto

lemma match_files_spec:
  "set (match_files re_match idx files) =
     {n. \<exists>f \<in> set files. n \<in> set (index_match_file re_match (idx_sections idx) f)}"
  "distinct (match_files re_match idx files)"
proof -
  have "set (fold (\<lambda>path. push_unseen (g path)) files out) = set out \<union> (\<Union>f \<in> set files. set (g f))"
    and "distinct out \<Longrightarrow> distinct (fold (\<lambda>path. push_unseen (g path)) files out)"
    for g :: "string \<Rightarrow> string list" and out
    by (induction files arbitrary: out) (auto simp: push_unseen_spec)
  then show "set (match_files re_match idx files) =
     {n. \<exists>f \<in> set files. n \<in> set (index_match_file re_match (idx_sections idx) f)}"
    and "distinct (match_files re_match idx files)"
    by (auto simp: match_files_def)
qed

lemma set_index_match_file:
  "set (index_match_file re_match secs file) =
     {sec_name s | s. s \<in> set secs \<and> section_match_file re_match s file \<noteq> None}"
  by (auto simp: index_match_file_def ranked_names_def List.map_filter_def image_iff)
    (force split: option.splits)+

text \<open>
  C30. An upstream grant widens access only as far as it is valid: attaching grants leaves the sections, the sections of each address and
  the maintainers of the whole tree alone, and a title attributed through a grant is that of a section of the index that does not
  claim the whole tree, named (ASCII case aside) by a grant whose paths passed validation, one of
  whose patterns matches one of the files. Titles are reported once.
\<close>

theorem upstream_grants_confined:
  assumes "set_upstream_grants re_ok idx gs = (idx', n)"
  shows "idx_sections idx' = idx_sections idx
    \<and> subsystems_for_address idx' = subsystems_for_address idx
    \<and> is_global_maintainer idx' = is_global_maintainer idx
    \<and> n \<le> length gs
    \<and> distinct (upstream_grant_sections re_match idx' files)
    \<and> (\<forall>title \<in> set (upstream_grant_sections re_match idx' files).
         \<exists>sec \<in> set (idx_sections idx). \<exists>g \<in> set gs.
           title = sec_name sec \<and> \<not> sec_catch_all sec
           \<and> eq_ascii_nocase (trim (sec_name sec)) (trim (raw_section g))
           \<and> validate_paths (raw_grant_paths g) = Inr ()
           \<and> (\<exists>f \<in> set files. \<exists>p \<in> set (raw_grant_paths g).
                pattern_is_match re_match (compile_pattern re_ok p) f))"
proof -
  let ?kept = "keep_grants re_ok (idx_sections idx) gs"
  have idx': "idx' = fst (set_upstream_grants re_ok idx gs)" and n: "n = length ?kept"
    and grants: "idx_grants idx' = ?kept"
    using assms by (auto simp: set_upstream_grants_def Let_def)
  have "length ?kept \<le> length gs"
    by (induction gs) (auto split: option.splits sum.splits)
  moreover have "distinct (upstream_grant_sections re_match idx' files)"
    by (simp add: upstream_grant_sections_def grant_sections_loop_spec)
  moreover have "\<exists>sec \<in> set (idx_sections idx). \<exists>g \<in> set gs.
           title = sec_name sec \<and> \<not> sec_catch_all sec
           \<and> eq_ascii_nocase (trim (sec_name sec)) (trim (raw_section g))
           \<and> validate_paths (raw_grant_paths g) = Inr ()
           \<and> (\<exists>f \<in> set files. \<exists>p \<in> set (raw_grant_paths g).
                pattern_is_match re_match (compile_pattern re_ok p) f)"
    if "title \<in> set (upstream_grant_sections re_match idx' files)" for title
  proof -
    from that grants obtain k f where k: "k \<in> set ?kept" "title = grant_section k"
      and f: "f \<in> set files" "grant_covers re_match k f"
      by (auto simp: upstream_grant_sections_def grant_sections_loop_spec)
    from k(1) obtain g sec where "g \<in> set gs" "sec \<in> set (idx_sections idx)"
      "\<not> sec_catch_all sec" "eq_ascii_nocase (trim (sec_name sec)) (trim (raw_section g))"
      "validate_paths (raw_grant_paths g) = Inr ()"
      "k = upstream_grant_new re_ok (sec_name sec) (raw_grant_paths g)"
      using keep_grants_origin by blast
    with k(2) f show ?thesis
      by (intro bexI [of _ sec] bexI [of _ g])
        (auto simp: upstream_grant_new_def grant_covers_def list_ex_iff)
  qed
  ultimately show ?thesis
    using n by (auto simp: idx')
qed

lemma upstream_grants_confined_witness:
  "upstream_grant_sections fragment_match
     (fst (set_upstream_grants (\<lambda>_. True) (from_sections [example_section ''SOC'' [''soc/'']])
        [\<lparr>raw_section = '' soc '', raw_grant_paths = [''arch/*/dts/'']\<rparr>,
         \<lparr>raw_section = ''SOC'', raw_grant_paths = [''*/'']\<rparr>])) [''arch/arm/dts/a.dts''] = [''SOC'']
   \<and> \<not> sec_catch_all (example_section ''SOC'' [''soc/''])"
proof -
  let ?idx = "from_sections [example_section ''SOC'' [''soc/'']]"
  let ?gs = "[\<lparr>raw_section = '' soc '', raw_grant_paths = [''arch/*/dts/'']\<rparr>,
         \<lparr>raw_section = ''SOC'', raw_grant_paths = [''*/'']\<rparr>]"
  let ?r = "set_upstream_grants (\<lambda>_. True) ?idx ?gs"
  have eval: "upstream_grant_sections fragment_match (fst ?r) [''arch/arm/dts/a.dts''] = [''SOC'']"
    by code_simp
  have "?r = (fst ?r, snd ?r)" by simp
  from upstream_grants_confined [OF this, of fragment_match "[''arch/arm/dts/a.dts'']"] eval
  have "\<exists>sec \<in> set (idx_sections ?idx). \<not> sec_catch_all sec" by auto
  with eval show ?thesis by simp
qed

end
