(* ===== verification/MaintParser.thy ===== *)
theory MaintParser
  imports MaintIndex
begin

text \<open>
  The parser of the MAINTAINERS file (\<open>MaintainersIndex::from_reader\<close> in
  \<open>src/src/maintainers.rs\<close>): a loop over the lines with the section under construction as its
  state. A read error of the underlying reader is a line of the left summand.
\<close>

record parse_state =
  ps_in_header :: bool
  ps_name :: string
  ps_files :: "compiled_pattern list"
  ps_excludes :: "compiled_pattern list"
  ps_regexes :: "string list"
  ps_lists :: "string list"
  ps_maintainers :: "string list"
  ps_m_maintainers :: "string list"
  ps_r_reviewers :: "string list"
  ps_trees :: "(string \<times> string option) list"
  ps_catch_all :: bool
  ps_sections :: "maintainer_section list"

definition parse_init :: parse_state where
  "parse_init = \<lparr>ps_in_header = True, ps_name = [], ps_files = [], ps_excludes = [], ps_regexes = [],
     ps_lists = [], ps_maintainers = [], ps_m_maintainers = [], ps_r_reviewers = [], ps_trees = [],
     ps_catch_all = False, ps_sections = []\<rparr>"

definition has_content :: "parse_state \<Rightarrow> bool" where
  "has_content st \<longleftrightarrow> ps_name st \<noteq> [] \<and>
     (ps_files st \<noteq> [] \<or> ps_regexes st \<noteq> [] \<or> ps_lists st \<noteq> [] \<or> ps_trees st \<noteq> [])"

definition current_section :: "parse_state \<Rightarrow> maintainer_section" where
  "current_section st = \<lparr>sec_name = ps_name st, sec_files = ps_files st, sec_excludes = ps_excludes st,
     sec_regexes = ps_regexes st, sec_mailing_lists = ps_lists st, sec_maintainers = ps_maintainers st,
     sec_m_maintainers = ps_m_maintainers st, sec_r_reviewers = ps_r_reviewers st,
     sec_trees = ps_trees st, sec_catch_all = ps_catch_all st\<rparr>"

text \<open>Both branches of the blank-line case leave the fields empty: by \<open>take\<close> or by \<open>clear\<close>.\<close>

definition parse_blank :: "parse_state \<Rightarrow> parse_state" where
  "parse_blank st =
     (let done_secs = (if has_content st then ps_sections st @ [current_section st] else ps_sections st)
      in st\<lparr>ps_sections := done_secs, ps_name := [], ps_files := [], ps_excludes := [], ps_regexes := [],
            ps_lists := [], ps_maintainers := [], ps_m_maintainers := [], ps_r_reviewers := [],
            ps_trees := [], ps_catch_all := False\<rparr>)"

definition list_email :: "string \<Rightarrow> string" where
  "list_email val =
     trim_chars (\<lambda>c. c = CHR ''<'' \<or> c = CHR ''>'' \<or> c = CHR ''('' \<or> c = CHR '')'')
       (case split_whitespace val of w # _ \<Rightarrow> w | [] \<Rightarrow> val)"

definition parse_tag :: "(string \<Rightarrow> bool) \<Rightarrow> char \<Rightarrow> string \<Rightarrow> parse_state \<Rightarrow> parse_state" where
  "parse_tag re_ok tag val st =
     (if tag = CHR ''F'' then
        (let st1 = st\<lparr>ps_catch_all := ps_catch_all st \<or> val = ''*'' \<or> val = ''*/''\<rparr>
         in if val \<noteq> ''*/'' then st1\<lparr>ps_files := ps_files st1 @ [compile_pattern re_ok val]\<rparr> else st1)
      else if tag = CHR ''X'' then st\<lparr>ps_excludes := ps_excludes st @ [compile_pattern re_ok val]\<rparr>
      else if tag = CHR ''N'' then
        (if re_ok val then st\<lparr>ps_regexes := ps_regexes st @ [val]\<rparr> else st)
      else if tag = CHR ''L'' then
        (let email = list_email val
         in if email \<noteq> [] then st\<lparr>ps_lists := ps_lists st @ [email]\<rparr> else st)
      else if tag = CHR ''M'' then
        st\<lparr>ps_maintainers := ps_maintainers st @ [val], ps_m_maintainers := ps_m_maintainers st @ [val]\<rparr>
      else if tag = CHR ''R'' then
        st\<lparr>ps_maintainers := ps_maintainers st @ [val], ps_r_reviewers := ps_r_reviewers st @ [val]\<rparr>
      else if tag = CHR ''T'' then
        (case strip_prefix ''git '' val of
           Some rest \<Rightarrow>
             (case split_whitespace rest of
                [] \<Rightarrow> st
              | url # others \<Rightarrow>
                  st\<lparr>ps_trees := ps_trees st @ [(url, case others of [] \<Rightarrow> None | b # _ \<Rightarrow> Some b)]\<rparr>)
         | None \<Rightarrow> st)
      else st)"

text \<open>A tag is one ASCII capital before the first colon.\<close>

definition tag_line :: "string \<Rightarrow> (char \<times> string) option" where
  "tag_line trimmed =
     (case split_once (CHR '':'') trimmed of
        Some (tag, value) \<Rightarrow>
          if str_len tag = 1 \<and> is_ascii_upper (hd tag) then Some (hd tag, trim value) else None
      | None \<Rightarrow> None)"

definition parse_line :: "(string \<Rightarrow> bool) \<Rightarrow> string \<Rightarrow> parse_state \<Rightarrow> parse_state" where
  "parse_line re_ok line st =
     (let trimmed = trim line in
      if ps_in_header st then
        (if eq_ascii_nocase trimmed ''maintainers list'' then st\<lparr>ps_in_header := False\<rparr> else st)
      else if trimmed = [] then parse_blank st
      else if prefix ''#'' trimmed then st
      else (case tag_line trimmed of
              Some (tag, val) \<Rightarrow> parse_tag re_ok tag val st
            | None \<Rightarrow>
                if ps_name st = [] \<and> \<not> prefix ''---'' trimmed \<and> \<not> prefix ''==='' trimmed
                then st\<lparr>ps_name := trimmed\<rparr> else st))"

fun parse_lines :: "(string \<Rightarrow> bool) \<Rightarrow> ('e + string) list \<Rightarrow> parse_state \<Rightarrow> 'e + parse_state" where
  "parse_lines re_ok [] st = Inr st"
| "parse_lines re_ok (Inl e # ls) st = Inl e"
| "parse_lines re_ok (Inr line # ls) st = parse_lines re_ok ls (parse_line re_ok line st)"

definition parse_finish :: "parse_state \<Rightarrow> maintainer_section list" where
  "parse_finish st = (if has_content st then ps_sections st @ [current_section st] else ps_sections st)"

definition from_reader :: "(string \<Rightarrow> bool) \<Rightarrow> ('e + string) list \<Rightarrow> 'e + maintainers_index" where
  "from_reader re_ok ls =
     (case parse_lines re_ok ls parse_init of
        Inl e \<Rightarrow> Inl e
      | Inr st \<Rightarrow> Inr (from_sections (parse_finish st)))"

section \<open>The parser's invariant\<close>

text \<open>What every section of the index satisfies, and what the section under construction does already.\<close>

definition fields_ok ::
  "(string \<Rightarrow> bool) \<Rightarrow> compiled_pattern list \<Rightarrow> compiled_pattern list \<Rightarrow> string list \<Rightarrow> string list
     \<Rightarrow> string list \<Rightarrow> string list \<Rightarrow> string list \<Rightarrow> bool" where
  "fields_ok re_ok files excludes regexes mlists maint ms rs \<longleftrightarrow>
     (\<forall>p \<in> set files. compiled_ok re_ok p) \<and> (\<forall>p \<in> set excludes. compiled_ok re_ok p)
     \<and> (\<forall>r \<in> set regexes. re_ok r) \<and> [] \<notin> set mlists \<and> mset maint = mset ms + mset rs"

definition section_ok :: "(string \<Rightarrow> bool) \<Rightarrow> maintainer_section \<Rightarrow> bool" where
  "section_ok re_ok sec \<longleftrightarrow>
     sec_name sec \<noteq> [] \<and> trim (sec_name sec) = sec_name sec
     \<and> (sec_files sec \<noteq> [] \<or> sec_regexes sec \<noteq> [] \<or> sec_mailing_lists sec \<noteq> [] \<or> sec_trees sec \<noteq> [])
     \<and> fields_ok re_ok (sec_files sec) (sec_excludes sec) (sec_regexes sec) (sec_mailing_lists sec)
         (sec_maintainers sec) (sec_m_maintainers sec) (sec_r_reviewers sec)"

definition state_ok :: "(string \<Rightarrow> bool) \<Rightarrow> parse_state \<Rightarrow> bool" where
  "state_ok re_ok st \<longleftrightarrow>
     trim (ps_name st) = ps_name st
     \<and> fields_ok re_ok (ps_files st) (ps_excludes st) (ps_regexes st) (ps_lists st)
         (ps_maintainers st) (ps_m_maintainers st) (ps_r_reviewers st)
     \<and> (\<forall>sec \<in> set (ps_sections st). section_ok re_ok sec)"

lemma current_section_ok: "state_ok re_ok st \<Longrightarrow> has_content st \<Longrightarrow> section_ok re_ok (current_section st)"
  by (auto simp: state_ok_def has_content_def section_ok_def current_section_def)

lemma parse_init_ok: "state_ok re_ok parse_init"
  by (simp add: state_ok_def parse_init_def fields_ok_def)

lemma parse_blank_ok: "state_ok re_ok st \<Longrightarrow> state_ok re_ok (parse_blank st)"
  using current_section_ok [of re_ok st]
  by (auto simp: parse_blank_def state_ok_def fields_ok_def)

lemma compiled_ok_compile [simp]: "compiled_ok re_ok (compile_pattern re_ok raw)"
  by (simp add: compiled_ok_def)

lemma parse_tag_ok: "state_ok re_ok st \<Longrightarrow> state_ok re_ok (parse_tag re_ok tag val st)"
  by (auto simp: parse_tag_def state_ok_def fields_ok_def Let_def split: option.split list.split)

lemma parse_line_ok: "state_ok re_ok st \<Longrightarrow> state_ok re_ok (parse_line re_ok line st)"
  using parse_blank_ok [of re_ok st] parse_tag_ok [of re_ok st]
  by (auto simp: parse_line_def Let_def split: option.split) (auto simp: state_ok_def)

lemma parse_lines_ok: "parse_lines re_ok ls st = Inr st' \<Longrightarrow> state_ok re_ok st \<Longrightarrow> state_ok re_ok st'"
  by (induction re_ok ls st rule: parse_lines.induct) (auto intro: parse_line_ok)

lemma from_reader_sections:
  assumes "from_reader re_ok ls = Inr idx"
  shows "\<forall>sec \<in> set (idx_sections idx). section_ok re_ok sec"
    and "built_index re_ok idx"
proof -
  from assms obtain st where "parse_lines re_ok ls parse_init = Inr st"
    and idx: "idx = from_sections (parse_finish st)"
    by (auto simp: from_reader_def split: sum.splits)
  then have "state_ok re_ok st"
    using parse_lines_ok parse_init_ok by blast
  then show ok: "\<forall>sec \<in> set (idx_sections idx). section_ok re_ok sec"
    using current_section_ok [of re_ok st] by (auto simp: idx parse_finish_def state_ok_def)
  then have "sections_compiled re_ok (parse_finish st)"
    by (auto simp: idx sections_compiled_def section_ok_def fields_ok_def)
  then show "built_index re_ok idx"
    by (simp add: idx built_index.sections)
qed

section \<open>What a section is made of\<close>

text \<open>
  The sections of a file without the state of the loop: what follows the line \<open>Maintainers List\<close> is cut at its blank lines, and each
  block is read for itself. Comments apart, a line either has a tag and gives one value to the field of that tag, or may be the title.
\<close>

definition line_tag :: "string \<Rightarrow> (char \<times> string) option" where
  "line_tag l = (if prefix ''#'' (trim l) then None else tag_line (trim l))"

definition block_values :: "string \<Rightarrow> string list \<Rightarrow> string list" where
  "block_values tags block =
     concat (map (\<lambda>l. case line_tag l of Some (t, v) \<Rightarrow> if t \<in> set tags then [v] else [] | None \<Rightarrow> []) block)"

definition title_line :: "string \<Rightarrow> bool" where
  "title_line l \<longleftrightarrow> \<not> prefix ''#'' (trim l) \<and> tag_line (trim l) = None
     \<and> \<not> prefix ''---'' (trim l) \<and> \<not> prefix ''==='' (trim l)"

definition block_title :: "string list \<Rightarrow> string" where
  "block_title block = (case find title_line block of None \<Rightarrow> [] | Some l \<Rightarrow> trim l)"

definition git_tree :: "string \<Rightarrow> (string \<times> string option) list" where
  "git_tree val =
     (case Option.bind (strip_prefix ''git '' val) (\<lambda>rest. Some (split_whitespace rest)) of
        Some (url # others) \<Rightarrow> [(url, case others of [] \<Rightarrow> None | b # _ \<Rightarrow> Some b)]
      | _ \<Rightarrow> [])"

definition block_section :: "(string \<Rightarrow> bool) \<Rightarrow> string list \<Rightarrow> maintainer_section" where
  "block_section re_ok block =
     \<lparr>sec_name = block_title block,
      sec_files = map (compile_pattern re_ok) (filter (\<lambda>v. v \<noteq> ''*/'') (block_values ''F'' block)),
      sec_excludes = map (compile_pattern re_ok) (block_values ''X'' block),
      sec_regexes = filter re_ok (block_values ''N'' block),
      sec_mailing_lists = filter (\<lambda>e. e \<noteq> []) (map list_email (block_values ''L'' block)),
      sec_maintainers = block_values ''MR'' block, sec_m_maintainers = block_values ''M'' block,
      sec_r_reviewers = block_values ''R'' block, sec_trees = concat (map git_tree (block_values ''T'' block)),
      sec_catch_all = list_ex (\<lambda>v. v = ''*'' \<or> v = ''*/'') (block_values ''F'' block)\<rparr>"

definition section_counts :: "maintainer_section \<Rightarrow> bool" where
  "section_counts sec \<longleftrightarrow> sec_name sec \<noteq> []
     \<and> (sec_files sec \<noteq> [] \<or> sec_regexes sec \<noteq> [] \<or> sec_mailing_lists sec \<noteq> [] \<or> sec_trees sec \<noteq> [])"

function blocks :: "string list \<Rightarrow> string list list" where
  "blocks ls =
     (case dropWhile (\<lambda>l. trim l \<noteq> []) ls of
        [] \<Rightarrow> [ls]
      | _ # rest \<Rightarrow> takeWhile (\<lambda>l. trim l \<noteq> []) ls # blocks rest)"
  by pat_completeness auto
termination
proof (relation "measure length", goal_cases)
  case (2 ls x rest)
  then show ?case
    using length_dropWhile_le [of "\<lambda>l. trim l \<noteq> []" ls] by simp
qed simp

declare blocks.simps [simp del]

definition maintainers_line :: "string \<Rightarrow> bool" where
  "maintainers_line l \<longleftrightarrow> eq_ascii_nocase (trim l) ''maintainers list''"

definition file_sections :: "(string \<Rightarrow> bool) \<Rightarrow> string list \<Rightarrow> maintainer_section list" where
  "file_sections re_ok ls =
     (case dropWhile (\<lambda>l. \<not> maintainers_line l) ls of
        [] \<Rightarrow> []
      | _ # body \<Rightarrow> filter section_counts (map (block_section re_ok) (blocks body)))"

text \<open>The loop over one block adds the values of the block to the fields, and nothing else.\<close>

lemma block_values_Cons:
  "block_values tags (l # block) = (case line_tag l of Some (t, v) \<Rightarrow> if t \<in> set tags then [v] else [] | None \<Rightarrow> []) @ block_values tags block"
  by (simp add: block_values_def)

lemma line_fields:
  assumes "\<not> ps_in_header st" and "trim l \<noteq> []"
  shows "\<not> ps_in_header (parse_line re_ok l st)" "ps_sections (parse_line re_ok l st) = ps_sections st"
    "ps_name (parse_line re_ok l st) = (if ps_name st = [] \<and> title_line l then trim l else ps_name st)"
    "ps_files (parse_line re_ok l st) = ps_files st @ map (compile_pattern re_ok) (filter (\<lambda>v. v \<noteq> ''*/'') (block_values ''F'' [l]))"
    "ps_excludes (parse_line re_ok l st) = ps_excludes st @ map (compile_pattern re_ok) (block_values ''X'' [l])"
    "ps_regexes (parse_line re_ok l st) = ps_regexes st @ filter re_ok (block_values ''N'' [l])"
    "ps_lists (parse_line re_ok l st) = ps_lists st @ filter (\<lambda>e. e \<noteq> []) (map list_email (block_values ''L'' [l]))"
    "ps_maintainers (parse_line re_ok l st) = ps_maintainers st @ block_values ''MR'' [l]"
    "ps_m_maintainers (parse_line re_ok l st) = ps_m_maintainers st @ block_values ''M'' [l]"
    "ps_r_reviewers (parse_line re_ok l st) = ps_r_reviewers st @ block_values ''R'' [l]"
    "ps_trees (parse_line re_ok l st) = ps_trees st @ concat (map git_tree (block_values ''T'' [l]))"
    "ps_catch_all (parse_line re_ok l st) = (ps_catch_all st \<or> list_ex (\<lambda>v. v = ''*'' \<or> v = ''*/'') (block_values ''F'' [l]))"
  using assms
  by (auto simp: parse_line_def Let_def title_line_def block_values_def line_tag_def parse_tag_def git_tree_def
      split: option.split list.split)

lemma block_run:
  fixes re_ok :: "string \<Rightarrow> bool"
  assumes "\<forall>l \<in> set block. trim l \<noteq> []" and "\<not> ps_in_header st"
  defines "st' \<equiv> fold (parse_line re_ok) block st"
  shows "\<not> ps_in_header st' \<and> ps_sections st' = ps_sections st
    \<and> ps_name st' = (if ps_name st = [] then block_title block else ps_name st)
    \<and> ps_files st' = ps_files st @ map (compile_pattern re_ok) (filter (\<lambda>v. v \<noteq> ''*/'') (block_values ''F'' block))
    \<and> ps_excludes st' = ps_excludes st @ map (compile_pattern re_ok) (block_values ''X'' block)
    \<and> ps_regexes st' = ps_regexes st @ filter re_ok (block_values ''N'' block)
    \<and> ps_lists st' = ps_lists st @ filter (\<lambda>e. e \<noteq> []) (map list_email (block_values ''L'' block))
    \<and> ps_maintainers st' = ps_maintainers st @ block_values ''MR'' block
    \<and> ps_m_maintainers st' = ps_m_maintainers st @ block_values ''M'' block
    \<and> ps_r_reviewers st' = ps_r_reviewers st @ block_values ''R'' block
    \<and> ps_trees st' = ps_trees st @ concat (map git_tree (block_values ''T'' block))
    \<and> ps_catch_all st' = (ps_catch_all st \<or> list_ex (\<lambda>v. v = ''*'' \<or> v = ''*/'') (block_values ''F'' block))"
  unfolding st'_def using assms(1,2)
proof (induction block arbitrary: st)
  case Nil
  then show ?case by (simp add: block_values_def block_title_def)
next
  case (Cons l block)
  have split: "block_values tags (l # block) = block_values tags [l] @ block_values tags block" for tags
    by (simp add: block_values_def)
  have title: "block_title (l # block) = (if title_line l then trim l else block_title block)"
    by (simp add: block_title_def)
  from Cons.prems have l: "\<not> ps_in_header st" "trim l \<noteq> []" by auto
  note IH = Cons.IH [OF _ line_fields(1) [OF l, of re_ok]]
  then show ?case
    using Cons.prems by (simp add: line_fields [OF l] split title)
qed

definition between_blocks :: "maintainer_section list \<Rightarrow> parse_state" where
  "between_blocks secs = parse_init\<lparr>ps_in_header := False, ps_sections := secs\<rparr>"

lemma block_done:
  assumes "\<forall>l \<in> set block. trim l \<noteq> []"
  shows "parse_blank (fold (parse_line re_ok) block (between_blocks secs))
    = between_blocks (secs @ filter section_counts [block_section re_ok block])"
proof -
  let ?st = "fold (parse_line re_ok) block (between_blocks secs)"
  have "\<not> ps_in_header (between_blocks secs)" by (simp add: between_blocks_def)
  note run = block_run [OF assms this, of re_ok]
  have cur: "current_section ?st = block_section re_ok block"
    using run by (simp add: current_section_def block_section_def between_blocks_def parse_init_def)
  have "has_content ?st = section_counts (current_section ?st)"
    by (simp add: has_content_def section_counts_def current_section_def)
  with cur have content: "has_content ?st = section_counts (block_section re_ok block)" by simp
  have "ps_sections ?st = secs" "\<not> ps_in_header ?st" using run by (simp_all add: between_blocks_def)
  then show ?thesis
    using content cur by (simp add: parse_blank_def Let_def between_blocks_def parse_init_def)
qed

lemma parse_finish_blank: "parse_finish st = ps_sections (parse_blank st)"
  by (simp add: parse_finish_def parse_blank_def Let_def)

lemma body_run:
  "parse_finish (fold (parse_line re_ok) body (between_blocks secs))
   = secs @ filter section_counts (map (block_section re_ok) (blocks body))"
proof (induction body arbitrary: secs rule: blocks.induct)
  case (1 ls)
  show ?case
  proof (cases "dropWhile (\<lambda>l. trim l \<noteq> []) ls")
    case Nil
    then have "\<forall>l \<in> set ls. trim l \<noteq> []" by (simp add: dropWhile_eq_Nil_conv)
    moreover have "blocks ls = [ls]" using Nil by (subst blocks.simps) (simp only: list.case)
    ultimately show ?thesis
      using block_done [of ls re_ok secs] by (simp add: parse_finish_blank between_blocks_def)
  next
    case (Cons blank rest)
    let ?block = "takeWhile (\<lambda>l. trim l \<noteq> []) ls"
    have ls: "ls = ?block @ blank # rest" using Cons takeWhile_dropWhile_id [of "\<lambda>l. trim l \<noteq> []" ls] by metis
    have blank: "trim blank = []" using hd_dropWhile [of "\<lambda>l. trim l \<noteq> []" ls] Cons by simp
    have block: "\<forall>l \<in> set ?block. trim l \<noteq> []" by (auto dest: set_takeWhileD)
    let ?st = "fold (parse_line re_ok) ?block (between_blocks secs)"
    have "\<not> ps_in_header ?st" using block_run [OF block, of "between_blocks secs" re_ok] by (simp add: between_blocks_def)
    then have "parse_line re_ok blank ?st = parse_blank ?st" using blank by (simp add: parse_line_def Let_def)
    then have "fold (parse_line re_ok) ls (between_blocks secs)
        = fold (parse_line re_ok) rest (between_blocks (secs @ filter section_counts [block_section re_ok ?block]))"
      by (subst ls) (simp only: fold_append fold_simps comp_def block_done [OF block])
    with 1 [OF Cons, of "secs @ filter section_counts [block_section re_ok ?block]"] show ?thesis
      by (simp add: blocks.simps [of ls] Cons)
  qed
qed

lemma header_run: "parse_finish (fold (parse_line re_ok) ls parse_init) = file_sections re_ok ls"
proof (induction ls)
  case Nil
  show ?case by (simp add: file_sections_def parse_finish_def parse_init_def has_content_def)
next
  case (Cons l ls)
  show ?case
  proof (cases "maintainers_line l")
    case True
    then have "parse_line re_ok l parse_init = between_blocks []"
      by (simp add: parse_line_def maintainers_line_def parse_init_def between_blocks_def)
    with True show ?thesis using body_run [of re_ok ls "[]"] by (simp add: file_sections_def)
  next
    case False
    then have "parse_line re_ok l parse_init = parse_init"
      by (simp add: parse_line_def maintainers_line_def parse_init_def)
    with False Cons.IH show ?thesis by (simp add: file_sections_def)
  qed
qed

lemma parse_lines_read: "parse_lines re_ok ls st = Inr st' \<longleftrightarrow> (\<exists>ss. ls = map Inr ss \<and> st' = fold (parse_line re_ok) ss st)"
proof (induction re_ok ls st rule: parse_lines.induct)
  case (3 re_ok line ls st)
  then show ?case by (auto simp: Cons_eq_map_conv)
qed auto

text \<open>
  C31. The parser builds the index that the file describes, or reports a read error, exactly when there is one. Its sections are those of the blocks
  of lines between blank lines after the first line \<open>Maintainers List\<close>, each block read for itself, so that nothing before that line and
  nothing of another block contributes; blocks without a title, or without any file pattern, regular expression, list and tree, are
  dropped. Every section is well formed: the title is trimmed, all patterns are compiled and all regular expressions valid, and the combined
  list of maintainers holds exactly the \<open>M:\<close> and \<open>R:\<close> entries.
\<close>

theorem parsed_index_well_formed:
  "(case from_reader re_ok ls of
      Inl e \<Rightarrow> Inl e \<in> set ls
    | Inr idx \<Rightarrow> (\<exists>ss. ls = map Inr ss \<and> idx_sections idx = file_sections re_ok ss)
        \<and> (\<forall>sec \<in> set (idx_sections idx). section_ok re_ok sec) \<and> built_index re_ok idx)"
proof (cases "from_reader re_ok ls")
  case (Inl e)
  have "parse_lines re_ok ls st = Inl e \<Longrightarrow> Inl e \<in> set ls" for st
    by (induction re_ok ls st rule: parse_lines.induct) auto
  with Inl show ?thesis by (auto simp: from_reader_def split: sum.splits)
next
  case (Inr idx)
  then obtain st where "parse_lines re_ok ls parse_init = Inr st" and idx: "idx = from_sections (parse_finish st)"
    by (auto simp: from_reader_def split: sum.splits)
  then obtain ss where "ls = map Inr ss" and "st = fold (parse_line re_ok) ss parse_init"
    by (auto simp: parse_lines_read)
  with idx have "\<exists>ss. ls = map Inr ss \<and> idx_sections idx = file_sections re_ok ss"
    by (auto simp: header_run)
  then show ?thesis
    using Inr from_reader_sections [OF Inr] by auto
qed

lemma parsed_index_well_formed_witness:
  "\<exists>idx. from_reader (\<lambda>_. True)
     [Inr ''intro'', Inr ''Maintainers List'', Inr ''NET CORE'', Inr ''M: Ann <ann@x.org>'', Inr ''F: net/*'']
     = (Inr idx :: string + maintainers_index) \<and> section_ok (\<lambda>_. True) (hd (idx_sections idx))"
proof -
  let ?ls = "[Inr ''intro'', Inr ''Maintainers List'', Inr ''NET CORE'', Inr ''M: Ann <ann@x.org>'',
    Inr ''F: net/*''] :: (string + string) list"
  obtain idx where idx: "from_reader (\<lambda>_. True) ?ls = Inr idx"
    by (auto simp: from_reader_def)
  moreover have "case from_reader (\<lambda>_. True) ?ls of Inl e \<Rightarrow> False | Inr idx \<Rightarrow> idx_sections idx \<noteq> []"
    by code_simp
  ultimately show ?thesis
    using parsed_index_well_formed [where re_ok = "\<lambda>_. True" and ls = ?ls] by (auto intro!: hd_in_set)
qed

end
