(* ===== verification/Access.thy ===== *)
theory Access
  imports MaintIndex
begin

text \<open>
  What one caller may see and change (\<open>src/src/access.rs\<close>): section titles, the access levels of a
  bug, the principal a request resolves to, and each question the server asks of it. The request
  side is \<open>AuthUser::from_request_parts\<close> and \<open>LocalToken\<close> of \<open>src/src/auth.rs\<close>, and
  \<open>is_authorized\<close> and \<open>presents_local_token\<close> of \<open>src/src/server.rs\<close>.

  Verifying a JSON web token and computing a SHA-256 digest are library calls: the first is the argument
  \<open>verify token secret\<close>, which returns the claims of a valid token, the second the argument
  \<open>digest\<close>.
\<close>

section \<open>Section titles\<close>

record section_title =
  title_original :: string
  title_normalized :: string

definition title_new :: "string \<Rightarrow> section_title" where
  "title_new title =
     \<lparr>title_original = trim title,
      title_normalized = join '' '' (map to_lower (split_whitespace title))\<rparr>"

text \<open>Equality, order and hash run on the normalized form.\<close>

definition title_eq :: "section_title \<Rightarrow> section_title \<Rightarrow> bool" where
  "title_eq a b \<longleftrightarrow> title_normalized a = title_normalized b"

text \<open>A hash set of titles: of equal ones the first stays.\<close>

definition titles_contain :: "section_title list \<Rightarrow> section_title \<Rightarrow> bool" where
  "titles_contain ts t = list_ex (title_eq t) ts"

definition titles_insert :: "section_title list \<Rightarrow> section_title \<Rightarrow> section_title list" where
  "titles_insert ts t = (if titles_contain ts t then ts else ts @ [t])"

section \<open>Access levels\<close>

datatype bug_access = AccessNone | AccessRead | AccessComment | AccessManage

fun access_rank :: "bug_access \<Rightarrow> nat" where
  "access_rank AccessNone = 0"
| "access_rank AccessRead = 1"
| "access_rank AccessComment = 2"
| "access_rank AccessManage = 3"

lemma access_rank_inj [simp]: "access_rank a = access_rank b \<longleftrightarrow> a = b"
  by (cases a; cases b) auto

instantiation bug_access :: linorder
begin

definition less_eq_bug_access :: "bug_access \<Rightarrow> bug_access \<Rightarrow> bool" where
  "a \<le> b \<longleftrightarrow> access_rank a \<le> access_rank b"

definition less_bug_access :: "bug_access \<Rightarrow> bug_access \<Rightarrow> bool" where
  "a < b \<longleftrightarrow> access_rank a < access_rank b"

instance
  by standard (auto simp: less_eq_bug_access_def less_bug_access_def)

end

definition can_read :: "bug_access \<Rightarrow> bool" where "can_read a \<longleftrightarrow> AccessRead \<le> a"

definition can_comment :: "bug_access \<Rightarrow> bool" where "can_comment a \<longleftrightarrow> AccessComment \<le> a"

definition can_manage :: "bug_access \<Rightarrow> bool" where "can_manage a \<longleftrightarrow> AccessManage \<le> a"

lemmas access_level_defs = can_read_def can_comment_def can_manage_def less_eq_bug_access_def

definition access_parse :: "string \<Rightarrow> bug_access option" where
  "access_parse s0 =
     (let s = to_ascii_lower (trim s0) in
      if s = ''none'' then Some AccessNone
      else if s = ''read'' then Some AccessRead
      else if s = ''comment'' then Some AccessComment
      else if s = ''manage'' then Some AccessManage
      else None)"

fun access_describe :: "bug_access \<Rightarrow> string" where
  "access_describe AccessNone = ''no''"
| "access_describe AccessRead = ''read''"
| "access_describe AccessComment = ''comment''"
| "access_describe AccessManage = ''maintainer''"

section \<open>Principals\<close>

record principal =
  p_email :: string
  p_operator :: bool
  p_security :: bool
  p_global_maintainer :: bool
  p_sections :: "section_title list"
  p_may_create :: bool
  p_max_access :: "bug_access option"

definition anonymous :: principal where
  "anonymous = \<lparr>p_email = [], p_operator = False, p_security = False, p_global_maintainer = False,
     p_sections = [], p_may_create = False, p_max_access = None\<rparr>"

definition resolve :: "string \<Rightarrow> acl_settings \<Rightarrow> maintainers_index option \<Rightarrow> principal" where
  "resolve email acl maintainers =
     (if trim email = [] \<or> is_blocklisted acl email then anonymous
      else
        \<lparr>p_email = trim email,
         p_operator = is_admin acl email,
         p_security = is_security acl email,
         p_global_maintainer =
           (case maintainers of None \<Rightarrow> False | Some idx \<Rightarrow> is_global_maintainer idx email),
         p_sections =
           (case Option.bind maintainers (\<lambda>idx. subsystems_for_address idx email) of
              None \<Rightarrow> []
            | Some titles \<Rightarrow> fold (\<lambda>t ts. titles_insert ts (title_new t)) (sorted_list_of_set titles) []),
         p_may_create = (is_admin acl email \<or> is_bug_reporter acl email),
         p_max_access = None\<rparr>)"

definition with_max_access :: "bug_access option \<Rightarrow> principal \<Rightarrow> principal" where
  "with_max_access mx p =
     (let p1 = p\<lparr>p_max_access := mx\<rparr> in
      case mx of
        Some limit \<Rightarrow> if limit < AccessManage then p1\<lparr>p_may_create := False\<rparr> else p1
      | None \<Rightarrow> p1)"

definition maintains_any :: "principal \<Rightarrow> section_title list \<Rightarrow> bool" where
  "maintains_any p attributed = list_ex (titles_contain (p_sections p)) attributed"

definition access_to_with_bugid :: "principal \<Rightarrow> section_title list \<Rightarrow> bool \<Rightarrow> bug_access" where
  "access_to_with_bugid p attributed has_bugid =
     (let base =
        (if p_operator p \<or> p_global_maintainer p \<or> maintains_any p attributed then AccessManage
         else if p_security p then AccessComment
         else if has_bugid then AccessRead
         else AccessNone)
      in case p_max_access p of Some limit \<Rightarrow> min base limit | None \<Rightarrow> base)"

definition access_to :: "principal \<Rightarrow> section_title list \<Rightarrow> bug_access" where
  "access_to p attributed = access_to_with_bugid p attributed False"

text \<open>\<open>max_access.is_none_or(can_read)\<close>: no ceiling, or one that still lets the holder read.\<close>

definition ceiling_reads :: "principal \<Rightarrow> bool" where
  "ceiling_reads p = (case p_max_access p of None \<Rightarrow> True | Some m \<Rightarrow> can_read m)"

definition has_global_bug_visibility :: "principal \<Rightarrow> bool" where
  "has_global_bug_visibility p \<longleftrightarrow>
     (p_operator p \<or> p_security p \<or> p_global_maintainer p) \<and> ceiling_reads p"

definition may_view_embargoed :: "principal \<Rightarrow> section_title list \<Rightarrow> bool" where
  "may_view_embargoed p attributed =
     (if \<not> ceiling_reads p then False
      else p_operator p \<or> p_global_maintainer p \<or> maintains_any p attributed)"

definition has_global_embargo_visibility :: "principal \<Rightarrow> bool" where
  "has_global_embargo_visibility p \<longleftrightarrow> ceiling_reads p \<and> (p_operator p \<or> p_global_maintainer p)"

definition has_any_embargo_visibility :: "principal \<Rightarrow> bool" where
  "has_any_embargo_visibility p \<longleftrightarrow>
     ceiling_reads p \<and> (p_operator p \<or> p_global_maintainer p \<or> p_sections p \<noteq> [])"

definition may_release_embargo :: "principal \<Rightarrow> section_title list \<Rightarrow> bool" where
  "may_release_embargo p attributed = can_manage (access_to p attributed)"

definition maintained_section_names :: "principal \<Rightarrow> string list" where
  "maintained_section_names p = sort (map title_original (p_sections p))"

datatype bug_visibility = Unrestricted | VisibleSections "string list"

definition visibility :: "principal \<Rightarrow> string list \<Rightarrow> bug_visibility" where
  "visibility p scope =
     (if \<not> ceiling_reads p then VisibleSections []
      else if has_global_bug_visibility p then Unrestricted
      else VisibleSections scope)"

definition testing_operator :: principal where
  "testing_operator = anonymous\<lparr>p_operator := True, p_may_create := True\<rparr>"

section \<open>Transcripts\<close>

datatype transcript_access = Denied | Granted

definition is_granted :: "transcript_access \<Rightarrow> bool" where
  "is_granted t \<longleftrightarrow> t = Granted"

record transcript_principal =
  tp_principal :: principal
  tp_local_operator :: bool

definition transcript_anonymous :: transcript_principal where
  "transcript_anonymous = \<lparr>tp_principal = anonymous, tp_local_operator = False\<rparr>"

definition is_series_author :: "principal \<Rightarrow> string option \<Rightarrow> bool" where
  "is_series_author p author \<longleftrightarrow> p_email p \<noteq> [] \<and>
     (case Option.bind author maintainer_address of
        None \<Rightarrow> False
      | Some author_email \<Rightarrow> eq_ascii_nocase (p_email p) author_email)"

definition access_to_patchset ::
  "transcript_principal \<Rightarrow> section_title list \<Rightarrow> string option \<Rightarrow> transcript_access" where
  "access_to_patchset tp attributed author =
     (let p = tp_principal tp in
      if tp_local_operator tp then Granted
      else if \<not> ceiling_reads p then Denied
      else if has_global_bug_visibility p then Granted
      else if maintains_any p attributed then Granted
      else if is_series_author p author then Granted
      else Denied)"

section \<open>The request edge\<close>

record claims =
  cl_sub :: string
  cl_iat :: "nat option"
  cl_sid :: "string option"
  cl_typ :: "string option"
  cl_max_bug_access :: "string option"

record auth_user =
  au_email :: string
  au_iat :: "nat option"
  au_sid :: "string option"
  au_typ :: "string option"
  au_max_bug_access :: "string option"

text \<open>The part of the server's state that authorization reads; the environment's \<open>JWT_SECRET\<close> is a field.\<close>

record server_state =
  sv_acl :: acl_settings
  sv_testing_mode :: bool
  sv_allow_all_submit :: bool
  sv_jwt_secret :: "string option"
  sv_env_secret :: "string option"
  sv_local_token :: "string option"
  sv_maintainers :: "maintainers_index option"

datatype status_code = Unauthorized | InternalServerError

type_synonym rejection = "status_code \<times> string"

text \<open>The \<open>Authorization\<close> header is its value when it is a readable string.\<close>

definition bearer :: "string option \<Rightarrow> string option" where
  "bearer header = Option.bind header (strip_prefix ''Bearer '')"

definition auth_user_from_parts ::
  "(string \<Rightarrow> string \<Rightarrow> claims option) \<Rightarrow> server_state \<Rightarrow> string option \<Rightarrow> rejection + auth_user" where
  "auth_user_from_parts verify st header =
     (case bearer header of
        None \<Rightarrow> Inl (Unauthorized, ''Please log in to access bugs repository.'')
      | Some token \<Rightarrow>
          (case (case sv_jwt_secret st of Some s \<Rightarrow> Some s | None \<Rightarrow> sv_env_secret st) of
             None \<Rightarrow> Inl (InternalServerError, ''JWT_SECRET is not configured on the server.'')
           | Some secret \<Rightarrow>
               (case verify token secret of
                  Some cl \<Rightarrow>
                    if cl_typ cl = Some ''session'' \<or> cl_typ cl = Some ''api_token'' then
                      Inr \<lparr>au_email = cl_sub cl, au_iat = cl_iat cl, au_sid = cl_sid cl,
                           au_typ = cl_typ cl, au_max_bug_access = cl_max_bug_access cl\<rparr>
                    else Inl (Unauthorized,
                      ''Invalid token type. Only session or API tokens are accepted.'')
                | None \<Rightarrow> Inl (Unauthorized,
                    ''Your session has expired or is invalid. Please log in again.''))))"

definition principal_from_parts ::
  "(string \<Rightarrow> string \<Rightarrow> claims option) \<Rightarrow> server_state \<Rightarrow> string option \<Rightarrow> rejection + principal" where
  "principal_from_parts verify st header =
     (if sv_testing_mode st then Inr testing_operator
      else (case auth_user_from_parts verify st header of
              Inl e \<Rightarrow> Inl e
            | Inr user \<Rightarrow>
                if (case au_sid user of None \<Rightarrow> False | Some sid \<Rightarrow> is_blocklisted (sv_acl st) sid)
                then Inl (Unauthorized, ''Token has been revoked.'')
                else (case au_max_bug_access user of
                        None \<Rightarrow> Inr (with_max_access None
                                  (resolve (au_email user) (sv_acl st) (sv_maintainers st)))
                      | Some s \<Rightarrow>
                          (case access_parse s of
                             Some level \<Rightarrow> Inr (with_max_access (Some level)
                                  (resolve (au_email user) (sv_acl st) (sv_maintainers st)))
                           | None \<Rightarrow> Inl (Unauthorized, ''Invalid max_bug_access claim in token.'')))))"

definition optional_principal ::
  "(string \<Rightarrow> string \<Rightarrow> claims option) \<Rightarrow> server_state \<Rightarrow> string option \<Rightarrow> principal" where
  "optional_principal verify st header =
     (case principal_from_parts verify st header of Inr p \<Rightarrow> p | Inl _ \<Rightarrow> anonymous)"

text \<open>The local operator token: 64 hexadecimal digits, compared by digest.\<close>

definition is_token_shaped :: "string \<Rightarrow> bool" where
  "is_token_shaped v \<longleftrightarrow> str_len v = 64 \<and> list_all is_hexdigit v"

definition token_matches :: "(string \<Rightarrow> 'd) \<Rightarrow> string \<Rightarrow> string \<Rightarrow> bool" where
  "token_matches digest secret presented =
     (if \<not> is_token_shaped presented then False else digest secret = digest presented)"

definition presents_local_token :: "(string \<Rightarrow> 'd) \<Rightarrow> server_state \<Rightarrow> string option \<Rightarrow> bool" where
  "presents_local_token digest st header =
     (case sv_local_token st of
        None \<Rightarrow> False
      | Some secret \<Rightarrow>
          (case bearer header of
             None \<Rightarrow> False
           | Some presented \<Rightarrow> token_matches digest secret (trim presented)))"

definition transcript_from_parts ::
  "(string \<Rightarrow> string \<Rightarrow> claims option) \<Rightarrow> (string \<Rightarrow> 'd) \<Rightarrow> server_state \<Rightarrow> string option
     \<Rightarrow> transcript_principal" where
  "transcript_from_parts verify digest st header =
     \<lparr>tp_principal = (case principal_from_parts verify st header of Inr p \<Rightarrow> p | Inl _ \<Rightarrow> anonymous),
      tp_local_operator = presents_local_token digest st header\<rparr>"

definition is_authorized ::
  "(string \<Rightarrow> 'd) \<Rightarrow> server_state \<Rightarrow> string option \<Rightarrow> auth_user option \<Rightarrow> permission \<Rightarrow> bool" where
  "is_authorized digest st header auth perm =
     (if (case auth of
            None \<Rightarrow> False
          | Some user \<Rightarrow> is_blocklisted (sv_acl st) (au_email user)
              \<or> (case au_sid user of None \<Rightarrow> False | Some sid \<Rightarrow> is_blocklisted (sv_acl st) sid)
              \<or> au_typ user = Some ''api_token'')
      then False
      else if sv_testing_mode st then True
      else if sv_allow_all_submit st then True
      else if presents_local_token digest st header \<and> granted_by_local_token perm then True
      else (case auth of Some user \<Rightarrow> has_permission (sv_acl st) (au_email user) perm | None \<Rightarrow> False))"

section \<open>Which bugs a listing returns\<close>

text \<open>
  The scope predicate of a listing (\<open>authorized_bug_ids_subquery\<close>): a bug is listed when one of its
  stored titles from the MAINTAINERS file or from an upstream grant equals a title of the
  scope, compared without ASCII case.
\<close>

definition confers_authority :: "subsystem_source \<Rightarrow> bool" where
  "confers_authority src \<longleftrightarrow> src = MaintainersSection \<or> src = UpstreamGrant"

definition source_from_stored :: "string \<Rightarrow> subsystem_source" where
  "source_from_stored value =
     (if value = ''maintainers_section'' then MaintainersSection
      else if value = ''path_prefix'' then PathPrefix
      else CallerSupplied)"

definition scope_titles :: "string list \<Rightarrow> string list" where
  "scope_titles scope = filter (\<lambda>t. t \<noteq> []) (map trim scope)"

definition lists_bug :: "bug_visibility \<Rightarrow> attributed_subsystem list \<Rightarrow> bool" where
  "lists_bug vis rows =
     (case vis of
        Unrestricted \<Rightarrow> True
      | VisibleSections scope \<Rightarrow>
          list_ex (\<lambda>row. confers_authority (att_source row)
              \<and> list_ex (eq_ascii_nocase (att_name row)) (scope_titles scope)) rows)"

definition bug_titles :: "attributed_subsystem list \<Rightarrow> section_title list" where
  "bug_titles rows = map (\<lambda>row. title_new (att_name row)) (filter (\<lambda>row. confers_authority (att_source row)) rows)"

section \<open>Laws of the questions\<close>

lemma maintains_any_iff:
  "maintains_any p attributed \<longleftrightarrow>
     (\<exists>t \<in> set attributed. \<exists>m \<in> set (p_sections p). title_normalized m = title_normalized t)"
  by (auto simp: maintains_any_def titles_contain_def title_eq_def list_ex_iff) metis+

lemma min_le_rank: "access_rank (min a b) = min (access_rank a) (access_rank b)"
  by (auto simp: min_def less_eq_bug_access_def)

lemma ceiling_split:
  "can_read (access_to_with_bugid p att b) \<longleftrightarrow> ceiling_reads p \<and>
     (p_operator p \<or> p_global_maintainer p \<or> maintains_any p att \<or> p_security p \<or> b)"
  "can_comment (access_to_with_bugid p att b) \<longleftrightarrow>
     (case p_max_access p of None \<Rightarrow> True | Some m \<Rightarrow> can_comment m) \<and>
     (p_operator p \<or> p_global_maintainer p \<or> maintains_any p att \<or> p_security p)"
  "can_manage (access_to_with_bugid p att b) \<longleftrightarrow>
     (case p_max_access p of None \<Rightarrow> True | Some m \<Rightarrow> can_manage m) \<and>
     (p_operator p \<or> p_global_maintainer p \<or> maintains_any p att)"
  by (auto simp: access_to_with_bugid_def access_level_defs ceiling_reads_def min_le_rank
      split: option.splits)

text \<open>
  C16. The access decision for one bug, branch by branch: to change it a caller must be an operator,
  a maintainer of the whole tree or of an attributed section (titles compared in normal form);
  the security list may also comment; to read it, knowing its identifier is enough as well; and in each case
  the ceiling of a scoped token must allow the level.
\<close>

theorem bug_access_decision:
  "(can_manage (access_to_with_bugid p att b) \<longleftrightarrow>
      (\<forall>m. p_max_access p = Some m \<longrightarrow> m = AccessManage) \<and>
      (p_operator p \<or> p_global_maintainer p \<or>
       (\<exists>t \<in> set att. \<exists>s \<in> set (p_sections p). title_eq s t)))
   \<and> (can_comment (access_to_with_bugid p att b) \<longleftrightarrow>
      (\<forall>m. p_max_access p = Some m \<longrightarrow> AccessComment \<le> m) \<and>
      (p_security p \<or> p_operator p \<or> p_global_maintainer p \<or>
       (\<exists>t \<in> set att. \<exists>s \<in> set (p_sections p). title_eq s t)))
   \<and> (can_read (access_to_with_bugid p att b) \<longleftrightarrow>
      p_max_access p \<noteq> Some AccessNone \<and>
      (b \<or> p_security p \<or> p_operator p \<or> p_global_maintainer p \<or>
       (\<exists>t \<in> set att. \<exists>s \<in> set (p_sections p). title_eq s t)))"
proof -
  have levels: "can_manage m \<longleftrightarrow> m = AccessManage" "can_read m \<longleftrightarrow> m \<noteq> AccessNone" for m
    by (cases m; simp add: access_level_defs)+
  have any: "maintains_any p att \<longleftrightarrow> (\<exists>t \<in> set att. \<exists>s \<in> set (p_sections p). title_eq s t)"
    by (simp add: maintains_any_iff title_eq_def)
  show ?thesis
    unfolding ceiling_split any
    by (cases "p_max_access p") (auto simp: levels ceiling_reads_def can_comment_def)
qed

lemma bug_access_decision_witness:
  "can_manage (access_to_with_bugid (anonymous\<lparr>p_sections := [title_new ''BTRFS  file System'']\<rparr>)
     [title_new ''Btrfs FILE system''] False)"
proof -
  have "title_eq (title_new ''BTRFS  file System'') (title_new ''Btrfs FILE system'')"
    by code_simp
  then show ?thesis
    using bug_access_decision [of "anonymous\<lparr>p_sections := [title_new ''BTRFS  file System'']\<rparr>"
        "[title_new ''Btrfs FILE system'']" False]
    by (simp add: anonymous_def)
qed

text \<open>
  C7. Scoping a token never adds authority. Every question about the principal of a token with a ceiling is the question
  about the same principal without one, cut at the ceiling: an access level is the smaller of the two; what asks for the full
  authority (filing bugs, releasing an embargo) needs the ceiling to be the top level; everything else that grants (global views, views of
  embargoed patchsets, what listings show, transcripts but for the local operator) needs a ceiling that still reads.
\<close>

theorem scoped_token_never_widens:
  assumes "p_max_access p = None"
  shows "access_to_with_bugid (with_max_access (Some m) p) att b = min (access_to_with_bugid p att b) m
    \<and> access_to (with_max_access (Some m) p) att = min (access_to p att) m
    \<and> p_may_create (with_max_access (Some m) p) = (p_may_create p \<and> m = AccessManage)
    \<and> may_release_embargo (with_max_access (Some m) p) att = (may_release_embargo p att \<and> m = AccessManage)
    \<and> has_global_bug_visibility (with_max_access (Some m) p) = (has_global_bug_visibility p \<and> can_read m)
    \<and> may_view_embargoed (with_max_access (Some m) p) att = (may_view_embargoed p att \<and> can_read m)
    \<and> has_global_embargo_visibility (with_max_access (Some m) p) = (has_global_embargo_visibility p \<and> can_read m)
    \<and> has_any_embargo_visibility (with_max_access (Some m) p) = (has_any_embargo_visibility p \<and> can_read m)
    \<and> visibility (with_max_access (Some m) p) scope = (if can_read m then visibility p scope else VisibleSections [])
    \<and> is_granted (access_to_patchset \<lparr>tp_principal = with_max_access (Some m) p, tp_local_operator = lo\<rparr> att au)
        = (lo \<or> is_granted (access_to_patchset \<lparr>tp_principal = p, tp_local_operator = False\<rparr> att au) \<and> can_read m)"
proof -
  let ?q = "with_max_access (Some m) p"
  have same: "p_operator ?q = p_operator p" "p_security ?q = p_security p"
    "p_global_maintainer ?q = p_global_maintainer p" "p_sections ?q = p_sections p"
    "p_email ?q = p_email p" "p_max_access ?q = Some m"
    by (simp_all add: with_max_access_def Let_def)
  have any: "maintains_any ?q = maintains_any p"
    by (simp add: maintains_any_def fun_eq_iff same)
  have author: "is_series_author ?q au = is_series_author p au"
    by (cases "Option.bind au maintainer_address") (simp_all add: is_series_author_def same)
  have reads: "ceiling_reads p" "ceiling_reads ?q = can_read m"
    using assms by (simp_all add: ceiling_reads_def same)
  have cut: "access_to_with_bugid ?q att b = min (access_to_with_bugid p att b) m" for b
    using assms by (simp add: access_to_with_bugid_def Let_def same any)
  moreover have "access_to ?q att = min (access_to p att) m" by (simp add: access_to_def cut)
  moreover have "p_may_create ?q = (p_may_create p \<and> m = AccessManage)"
    by (cases m) (simp_all add: with_max_access_def less_bug_access_def)
  moreover have "may_release_embargo ?q att = (may_release_embargo p att \<and> m = AccessManage)"
    unfolding may_release_embargo_def access_to_def cut
    by (cases m; cases "access_to_with_bugid p att False") (simp_all add: can_manage_def min_def less_eq_bug_access_def)
  moreover have visible: "has_global_bug_visibility ?q = (has_global_bug_visibility p \<and> can_read m)"
    by (auto simp: has_global_bug_visibility_def same reads)
  moreover have "may_view_embargoed ?q att = (may_view_embargoed p att \<and> can_read m)"
    "has_global_embargo_visibility ?q = (has_global_embargo_visibility p \<and> can_read m)"
    "has_any_embargo_visibility ?q = (has_any_embargo_visibility p \<and> can_read m)"
    by (auto simp: may_view_embargoed_def has_global_embargo_visibility_def has_any_embargo_visibility_def same any reads)
  moreover have "visibility ?q scope = (if can_read m then visibility p scope else VisibleSections [])"
    by (simp add: visibility_def reads visible)
  moreover have "is_granted (access_to_patchset \<lparr>tp_principal = ?q, tp_local_operator = lo\<rparr> att au)
        = (lo \<or> is_granted (access_to_patchset \<lparr>tp_principal = p, tp_local_operator = False\<rparr> att au) \<and> can_read m)"
    by (simp add: access_to_patchset_def Let_def is_granted_def reads visible any author)
  ultimately show ?thesis by blast
qed

lemma scoped_token_never_widens_witness:
  "access_to_with_bugid (with_max_access (Some AccessRead) testing_operator) [] False = AccessRead"
proof -
  have "p_max_access testing_operator = None"
    by (simp add: testing_operator_def anonymous_def)
  from scoped_token_never_widens [OF this, of AccessRead "[]" False]
  have "access_to_with_bugid (with_max_access (Some AccessRead) testing_operator) [] False
      = min (access_to_with_bugid testing_operator [] False) AccessRead" by blast
  then show ?thesis by code_simp
qed

lemma anonymous_holds_nothing:
  "access_to (with_max_access mx anonymous) att = AccessNone"
  "access_to_with_bugid (with_max_access mx anonymous) att True = (case mx of None \<Rightarrow> AccessRead | Some m \<Rightarrow> min AccessRead m)"
  "\<not> p_may_create (with_max_access mx anonymous)"
  "\<not> may_view_embargoed (with_max_access mx anonymous) att"
  "\<not> has_any_embargo_visibility (with_max_access mx anonymous)"
  "visibility (with_max_access mx anonymous) [] = VisibleSections []"
proof -
  let ?p = "with_max_access mx anonymous"
  have f: "\<not> p_operator ?p" "\<not> p_security ?p" "\<not> p_global_maintainer ?p" "p_sections ?p = []" "p_max_access ?p = mx"
    by (cases mx; simp add: with_max_access_def anonymous_def Let_def)+
  show "\<not> p_may_create ?p"
    by (cases mx) (simp_all add: with_max_access_def anonymous_def Let_def)
  from f have "\<not> maintains_any ?p att" for att
    by (simp add: maintains_any_iff)
  with f show "access_to ?p att = AccessNone" "\<not> may_view_embargoed ?p att" "\<not> has_any_embargo_visibility ?p"
    "access_to_with_bugid ?p att True = (case mx of None \<Rightarrow> AccessRead | Some m \<Rightarrow> min AccessRead m)"
    "visibility ?p [] = VisibleSections []"
    by (simp_all add: access_to_def access_to_with_bugid_def min_def less_eq_bug_access_def has_any_embargo_visibility_def
        may_view_embargoed_def has_global_bug_visibility_def visibility_def split: option.split)
qed


definition example_server :: server_state where
  "example_server = \<lparr>sv_acl = acl_default\<lparr>security := [''sec@k.org'']\<rparr>, sv_testing_mode = False,
     sv_allow_all_submit = False, sv_jwt_secret = Some ''k'', sv_env_secret = None,
     sv_local_token = None, sv_maintainers = None\<rparr>"

definition example_verify :: "string \<Rightarrow> string \<Rightarrow> claims option" where
  "example_verify token secret =
     (if token = ''tok'' \<and> secret = ''k''
      then Some \<lparr>cl_sub = ''Sec@k.org'', cl_iat = None, cl_sid = None, cl_typ = Some ''session'',
                 cl_max_bug_access = Some '' READ ''\<rparr>
      else None)"


text \<open>
  C24. The server's capability check: a presented identity that is blocked, whose session is revoked, or
  that comes from an API token is refused before every bypass; otherwise testing mode, open submission,
  the local token or the configured lists grant, and without an identity and a bypass nothing does.
\<close>

theorem authorization_order:
  "is_authorized digest st header auth perm \<longleftrightarrow>
     \<not> (\<exists>user. auth = Some user \<and>
          (is_blocklisted (sv_acl st) (au_email user) \<or> au_typ user = Some ''api_token''
           \<or> (\<exists>sid. au_sid user = Some sid \<and> is_blocklisted (sv_acl st) sid)))
     \<and> (sv_testing_mode st \<or> sv_allow_all_submit st
        \<or> (\<exists>secret presented. sv_local_token st = Some secret \<and> header = Some (''Bearer '' @ presented)
             \<and> is_token_shaped (trim presented) \<and> digest secret = digest (trim presented))
        \<or> (\<exists>user. auth = Some user \<and> has_permission (sv_acl st) (au_email user) perm))"
proof -
  have local: "presents_local_token digest st header \<longleftrightarrow>
      (\<exists>secret presented. sv_local_token st = Some secret \<and> header = Some (''Bearer '' @ presented)
         \<and> is_token_shaped (trim presented) \<and> digest secret = digest (trim presented))"
    by (cases header; cases "sv_local_token st")
      (auto simp: presents_local_token_def bearer_def strip_prefix_def token_matches_def prefix_def)
  have "granted_by_local_token perm" by (cases perm) simp_all
  then show ?thesis
    unfolding is_authorized_def local [symmetric]
    by (cases auth) (auto split: option.splits)
qed

text \<open>The questions about embargoes and transcripts agree with each other.\<close>

text \<open>
  The questions are consistent: who may release an embargo may view it; who may view one on
  some patchset is counted as having embargo visibility; a global view is a view of every
  patchset; whoever sees every bug can read each bug and every transcript; and a section maintainer who
  may read a transcript can read the bugs of that section too.
\<close>

theorem questions_consistent:
  "(may_release_embargo p att \<longrightarrow> may_view_embargoed p att)
   \<and> (may_view_embargoed p att \<longrightarrow> has_any_embargo_visibility p)
   \<and> (has_global_embargo_visibility p \<longrightarrow> may_view_embargoed p att)
   \<and> (has_global_bug_visibility p \<longrightarrow> can_read (access_to p att))
   \<and> (has_global_bug_visibility p \<longrightarrow> is_granted (access_to_patchset \<lparr>tp_principal = p, tp_local_operator = lo\<rparr> att au))
   \<and> (may_view_embargoed p att \<longrightarrow> is_granted (access_to_patchset \<lparr>tp_principal = p, tp_local_operator = lo\<rparr> att au))
   \<and> (is_granted (access_to_patchset \<lparr>tp_principal = p, tp_local_operator = False\<rparr> att au)
        \<and> \<not> is_series_author p au \<longrightarrow> can_read (access_to p att))"
proof -
  have manage: "ceiling_reads p" if "case p_max_access p of None \<Rightarrow> True | Some m \<Rightarrow> can_manage m"
    using that by (auto simp: ceiling_reads_def access_level_defs split: option.splits)
  have sections: "p_sections p \<noteq> []" if "maintains_any p att"
    using that by (auto simp: maintains_any_iff)
  show ?thesis
    using manage sections
    by (auto simp: may_release_embargo_def may_view_embargoed_def access_to_def ceiling_split
        has_any_embargo_visibility_def has_global_embargo_visibility_def has_global_bug_visibility_def
        access_to_patchset_def is_granted_def Let_def)
qed

lemma questions_consistent_witness:
  "may_release_embargo testing_operator [] \<and> may_view_embargoed testing_operator []"
proof -
  have "may_release_embargo testing_operator []" by code_simp
  then show ?thesis using questions_consistent [of testing_operator "[]"] by blast
qed

section \<open>Listings stay within what may be read\<close>

lemma title_normalized_ascii:
  assumes "eq_ascii_nocase n (trim t)"
  shows "title_normalized (title_new n) = title_normalized (title_new t)"
proof -
  have lower: "map to_lower (split_whitespace s) = map to_lower (split_whitespace (to_ascii_lower s))" for s
  proof -
    have "to_lower \<circ> map ascii_lower = to_lower"
      by (simp add: to_lower_def fun_eq_iff)
    then show ?thesis
      by (simp add: to_ascii_lower_def split_whitespace_map)
  qed
  from assms have "to_ascii_lower n = to_ascii_lower (trim t)"
    by (simp add: eq_ascii_nocase_def)
  then show ?thesis
    using lower [of n] lower [of "trim t"] by (simp add: title_new_def)
qed

lemma resolve_titles:
  assumes "m \<in> set (p_sections (resolve email acl idx))"
  shows "\<exists>t. m = title_new t"
proof -
  have "\<exists>t. m = title_new t" if "m \<in> set (fold (\<lambda>t ts. titles_insert ts (title_new t)) ns ts)"
    "\<forall>m \<in> set ts. \<exists>t. m = title_new t" for ns ts
    using that
  proof (induction ns arbitrary: ts)
    case (Cons n ns)
    have "\<forall>m \<in> set (titles_insert ts (title_new n)). \<exists>t. m = title_new t"
      using Cons.prems(2) by (auto simp: titles_insert_def)
    with Cons show ?case by auto
  qed simp
  then show ?thesis
    using assms by (auto simp: resolve_def anonymous_def split: if_splits option.splits)
qed

text \<open>
  C29. A listing never shows what a direct request would refuse: for every principal a request resolves
  to, the bugs that its own visibility filter lets through (section titles stored with the bug, compared
  in SQL without ASCII case) are bugs it may read.
\<close>

theorem listing_within_access:
  assumes "p = with_max_access mx (resolve email acl idx)"
    and "lists_bug (visibility p (maintained_section_names p)) rows"
  shows "can_read (access_to p (bug_titles rows))"
proof -
  have reads: "ceiling_reads p"
    using assms(2) by (auto simp: visibility_def lists_bug_def scope_titles_def list_ex_iff split: if_splits)
  show ?thesis
  proof (cases "has_global_bug_visibility p")
    case True
    then show ?thesis
      by (auto simp: has_global_bug_visibility_def access_to_def ceiling_split)
  next
    case False
    with assms(2) reads obtain row m where row: "row \<in> set rows" "confers_authority (att_source row)"
      and m: "m \<in> set (p_sections p)" "eq_ascii_nocase (att_name row) (trim (title_original m))"
      by (auto simp: visibility_def lists_bug_def scope_titles_def list_ex_iff maintained_section_names_def)
    have "p_sections p = p_sections (resolve email acl idx)"
      by (simp add: assms(1) with_max_access_def Let_def split: option.split)
    then obtain t where t: "m = title_new t"
      using m(1) resolve_titles by metis
    then have "title_normalized m = title_normalized (title_new (att_name row))"
      using title_normalized_ascii [of "att_name row" t] m(2) by (simp add: title_new_def)
    moreover have "title_new (att_name row) \<in> set (bug_titles rows)"
      using row by (auto simp: bug_titles_def)
    ultimately have "maintains_any p (bug_titles rows)"
      using m(1) by (auto simp: maintains_any_iff)
    with reads show ?thesis by (simp add: access_to_def ceiling_split)
  qed
qed

definition example_index :: maintainers_index where
  "example_index = from_sections
     [(example_section ''NET'' [''net/''])\<lparr>sec_maintainers := [''Ann <Ann@x.org>'']\<rparr>]"

lemma listing_within_access_witness:
  "can_read (access_to (with_max_access None (resolve ''ann@X.org'' acl_default (Some example_index)))
     (bug_titles [\<lparr>att_name = ''net'', att_source = MaintainersSection\<rparr>]))"
proof (rule listing_within_access [OF refl])
  show "lists_bug (visibility (with_max_access None (resolve ''ann@X.org'' acl_default (Some example_index)))
      (maintained_section_names (with_max_access None (resolve ''ann@X.org'' acl_default (Some example_index)))))
      [\<lparr>att_name = ''net'', att_source = MaintainersSection\<rparr>]"
    by code_simp
qed

section \<open>The spelling of an address\<close>

lemma same_standing:
  fixes p q :: principal
  assumes "p\<lparr>p_email := []\<rparr> = q\<lparr>p_email := []\<rparr>"
  shows "p_operator p = p_operator q" "p_security p = p_security q"
    "p_global_maintainer p = p_global_maintainer q" "p_sections p = p_sections q"
    "p_max_access p = p_max_access q"
  using assms by (cases p; cases q; simp)+

lemma same_address_blank: "same_address a b \<Longrightarrow> trim a = [] \<longleftrightarrow> trim b = []"
  by (auto simp: same_address_iff to_ascii_lower_def)

text \<open>
  Identity does not depend on spelling: two addresses that differ only in surrounding white space and ASCII
  case resolve, against any index the program can build, to principals with the same standing, and every
  question of either has the same answer.
\<close>

theorem spelling_irrelevant:
  assumes "same_address a b" and "\<And>idx. maint = Some idx \<Longrightarrow> built_index re_ok idx"
  shows "(resolve a acl maint)\<lparr>p_email := []\<rparr> = (resolve b acl maint)\<lparr>p_email := []\<rparr>
    \<and> access_to_patchset \<lparr>tp_principal = resolve a acl maint, tp_local_operator = lo\<rparr> att au
      = access_to_patchset \<lparr>tp_principal = resolve b acl maint, tp_local_operator = lo\<rparr> att au"
proof -
  have idx: "subsystems_for_address idx a = subsystems_for_address idx b
      \<and> is_global_maintainer idx a = is_global_maintainer idx b" if "maint = Some idx" for idx
    using address_index.spelling [OF built_index_interface [OF assms(2) [OF that]] assms(1)] .
  have rest: "(resolve a acl maint)\<lparr>p_email := []\<rparr> = (resolve b acl maint)\<lparr>p_email := []\<rparr>"
    using idx acl_same_address [OF assms(1), of acl] same_address_blank [OF assms(1)]
    by (cases maint) (simp_all add: resolve_def)
  have email: "eq_ascii_nocase (p_email (resolve a acl maint)) e = eq_ascii_nocase (p_email (resolve b acl maint)) e"
    "p_email (resolve a acl maint) = [] \<longleftrightarrow> p_email (resolve b acl maint) = []" for e
    using acl_same_address [OF assms(1), of acl] same_address_blank [OF assms(1)] assms(1)
    by (simp_all add: resolve_def eq_ascii_nocase_def same_address_iff anonymous_def)
  have "is_series_author (resolve a acl maint) au = is_series_author (resolve b acl maint) au"
    by (cases "Option.bind au maintainer_address") (simp_all add: is_series_author_def email)
  then show ?thesis
    using rest same_standing [OF rest]
    by (simp add: access_to_patchset_def Let_def has_global_bug_visibility_def ceiling_reads_def
        maintains_any_def)
qed

lemma spelling_irrelevant_witness:
  "p_sections (resolve '' Ann@x.org'' acl_default (Some example_index)) =
   p_sections (resolve ''ann@X.ORG'' acl_default (Some example_index))"
proof -
  have "built_index (\<lambda>_. True) example_index"
    unfolding example_index_def
    by (intro built_index.sections) (simp add: sections_compiled_def example_section_def compiled_ok_def)
  moreover have "same_address '' Ann@x.org'' ''ann@X.ORG''"
    by code_simp
  ultimately have "(resolve '' Ann@x.org'' acl_default (Some example_index))\<lparr>p_email := []\<rparr> =
      (resolve ''ann@X.ORG'' acl_default (Some example_index))\<lparr>p_email := []\<rparr>"
    using spelling_irrelevant [of "'' Ann@x.org''" "''ann@X.ORG''" "Some example_index" "\<lambda>_. True"]
    by blast
  then show ?thesis by (rule same_standing)
qed

end
