(* ===== verification/EmailPolicy.thy ===== *)
theory EmailPolicy
  imports Prelude Severity "HOL-Library.Product_Lexorder"
begin

text \<open>
  The mailing list policy (\<open>src/src/email_policy.rs\<close>): the policy records, the normal form of an
  address, validation, and the operations on a whole configuration. Reading the TOML text is the
  argument \<open>toml\<close>. The hash map of the lists is an association list in the order of its
  iteration; where the result does not depend on that order, this is proved. A warning the code
  logs is a value of a list of warnings.
\<close>

section \<open>Policies\<close>

record patchwork_policy =
  pw_enabled :: bool
  pw_api_url :: "string option"
  pw_token :: "string option"
  pw_email :: "string option"
  pw_min_severity :: "string option"
  pw_fail_severity :: string

definition default_fail_severity :: string where
  "default_fail_severity = ''High''"

definition patchwork_default :: patchwork_policy where
  "patchwork_default = \<lparr>pw_enabled = False, pw_api_url = None, pw_token = None, pw_email = None,
     pw_min_severity = None, pw_fail_severity = default_fail_severity\<rparr>"

definition is_localhost_url :: "string \<Rightarrow> bool" where
  "is_localhost_url url =
     (let after_scheme = (case strip_prefix ''http://'' url of
                            Some r \<Rightarrow> r
                          | None \<Rightarrow> (case strip_prefix ''https://'' url of Some r \<Rightarrow> r | None \<Rightarrow> url));
          host_port = hd (split_on (CHR ''/'') after_scheme)
      in if prefix ''['' host_port then prefix ''[::1]'' host_port
         else (let host = hd (split_on (CHR '':'') host_port)
               in host = ''localhost'' \<or> host = ''127.0.0.1''))"

datatype policy_warning = InvalidScheme string | PlaintextToken string

definition patchwork_normalize :: "patchwork_policy \<Rightarrow> patchwork_policy \<times> policy_warning list" where
  "patchwork_normalize p =
     (case pw_api_url p of
        None \<Rightarrow> (p, [])
      | Some url \<Rightarrow>
          (let trimmed = trim_end_char (CHR ''/'') url in
           if \<not> prefix ''https://'' trimmed \<and> \<not> prefix ''http://'' trimmed
           then (p\<lparr>pw_api_url := None\<rparr>, [InvalidScheme url])
           else (p\<lparr>pw_api_url := Some trimmed\<rparr>,
                 if prefix ''http://'' trimmed \<and> \<not> is_localhost_url trimmed
                 then [PlaintextToken trimmed] else [])))"

datatype reply_target = ReplyAuthor | ReplyList | ReplyRecipients

datatype positive_review_policy = PositiveNone | PositiveAuthor | PositiveAll

fun positive_rank :: "positive_review_policy \<Rightarrow> nat" where
  "positive_rank PositiveNone = 0"
| "positive_rank PositiveAuthor = 1"
| "positive_rank PositiveAll = 2"

lemma positive_rank_inj [simp]: "positive_rank a = positive_rank b \<longleftrightarrow> a = b"
  by (cases a; cases b) auto

instantiation positive_review_policy :: linorder
begin

definition less_eq_positive_review_policy :: "positive_review_policy \<Rightarrow> positive_review_policy \<Rightarrow> bool" where
  "a \<le> b \<longleftrightarrow> positive_rank a \<le> positive_rank b"

definition less_positive_review_policy :: "positive_review_policy \<Rightarrow> positive_review_policy \<Rightarrow> bool" where
  "a < b \<longleftrightarrow> positive_rank a < positive_rank b"

instance
  by standard (auto simp: less_eq_positive_review_policy_def less_positive_review_policy_def)

end

record related_preexisting_policy =
  rp_enabled :: bool
  rp_min_severity :: severity_floor

definition related_default :: related_preexisting_policy where
  "related_default = \<lparr>rp_enabled = True, rp_min_severity = FloorMedium\<rparr>"

record related_preexisting_override =
  ro_enabled :: "bool option"
  ro_min_severity :: "severity_floor option"

record default_list_policy =
  dl_track :: bool
  dl_reply_to :: "reply_target list"
  dl_positive_review :: positive_review_policy
  dl_mute_all :: bool
  dl_cc :: "string list"
  dl_ignored_emails :: "string list"
  dl_patchwork :: patchwork_policy
  dl_embargo_hours :: nat
  dl_related :: related_preexisting_policy

definition default_list_default :: default_list_policy where
  "default_list_default = \<lparr>dl_track = True, dl_reply_to = [], dl_positive_review = PositiveNone,
     dl_mute_all = False, dl_cc = [], dl_ignored_emails = [], dl_patchwork = patchwork_default,
     dl_embargo_hours = 0, dl_related = related_default\<rparr>"

record mailing_list_policy =
  ml_track :: "bool option"
  ml_nntp_group :: "string option"
  ml_reply_to :: "reply_target list option"
  ml_positive_review :: "positive_review_policy option"
  ml_mute_all :: "bool option"
  ml_cc :: "string list"
  ml_ignored_emails :: "string list"
  ml_subject_prefixes :: "string list"
  ml_patchwork :: patchwork_policy
  ml_embargo_hours :: "nat option"
  ml_related :: related_preexisting_override

definition mailing_list_default :: mailing_list_policy where
  "mailing_list_default = \<lparr>ml_track = None, ml_nntp_group = None, ml_reply_to = None,
     ml_positive_review = None, ml_mute_all = None, ml_cc = [], ml_ignored_emails = [],
     ml_subject_prefixes = [], ml_patchwork = patchwork_default, ml_embargo_hours = None,
     ml_related = \<lparr>ro_enabled = None, ro_min_severity = None\<rparr>\<rparr>"

record email_policy_config =
  ec_defaults :: default_list_policy
  ec_lists :: "(string, mailing_list_policy) alist"

definition config_default :: email_policy_config where
  "config_default = \<lparr>ec_defaults = default_list_default, ec_lists = []\<rparr>"

text \<open>\<open>unwrap_or\<close>.\<close>

definition or_default :: "'a option \<Rightarrow> 'a \<Rightarrow> 'a" where
  "or_default x d = (case x of None \<Rightarrow> d | Some v \<Rightarrow> v)"

section \<open>Addresses\<close>

definition extract_bare_email :: "string \<Rightarrow> string" where
  "extract_bare_email raw =
     (let trimmed = trim raw in
      case split_once (CHR ''<'') trimmed of
        None \<Rightarrow> to_ascii_lower trimmed
      | Some (_, rest) \<Rightarrow>
          (case split_once (CHR ''>'') rest of
             None \<Rightarrow> to_ascii_lower trimmed
           | Some (inner, _) \<Rightarrow> to_ascii_lower (trim inner)))"

definition derive_nntp_group :: "string \<Rightarrow> string" where
  "derive_nntp_group email =
     (let bare = extract_bare_email email in
      if bare = ''devicetree@vger.kernel.org'' then ''org.kernel.vger.linux-devicetree''
      else if bare = ''b.a.t.m.a.n@lists.open-mesh.org'' then ''org.open-mesh.lists.batman''
      else if bare = ''intel-wired-lan@lists.osuosl.org'' then ''org.osuosl.intel-wired-lan''
      else (case split_once (CHR ''@'') bare of
              Some (local, domain) \<Rightarrow> join ''.'' (rev (split_on (CHR ''.'') domain) @ [local])
            | None \<Rightarrow> bare))"

section \<open>A configuration\<close>

datatype config_error = NotAnAddress string | IllFormedAddress string | RepeatsItself string string

definition validate_list :: "string \<times> mailing_list_policy \<Rightarrow> config_error + unit" where
  "validate_list entry =
     (let key = fst entry; trimmed = trim key in
      case split_once (CHR ''@'') trimmed of
        None \<Rightarrow> Inl (NotAnAddress key)
      | Some (local, domain) \<Rightarrow>
          if local = [] \<or> domain = [] \<or> \<not> List.member domain (CHR ''.'') \<or> list_ex is_ws trimmed
          then Inl (IllFormedAddress key)
          else (case find (\<lambda>c. extract_bare_email c = extract_bare_email trimmed) (ml_cc (snd entry)) of
                  Some c \<Rightarrow> Inl (RepeatsItself key c)
                | None \<Rightarrow> Inr ()))"

fun validate_lists :: "(string, mailing_list_policy) alist \<Rightarrow> config_error + unit" where
  "validate_lists [] = Inr ()"
| "validate_lists (e # es) = (case validate_list e of Inl err \<Rightarrow> Inl err | Inr _ \<Rightarrow> validate_lists es)"

definition validate_config :: "email_policy_config \<Rightarrow> config_error + unit" where
  "validate_config cfg = validate_lists (ec_lists cfg)"

definition tracked_group :: "string \<times> mailing_list_policy \<Rightarrow> string \<times> string" where
  "tracked_group entry =
     (let group = (case ml_nntp_group (snd entry) of Some g \<Rightarrow> g | None \<Rightarrow> derive_nntp_group (fst entry))
      in (last (split_on (CHR ''.'') group), group))"

definition tracked_nntp_groups :: "email_policy_config \<Rightarrow> (string \<times> string) list" where
  "tracked_nntp_groups cfg =
     sort (map tracked_group
       (filter (\<lambda>e. or_default (ml_track (snd e)) (dl_track (ec_defaults cfg))) (ec_lists cfg)))"

text \<open>What one matched list contributes, and how two contributions combine.\<close>

definition related_contribution ::
  "related_preexisting_policy \<Rightarrow> mailing_list_policy \<Rightarrow> related_preexisting_policy" where
  "related_contribution defaults list_policy =
     \<lparr>rp_enabled = or_default (ro_enabled (ml_related list_policy)) (rp_enabled defaults),
      rp_min_severity = or_default (ro_min_severity (ml_related list_policy)) (rp_min_severity defaults)\<rparr>"

definition related_merge ::
  "related_preexisting_policy \<Rightarrow> related_preexisting_policy \<Rightarrow> related_preexisting_policy" where
  "related_merge acc x =
     \<lparr>rp_enabled = (rp_enabled acc \<and> rp_enabled x),
      rp_min_severity = max (rp_min_severity acc) (rp_min_severity x)\<rparr>"

definition related_step ::
  "related_preexisting_policy \<Rightarrow> string list \<Rightarrow> string \<times> mailing_list_policy
     \<Rightarrow> related_preexisting_policy option \<Rightarrow> related_preexisting_policy option" where
  "related_step defaults addresses entry resolved =
     (if \<not> List.member addresses (extract_bare_email (fst entry)) then resolved
      else merge_step related_merge (related_contribution defaults (snd entry)) resolved)"

definition related_preexisting_for ::
  "email_policy_config \<Rightarrow> string list \<Rightarrow> related_preexisting_policy" where
  "related_preexisting_for cfg raw_addresses =
     (let defaults = dl_related (ec_defaults cfg);
          addresses = map extract_bare_email raw_addresses
      in or_default (fold (related_step defaults addresses) (ec_lists cfg) None) defaults)"

definition override_token :: "string \<Rightarrow> patchwork_policy \<Rightarrow> patchwork_policy" where
  "override_token token p =
     (if pw_enabled p \<and> pw_api_url p \<noteq> None \<and> pw_token p = None then p\<lparr>pw_token := Some token\<rparr> else p)"

text \<open>Applying a function to the Patchwork policy of the defaults and of every list.\<close>

definition map_patchwork :: "(patchwork_policy \<Rightarrow> patchwork_policy) \<Rightarrow> email_policy_config \<Rightarrow> email_policy_config" where
  "map_patchwork f cfg =
     cfg\<lparr>ec_defaults := (ec_defaults cfg)\<lparr>dl_patchwork := f (dl_patchwork (ec_defaults cfg))\<rparr>,
         ec_lists := map (\<lambda>(k, p). (k, p\<lparr>ml_patchwork := f (ml_patchwork p)\<rparr>)) (ec_lists cfg)\<rparr>"

definition apply_token_override :: "string option \<Rightarrow> email_policy_config \<Rightarrow> email_policy_config" where
  "apply_token_override token cfg =
     (case token of None \<Rightarrow> cfg | Some t \<Rightarrow> map_patchwork (override_token t) cfg)"

definition normalize_patchwork_urls :: "email_policy_config \<Rightarrow> email_policy_config" where
  "normalize_patchwork_urls cfg = map_patchwork (\<lambda>p. fst (patchwork_normalize p)) cfg"

datatype 'e load_error = TomlError 'e | InvalidConfig config_error | ReadError 'e

definition parse_content ::
  "(string \<Rightarrow> 'e + email_policy_config) \<Rightarrow> string option \<Rightarrow> string \<Rightarrow> 'e load_error + email_policy_config" where
  "parse_content toml env_token content =
     (case toml content of
        Inl e \<Rightarrow> Inl (TomlError e)
      | Inr cfg \<Rightarrow>
          (case validate_config cfg of
             Inl e \<Rightarrow> Inl (InvalidConfig e)
           | Inr _ \<Rightarrow> Inr (normalize_patchwork_urls (apply_token_override env_token cfg))))"

text \<open>A file that does not exist gives the default configuration.\<close>

datatype 'e file_read = FileMissing | FileUnreadable 'e | FileContent string

definition load_config ::
  "(string \<Rightarrow> 'e + email_policy_config) \<Rightarrow> string option \<Rightarrow> 'e file_read \<Rightarrow> 'e load_error + email_policy_config" where
  "load_config toml env_token file =
     (case file of
        FileContent c \<Rightarrow> parse_content toml env_token c
      | FileMissing \<Rightarrow> Inr config_default
      | FileUnreadable e \<Rightarrow> Inl (ReadError e))"

section \<open>Normal form of an address\<close>

lemma ascii_lower_angle [simp]:
  "ascii_lower c = CHR ''<'' \<longleftrightarrow> c = CHR ''<''" "ascii_lower c = CHR ''>'' \<longleftrightarrow> c = CHR ''>''"
  by (simp_all add: ascii_lower_eq_iff is_ascii_upper_def)

lemma split_once_to_ascii_lower:
  assumes "\<And>d. ascii_lower d = c \<longleftrightarrow> d = c"
  shows "split_once c (to_ascii_lower s) = map_option (map_prod to_ascii_lower to_ascii_lower) (split_once c s)"
proof (induction s)
  case Nil
  then show ?case by simp
next
  case (Cons d s)
  then show ?case
    by (cases "split_once c s") (auto simp: assms)
qed

lemma split_once_trim_None:
  assumes "split_once c s = None"
  shows "split_once c (trim s) = None"
  using assms set_trim [of s] by (auto simp: split_once_None_iff)

lemma extract_bare_email_trim [simp]: "extract_bare_email (trim s) = extract_bare_email s"
  by (simp add: extract_bare_email_def)

text \<open>A bare address has no brackets left to open, so extracting it again changes nothing.\<close>

lemma extract_bare_email_idem [simp]: "extract_bare_email (extract_bare_email s) = extract_bare_email s"
proof -
  have plain: "extract_bare_email (to_ascii_lower (trim x)) = to_ascii_lower (trim x)"
    if "\<And>a r. split_once (CHR ''<'') (trim x) = Some (a, r) \<Longrightarrow> split_once (CHR ''>'') r = None" for x
    using that
    by (cases "split_once (CHR ''<'') (trim x)")
      (auto simp: extract_bare_email_def split_once_to_ascii_lower split: option.splits)
  show ?thesis
  proof (cases "split_once (CHR ''<'') (trim s)")
    case None
    with plain [of s] show ?thesis by (simp add: extract_bare_email_def [of s])
  next
    case (Some ar)
    obtain a r where ar: "ar = (a, r)" by (cases ar)
    show ?thesis
    proof (cases "split_once (CHR ''>'') r")
      case None
      with Some ar plain [of s] show ?thesis by (simp add: extract_bare_email_def [of s])
    next
      case (Some br)
      obtain b q where br: "br = (b, q)" by (cases br)
      have "CHR ''>'' \<notin> set b"
        using Some br by (simp add: split_once_Some_iff)
      then have "split_once (CHR ''>'') r' = None" if "split_once (CHR ''<'') (trim b) = Some (a', r')" for a' r'
        using that set_trim [of b] by (auto simp: split_once_Some_iff split_once_None_iff)
      then show ?thesis
        using Some br \<open>split_once (CHR ''<'') (trim s) = Some ar\<close> ar
        by (simp add: extract_bare_email_def [of s] plain)
    qed
  qed
qed

lemma extract_bare_email_lower [simp]: "to_ascii_lower (extract_bare_email s) = extract_bare_email s"
  by (auto simp: extract_bare_email_def Let_def split: option.splits)

section \<open>Validation\<close>

definition valid_list :: "string \<times> mailing_list_policy \<Rightarrow> bool" where
  "valid_list e \<longleftrightarrow>
     (\<exists>local domain. trim (fst e) = local @ CHR ''@'' # domain \<and> local \<noteq> [] \<and> CHR ''@'' \<notin> set local
        \<and> CHR ''.'' \<in> set domain)
     \<and> (\<forall>c \<in> set (trim (fst e)). \<not> is_ws c)
     \<and> (\<forall>c \<in> set (ml_cc (snd e)). extract_bare_email c \<noteq> extract_bare_email (fst e))"

lemma validate_list_ok: "validate_list e = Inr () \<longleftrightarrow> valid_list e"
proof (cases "split_once (CHR ''@'') (trim (fst e))")
  case None
  then have "CHR ''@'' \<notin> set (trim (fst e))" by (simp add: split_once_None_iff)
  with None show ?thesis by (auto simp: validate_list_def valid_list_def Let_def)
next
  case (Some ld)
  obtain l d where ld: "ld = (l, d)" by (cases ld)
  have split: "trim (fst e) = l @ CHR ''@'' # d" "CHR ''@'' \<notin> set l"
    using Some ld by (simp_all add: split_once_Some_iff)
  have uniq: "local = l \<and> domain = d"
    if "trim (fst e) = local @ CHR ''@'' # domain" "CHR ''@'' \<notin> set local" for local domain
  proof -
    have "split_once (CHR ''@'') (trim (fst e)) = Some (local, domain)"
      using that by (simp add: split_once_Some_iff)
    with Some ld show ?thesis by simp
  qed
  have fst_part: "(\<exists>local domain. trim (fst e) = local @ CHR ''@'' # domain \<and> local \<noteq> [] \<and> CHR ''@'' \<notin> set local
        \<and> CHR ''.'' \<in> set domain) \<longleftrightarrow> l \<noteq> [] \<and> CHR ''.'' \<in> set d"
    using split uniq by blast
  show ?thesis
    using Some ld
    unfolding validate_list_def valid_list_def fst_part
    by (auto simp: Let_def list_ex_iff find_None_iff find_Some_iff split: option.splits)
qed

lemma validate_config_ok: "validate_config cfg = Inr () \<longleftrightarrow> (\<forall>e \<in> set (ec_lists cfg). valid_list e)"
proof -
  have "validate_lists es = Inr () \<longleftrightarrow> (\<forall>e \<in> set es. valid_list e)" for es
  proof (induction es)
    case Nil
    then show ?case by simp
  next
    case (Cons e es)
    then show ?case using validate_list_ok [of e] by (auto split: sum.splits)
  qed
  then show ?thesis by (simp add: validate_config_def)
qed

section \<open>Related pre-existing bugs\<close>

lemma related_merge_sel [simp]:
  "rp_enabled (related_merge a b) \<longleftrightarrow> rp_enabled a \<and> rp_enabled b"
  "rp_min_severity (related_merge a b) = max (rp_min_severity a) (rp_min_severity b)"
  by (simp_all add: related_merge_def)

interpretation related: merge_op related_merge
  by unfold_locales (auto simp: related_merge_def max.assoc max.commute max.left_commute)

text \<open>The lists a patch is addressed to, and what they contribute.\<close>

definition matched_lists :: "string list \<Rightarrow> email_policy_config \<Rightarrow> (string \<times> mailing_list_policy) list" where
  "matched_lists raw_addresses cfg =
     filter (\<lambda>e. extract_bare_email (fst e) \<in> set (map extract_bare_email raw_addresses)) (ec_lists cfg)"

definition contributions :: "string list \<Rightarrow> email_policy_config \<Rightarrow> related_preexisting_policy list" where
  "contributions raw_addresses cfg =
     map (\<lambda>e. related_contribution (dl_related (ec_defaults cfg)) (snd e)) (matched_lists raw_addresses cfg)"

lemma related_fold:
  "fold (related_step d addrs) es acc =
     fold (merge_step related_merge)
       (map (\<lambda>e. related_contribution d (snd e)) (filter (\<lambda>e. extract_bare_email (fst e) \<in> set addrs) es)) acc"
  by (induction es arbitrary: acc) (auto simp: related_step_def)

lemma related_preexisting_for_accumulate:
  "related_preexisting_for cfg as =
     or_default (accumulate related_merge (contributions as cfg)) (dl_related (ec_defaults cfg))"
  by (simp add: related_preexisting_for_def related_fold accumulate_def contributions_def
      matched_lists_def Let_def)

lemma accumulate_related:
  assumes "xs \<noteq> []"
  shows "\<exists>r. accumulate related_merge xs = Some r \<and> (rp_enabled r \<longleftrightarrow> (\<forall>x \<in> set xs. rp_enabled x))
     \<and> (\<forall>x \<in> set xs. rp_min_severity x \<le> rp_min_severity r) \<and> rp_min_severity r \<in> rp_min_severity ` set xs"
  using assms
proof (induction xs rule: rev_nonempty_induct)
  case (single x)
  then show ?case by (simp add: accumulate_def merge_step_def)
next
  case (snoc x xs)
  then obtain r where r: "accumulate related_merge xs = Some r"
    "rp_enabled r \<longleftrightarrow> (\<forall>x \<in> set xs. rp_enabled x)" "\<forall>x \<in> set xs. rp_min_severity x \<le> rp_min_severity r"
    "rp_min_severity r \<in> rp_min_severity ` set xs"
    by blast
  then show ?case
    by (auto simp: accumulate_snoc merge_step_def max_def)
qed

text \<open>
  The policy for related pre-existing bugs is the strictest of the matched lists: when the patch is
  addressed to none, the defaults apply; otherwise the feature is on exactly when every matched list
  (its override, or else the default) has it on, and the severity floor is the greatest of theirs.
  The order in which the hash map yields the lists does not matter.
\<close>

theorem related_policy_strictest:
  "(matched_lists as cfg = [] \<longrightarrow> related_preexisting_for cfg as = dl_related (ec_defaults cfg))
   \<and> (matched_lists as cfg \<noteq> [] \<longrightarrow>
        (rp_enabled (related_preexisting_for cfg as) \<longleftrightarrow> (\<forall>c \<in> set (contributions as cfg). rp_enabled c))
        \<and> rp_min_severity (related_preexisting_for cfg as) = Max (rp_min_severity ` set (contributions as cfg)))
   \<and> (\<forall>lists'. mset lists' = mset (ec_lists cfg) \<longrightarrow>
        related_preexisting_for (cfg\<lparr>ec_lists := lists'\<rparr>) as = related_preexisting_for cfg as)"
proof (intro conjI impI allI)
  assume none: "matched_lists as cfg = []"
  then show "related_preexisting_for cfg as = dl_related (ec_defaults cfg)"
    by (simp add: related_preexisting_for_accumulate contributions_def accumulate_def or_default_def)
next
  assume "matched_lists as cfg \<noteq> []"
  then have ne: "contributions as cfg \<noteq> []" by (simp add: contributions_def)
  obtain r where "accumulate related_merge (contributions as cfg) = Some r"
    and r: "rp_enabled r \<longleftrightarrow> (\<forall>x \<in> set (contributions as cfg). rp_enabled x)"
      "\<forall>x \<in> set (contributions as cfg). rp_min_severity x \<le> rp_min_severity r"
      "rp_min_severity r \<in> rp_min_severity ` set (contributions as cfg)"
    using accumulate_related [OF ne] by blast
  then have eq: "related_preexisting_for cfg as = r"
    by (simp add: related_preexisting_for_accumulate or_default_def)
  show "rp_enabled (related_preexisting_for cfg as) \<longleftrightarrow> (\<forall>c \<in> set (contributions as cfg). rp_enabled c)"
    by (simp add: eq r)
  show "rp_min_severity (related_preexisting_for cfg as) = Max (rp_min_severity ` set (contributions as cfg))"
    unfolding eq
  proof (rule Max_eqI [symmetric])
    show "finite (rp_min_severity ` set (contributions as cfg))" by simp
    show "y \<le> rp_min_severity r" if "y \<in> rp_min_severity ` set (contributions as cfg)" for y
      using that r(2) by blast
    show "rp_min_severity r \<in> rp_min_severity ` set (contributions as cfg)" by (rule r(3))
  qed
next
  fix ls assume "mset ls = mset (ec_lists cfg)"
  then have "mset (contributions as (cfg\<lparr>ec_lists := ls\<rparr>)) = mset (contributions as cfg)"
    by (simp add: contributions_def matched_lists_def)
  from related.accumulate_perm [OF this]
  show "related_preexisting_for (cfg\<lparr>ec_lists := ls\<rparr>) as = related_preexisting_for cfg as"
    by (simp add: related_preexisting_for_accumulate)
qed

definition example_list :: "string \<Rightarrow> bool option \<Rightarrow> severity_floor option \<Rightarrow> string \<times> mailing_list_policy" where
  "example_list key en fl =
     (key, mailing_list_default\<lparr>ml_related := \<lparr>ro_enabled = en, ro_min_severity = fl\<rparr>\<rparr>)"

definition example_config :: email_policy_config where
  "example_config = \<lparr>ec_defaults = default_list_default,
     ec_lists = [example_list ''bpf@vger.kernel.org'' None (Some FloorHigh),
                 example_list ''linux-mm@kvack.org'' (Some False) None]\<rparr>"

lemma related_policy_strictest_witness:
  "related_preexisting_for example_config [''BPF <bpf@vger.kernel.org>''] = \<lparr>rp_enabled = True, rp_min_severity = FloorHigh\<rparr>
   \<and> matched_lists [''BPF <bpf@vger.kernel.org>'', ''Linux-MM@kvack.org''] example_config \<noteq> []
   \<and> \<not> rp_enabled (related_preexisting_for example_config [''BPF <bpf@vger.kernel.org>'', ''Linux-MM@kvack.org''])
   \<and> related_preexisting_for (example_config\<lparr>ec_lists := rev (ec_lists example_config)\<rparr>) [''BPF <bpf@vger.kernel.org>'']
       = related_preexisting_for example_config [''BPF <bpf@vger.kernel.org>'']"
proof -
  let ?as = "[''BPF <bpf@vger.kernel.org>'', ''Linux-MM@kvack.org'']"
  have m: "matched_lists ?as example_config \<noteq> []" by code_simp
  moreover have "\<exists>c \<in> set (contributions ?as example_config). \<not> rp_enabled c" by code_simp
  ultimately have "\<not> rp_enabled (related_preexisting_for example_config ?as)"
    using related_policy_strictest [of ?as example_config] by blast
  moreover have "related_preexisting_for example_config [''BPF <bpf@vger.kernel.org>''] = \<lparr>rp_enabled = True, rp_min_severity = FloorHigh\<rparr>"
    by code_simp
  moreover have "mset (rev (ec_lists example_config)) = mset (ec_lists example_config)" by simp
  ultimately show ?thesis
    using m related_policy_strictest [of "[''BPF <bpf@vger.kernel.org>'']" example_config] by blast
qed

section \<open>Loading a configuration\<close>

definition patchwork_policies :: "email_policy_config \<Rightarrow> patchwork_policy list" where
  "patchwork_policies cfg = dl_patchwork (ec_defaults cfg) # map (\<lambda>e. ml_patchwork (snd e)) (ec_lists cfg)"

lemma patchwork_policies_map [simp]:
  "patchwork_policies (map_patchwork f cfg) = map f (patchwork_policies cfg)"
  by (simp add: patchwork_policies_def map_patchwork_def comp_def case_prod_beta)

lemma map_patchwork_lists:
  "map (\<lambda>e. (fst e, ml_cc (snd e))) (ec_lists (map_patchwork f cfg)) = map (\<lambda>e. (fst e, ml_cc (snd e))) (ec_lists cfg)"
  by (simp add: map_patchwork_def comp_def case_prod_beta)

lemma valid_list_cong:
  "map (\<lambda>e. (fst e, ml_cc (snd e))) es = map (\<lambda>e. (fst e, ml_cc (snd e))) es'
     \<Longrightarrow> (\<forall>e \<in> set es. valid_list e) \<longleftrightarrow> (\<forall>e \<in> set es'. valid_list e)"
proof -
  assume eq: "map (\<lambda>e. (fst e, ml_cc (snd e))) es = map (\<lambda>e. (fst e, ml_cc (snd e))) es'"
  define ok where "ok kc \<longleftrightarrow> valid_list (fst kc, mailing_list_default\<lparr>ml_cc := snd kc\<rparr>)" for kc
  have "valid_list e \<longleftrightarrow> ok (fst e, ml_cc (snd e))" for e
    by (simp add: valid_list_def ok_def)
  then have all: "(\<forall>e \<in> set xs. valid_list e) \<longleftrightarrow> (\<forall>kc \<in> set (map (\<lambda>e. (fst e, ml_cc (snd e))) xs). ok kc)" for xs
    by simp
  show ?thesis unfolding all eq ..
qed

text \<open>The API address of a normalized policy: a web address without a slash at its end.\<close>

definition url_ok :: "string \<Rightarrow> bool" where
  "url_ok u \<longleftrightarrow> (prefix ''https://'' u \<or> prefix ''http://'' u) \<and> last u \<noteq> CHR ''/''"

lemma last_trim_end_char: "trim_end_char c s \<noteq> [] \<Longrightarrow> last (trim_end_char c s) \<noteq> c"
  using hd_dropWhile [of "\<lambda>d. d = c" "rev s"] by (simp add: trim_end_char_def last_rev)

lemma trim_end_char_idem [simp]: "trim_end_char c (trim_end_char c s) = trim_end_char c s"
  by (simp add: trim_end_char_def)

lemma normalized_url:
  "pw_api_url (fst (patchwork_normalize p)) = Some u \<Longrightarrow>
     url_ok u \<and> (\<exists>raw. pw_api_url p = Some raw \<and> u = trim_end_char (CHR ''/'') raw)"
  using last_trim_end_char [of "CHR ''/''" "the (pw_api_url p)"]
  by (cases "trim_end_char (CHR ''/'') (the (pw_api_url p)) = []") (auto simp: patchwork_normalize_def url_ok_def Let_def split: option.splits if_splits)

lemma patchwork_normalize_idem: "fst (patchwork_normalize (fst (patchwork_normalize p))) = fst (patchwork_normalize p)"
  by (auto simp: patchwork_normalize_def Let_def split: option.splits)

text \<open>What loading does to one Patchwork policy, given the token of the environment.\<close>

definition loaded_from :: "string option \<Rightarrow> patchwork_policy \<Rightarrow> patchwork_policy \<Rightarrow> bool" where
  "loaded_from env p p' \<longleftrightarrow>
     p'\<lparr>pw_token := pw_token p, pw_api_url := pw_api_url p\<rparr> = p
     \<and> (\<forall>t. pw_token p = Some t \<longrightarrow> pw_token p' = Some t)
     \<and> (pw_token p' \<noteq> pw_token p \<longrightarrow> pw_enabled p \<and> pw_api_url p \<noteq> None \<and> pw_token p' = env)
     \<and> (\<forall>u. pw_api_url p' = Some u \<longrightarrow> url_ok u \<and>
          (\<exists>raw. pw_api_url p = Some raw \<and> u = trim_end_char (CHR ''/'') raw))"

lemma normalize_sets_url: "\<exists>x. fst (patchwork_normalize p) = p\<lparr>pw_api_url := x\<rparr>"
proof (cases "pw_api_url p")
  case None
  then have "fst (patchwork_normalize p) = p\<lparr>pw_api_url := None\<rparr>"
    by (simp add: patchwork_normalize_def)
  then show ?thesis ..
next
  case (Some url)
  then show ?thesis by (simp add: patchwork_normalize_def Let_def) blast
qed

lemma loaded_from_None: "loaded_from None p (fst (patchwork_normalize p))"
proof -
  obtain x where x: "fst (patchwork_normalize p) = p\<lparr>pw_api_url := x\<rparr>"
    using normalize_sets_url by blast
  then show ?thesis using normalized_url [of p] by (simp add: loaded_from_def)
qed

lemma loaded_from_Some: "loaded_from (Some t) p (fst (patchwork_normalize (override_token t p)))"
proof (cases "pw_enabled p \<and> pw_api_url p \<noteq> None \<and> pw_token p = None")
  case False
  then have "override_token t p = p" unfolding override_token_def by (rule if_not_P)
  with loaded_from_None [of p] show ?thesis by (auto simp: loaded_from_def)
next
  case True
  then have q: "override_token t p = p\<lparr>pw_token := Some t\<rparr>" by (simp add: override_token_def)
  obtain x where x: "fst (patchwork_normalize (p\<lparr>pw_token := Some t\<rparr>)) = p\<lparr>pw_token := Some t, pw_api_url := x\<rparr>"
    using normalize_sets_url by blast
  from True have "p\<lparr>pw_token := None\<rparr> = p" by simp
  with True x show ?thesis
    using normalized_url [of "p\<lparr>pw_token := Some t\<rparr>"] by (simp add: loaded_from_def q)
qed

text \<open>
  A configuration that loads is safe to use: every key is a list address (a local part, a
  dotted domain, no white space) whose static copies do not repeat it; every API address is a web address
  without a final slash; a token written in the file is never overwritten; and the token of the
  environment reaches only enabled policies that name an API address. A missing file gives the defaults, which
  reply to nobody.
\<close>

theorem loaded_config_safe:
  "(case load_config toml env content_file of
      Inl e \<Rightarrow> content_file \<noteq> FileMissing
    | Inr cfg \<Rightarrow>
        if content_file = FileMissing then cfg = config_default
        else (\<exists>content raw. content_file = FileContent content \<and> toml content = Inr raw
           \<and> map fst (ec_lists cfg) = map fst (ec_lists raw)
           \<and> (\<forall>e \<in> set (ec_lists cfg). valid_list e)
           \<and> list_all2 (loaded_from env) (patchwork_policies raw) (patchwork_policies cfg)))"
proof (cases content_file)
  case FileMissing
  then show ?thesis by (simp add: load_config_def)
next
  case (FileUnreadable e)
  then show ?thesis by (simp add: load_config_def)
next
  case (FileContent content)
  show ?thesis
  proof (cases "\<exists>raw. toml content = Inr raw \<and> validate_config raw = Inr ()")
    case True
    then obtain raw where raw: "toml content = Inr raw" "validate_config raw = Inr ()" by blast
    define cfg where "cfg = normalize_patchwork_urls (apply_token_override env raw)"
    have load: "load_config toml env content_file = Inr cfg"
      using FileContent raw by (simp add: load_config_def parse_content_def cfg_def)
    have policies: "list_all2 (loaded_from env) (patchwork_policies raw) (patchwork_policies cfg)"
      using loaded_from_None loaded_from_Some
      by (cases env) (simp_all add: cfg_def normalize_patchwork_urls_def apply_token_override_def
          list_all2_map2 list.rel_refl list_all2_same)
    have keys: "map (\<lambda>e. (fst e, ml_cc (snd e))) (ec_lists cfg) = map (\<lambda>e. (fst e, ml_cc (snd e))) (ec_lists raw)"
      by (cases env) (simp_all add: cfg_def normalize_patchwork_urls_def apply_token_override_def map_patchwork_lists)
    have "\<forall>e \<in> set (ec_lists cfg). valid_list e"
      using raw(2) valid_list_cong [OF keys] by (simp add: validate_config_ok)
    moreover have "map fst (ec_lists cfg) = map fst (ec_lists raw)"
      using arg_cong [OF keys, of "map fst"] by (simp add: comp_def)
    ultimately show ?thesis using FileContent load raw(1) policies by simp
  next
    case False
    then have "\<exists>e. load_config toml env content_file = Inl e"
      using FileContent by (auto simp: load_config_def parse_content_def split: sum.splits)
    with FileContent show ?thesis by auto
  qed
qed

lemma loaded_config_safe_witness:
  "\<exists>cfg. load_config (\<lambda>_. Inr example_config :: unit + email_policy_config) (Some ''tok'') (FileContent ''x'') = Inr cfg
     \<and> (\<forall>e \<in> set (ec_lists cfg). valid_list e)
     \<and> list_all2 (loaded_from (Some ''tok'')) (patchwork_policies example_config) (patchwork_policies cfg)"
proof -
  have "validate_config example_config = Inr ()" by code_simp
  then obtain cfg where cfg: "load_config (\<lambda>_. Inr example_config :: unit + email_policy_config) (Some ''tok'') (FileContent ''x'') = Inr cfg"
    by (simp add: load_config_def parse_content_def)
  show ?thesis
    using cfg loaded_config_safe [where toml = "\<lambda>_. Inr example_config :: unit + email_policy_config" and env = "Some ''tok''" and content_file = "FileContent ''x''"]
    by auto
qed

end
