(* ===== verification/EmailRouter.thy ===== *)
theory EmailRouter
  imports EmailPolicy
begin

text \<open>
  Who receives a review (\<open>src/src/email_router.rs\<close>): the recipients of a review, of a positive review
  and of the Patchwork results of one patch, from the mailing list policy and the addresses of
  the patch mail.
\<close>

section \<open>Known lists\<close>

definition known_mailing_list_domains :: "string list" where
  "known_mailing_list_domains =
     [''vger.kernel.org'', ''lists.linux.dev'', ''lists.infradead.org'', ''lists.freedesktop.org'',
      ''lists.osuosl.org'', ''kvack.org'', ''lists.open-mesh.org'', ''lists.sourceforge.net'',
      ''lists.oss.qualcomm.com'', ''lists.subsurface-divelog.org'', ''acpica.org'',
      ''lists.linaro.org'', ''lists.01.org'', ''lists.xenproject.org'', ''lists.ozlabs.org'',
      ''nongnu.org'', ''lists.nongnu.org'']"

definition known_mailing_list_addresses :: "string list" where
  "known_mailing_list_addresses =
     [''algol68@gcc.gnu.org'', ''cobol@gcc.gnu.org'', ''fortran@gcc.gnu.org'', ''gcc-bugs@gcc.gnu.org'',
      ''gcc-cvs@gcc.gnu.org'', ''gcc-help@gcc.gnu.org'', ''gcc-patches@gcc.gnu.org'',
      ''gcc-prs@gcc.gnu.org'', ''gcc-regression@gcc.gnu.org'', ''gcc-rust@gcc.gnu.org'',
      ''gcc-testresults@gcc.gnu.org'', ''gcc@gcc.gnu.org'', ''gccadmin@gcc.gnu.org'',
      ''java-patches@gcc.gnu.org'', ''jit@gcc.gnu.org'', ''libstdc++-cvs@gcc.gnu.org'',
      ''libstdc++@gcc.gnu.org'', ''binutils@sourceware.org'', ''cgen@sourceware.org'',
      ''cygwin-patches@sourceware.org'', ''dwz@sourceware.org'', ''elfutils-devel@sourceware.org'',
      ''gdb-patches@sourceware.org'', ''libabigail@sourceware.org'', ''libc-alpha@sourceware.org'',
      ''newlib@sourceware.org'', ''overseers@sourceware.org'', ''systemtap@sourceware.org'']"

definition is_known_mailing_list_bare :: "string \<Rightarrow> bool" where
  "is_known_mailing_list_bare bare =
     (if list_ex (\<lambda>addr. eq_ascii_nocase addr bare) known_mailing_list_addresses then True
      else (case split_once (CHR ''@'') bare of
              Some (_, domain) \<Rightarrow> list_ex (\<lambda>d. eq_ascii_nocase d domain) known_mailing_list_domains
            | None \<Rightarrow> False))"

definition max_relayed_recipients :: nat where "max_relayed_recipients = 128"

datatype action = Mute | Send (act_to: "string list") (act_cc: "string list") (act_positive: positive_review_policy)

section \<open>Patchwork targets\<close>

definition merge_severity_opt :: "string option \<Rightarrow> string option \<Rightarrow> string option" where
  "merge_severity_opt a b =
     (case (a, b) of
        (Some sa, Some sb) \<Rightarrow> Some (severity_as_str (min (severity_from_str sa) (severity_from_str sb)))
      | _ \<Rightarrow> None)"

definition merge_policies :: "patchwork_policy \<Rightarrow> patchwork_policy \<Rightarrow> patchwork_policy" where
  "merge_policies a b =
     (let a1 = a\<lparr>pw_min_severity := merge_severity_opt (pw_min_severity a) (pw_min_severity b)\<rparr>;
          a2 = a1\<lparr>pw_fail_severity :=
            severity_as_str (min (severity_from_str (pw_fail_severity a1)) (severity_from_str (pw_fail_severity b)))\<rparr>
      in if pw_token a2 = None \<and> pw_token b \<noteq> None then a2\<lparr>pw_token := pw_token b\<rparr> else a2)"

definition address_matches_list :: "string \<Rightarrow> string \<Rightarrow> bool" where
  "address_matches_list incoming list_bare \<longleftrightarrow> extract_bare_email incoming = list_bare"

definition api_target :: "patchwork_policy \<Rightarrow> (string, patchwork_policy) alist \<Rightarrow> (string, patchwork_policy) alist" where
  "api_target p targets =
     (case pw_api_url p of
        Some url \<Rightarrow> (let q = p\<lparr>pw_email := None\<rparr> in upsert url q (\<lambda>e. merge_policies e q) targets)
      | None \<Rightarrow> targets)"

definition email_target :: "patchwork_policy \<Rightarrow> (string, patchwork_policy) alist \<Rightarrow> (string, patchwork_policy) alist" where
  "email_target p targets =
     (case pw_email p of
        Some addr \<Rightarrow>
          (let q = p\<lparr>pw_api_url := None, pw_token := None\<rparr> in upsert addr q (\<lambda>e. merge_policies e q) targets)
      | None \<Rightarrow> targets)"

definition resolve_patchwork :: "email_policy_config \<Rightarrow> string list \<Rightarrow> string list \<Rightarrow> patchwork_policy list" where
  "resolve_patchwork policy incoming_to incoming_cc =
     (let all_incoming = incoming_to @ incoming_cc;
          matched = map (\<lambda>e. ml_patchwork (snd e))
            (filter (\<lambda>e. list_ex (\<lambda>i. address_matches_list i (extract_bare_email (fst e))) all_incoming)
               (ec_lists policy));
          matched_policies = (if matched = [] then [dl_patchwork (ec_defaults policy)] else matched);
          enabled_policies = filter pw_enabled matched_policies
      in map snd (fold api_target enabled_policies []) @ map snd (fold email_target enabled_policies []))"

section \<open>Recipients\<close>

definition is_mailing_list_address :: "string \<Rightarrow> string set \<Rightarrow> bool" where
  "is_mailing_list_address addr configured_lists \<longleftrightarrow>
     extract_bare_email addr \<in> configured_lists \<or> is_known_mailing_list_bare (extract_bare_email addr)"

definition individuals ::
  "string list \<Rightarrow> string set \<Rightarrow> string \<Rightarrow> string option \<Rightarrow> string list \<Rightarrow> string list" where
  "individuals all_incoming configured_lists sashiko_bare author_bare static_cc =
     remdups (filter (\<lambda>bare. bare \<noteq> [] \<and> bare \<noteq> sashiko_bare \<and> author_bare \<noteq> Some bare
                        \<and> bare \<notin> set (map extract_bare_email static_cc))
       (map extract_bare_email (filter (\<lambda>a. \<not> is_mailing_list_address a configured_lists) all_incoming)))"

definition too_many_individuals ::
  "string list \<Rightarrow> string set \<Rightarrow> string \<Rightarrow> string option \<Rightarrow> string list \<Rightarrow> bool" where
  "too_many_individuals all_incoming configured_lists sashiko_bare author_bare static_cc \<longleftrightarrow>
     \<not> length (individuals all_incoming configured_lists sashiko_bare author_bare static_cc)
         \<le> max_relayed_recipients"

text \<open>Deduplication: the kept addresses, the place of each bare address, and the bare addresses seen.\<close>

record dedup_state =
  dd_result :: "string list"
  dd_index :: "string \<rightharpoonup> nat"
  dd_seen :: "string set"

definition dedup_step :: "string \<Rightarrow> string set option \<Rightarrow> string \<Rightarrow> dedup_state \<Rightarrow> dedup_state" where
  "dedup_step sashiko_bare exclude_bare addr st =
     (let trimmed = trim addr; bare = extract_bare_email trimmed in
      if trimmed = [] then st
      else if bare = [] then st
      else if sashiko_bare \<noteq> [] \<and> (bare = sashiko_bare \<or> contains (to_ascii_lower trimmed) sashiko_bare) then st
      else if (case exclude_bare of None \<Rightarrow> False | Some excluded \<Rightarrow> bare \<in> excluded) then st
      else (case dd_index st bare of
              Some idx \<Rightarrow>
                if \<not> List.member (dd_result st ! idx) (CHR ''<'') \<and> List.member trimmed (CHR ''<'')
                then st\<lparr>dd_result := (dd_result st)[idx := trimmed]\<rparr>
                else st
            | None \<Rightarrow>
                \<lparr>dd_result = dd_result st @ [trimmed],
                 dd_index = (dd_index st)(bare \<mapsto> length (dd_result st)),
                 dd_seen = insert bare (dd_seen st)\<rparr>))"

definition dedup_addresses :: "string list \<Rightarrow> string \<Rightarrow> string set option \<Rightarrow> string list \<times> string set" where
  "dedup_addresses candidates sashiko_bare exclude_bare =
     (let st = fold (dedup_step sashiko_bare exclude_bare) candidates
                 \<lparr>dd_result = [], dd_index = Map.empty, dd_seen = {}\<rparr>
      in (dd_result st, dd_seen st))"

text \<open>What the policies decide about one patch.\<close>

record routing =
  rt_mute_all :: bool
  rt_author :: bool
  rt_recipients :: bool
  rt_all_lists :: bool
  rt_allowed :: "string set"
  rt_positive :: positive_review_policy
  rt_static_cc :: "string list"

definition routing_init :: routing where
  "routing_init = \<lparr>rt_mute_all = False, rt_author = False, rt_recipients = False, rt_all_lists = False,
     rt_allowed = {}, rt_positive = PositiveNone, rt_static_cc = []\<rparr>"

definition route_defaults :: "default_list_policy \<Rightarrow> routing" where
  "route_defaults d = routing_init\<lparr>
     rt_author := List.member (dl_reply_to d) ReplyAuthor,
     rt_all_lists := List.member (dl_reply_to d) ReplyList,
     rt_recipients := List.member (dl_reply_to d) ReplyRecipients,
     rt_positive := dl_positive_review d\<rparr>"

definition list_reply_to :: "default_list_policy \<Rightarrow> mailing_list_policy \<Rightarrow> reply_target list" where
  "list_reply_to d p = or_default (ml_reply_to p) (dl_reply_to d)"

definition list_positive :: "default_list_policy \<Rightarrow> mailing_list_policy \<Rightarrow> positive_review_policy" where
  "list_positive d p = or_default (ml_positive_review p) (dl_positive_review d)"

definition route_list :: "default_list_policy \<Rightarrow> string \<times> mailing_list_policy \<Rightarrow> routing \<Rightarrow> routing" where
  "route_list d entry st =
     (let list_bare = fst entry; p = snd entry; reply_to = list_reply_to d p; pos = list_positive d p
      in st\<lparr>rt_mute_all := rt_mute_all st \<or> or_default (ml_mute_all p) (dl_mute_all d),
            rt_author := rt_author st \<or> List.member reply_to ReplyAuthor,
            rt_allowed := (if List.member reply_to ReplyList then insert list_bare (rt_allowed st) else rt_allowed st),
            rt_recipients := rt_recipients st \<or> List.member reply_to ReplyRecipients,
            rt_positive := (if rt_positive st < pos then pos else rt_positive st),
            rt_static_cc := rt_static_cc st @ ml_cc p\<rparr>)"

definition configured_bare :: "email_policy_config \<Rightarrow> string set" where
  "configured_bare policy = set (map (\<lambda>e. extract_bare_email (fst e)) (ec_lists policy))"

text \<open>The matched lists with their bare addresses, sorted by them; the sort is stable.\<close>

definition sorted_matches :: "email_policy_config \<Rightarrow> string list \<Rightarrow> (string \<times> mailing_list_policy) list" where
  "sorted_matches policy all_incoming =
     sort_key fst
       (filter (\<lambda>e. list_ex (\<lambda>i. address_matches_list i (fst e)) all_incoming)
         (map (\<lambda>e. (extract_bare_email (fst e), snd e)) (ec_lists policy)))"

definition route_review :: "email_policy_config \<Rightarrow> string list \<Rightarrow> routing" where
  "route_review policy all_incoming =
     (let d = ec_defaults policy; matched = sorted_matches policy all_incoming in
      if matched = [] then (route_defaults d)\<lparr>rt_mute_all := dl_mute_all d\<rparr>
      else fold (route_list d) matched routing_init)"

definition cap_recipients ::
  "email_policy_config \<Rightarrow> string list \<Rightarrow> string \<Rightarrow> string \<Rightarrow> routing \<Rightarrow> routing" where
  "cap_recipients policy all_incoming sashiko_bare author_bare st =
     (if rt_recipients st \<and>
         too_many_individuals all_incoming (configured_bare policy) sashiko_bare
           (if rt_author st then Some author_bare else None) (rt_static_cc st)
      then st\<lparr>rt_recipients := False\<rparr> else st)"

definition relayed :: "string set \<Rightarrow> routing \<Rightarrow> string \<Rightarrow> bool" where
  "relayed configured_lists st addr =
     (if is_mailing_list_address addr configured_lists
      then rt_all_lists st \<or> extract_bare_email addr \<in> rt_allowed st
      else rt_recipients st)"

definition deliver ::
  "email_policy_config \<Rightarrow> string list \<Rightarrow> string list \<Rightarrow> string \<Rightarrow> string \<Rightarrow> routing \<Rightarrow> string list \<times> string list" where
  "deliver policy incoming_to incoming_cc patch_author sashiko_bare st0 =
     (let st1 = st0\<lparr>rt_static_cc := rt_static_cc st0 @ dl_cc (ec_defaults policy)\<rparr>;
          st = cap_recipients policy (incoming_to @ incoming_cc) sashiko_bare (extract_bare_email patch_author) st1;
          configured_lists = configured_bare policy;
          raw_to = (if rt_author st \<and> trim patch_author \<noteq> [] then [patch_author] else [])
                   @ filter (relayed configured_lists st) incoming_to;
          raw_cc = filter (relayed configured_lists st) incoming_cc @ rt_static_cc st;
          (final_to, to_bare_set) = dedup_addresses raw_to sashiko_bare None;
          (final_cc, _) = dedup_addresses raw_cc sashiko_bare (Some to_bare_set)
      in (final_to, final_cc))"

definition is_ignored_author :: "email_policy_config \<Rightarrow> string \<Rightarrow> bool" where
  "is_ignored_author policy author_email =
     (let author_lower = to_lower author_email in
      if list_ex (\<lambda>e. contains author_lower (to_lower e)) (dl_ignored_emails (ec_defaults policy)) then True
      else list_ex (\<lambda>l. list_ex (\<lambda>e. contains author_lower (to_lower e)) (ml_ignored_emails (snd l))) (ec_lists policy))"

definition is_own_mail :: "string \<Rightarrow> string \<Rightarrow> bool" where
  "is_own_mail patch_author sashiko_bare \<longleftrightarrow>
     sashiko_bare \<noteq> [] \<and> extract_bare_email patch_author \<noteq> []
     \<and> (extract_bare_email patch_author = sashiko_bare \<or> contains (to_ascii_lower patch_author) sashiko_bare)"

definition resolve_recipients ::
  "email_policy_config \<Rightarrow> string list \<Rightarrow> string list \<Rightarrow> string \<Rightarrow> string \<Rightarrow> action" where
  "resolve_recipients policy incoming_to incoming_cc patch_author sashiko_address =
     (let sashiko_bare = extract_bare_email sashiko_address in
      if is_ignored_author policy patch_author \<or> is_own_mail patch_author sashiko_bare then Mute
      else (let st = route_review policy (incoming_to @ incoming_cc) in
            if rt_mute_all st then Mute
            else (let (to, cc) = deliver policy incoming_to incoming_cc patch_author sashiko_bare st in
                  if to = [] \<and> cc = [] then Mute else Send to cc (rt_positive st))))"

section \<open>Recipients of a positive review\<close>

definition route_positive_list :: "default_list_policy \<Rightarrow> string \<times> mailing_list_policy \<Rightarrow> routing \<Rightarrow> routing" where
  "route_positive_list d entry st =
     (let list_bare = fst entry; p = snd entry; reply_to = list_reply_to d p; pos = list_positive d p
      in if pos = PositiveAll then
           st\<lparr>rt_author := rt_author st \<or> List.member reply_to ReplyAuthor,
              rt_allowed := (if List.member reply_to ReplyList then insert list_bare (rt_allowed st) else rt_allowed st),
              rt_recipients := rt_recipients st \<or> List.member reply_to ReplyRecipients,
              rt_static_cc := rt_static_cc st @ ml_cc p\<rparr>
         else if pos = PositiveAuthor \<and> List.member reply_to ReplyAuthor then st\<lparr>rt_author := True\<rparr>
         else st)"

definition resolve_positive_recipients ::
  "email_policy_config \<Rightarrow> string list \<Rightarrow> string list \<Rightarrow> string \<Rightarrow> string \<Rightarrow> (string list \<times> string list) option" where
  "resolve_positive_recipients policy incoming_to incoming_cc patch_author sashiko_address =
     (case resolve_recipients policy incoming_to incoming_cc patch_author sashiko_address of
        Mute \<Rightarrow> None
      | Send to cc positive_review \<Rightarrow>
          (let sashiko_bare = extract_bare_email sashiko_address in
           case positive_review of
             PositiveNone \<Rightarrow> None
           | PositiveAuthor \<Rightarrow>
               (let author_trimmed = trim patch_author in
                if author_trimmed = [] then None
                else (let (pos_to, _) = dedup_addresses [author_trimmed] sashiko_bare None in
                      if pos_to = [] then None else Some (pos_to, [])))
           | PositiveAll \<Rightarrow>
               (let matched = sorted_matches policy (incoming_to @ incoming_cc) in
                if matched = [] then Some (to, cc)
                else (let st = fold (route_positive_list (ec_defaults policy)) matched routing_init;
                          (pos_to, pos_cc) = deliver policy incoming_to incoming_cc patch_author sashiko_bare st
                      in if pos_to = [] \<and> pos_cc = [] then None else Some (pos_to, pos_cc)))))"

section \<open>Deduplication\<close>

text \<open>An address that may be mailed: trimmed, with a bare form, not the program's own, not excluded.\<close>

definition mailable :: "string \<Rightarrow> string set option \<Rightarrow> string \<Rightarrow> bool" where
  "mailable sashiko_bare exclude_bare a \<longleftrightarrow>
     a \<noteq> [] \<and> extract_bare_email a \<noteq> []
     \<and> \<not> (sashiko_bare \<noteq> [] \<and> (extract_bare_email a = sashiko_bare \<or> contains (to_ascii_lower a) sashiko_bare))
     \<and> \<not> (case exclude_bare of None \<Rightarrow> False | Some excluded \<Rightarrow> extract_bare_email a \<in> excluded)"

definition dedup_inv :: "string \<Rightarrow> string set option \<Rightarrow> string list \<Rightarrow> dedup_state \<Rightarrow> bool" where
  "dedup_inv sb ex cs st \<longleftrightarrow>
     distinct (map extract_bare_email (dd_result st))
     \<and> dd_seen st = set (map extract_bare_email (dd_result st))
     \<and> (\<forall>b i. dd_index st b = Some i \<longleftrightarrow> i < length (dd_result st) \<and> extract_bare_email (dd_result st ! i) = b)
     \<and> (\<forall>a \<in> set (dd_result st). mailable sb ex a \<and> a \<in> trim ` set cs)
     \<and> dd_seen st = extract_bare_email ` {c \<in> set cs. mailable sb ex (trim c)}"

lemma dedup_step_skip:
  "\<not> mailable sb ex (trim addr) \<Longrightarrow> dedup_step sb ex addr st = st"
  by (auto simp: dedup_step_def mailable_def Let_def)

lemma dedup_step_keep:
  "mailable sb ex (trim addr) \<Longrightarrow> dedup_step sb ex addr st =
     (case dd_index st (extract_bare_email addr) of
        Some idx \<Rightarrow>
          if \<not> List.member (dd_result st ! idx) (CHR ''<'') \<and> List.member (trim addr) (CHR ''<'')
          then st\<lparr>dd_result := (dd_result st)[idx := trim addr]\<rparr> else st
      | None \<Rightarrow>
          \<lparr>dd_result = dd_result st @ [trim addr],
           dd_index = (dd_index st)(extract_bare_email addr \<mapsto> length (dd_result st)),
           dd_seen = insert (extract_bare_email addr) (dd_seen st)\<rparr>)"
  unfolding mailable_def dedup_step_def Let_def
  by (cases "dd_index st (extract_bare_email addr)") auto

lemma map_update_same: "i < length xs \<Longrightarrow> f (xs ! i) = f x \<Longrightarrow> map f (xs[i := x]) = map f xs"
  by (metis list_update_id map_update nth_map)

lemma mailable_set_snoc:
  "extract_bare_email ` {c \<in> set (cs @ [a]). mailable sb ex (trim c)} =
     (if mailable sb ex (trim a) then insert (extract_bare_email a) else id)
       (extract_bare_email ` {c \<in> set cs. mailable sb ex (trim c)})"
  by auto

lemma dedup_inv_step:
  assumes inv: "dedup_inv sb ex cs st"
  shows "dedup_inv sb ex (cs @ [addr]) (dedup_step sb ex addr st)"
proof (cases "mailable sb ex (trim addr)")
  case False
  with inv show ?thesis
    unfolding dedup_inv_def mailable_set_snoc by (auto simp: dedup_step_skip)
next
  case True
  have I: "dd_index st b = Some i \<longleftrightarrow> i < length (dd_result st) \<and> extract_bare_email (dd_result st ! i) = b" for b i
    using inv unfolding dedup_inv_def by blast
  show ?thesis
  proof (cases "dd_index st (extract_bare_email addr)")
    case None
    have new: "extract_bare_email addr \<notin> set (map extract_bare_email (dd_result st))"
      using I [of "extract_bare_email addr"] None unfolding in_set_conv_nth by fastforce
    have idx: "((dd_index st)(extract_bare_email addr \<mapsto> length (dd_result st))) b = Some i \<longleftrightarrow>
       i < length (dd_result st @ [trim addr]) \<and> extract_bare_email ((dd_result st @ [trim addr]) ! i) = b" for b i
    proof (cases "i < length (dd_result st)")
      case True
      then have "extract_bare_email (dd_result st ! i) \<in> set (map extract_bare_email (dd_result st))" by simp
      with new have "extract_bare_email (dd_result st ! i) \<noteq> extract_bare_email addr" by metis
      with True I [of b i] show ?thesis by (simp add: nth_append)
    next
      case False
      with I [of b i] show ?thesis by (auto simp: nth_append)
    qed
    show ?thesis
      unfolding dedup_inv_def mailable_set_snoc dedup_step_keep [OF True] None option.case
        dedup_state.simps
    proof (intro conjI)
      show "\<forall>b i. ((dd_index st)(extract_bare_email addr \<mapsto> length (dd_result st))) b = Some i \<longleftrightarrow>
          i < length (dd_result st @ [trim addr]) \<and> extract_bare_email ((dd_result st @ [trim addr]) ! i) = b"
        using idx by blast
    qed (use inv True new in \<open>auto simp: dedup_inv_def\<close>)
  next
    case (Some i)
    with I have i: "i < length (dd_result st)" "extract_bare_email (dd_result st ! i) = extract_bare_email addr"
      by blast+
    have "dd_seen st = set (map extract_bare_email (dd_result st))"
      using inv unfolding dedup_inv_def by blast
    with i have seen: "extract_bare_email addr \<in> dd_seen st"
      using nth_mem [of i "map extract_bare_email (dd_result st)"] by simp
    have same: "map extract_bare_email ((dd_result st)[i := trim addr]) = map extract_bare_email (dd_result st)"
      using i by (simp add: map_update_same)
    have nth_same: "extract_bare_email ((dd_result st)[i := trim addr] ! j) = extract_bare_email (dd_result st ! j)"
      if "j < length (dd_result st)" for j
      using that i by (cases "j = i") auto
    have elems: "set ((dd_result st)[i := trim addr]) \<subseteq> insert (trim addr) (set (dd_result st))"
      by (rule set_update_subset_insert)
    have upd: "dedup_inv sb ex (cs @ [addr]) (st\<lparr>dd_result := (dd_result st)[i := trim addr]\<rparr>)"
      using inv True seen elems unfolding dedup_inv_def mailable_set_snoc
      by (auto simp: same nth_same insert_absorb set_map [symmetric] simp del: set_map)
    have keep: "dedup_inv sb ex (cs @ [addr]) st"
      using inv True seen unfolding dedup_inv_def mailable_set_snoc by (auto simp: insert_absorb)
    show ?thesis using upd keep by (simp add: dedup_step_keep [OF True] Some)
  qed
qed

lemma dedup_addresses_spec:
  assumes "dedup_addresses cs sb ex = (r, seen)"
  shows "distinct (map extract_bare_email r)" and "seen = set (map extract_bare_email r)"
    and "\<forall>a \<in> set r. mailable sb ex a \<and> a \<in> trim ` set cs"
    and "set (map extract_bare_email r) = extract_bare_email ` {c \<in> set cs. mailable sb ex (trim c)}"
proof -
  have "dedup_inv sb ex cs (fold (dedup_step sb ex) cs \<lparr>dd_result = [], dd_index = Map.empty, dd_seen = {}\<rparr>)"
  proof (induction cs rule: rev_induct)
    case Nil
    then show ?case by (simp add: dedup_inv_def)
  next
    case (snoc c cs)
    then show ?case by (simp add: dedup_inv_step)
  qed
  with assms show "distinct (map extract_bare_email r)" "seen = set (map extract_bare_email r)"
    "\<forall>a \<in> set r. mailable sb ex a \<and> a \<in> trim ` set cs"
    "set (map extract_bare_email r) = extract_bare_email ` {c \<in> set cs. mailable sb ex (trim c)}"
    unfolding dedup_inv_def dedup_addresses_def by (auto simp: Let_def)
qed

section \<open>What a delivery contains\<close>

text \<open>The candidates of a delivery, once the recipients have been capped.\<close>

definition capped :: "email_policy_config \<Rightarrow> string list \<Rightarrow> string \<Rightarrow> string \<Rightarrow> routing \<Rightarrow> routing" where
  "capped policy incoming author sb st =
     cap_recipients policy incoming sb (extract_bare_email author)
       (st\<lparr>rt_static_cc := rt_static_cc st @ dl_cc (ec_defaults policy)\<rparr>)"

definition candidates ::
  "email_policy_config \<Rightarrow> string list \<Rightarrow> string list \<Rightarrow> string \<Rightarrow> string \<Rightarrow> routing \<Rightarrow> string list" where
  "candidates policy tos ccs author sb st =
     (let st' = capped policy (tos @ ccs) author sb st in
      (if rt_author st' \<and> trim author \<noteq> [] then [author] else [])
      @ filter (relayed (configured_bare policy) st') (tos @ ccs) @ rt_static_cc st')"

lemma mailable_None: "mailable sb None a \<longleftrightarrow> a \<noteq> [] \<and> extract_bare_email a \<noteq> []
   \<and> (sb = [] \<or> extract_bare_email a \<noteq> sb \<and> \<not> contains (to_ascii_lower a) sb)"
  by (auto simp: mailable_def)

lemma mailable_Some: "mailable sb (Some X) a \<longleftrightarrow> mailable sb None a \<and> extract_bare_email a \<notin> X"
  by (auto simp: mailable_def)

lemma deliver_spec:
  assumes "deliver policy tos ccs author sb st = (fto, fcc)"
  shows "distinct (map extract_bare_email (fto @ fcc))"
    and "\<forall>a \<in> set (fto @ fcc). mailable sb None a \<and> a \<in> trim ` set (candidates policy tos ccs author sb st)"
    and "set (map extract_bare_email (fto @ fcc)) =
      extract_bare_email ` {c \<in> set (candidates policy tos ccs author sb st). mailable sb None (trim c)}"
proof -
  define st' where "st' = capped policy (tos @ ccs) author sb st"
  define raw_to where "raw_to = (if rt_author st' \<and> trim author \<noteq> [] then [author] else [])
     @ filter (relayed (configured_bare policy) st') tos"
  define raw_cc where "raw_cc = filter (relayed (configured_bare policy) st') ccs @ rt_static_cc st'"
  obtain seen where to: "dedup_addresses raw_to sb None = (fto, seen)"
    and cc: "\<exists>seen'. dedup_addresses raw_cc sb (Some seen) = (fcc, seen')"
    using assms
    by (auto simp: deliver_def Let_def raw_to_def raw_cc_def st'_def capped_def split: prod.splits)
  from cc obtain seen' where cc: "dedup_addresses raw_cc sb (Some seen) = (fcc, seen')" ..
  note T = dedup_addresses_spec [OF to] and C = dedup_addresses_spec [OF cc]
  have cand: "set (candidates policy tos ccs author sb st) = set raw_to \<union> set raw_cc"
    by (auto simp: candidates_def Let_def raw_to_def raw_cc_def st'_def)
  show "distinct (map extract_bare_email (fto @ fcc))"
  proof -
    have "set (map extract_bare_email fto) \<inter> set (map extract_bare_email fcc) = {}"
      using C(3) unfolding T(2) [symmetric] by (auto simp: mailable_Some)
    with T(1) C(1) show ?thesis by simp
  qed
  show "\<forall>a \<in> set (fto @ fcc). mailable sb None a \<and> a \<in> trim ` set (candidates policy tos ccs author sb st)"
    using T(3) C(3) by (auto simp: mailable_Some cand)
  have "set (map extract_bare_email (fto @ fcc)) = extract_bare_email ` {c \<in> set raw_to. mailable sb None (trim c)}
     \<union> extract_bare_email ` {c \<in> set raw_cc. mailable sb (Some seen) (trim c)}"
    unfolding map_append set_append T(4) C(4) ..
  also have "\<dots> = extract_bare_email ` {c \<in> set raw_to \<union> set raw_cc. mailable sb None (trim c)}"
    using T(2,4) by (auto simp: mailable_Some)
  finally show "set (map extract_bare_email (fto @ fcc)) =
      extract_bare_email ` {c \<in> set (candidates policy tos ccs author sb st). mailable sb None (trim c)}"
    by (simp add: cand)
qed

lemma relayed_bare_cong:
  "extract_bare_email a = extract_bare_email b \<Longrightarrow> relayed L st a = relayed L st b"
  by (simp add: relayed_def is_mailing_list_address_def)

text \<open>The static copies that apply to a patch: those of the matched lists and the defaults'.\<close>

definition static_copies :: "email_policy_config \<Rightarrow> string list \<Rightarrow> string list" where
  "static_copies policy incoming =
     concat (map (\<lambda>e. ml_cc (snd e)) (sorted_matches policy incoming)) @ dl_cc (ec_defaults policy)"

lemma route_list_sel:
  "rt_mute_all (route_list d e st) \<longleftrightarrow> rt_mute_all st \<or> or_default (ml_mute_all (snd e)) (dl_mute_all d)"
  "rt_author (route_list d e st) \<longleftrightarrow> rt_author st \<or> ReplyAuthor \<in> set (list_reply_to d (snd e))"
  "rt_recipients (route_list d e st) \<longleftrightarrow> rt_recipients st \<or> ReplyRecipients \<in> set (list_reply_to d (snd e))"
  "rt_all_lists (route_list d e st) = rt_all_lists st"
  "rt_allowed (route_list d e st) =
     rt_allowed st \<union> (if ReplyList \<in> set (list_reply_to d (snd e)) then {fst e} else {})"
  "rt_positive (route_list d e st) = max (list_positive d (snd e)) (rt_positive st)"
  "rt_static_cc (route_list d e st) = rt_static_cc st @ ml_cc (snd e)"
  by (auto simp: route_list_def Let_def max_def)

lemma fold_route_list:
  "fold (route_list d) es st = \<lparr>
     rt_mute_all = rt_mute_all st \<or> (\<exists>e \<in> set es. or_default (ml_mute_all (snd e)) (dl_mute_all d)),
     rt_author = rt_author st \<or> (\<exists>e \<in> set es. ReplyAuthor \<in> set (list_reply_to d (snd e))),
     rt_recipients = rt_recipients st \<or> (\<exists>e \<in> set es. ReplyRecipients \<in> set (list_reply_to d (snd e))),
     rt_all_lists = rt_all_lists st,
     rt_allowed = rt_allowed st \<union> {fst e | e. e \<in> set es \<and> ReplyList \<in> set (list_reply_to d (snd e))},
     rt_positive = fold max (map (\<lambda>e. list_positive d (snd e)) es) (rt_positive st),
     rt_static_cc = rt_static_cc st @ concat (map (\<lambda>e. ml_cc (snd e)) es)\<rparr>"
proof (induction es arbitrary: st)
  case Nil
  then show ?case by simp
next
  case (Cons e es)
  show ?case
    unfolding fold_simps Cons route_list_sel by (cases e) auto
qed

lemma rt_static_capped: "rt_static_cc (capped policy inc author sb st) = rt_static_cc st @ dl_cc (ec_defaults policy)"
  by (simp add: capped_def cap_recipients_def)

lemma rt_author_capped: "rt_author (capped policy inc author sb st) = rt_author st"
  by (simp add: capped_def cap_recipients_def)

lemma route_review_static:
  "rt_static_cc (route_review policy inc) @ dl_cc (ec_defaults policy) = static_copies policy inc"
  by (simp add: route_review_def Let_def route_defaults_def routing_init_def fold_route_list static_copies_def)

text \<open>A mail that is sent went through a delivery of the reviewed routing.\<close>

lemma resolve_recipients_Send:
  "resolve_recipients policy tos ccs author own = Send to cc pos \<longleftrightarrow>
     \<not> is_ignored_author policy author \<and> \<not> is_own_mail author (extract_bare_email own)
     \<and> \<not> rt_mute_all (route_review policy (tos @ ccs))
     \<and> deliver policy tos ccs author (extract_bare_email own) (route_review policy (tos @ ccs)) = (to, cc)
     \<and> (to \<noteq> [] \<or> cc \<noteq> []) \<and> pos = rt_positive (route_review policy (tos @ ccs))"
  by (auto simp: resolve_recipients_def Let_def split: prod.splits if_splits)

section \<open>Recipients of a review\<close>

text \<open>
  C9. A review that is sent goes to somebody, to nobody twice (across To and Cc, display names and case
  aside), never to the program's own address, and to no address that is not the author's, one of
  the patch mail's, or a static copy that the policy of a matched list or the defaults configure.
\<close>

theorem recipients_sound:
  assumes "resolve_recipients policy tos ccs author own = Send to cc pos"
  shows "to @ cc \<noteq> [] \<and> distinct (map extract_bare_email (to @ cc))
    \<and> (\<forall>a \<in> set (to @ cc).
         extract_bare_email a \<noteq> []
         \<and> (extract_bare_email own \<noteq> [] \<longrightarrow> extract_bare_email a \<noteq> extract_bare_email own
              \<and> \<not> contains (to_ascii_lower a) (extract_bare_email own))
         \<and> a \<in> trim ` ({author} \<union> set tos \<union> set ccs \<union> set (static_copies policy (tos @ ccs))))"
proof -
  let ?st = "route_review policy (tos @ ccs)"
  from assms have d: "deliver policy tos ccs author (extract_bare_email own) ?st = (to, cc)"
    and ne: "to @ cc \<noteq> []"
    by (auto simp: resolve_recipients_Send)
  have "set (candidates policy tos ccs author (extract_bare_email own) ?st)
      \<subseteq> {author} \<union> set tos \<union> set ccs \<union> set (static_copies policy (tos @ ccs))"
    by (auto simp: candidates_def Let_def rt_static_capped route_review_static)
  then have "\<forall>a \<in> set (to @ cc). mailable (extract_bare_email own) None a
       \<and> a \<in> trim ` ({author} \<union> set tos \<union> set ccs \<union> set (static_copies policy (tos @ ccs)))"
    using deliver_spec(2) [OF d] by blast
  with deliver_spec(1) [OF d] ne show ?thesis by (auto simp: mailable_None)
qed

text \<open>The lists that a patch matched decide about muting; without one, the defaults do.\<close>

definition policy_mutes :: "email_policy_config \<Rightarrow> string list \<Rightarrow> bool" where
  "policy_mutes policy incoming \<longleftrightarrow>
     (if sorted_matches policy incoming = [] then dl_mute_all (ec_defaults policy)
      else \<exists>e \<in> set (sorted_matches policy incoming).
             or_default (ml_mute_all (snd e)) (dl_mute_all (ec_defaults policy)))"

lemma route_review_mutes: "rt_mute_all (route_review policy inc) = policy_mutes policy inc"
  by (simp add: route_review_def policy_mutes_def Let_def fold_route_list routing_init_def)

lemma in_sorted_matches:
  "e \<in> set (sorted_matches policy inc) \<longleftrightarrow>
     (\<exists>l \<in> set (ec_lists policy). fst e = extract_bare_email (fst l) \<and> snd e = snd l)
     \<and> fst e \<in> extract_bare_email ` set inc"
  by (cases e) (auto simp: sorted_matches_def address_matches_list_def list_ex_iff image_iff eq_commute)

text \<open>
  When nothing is sent: exactly when the author is ignored, the patch mail is the program's own,
  one of the matched lists is muted (without a match: the defaults are), or no
  candidate address may be mailed.
\<close>

theorem muted_exactly_when:
  "resolve_recipients policy tos ccs author own = Mute \<longleftrightarrow>
     is_ignored_author policy author \<or> is_own_mail author (extract_bare_email own)
     \<or> policy_mutes policy (tos @ ccs)
     \<or> list_all (\<lambda>c. \<not> mailable (extract_bare_email own) None (trim c))
         (candidates policy tos ccs author (extract_bare_email own) (route_review policy (tos @ ccs)))"
proof -
  let ?st = "route_review policy (tos @ ccs)" and ?own = "extract_bare_email own"
  obtain to cc where d: "deliver policy tos ccs author ?own ?st = (to, cc)" by (meson surj_pair)
  have "to = [] \<and> cc = [] \<longleftrightarrow> set (map extract_bare_email (to @ cc)) = {}" by simp
  also have "\<dots> \<longleftrightarrow> list_all (\<lambda>c. \<not> mailable ?own None (trim c)) (candidates policy tos ccs author ?own ?st)"
    unfolding deliver_spec(3) [OF d] by (auto simp: list_all_iff)
  finally show ?thesis
    using d by (auto simp: resolve_recipients_def Let_def route_review_mutes)
qed

lemma card_set_le_length: "A \<subseteq> set xs \<Longrightarrow> length xs \<le> n \<Longrightarrow> card A \<le> n"
  by (meson card_length card_mono finite_set le_trans)

text \<open>
  Relaying is bounded: whoever can post to a list cannot make the program mail more than 128
  people of his choice. The individual addresses of a review that are neither the author's nor a configured static
  copy are at most 128.
\<close>

theorem relay_bounded:
  assumes "resolve_recipients policy tos ccs author own = Send to cc pos"
  shows "card {b \<in> extract_bare_email ` set (to @ cc).
      b \<notin> configured_bare policy \<and> \<not> is_known_mailing_list_bare b \<and> b \<noteq> extract_bare_email author
      \<and> b \<notin> extract_bare_email ` set (static_copies policy (tos @ ccs))} \<le> 128"
    (is "card ?A \<le> 128")
proof -
  let ?st0 = "route_review policy (tos @ ccs)" and ?own = "extract_bare_email own"
  define st where "st = capped policy (tos @ ccs) author ?own ?st0"
  define ind where "ind = individuals (tos @ ccs) (configured_bare policy) ?own
     (if rt_author st then Some (extract_bare_email author) else None) (rt_static_cc st)"
  from assms have d: "deliver policy tos ccs author ?own ?st0 = (to, cc)"
    by (auto simp: resolve_recipients_Send)
  have static: "rt_static_cc st = static_copies policy (tos @ ccs)"
    by (simp add: st_def rt_static_capped route_review_static)
  have src: "\<exists>c \<in> set (tos @ ccs). b = extract_bare_email c \<and> rt_recipients st
       \<and> \<not> is_mailing_list_address c (configured_bare policy) \<and> b \<noteq> [] \<and> b \<noteq> ?own" if "b \<in> ?A" for b
  proof -
    from that obtain c where c: "c \<in> set (candidates policy tos ccs author ?own ?st0)"
      "b = extract_bare_email c" "mailable ?own None (trim c)"
      using deliver_spec(3) [OF d] by auto
    have "c \<noteq> author" "c \<notin> set (rt_static_cc st)" using that c(2) static by auto
    with c(1) have in_mail: "c \<in> set (tos @ ccs)" "relayed (configured_bare policy) st c"
      by (auto simp: candidates_def Let_def st_def [symmetric] split: if_splits)
    have individual: "\<not> is_mailing_list_address c (configured_bare policy)"
      using that c(2) by (auto simp: is_mailing_list_address_def)
    with in_mail have "rt_recipients st" by (simp add: relayed_def)
    with c(2,3) in_mail individual show ?thesis
      by (auto simp: mailable_None extract_bare_email_def)
  qed
  show ?thesis
  proof (cases "rt_recipients st")
    case False
    with src have none: "?A = {}" by blast
    show ?thesis unfolding none by simp
  next
    case True
    then have "length ind \<le> 128"
      by (auto simp: st_def ind_def capped_def cap_recipients_def too_many_individuals_def
          max_relayed_recipients_def split: if_splits)
    moreover have "?A \<subseteq> set ind"
    proof
      fix b assume b: "b \<in> ?A"
      then have "b \<notin> extract_bare_email ` set (rt_static_cc st)" "b \<noteq> extract_bare_email author"
        by (simp_all add: static)
      with src [OF b] show "b \<in> set ind" by (auto simp: ind_def individuals_def)
    qed
    ultimately show ?thesis by (rule card_set_le_length [rotated])
  qed
qed

lemma route_review_sel:
  "sorted_matches policy inc = [] \<Longrightarrow> rt_allowed (route_review policy inc) = {}"
  "sorted_matches policy inc = [] \<Longrightarrow>
     rt_all_lists (route_review policy inc) \<longleftrightarrow> ReplyList \<in> set (dl_reply_to (ec_defaults policy))"
  "sorted_matches policy inc \<noteq> [] \<Longrightarrow> \<not> rt_all_lists (route_review policy inc)"
  "sorted_matches policy inc \<noteq> [] \<Longrightarrow> rt_allowed (route_review policy inc) =
     {fst e | e. e \<in> set (sorted_matches policy inc) \<and> ReplyList \<in> set (list_reply_to (ec_defaults policy) (snd e))}"
  by (auto simp: route_review_def Let_def route_defaults_def routing_init_def fold_route_list)

lemma capped_sel:
  "rt_all_lists (capped policy inc author sb st) = rt_all_lists st"
  "rt_allowed (capped policy inc author sb st) = rt_allowed st"
  by (simp_all add: capped_def cap_recipients_def)

text \<open>
  A mailing list receives a review only when it asked for it: a list address among the
  recipients, unless it is the author's or a configured static copy, is that of a matched list whose
  reply targets include the list, or, when no configured list matches, of a list of the mail
  while the defaults reply to lists.
\<close>

theorem lists_asked_for_it:
  assumes "resolve_recipients policy tos ccs author own = Send to cc pos"
    and "a \<in> set (to @ cc)" and "is_mailing_list_address a (configured_bare policy)"
    and "extract_bare_email a \<noteq> extract_bare_email author"
    and "extract_bare_email a \<notin> extract_bare_email ` set (static_copies policy (tos @ ccs))"
  shows "extract_bare_email a \<in> extract_bare_email ` set (tos @ ccs) \<and>
    (if sorted_matches policy (tos @ ccs) = [] then ReplyList \<in> set (dl_reply_to (ec_defaults policy))
     else \<exists>e \<in> set (sorted_matches policy (tos @ ccs)).
       fst e = extract_bare_email a \<and> ReplyList \<in> set (list_reply_to (ec_defaults policy) (snd e)))"
proof -
  let ?rt = "route_review policy (tos @ ccs)" and ?own = "extract_bare_email own"
  let ?cp = "capped policy (tos @ ccs) author ?own ?rt"
  from assms(1) have d: "deliver policy tos ccs author ?own ?rt = (to, cc)"
    by (auto simp: resolve_recipients_Send)
  have "extract_bare_email a \<in> set (map extract_bare_email (to @ cc))" using assms(2) by auto
  then obtain c where c: "c \<in> set (candidates policy tos ccs author ?own ?rt)"
    "extract_bare_email a = extract_bare_email c"
    unfolding deliver_spec(3) [OF d] by blast
  have "c \<noteq> author" "c \<notin> set (rt_static_cc ?cp)"
    using assms(4,5) c(2) by (auto simp: rt_static_capped route_review_static)
  with c(1) have mail: "c \<in> set (tos @ ccs)" and "relayed (configured_bare policy) ?cp c"
    by (auto simp: candidates_def Let_def split: if_splits)
  then have "relayed (configured_bare policy) ?cp a"
    using relayed_bare_cong [OF c(2)] by simp
  then have "rt_all_lists ?rt \<or> extract_bare_email a \<in> rt_allowed ?rt"
    using assms(3) by (simp add: relayed_def capped_sel)
  moreover have "extract_bare_email a \<in> extract_bare_email ` set (tos @ ccs)"
    using mail c(2) by auto
  ultimately show ?thesis
    by (cases "sorted_matches policy (tos @ ccs) = []") (force simp: route_review_sel)+
qed

section \<open>Recipients of a positive review\<close>

lemma positive_list_sel:
  "rt_author (route_positive_list d e st) \<Longrightarrow> rt_author st \<or> ReplyAuthor \<in> set (list_reply_to d (snd e))"
  "rt_recipients (route_positive_list d e st) \<Longrightarrow> rt_recipients st \<or> ReplyRecipients \<in> set (list_reply_to d (snd e))"
  "rt_all_lists (route_positive_list d e st) = rt_all_lists st"
  "rt_allowed (route_positive_list d e st) \<subseteq>
     rt_allowed st \<union> (if ReplyList \<in> set (list_reply_to d (snd e)) then {fst e} else {})"
  "set (rt_static_cc (route_positive_list d e st)) \<subseteq> set (rt_static_cc st) \<union> set (ml_cc (snd e))"
  by (auto simp: route_positive_list_def Let_def split: if_splits)

text \<open>One routing asks for no more than another.\<close>

definition routing_le :: "routing \<Rightarrow> routing \<Rightarrow> bool" where
  "routing_le p f \<longleftrightarrow>
     (rt_author p \<longrightarrow> rt_author f) \<and> (rt_recipients p \<longrightarrow> rt_recipients f)
     \<and> (rt_all_lists p \<longrightarrow> rt_all_lists f) \<and> rt_allowed p \<subseteq> rt_allowed f
     \<and> set (rt_static_cc p) \<subseteq> set (rt_static_cc f)"

lemma routing_le_step:
  assumes "routing_le p f"
  shows "routing_le (route_positive_list d e p) (route_list d e f)"
  using assms positive_list_sel [of d e p]
  unfolding routing_le_def route_list_sel by (auto split: if_splits)

lemma routing_le_fold:
  "routing_le p f \<Longrightarrow> routing_le (fold (route_positive_list d) es p) (fold (route_list d) es f)"
  by (induction es arbitrary: p f) (simp_all add: routing_le_step)

lemma individuals_anti:
  assumes "set sc \<subseteq> set sc'" and "au = None \<or> au = au'"
  shows "length (individuals inc L sb au' sc') \<le> length (individuals inc L sb au sc)"
proof -
  have "set (individuals inc L sb au' sc') \<subseteq> set (individuals inc L sb au sc)"
    using assms by (auto simp: individuals_def)
  moreover have "distinct (individuals inc L sb au' sc')" "distinct (individuals inc L sb au sc)"
    by (simp_all add: individuals_def)
  ultimately show ?thesis by (metis card_mono distinct_card finite_set)
qed

lemma routing_le_capped:
  assumes "routing_le p f"
  shows "routing_le (capped policy inc author sb p) (capped policy inc author sb f)"
proof -
  let ?d = "dl_cc (ec_defaults policy)" and ?au = "\<lambda>st. if rt_author st then Some (extract_bare_email author) else None"
  have "length (individuals inc (configured_bare policy) sb (?au f) (rt_static_cc f @ ?d))
     \<le> length (individuals inc (configured_bare policy) sb (?au p) (rt_static_cc p @ ?d))"
    using assms by (intro individuals_anti) (auto simp: routing_le_def)
  with assms show ?thesis
    by (auto simp: capped_def cap_recipients_def too_many_individuals_def routing_le_def split: if_splits)
qed

lemma routing_le_candidates:
  assumes "routing_le p f"
  shows "set (candidates policy tos ccs author sb p) \<subseteq> set (candidates policy tos ccs author sb f)"
  using routing_le_capped [OF assms, of policy "tos @ ccs" author sb]
  by (auto simp: candidates_def Let_def routing_le_def relayed_def split: if_splits)

lemma dedup_single:
  "dedup_addresses [a] sb None =
     (if mailable sb None (trim a) then ([trim a], {extract_bare_email a}) else ([], {}))"
  by (simp add: dedup_addresses_def dedup_step_skip dedup_step_keep)

text \<open>
  A positive review reaches nobody a review with findings would not, except the author where the policy
  asks for him: it is sent only where a review would be, under the policy for everybody to a
  subset of that review's recipients, and under the policy for the author to the author alone.
\<close>

theorem positive_within_review:
  assumes "resolve_positive_recipients policy tos ccs author own = Some (pt, pc)"
  shows "\<exists>to cc pos. resolve_recipients policy tos ccs author own = Send to cc pos \<and> pos \<noteq> PositiveNone
    \<and> pt @ pc \<noteq> []
    \<and> (if pos = PositiveAll
       then extract_bare_email ` set (pt @ pc) \<subseteq> extract_bare_email ` set (to @ cc)
            \<and> distinct (map extract_bare_email (pt @ pc))
       else pt = [trim author] \<and> pc = [] \<and> mailable (extract_bare_email own) None (trim author))"
proof -
  let ?own = "extract_bare_email own" and ?inc = "tos @ ccs"
  let ?full = "route_review policy ?inc" and ?ms = "sorted_matches policy ?inc"
  from assms obtain to cc pos where full: "resolve_recipients policy tos ccs author own = Send to cc pos"
    by (auto simp: resolve_positive_recipients_def split: action.splits)
  then have d: "deliver policy tos ccs author ?own ?full = (to, cc)" and ne: "to \<noteq> [] \<or> cc \<noteq> []"
    by (auto simp: resolve_recipients_Send)
  show ?thesis
  proof (cases pos)
    case PositiveNone
    with assms full show ?thesis by (simp add: resolve_positive_recipients_def)
  next
    case PositiveAuthor
    have "trim author \<noteq> [] \<and> mailable ?own None (trim author) \<and> pt = [trim author] \<and> pc = []"
      using assms by (simp add: resolve_positive_recipients_def full PositiveAuthor dedup_single Let_def split: if_splits)
    with full PositiveAuthor show ?thesis by simp
  next
    case PositiveAll
    show ?thesis
    proof (cases "?ms = []")
      case True
      with assms full PositiveAll have "pt = to" "pc = cc" by (simp_all add: resolve_positive_recipients_def Let_def)
      with full PositiveAll ne deliver_spec(1) [OF d] show ?thesis by auto
    next
      case False
      let ?p = "fold (route_positive_list (ec_defaults policy)) ?ms routing_init"
      from assms full PositiveAll False
      have pd: "deliver policy tos ccs author ?own ?p = (pt, pc)" and "pt \<noteq> [] \<or> pc \<noteq> []"
        by (auto simp: resolve_positive_recipients_def Let_def split: prod.splits if_splits)
      moreover have "routing_le ?p ?full"
        using False routing_le_fold [of routing_init routing_init "ec_defaults policy" ?ms]
        by (simp add: routing_le_def route_review_def Let_def)
      then have "set (candidates policy tos ccs author ?own ?p) \<subseteq> set (candidates policy tos ccs author ?own ?full)"
        by (rule routing_le_candidates)
      then have "set (map extract_bare_email (pt @ pc)) \<subseteq> set (map extract_bare_email (to @ cc))"
        unfolding deliver_spec(3) [OF pd] deliver_spec(3) [OF d] by blast
      ultimately show ?thesis using full PositiveAll deliver_spec(1) [OF pd] by auto
    qed
  qed
qed

section \<open>The order of the hash map\<close>

lemma sorted_matches_perm:
  assumes "mset (ec_lists policy') = mset (ec_lists policy)"
    and "distinct (map (\<lambda>e. extract_bare_email (fst e)) (ec_lists policy))"
  shows "sorted_matches policy' inc = sorted_matches policy inc"
proof -
  define f where "f = (\<lambda>e :: string \<times> mailing_list_policy. (extract_bare_email (fst e), snd e))"
  define P where "P = (\<lambda>e :: string \<times> mailing_list_policy. list_ex (\<lambda>i. address_matches_list i (fst e)) inc)"
  have "mset (filter P (map f (ec_lists policy'))) = mset (filter P (map f (ec_lists policy)))"
    using assms(1) by simp
  moreover have "inj_on fst (set (filter P (map f (ec_lists policy))))"
  proof -
    have "distinct (map fst (map f (ec_lists policy)))"
      using assms(2) by (simp add: f_def comp_def)
    then have "inj_on fst (set (map f (ec_lists policy)))" by (metis distinct_map)
    then show ?thesis by (rule inj_on_subset) auto
  qed
  ultimately have "sort_key fst (filter P (map f (ec_lists policy))) = sort_key fst (filter P (map f (ec_lists policy')))"
    by (intro sort_key_inj_key_eq) (simp_all add: sorted_sort_key)
  then show ?thesis by (simp add: sorted_matches_def f_def P_def)
qed

lemma is_ignored_author_perm:
  assumes "mset (ec_lists policy') = mset (ec_lists policy)" and "ec_defaults policy' = ec_defaults policy"
  shows "is_ignored_author policy' = is_ignored_author policy"
  using assms mset_eq_setD [OF assms(1)] by (simp add: is_ignored_author_def fun_eq_iff list_ex_iff)

lemma deliver_perm:
  assumes "mset (ec_lists policy') = mset (ec_lists policy)" and "ec_defaults policy' = ec_defaults policy"
  shows "deliver policy' = deliver policy"
proof -
  have "configured_bare policy' = configured_bare policy"
    using mset_eq_setD [OF assms(1)] by (simp add: configured_bare_def)
  then show ?thesis using assms(2) by (simp add: deliver_def cap_recipients_def fun_eq_iff)
qed

text \<open>
  Routing is deterministic: as long as no two configured lists have the same bare address, the order in
  which the hash map of the lists is iterated changes neither the action for a review nor the recipients of a positive
  one, down to the order of the addresses.
\<close>

theorem routing_deterministic:
  assumes "mset (ec_lists policy') = mset (ec_lists policy)" and "ec_defaults policy' = ec_defaults policy"
    and "distinct (map (\<lambda>e. extract_bare_email (fst e)) (ec_lists policy))"
  shows "resolve_recipients policy' tos ccs author own = resolve_recipients policy tos ccs author own
    \<and> resolve_positive_recipients policy' tos ccs author own = resolve_positive_recipients policy tos ccs author own"
proof -
  note perm = sorted_matches_perm [OF assms(1,3)] is_ignored_author_perm [OF assms(1,2)] deliver_perm [OF assms(1,2)]
  have rev: "resolve_recipients policy' tos ccs author own = resolve_recipients policy tos ccs author own"
    by (simp add: resolve_recipients_def route_review_def perm assms(2) Let_def)
  have "resolve_positive_recipients policy' tos ccs author own = resolve_positive_recipients policy tos ccs author own"
    unfolding resolve_positive_recipients_def rev perm assms(2) ..
  with rev show ?thesis ..
qed

section \<open>Patchwork\<close>

interpretation severity_opt: merge_op merge_severity_opt
  by unfold_locales
    (auto simp: merge_severity_opt_def min.assoc min.commute min.left_commute split: option.splits)

text \<open>One target of a delivery: what a policy contributes under its key.\<close>

definition api_part :: "patchwork_policy \<Rightarrow> (string \<times> patchwork_policy) option" where
  "api_part p = map_option (\<lambda>url. (url, p\<lparr>pw_email := None\<rparr>)) (pw_api_url p)"

definition email_part :: "patchwork_policy \<Rightarrow> (string \<times> patchwork_policy) option" where
  "email_part p = map_option (\<lambda>addr. (addr, p\<lparr>pw_api_url := None, pw_token := None\<rparr>)) (pw_email p)"

definition add_part ::
  "(patchwork_policy \<Rightarrow> (string \<times> patchwork_policy) option) \<Rightarrow> patchwork_policy
     \<Rightarrow> (string, patchwork_policy) alist \<Rightarrow> (string, patchwork_policy) alist" where
  "add_part part p targets =
     (case part p of None \<Rightarrow> targets | Some (k, q) \<Rightarrow> upsert k q (\<lambda>e. merge_policies e q) targets)"

lemma targets_add_part: "api_target = add_part api_part" "email_target = add_part email_part"
  by (auto simp: fun_eq_iff api_target_def email_target_def add_part_def api_part_def email_part_def
      Let_def split: option.splits)

lemma map_of_add_parts:
  "map_of (fold (add_part part) ps targets) k =
     fold (merge_step merge_policies) (map snd (filter (\<lambda>(k', q). k' = k) (List.map_filter part ps))) (map_of targets k)"
proof (induction ps arbitrary: targets)
  case Nil
  then show ?case by simp
next
  case (Cons p ps)
  then show ?case
    by (auto simp: add_part_def map_of_upsert merge_step_def map_filter_simps split: option.splits prod.splits)
qed

lemma distinct_add_parts:
  "distinct (map fst targets) \<Longrightarrow> distinct (map fst (fold (add_part part) ps targets))"
  by (induction ps arbitrary: targets) (auto simp: add_part_def distinct_upsert split: option.splits)

section \<open>A concrete mail\<close>

definition mm_list :: "string \<times> mailing_list_policy" where
  "mm_list = (''linux-mm@kvack.org'', mailing_list_default\<lparr>
     ml_reply_to := Some [ReplyAuthor, ReplyList, ReplyRecipients], ml_positive_review := Some PositiveAll,
     ml_cc := [''MM bots <mm-bots@example.org>'']\<rparr>)"

definition net_list :: "string \<times> mailing_list_policy" where
  "net_list = (''netdev@vger.kernel.org'', mailing_list_default\<lparr>ml_reply_to := Some [ReplyAuthor]\<rparr>)"

definition example_policy :: email_policy_config where
  "example_policy = \<lparr>ec_defaults = default_list_default, ec_lists = [net_list, mm_list]\<rparr>"

definition example_tos :: "string list" where
  "example_tos = [''Linux-MM <linux-mm@KVACK.org>'', ''netdev@vger.kernel.org'']"

definition example_ccs :: "string list" where
  "example_ccs = [''jane@example.org'', ''BOB@example.org'', ''bot@sashiko.dev'', ''linux-mm@kvack.org'']"

abbreviation example_review :: action where
  "example_review \<equiv>
     resolve_recipients example_policy example_tos example_ccs ''Bob <bob@example.org>'' ''Bot <bot@sashiko.dev>''"

definition example_recipients :: "string list \<times> string list" where
  "example_recipients = ([''Bob <bob@example.org>'', ''Linux-MM <linux-mm@KVACK.org>''],
     [''jane@example.org'', ''MM bots <mm-bots@example.org>''])"

lemma example_review_sent:
  "example_review = Send (fst example_recipients) (snd example_recipients) PositiveAll"
  by code_simp

lemma recipients_sound_witness:
  "fst example_recipients @ snd example_recipients \<noteq> []
   \<and> distinct (map extract_bare_email (fst example_recipients @ snd example_recipients))
   \<and> ''bot@sashiko.dev'' \<notin> extract_bare_email ` set (fst example_recipients @ snd example_recipients)"
proof -
  have bare: "extract_bare_email ''Bot <bot@sashiko.dev>'' = ''bot@sashiko.dev''" by code_simp
  have "''bot@sashiko.dev'' \<noteq> []" by simp
  note sound = recipients_sound [OF example_review_sent, unfolded bare]
  show ?thesis
  proof (intro conjI)
    show "''bot@sashiko.dev'' \<notin> extract_bare_email ` set (fst example_recipients @ snd example_recipients)"
    proof
      assume "''bot@sashiko.dev'' \<in> extract_bare_email ` set (fst example_recipients @ snd example_recipients)"
      then obtain a where a: "''bot@sashiko.dev'' = extract_bare_email a"
        "a \<in> set (fst example_recipients @ snd example_recipients)" by (rule imageE)
      from sound [THEN conjunct2, THEN conjunct2, rule_format, OF a(2), THEN conjunct2, THEN conjunct1] a(1)
      show False by simp
    qed
  qed (rule sound [THEN conjunct1], rule sound [THEN conjunct2, THEN conjunct1])
qed

lemma relay_bounded_witness:
  "\<exists>to cc pos. example_review = Send to cc pos \<and>
     card {b \<in> extract_bare_email ` set (to @ cc).
      b \<notin> configured_bare example_policy \<and> \<not> is_known_mailing_list_bare b
      \<and> b \<noteq> extract_bare_email ''Bob <bob@example.org>''
      \<and> b \<notin> extract_bare_email ` set (static_copies example_policy (example_tos @ example_ccs))} \<le> 128"
  using relay_bounded [OF example_review_sent] example_review_sent by blast

lemma lists_asked_for_it_witness:
  "\<exists>e \<in> set (sorted_matches example_policy (example_tos @ example_ccs)).
     fst e = ''linux-mm@kvack.org'' \<and> ReplyList \<in> set (list_reply_to (ec_defaults example_policy) (snd e))"
proof -
  let ?a = "''Linux-MM <linux-mm@KVACK.org>''"
  have bare: "extract_bare_email ?a = ''linux-mm@kvack.org''" by code_simp
  have "is_mailing_list_address ?a (configured_bare example_policy)" by code_simp
  moreover have "extract_bare_email ?a \<noteq> extract_bare_email ''Bob <bob@example.org>''" by code_simp
  moreover have "extract_bare_email ?a \<notin> extract_bare_email ` set (static_copies example_policy (example_tos @ example_ccs))"
    by code_simp
  moreover have "sorted_matches example_policy (example_tos @ example_ccs) \<noteq> []" by code_simp
  moreover have "?a \<in> set (fst example_recipients @ snd example_recipients)" by (simp add: example_recipients_def)
  ultimately show ?thesis
    using lists_asked_for_it [OF example_review_sent, of ?a] by (simp add: bare)
qed

lemma positive_within_review_witness:
  "\<exists>pt pc. resolve_positive_recipients example_policy example_tos example_ccs ''Bob <bob@example.org>'' ''Bot <bot@sashiko.dev>''
       = Some (pt, pc)
     \<and> extract_bare_email ` set (pt @ pc) \<subseteq> extract_bare_email ` set (fst example_recipients @ snd example_recipients)"
proof -
  have pos: "resolve_positive_recipients example_policy example_tos example_ccs ''Bob <bob@example.org>'' ''Bot <bot@sashiko.dev>''
     = Some ([''Bob <bob@example.org>'', ''Linux-MM <linux-mm@KVACK.org>''], [''jane@example.org'', ''MM bots <mm-bots@example.org>''])"
    by code_simp
  have same: "pos = PositiveAll \<and> to = fst example_recipients \<and> cc = snd example_recipients"
    if "example_review = Send to cc pos" for to cc pos
    using that unfolding example_review_sent by simp
  show ?thesis
    using positive_within_review [OF pos] same pos by metis
qed

lemma routing_deterministic_witness:
  "resolve_recipients (example_policy\<lparr>ec_lists := [mm_list, net_list]\<rparr>) example_tos example_ccs
     ''Bob <bob@example.org>'' ''Bot <bot@sashiko.dev>'' = example_review"
proof -
  have "distinct (map (\<lambda>e. extract_bare_email (fst e)) (ec_lists example_policy))" by code_simp
  moreover have "mset (ec_lists (example_policy\<lparr>ec_lists := [mm_list, net_list]\<rparr>)) = mset (ec_lists example_policy)"
    by (simp add: example_policy_def)
  ultimately show ?thesis
    using routing_deterministic [of "example_policy\<lparr>ec_lists := [mm_list, net_list]\<rparr>" example_policy] by simp
qed

text \<open>
  An ignored address is searched for as a part of the author's text, so it also silences
  authors whose address merely contains it.
\<close>

lemma ignored_by_substring:
  "is_ignored_author (config_default\<lparr>ec_defaults := default_list_default\<lparr>dl_ignored_emails := [''ann@example.org'']\<rparr>\<rparr>)
     ''Jo Ann <joann@example.org>''"
  by code_simp

end
