(* ===== verification/Patchwork.thy ===== *)
theory Patchwork
  imports EmailRouter
begin

text \<open>
  The result of a review as a Patchwork check (\<open>PatchworkCheckResult::from_policy\<close> of
  \<open>src/src/patchwork.rs\<close>), and what merging the policies of several lists into one target
  (\<open>EmailRouter::resolve_patchwork\<close>) means for the findings reported there. A finding is a JSON
  object; the model keeps the two members that are read.
\<close>

record finding =
  fd_severity :: "string option"
  fd_preexisting :: "bool option"

record severity_counts =
  sc_new :: nat
  sc_preexisting :: nat

definition no_counts :: severity_counts where
  "no_counts = \<lparr>sc_new = 0, sc_preexisting = 0\<rparr>"

record check_result =
  cr_state :: string
  cr_description :: string

record check_buckets =
  bk_critical :: severity_counts
  bk_high :: severity_counts
  bk_medium :: severity_counts
  bk_low :: severity_counts

definition buckets_empty :: check_buckets where
  "buckets_empty = \<lparr>bk_critical = no_counts, bk_high = no_counts, bk_medium = no_counts, bk_low = no_counts\<rparr>"

definition min_threshold :: "patchwork_policy \<Rightarrow> nat" where
  "min_threshold p =
     (case pw_min_severity p of Some s \<Rightarrow> severity_rank (severity_from_str s) | None \<Rightarrow> severity_rank SevLow)"

definition fail_threshold :: "patchwork_policy \<Rightarrow> nat" where
  "fail_threshold p = severity_rank (severity_from_str (pw_fail_severity p))"

definition finding_severity :: "finding \<Rightarrow> severity" where
  "finding_severity f = severity_from_str (case fd_severity f of Some s \<Rightarrow> s | None \<Rightarrow> ''Low'')"

definition is_preexisting :: "finding \<Rightarrow> bool" where
  "is_preexisting f = (case fd_preexisting f of Some b \<Rightarrow> b | None \<Rightarrow> False)"

definition count_finding :: "finding \<Rightarrow> severity_counts \<Rightarrow> severity_counts" where
  "count_finding f c =
     (if is_preexisting f then c\<lparr>sc_preexisting := sc_preexisting c + 1\<rparr> else c\<lparr>sc_new := sc_new c + 1\<rparr>)"

definition add_finding :: "nat \<Rightarrow> finding \<Rightarrow> check_buckets \<Rightarrow> check_buckets" where
  "add_finding threshold f b =
     (if severity_rank (finding_severity f) < threshold then b
      else (case finding_severity f of
              SevCritical \<Rightarrow> b\<lparr>bk_critical := count_finding f (bk_critical b)\<rparr>
            | SevHigh \<Rightarrow> b\<lparr>bk_high := count_finding f (bk_high b)\<rparr>
            | SevMedium \<Rightarrow> b\<lparr>bk_medium := count_finding f (bk_medium b)\<rparr>
            | SevLow \<Rightarrow> b\<lparr>bk_low := count_finding f (bk_low b)\<rparr>
            | SevUnknown \<Rightarrow> b\<lparr>bk_low := count_finding f (bk_low b)\<rparr>))"

definition count_part :: "string \<times> severity_counts \<Rightarrow> string option" where
  "count_part entry =
     (let label = fst entry; c = snd entry in
      if sc_new c = 0 \<and> sc_preexisting c = 0 then None
      else Some
        (if 0 < sc_new c \<and> 0 < sc_preexisting c
         then label @ '': '' @ nat_str (sc_new c) @ '' ('' @ nat_str (sc_preexisting c) @ '' pre-existing)''
         else if 0 < sc_new c then label @ '': '' @ nat_str (sc_new c)
         else label @ '': '' @ nat_str (sc_preexisting c) @ '' pre-existing''))"

definition format_description :: "check_buckets \<Rightarrow> string" where
  "format_description b =
     join ('' '' @ [CHR 0xB7] @ '' '')
       (List.map_filter count_part
         [(''Critical'', bk_critical b), (''High'', bk_high b), (''Medium'', bk_medium b), (''Low'', bk_low b)])"

definition total_new :: "check_buckets \<Rightarrow> nat" where
  "total_new b = sc_new (bk_critical b) + sc_new (bk_high b) + sc_new (bk_medium b) + sc_new (bk_low b)"

definition total_preexisting :: "check_buckets \<Rightarrow> nat" where
  "total_preexisting b = sc_preexisting (bk_critical b) + sc_preexisting (bk_high b)
     + sc_preexisting (bk_medium b) + sc_preexisting (bk_low b)"

definition check_from_policy :: "patchwork_policy \<Rightarrow> finding list \<Rightarrow> check_result" where
  "check_from_policy policy findings =
     (let b = fold (add_finding (min_threshold policy)) findings buckets_empty;
          state = (if total_new b = 0 then ''success''
                   else if list_ex (\<lambda>(sev, n). 0 < n \<and> fail_threshold policy \<le> severity_rank sev)
                     [(SevCritical, sc_new (bk_critical b)), (SevHigh, sc_new (bk_high b)),
                      (SevMedium, sc_new (bk_medium b)), (SevLow, sc_new (bk_low b))]
                   then ''fail'' else ''warning'');
          description = (if total_new b = 0 \<and> total_preexisting b = 0
                         then ''Sashiko AI review found no regressions'' else format_description b)
      in \<lparr>cr_state = state, cr_description = description\<rparr>)"

section \<open>Counting\<close>

text \<open>The findings that a threshold keeps, and the bucket of a severity.\<close>

definition counted :: "nat \<Rightarrow> finding list \<Rightarrow> finding list" where
  "counted threshold fs = filter (\<lambda>f. \<not> severity_rank (finding_severity f) < threshold) fs"

definition bucket_of :: "severity \<Rightarrow> severity" where
  "bucket_of s = (if s = SevUnknown then SevLow else s)"

definition counts_of :: "severity \<Rightarrow> finding list \<Rightarrow> severity_counts" where
  "counts_of s fs =
     \<lparr>sc_new = length (filter (\<lambda>f. bucket_of (finding_severity f) = s \<and> \<not> is_preexisting f) fs),
      sc_preexisting = length (filter (\<lambda>f. bucket_of (finding_severity f) = s \<and> is_preexisting f) fs)\<rparr>"

lemma buckets_counts:
  "fold (add_finding t) fs buckets_empty =
     \<lparr>bk_critical = counts_of SevCritical (counted t fs), bk_high = counts_of SevHigh (counted t fs),
      bk_medium = counts_of SevMedium (counted t fs), bk_low = counts_of SevLow (counted t fs)\<rparr>"
proof (induction fs rule: rev_induct)
  case Nil
  then show ?case by (simp add: buckets_empty_def no_counts_def counts_of_def counted_def)
next
  case (snoc f fs)
  then show ?case
    by (cases "finding_severity f") (auto simp: add_finding_def counts_of_def counted_def bucket_of_def count_finding_def)
qed

lemma total_new_counted:
  "total_new (fold (add_finding t) fs buckets_empty) = length (filter (\<lambda>f. \<not> is_preexisting f) (counted t fs))"
proof (induction fs rule: rev_induct)
  case Nil
  then show ?case by (simp add: counted_def total_new_def buckets_empty_def no_counts_def)
next
  case (snoc f fs)
  then show ?case
    by (cases "finding_severity f") (auto simp: add_finding_def total_new_def counted_def count_finding_def)
qed

lemma total_preexisting_counted:
  "total_preexisting (fold (add_finding t) fs buckets_empty) = length (filter is_preexisting (counted t fs))"
proof (induction fs rule: rev_induct)
  case Nil
  then show ?case by (simp add: counted_def total_preexisting_def buckets_empty_def no_counts_def)
next
  case (snoc f fs)
  then show ?case
    by (cases "finding_severity f") (auto simp: add_finding_def total_preexisting_def counted_def count_finding_def)
qed

lemma format_description_hd:
  assumes "total_new b \<noteq> 0 \<or> total_preexisting b \<noteq> 0"
  shows "format_description b \<noteq> [] \<and> hd (format_description b) \<in> set ''CHML''"
proof -
  have part: "count_part (l, c) = None \<longleftrightarrow> sc_new c = 0 \<and> sc_preexisting c = 0"
    "count_part (d # l, c) = Some s \<Longrightarrow> s \<noteq> [] \<and> hd s = d" for l d c s
    by (auto simp: count_part_def Let_def split: if_splits)
  have all: "\<forall>s \<in> set ps. s \<noteq> [] \<and> hd s \<in> set ''CHML'' \<Longrightarrow> ps \<noteq> [] \<Longrightarrow>
     join sep ps \<noteq> [] \<and> hd (join sep ps) \<in> set ''CHML''" for sep ps
    by (cases ps rule: remdups_adj.cases) auto
  let ?ps = "List.map_filter count_part
     [(''Critical'', bk_critical b), (''High'', bk_high b), (''Medium'', bk_medium b), (''Low'', bk_low b)]"
  have "\<forall>s \<in> set ?ps. s \<noteq> [] \<and> hd s \<in> set ''CHML''"
    unfolding set_map_filter by (auto dest: part(2))
  moreover have "?ps \<noteq> []"
    using assms unfolding map_filter_Nil_iff by (auto simp: total_new_def total_preexisting_def part(1))
  ultimately show ?thesis unfolding format_description_def by (rule all)
qed

lemma any_level:
  "list_ex (\<lambda>(sev, n). 0 < n \<and> t \<le> severity_rank sev)
     [(SevCritical, sc_new (counts_of SevCritical fs)), (SevHigh, sc_new (counts_of SevHigh fs)),
      (SevMedium, sc_new (counts_of SevMedium fs)), (SevLow, sc_new (counts_of SevLow fs))]
   \<longleftrightarrow> list_ex (\<lambda>f. t \<le> severity_rank (bucket_of (finding_severity f))) (filter (\<lambda>f. \<not> is_preexisting f) fs)"
proof -
  have count: "0 < sc_new (counts_of s fs) \<and> t \<le> severity_rank s \<longleftrightarrow>
     (\<exists>f \<in> set fs. \<not> is_preexisting f \<and> bucket_of (finding_severity f) = s \<and> t \<le> severity_rank s)" for s
    by (auto simp: counts_of_def filter_empty_conv)
  have bucket: "bucket_of s \<in> {SevCritical, SevHigh, SevMedium, SevLow}" for s
    by (cases s) (auto simp: bucket_of_def)
  show ?thesis
    unfolding list_ex_iff list.set set_filter bex_simps ball_simps prod.case count
    using bucket by (auto simp del: insert_iff) (force+)
qed

text \<open>
  The Patchwork check says what the new findings deserve: success when none reaches the
  reporting threshold, failure when one that does also reaches the failure threshold (an unrecognised severity
  counting as low), a warning otherwise. Pre-existing findings never change the state, and the text claims no regressions
  only when nothing at all was counted.
\<close>

theorem check_state:
  "let new = filter (\<lambda>f. \<not> is_preexisting f) (counted (min_threshold p) fs);
       r = check_from_policy p fs
   in cr_state r =
        (if new = [] then ''success''
         else if list_ex (\<lambda>f. fail_threshold p \<le> severity_rank (bucket_of (finding_severity f))) new then ''fail''
         else ''warning'')
      \<and> cr_state (check_from_policy p (filter (\<lambda>f. \<not> is_preexisting f) fs)) = cr_state r
      \<and> (counted (min_threshold p) fs = [] \<longleftrightarrow> cr_description r = ''Sashiko AI review found no regressions'')"
proof -
  define new where "new gs = filter (\<lambda>f. \<not> is_preexisting f) (counted (min_threshold p) gs)" for gs
  have state: "cr_state (check_from_policy p gs) =
     (if new gs = [] then ''success''
      else if list_ex (\<lambda>f. fail_threshold p \<le> severity_rank (bucket_of (finding_severity f))) (new gs) then ''fail''
      else ''warning'')" for gs
    unfolding check_from_policy_def Let_def check_result.simps total_new_counted
    unfolding buckets_counts check_buckets.simps any_level by (simp add: new_def)
  have same: "new (filter (\<lambda>f. \<not> is_preexisting f) fs) = new fs"
    by (simp add: new_def counted_def conj_commute)
  have descr: "counted (min_threshold p) fs = [] \<longleftrightarrow>
     cr_description (check_from_policy p fs) = ''Sashiko AI review found no regressions''"
  proof -
    let ?b = "fold (add_finding (min_threshold p)) fs buckets_empty"
    have none: "counted (min_threshold p) fs = [] \<longleftrightarrow> total_new ?b = 0 \<and> total_preexisting ?b = 0"
      by (auto simp: total_new_counted total_preexisting_counted filter_empty_conv)
    have "format_description ?b \<noteq> ''Sashiko AI review found no regressions''"
      if "\<not> (total_new ?b = 0 \<and> total_preexisting ?b = 0)"
      using format_description_hd [of ?b] that by auto
    then show ?thesis unfolding none by (simp add: check_from_policy_def Let_def)
  qed
  show ?thesis
    unfolding Let_def new_def [symmetric] using state [of fs] state [of "filter (\<lambda>f. \<not> is_preexisting f) fs"] same descr
    by simp
qed

section \<open>Merging the policies of one target\<close>

text \<open>Whether a policy reports a severity, and whether it fails the check for it.\<close>

definition reports :: "patchwork_policy \<Rightarrow> severity \<Rightarrow> bool" where
  "reports p s \<longleftrightarrow> min_threshold p \<le> severity_rank s"

definition fails_on :: "patchwork_policy \<Rightarrow> severity \<Rightarrow> bool" where
  "fails_on p s \<longleftrightarrow> fail_threshold p \<le> severity_rank s"

lemma min_rank: "severity_rank (min a b) = min (severity_rank a) (severity_rank b)"
  by (simp add: min_def less_eq_severity_def)

lemma merge_policies_sel:
  "pw_api_url (merge_policies a b) = pw_api_url a"
  "pw_email (merge_policies a b) = pw_email a"
  "pw_enabled (merge_policies a b) = pw_enabled a"
  "pw_token (merge_policies a b) = (case pw_token a of None \<Rightarrow> pw_token b | Some t \<Rightarrow> Some t)"
  "fails_on (merge_policies a b) s \<longleftrightarrow> fails_on a s \<or> fails_on b s"
  "s \<noteq> SevUnknown \<Longrightarrow> reports (merge_policies a b) s \<longleftrightarrow> reports a s \<or> reports b s"
  by (auto simp: merge_policies_def Let_def fails_on_def fail_threshold_def min_rank min_le_iff_disj
      reports_def min_threshold_def merge_severity_opt_def split: option.splits)
    (cases s; simp)+

text \<open>
  What one target makes of the policies behind it: it has a token exactly when one of them has (and then
  one of theirs), and reports or fails on a known severity exactly when one of them does.
\<close>

definition severities_from :: "patchwork_policy list \<Rightarrow> patchwork_policy \<Rightarrow> bool" where
  "severities_from xs p \<longleftrightarrow>
     (\<forall>s. fails_on p s \<longleftrightarrow> (\<exists>x \<in> set xs. fails_on x s))
     \<and> (\<forall>s. s \<noteq> SevUnknown \<longrightarrow> (reports p s \<longleftrightarrow> (\<exists>x \<in> set xs. reports x s)))"

definition token_from :: "patchwork_policy list \<Rightarrow> patchwork_policy \<Rightarrow> bool" where
  "token_from xs p \<longleftrightarrow>
     (\<forall>t. pw_token p = Some t \<longrightarrow> (\<exists>x \<in> set xs. pw_token x = Some t))
     \<and> (pw_token p = None \<longrightarrow> (\<forall>x \<in> set xs. pw_token x = None))"

definition merged_from :: "patchwork_policy list \<Rightarrow> patchwork_policy \<Rightarrow> bool" where
  "merged_from xs p \<longleftrightarrow> token_from xs p \<and> severities_from xs p"

lemma merged_from_single: "merged_from [x] x"
  by (simp add: merged_from_def token_from_def severities_from_def)

lemma merged_from_snoc:
  assumes "merged_from xs p"
  shows "merged_from (xs @ [x]) (merge_policies p x)"
  unfolding merged_from_def token_from_def severities_from_def
proof (intro conjI)
  show "\<forall>t. pw_token (merge_policies p x) = Some t \<longrightarrow> (\<exists>y \<in> set (xs @ [x]). pw_token y = Some t)"
    using assms by (auto simp: merge_policies_sel merged_from_def token_from_def split: option.splits)
  show "pw_token (merge_policies p x) = None \<longrightarrow> (\<forall>y \<in> set (xs @ [x]). pw_token y = None)"
    using assms by (auto simp: merge_policies_sel merged_from_def token_from_def split: option.splits)
qed (use assms in \<open>auto simp: merge_policies_sel merged_from_def severities_from_def\<close>)

lemma accumulate_policies:
  assumes "accumulate merge_policies xs = Some p"
  shows "merged_from xs p \<and> pw_api_url p = pw_api_url (hd xs) \<and> pw_email p = pw_email (hd xs)
     \<and> pw_enabled p = pw_enabled (hd xs)"
  using assms
proof (induction xs arbitrary: p rule: rev_induct)
  case Nil
  then show ?case by (simp add: accumulate_def)
next
  case (snoc x xs)
  show ?case
  proof (cases "accumulate merge_policies xs")
    case None
    then have "xs = []" by (simp only: accumulate_None_iff)
    with snoc.prems show ?thesis by (simp add: accumulate_def merge_step_def merged_from_single)
  next
    case (Some q)
    then have "xs \<noteq> []" by (auto simp: accumulate_def)
    moreover have "p = merge_policies q x"
      using snoc.prems Some by (simp add: accumulate_snoc merge_step_def)
    ultimately show ?thesis
      using snoc.IH [OF Some] by (simp add: merged_from_snoc merge_policies_sel)
  qed
qed

text \<open>The enabled policies that apply to a patch.\<close>

definition applying_policies :: "email_policy_config \<Rightarrow> string list \<Rightarrow> patchwork_policy list" where
  "applying_policies policy incoming =
     (let matched = map (\<lambda>e. ml_patchwork (snd e))
            (filter (\<lambda>e. list_ex (\<lambda>i. address_matches_list i (extract_bare_email (fst e))) incoming) (ec_lists policy))
      in filter pw_enabled (if matched = [] then [dl_patchwork (ec_defaults policy)] else matched))"

definition same_target ::
  "(patchwork_policy \<Rightarrow> (string \<times> patchwork_policy) option) \<Rightarrow> string \<Rightarrow> patchwork_policy list \<Rightarrow> patchwork_policy list" where
  "same_target part k ps = map snd (filter (\<lambda>(k', q). k' = k) (List.map_filter part ps))"

lemma target_entry:
  assumes "(k, p) \<in> set (fold (add_part part) ps [])"
  shows "same_target part k ps \<noteq> []" and "accumulate merge_policies (same_target part k ps) = Some p"
proof -
  note assms
  moreover have "distinct (map fst (fold (add_part part) ps []))"
    by (rule distinct_add_parts) simp
  ultimately have "map_of (fold (add_part part) ps []) k = Some p" by simp
  then show acc: "accumulate merge_policies (same_target part k ps) = Some p"
    by (simp add: map_of_add_parts accumulate_def same_target_def)
  show "same_target part k ps \<noteq> []" using acc by (auto simp: accumulate_def)
qed

lemma resolve_patchwork_parts:
  "resolve_patchwork policy tos ccs =
     map snd (fold (add_part api_part) (applying_policies policy (tos @ ccs)) [])
     @ map snd (fold (add_part email_part) (applying_policies policy (tos @ ccs)) [])"
  by (simp add: resolve_patchwork_def applying_policies_def Let_def targets_add_part)

lemma applying_enabled: "q \<in> set (applying_policies policy inc) \<Longrightarrow> pw_enabled q"
  by (simp add: applying_policies_def Let_def)

lemma same_target_api:
  "same_target api_part u ps = map (\<lambda>q. q\<lparr>pw_email := None\<rparr>) (filter (\<lambda>q. pw_api_url q = Some u) ps)"
  by (induction ps) (auto simp: same_target_def api_part_def map_filter_simps split: option.splits)

lemma same_target_email:
  "same_target email_part a ps =
     map (\<lambda>q. q\<lparr>pw_api_url := None, pw_token := None\<rparr>) (filter (\<lambda>q. pw_email q = Some a) ps)"
  by (induction ps) (auto simp: same_target_def email_part_def map_filter_simps split: option.splits)

lemma threshold_updates [simp]:
  "reports (q\<lparr>pw_email := e\<rparr>) = reports q" "fails_on (q\<lparr>pw_email := e\<rparr>) = fails_on q"
  "reports (q\<lparr>pw_api_url := u, pw_token := t\<rparr>) = reports q"
  "fails_on (q\<lparr>pw_api_url := u, pw_token := t\<rparr>) = fails_on q"
  by (simp_all add: fun_eq_iff reports_def fails_on_def min_threshold_def fail_threshold_def)

lemma api_target_spec:
  assumes "(u, p) \<in> set (fold (add_part api_part) ps [])" and "\<forall>q \<in> set ps. pw_enabled q"
  shows "pw_api_url p = Some u \<and> pw_email p = None \<and> pw_enabled p
     \<and> merged_from (filter (\<lambda>q. pw_api_url q = Some u) ps) p"
proof -
  note ne = target_entry(1) [OF assms(1)] and acc = target_entry(2) [OF assms(1)]
  obtain q where q: "hd (same_target api_part u ps) = q\<lparr>pw_email := None\<rparr>" "q \<in> set ps" "pw_api_url q = Some u"
    using hd_in_set [OF ne] by (auto simp: same_target_api)
  have "merged_from (filter (\<lambda>q. pw_api_url q = Some u) ps) p"
    using accumulate_policies [OF acc]
    by (simp add: same_target_api merged_from_def token_from_def severities_from_def)
  then show ?thesis using accumulate_policies [OF acc] q assms(2) by simp
qed

lemma email_target_spec:
  assumes "(a, p) \<in> set (fold (add_part email_part) ps [])" and "\<forall>q \<in> set ps. pw_enabled q"
  shows "pw_email p = Some a \<and> pw_api_url p = None \<and> pw_token p = None \<and> pw_enabled p
     \<and> severities_from (filter (\<lambda>q. pw_email q = Some a) ps) p"
proof -
  note ne = target_entry(1) [OF assms(1)] and acc = target_entry(2) [OF assms(1)]
  obtain q where q: "hd (same_target email_part a ps) = q\<lparr>pw_api_url := None, pw_token := None\<rparr>"
    "q \<in> set ps" "pw_email q = Some a"
    using hd_in_set [OF ne] by (auto simp: same_target_email)
  have "severities_from (filter (\<lambda>q. pw_email q = Some a) ps) p"
    using accumulate_policies [OF acc]
    by (simp add: same_target_email merged_from_def severities_from_def)
  moreover have "pw_token p = None"
    using accumulate_policies [OF acc]
    by (cases "pw_token p") (auto simp: same_target_email merged_from_def token_from_def)
  ultimately show ?thesis using accumulate_policies [OF acc] q assms(2) by simp
qed

lemma target_keys:
  "fst ` set (fold (add_part part) ps targets) =
     fst ` set (List.map_filter part ps) \<union> fst ` set targets"
proof (induction ps arbitrary: targets)
  case Nil
  then show ?case by simp
next
  case (Cons p ps)
  then show ?case
    by (auto simp: add_part_def fst_set_upsert map_filter_simps split: option.splits)
qed

lemma map_filter_key:
  "\<forall>(k, p) \<in> set m. f p = Some k \<Longrightarrow> List.map_filter f (map snd m) = map fst m"
  by (induction m) (auto simp: map_filter_simps)

lemma map_filter_none: "\<forall>p \<in> set xs. f p = None \<Longrightarrow> List.map_filter f xs = []"
  by (simp add: List.map_filter_def filter_empty_conv)

lemma map_filter_append: "List.map_filter f (xs @ ys) = List.map_filter f xs @ List.map_filter f ys"
  by (simp add: List.map_filter_def)

text \<open>
  Patchwork delivery covers exactly the enabled policies of the matched lists (or the defaults): every
  target is an API target without an address or an address target without an API and without the
  token; each API address and each mail address is delivered to once, and all of them are; a target
  has a token exactly when a policy behind it has one; and it reports a known severity, or fails on it, exactly when
  one of those policies does.
\<close>

theorem patchwork_targets:
  "let r = resolve_patchwork policy tos ccs; ps = applying_policies policy (tos @ ccs)
   in (\<forall>p \<in> set r. pw_enabled p \<and>
        (case pw_api_url p of
           Some u \<Rightarrow> pw_email p = None \<and> merged_from (filter (\<lambda>q. pw_api_url q = Some u) ps) p
         | None \<Rightarrow> (\<exists>a. pw_email p = Some a \<and> pw_token p = None
              \<and> severities_from (filter (\<lambda>q. pw_email q = Some a) ps) p)))
    \<and> distinct (List.map_filter pw_api_url r) \<and> distinct (List.map_filter pw_email r)
    \<and> set (List.map_filter pw_api_url r) = set (List.map_filter pw_api_url ps)
    \<and> set (List.map_filter pw_email r) = set (List.map_filter pw_email ps)"
proof -
  define ps where "ps = applying_policies policy (tos @ ccs)"
  define apis where "apis = fold (add_part api_part) ps []"
  define emails where "emails = fold (add_part email_part) ps []"
  have r: "resolve_patchwork policy tos ccs = map snd apis @ map snd emails"
    by (simp add: resolve_patchwork_parts ps_def apis_def emails_def)
  have on: "\<forall>q \<in> set ps. pw_enabled q" by (simp add: ps_def applying_enabled)
  note A = api_target_spec [OF _ on, folded apis_def] and E = email_target_spec [OF _ on, folded emails_def]
  have "List.map_filter pw_api_url (map snd emails) = []" "List.map_filter pw_email (map snd apis) = []"
    using A E by (auto intro!: map_filter_none)
  moreover have "List.map_filter pw_api_url (map snd apis) = map fst apis" "List.map_filter pw_email (map snd emails) = map fst emails"
    using A E by (auto intro!: map_filter_key)
  ultimately have keys: "List.map_filter pw_api_url (map snd apis @ map snd emails) = map fst apis"
    "List.map_filter pw_email (map snd apis @ map snd emails) = map fst emails"
    by (simp_all add: map_filter_append)
  have dist: "distinct (map fst apis)" "distinct (map fst emails)"
    by (simp_all add: apis_def emails_def distinct_add_parts)
  have all: "set (map fst apis) = set (List.map_filter pw_api_url ps)" "set (map fst emails) = set (List.map_filter pw_email ps)"
    by (force simp: apis_def emails_def target_keys set_map_filter api_part_def email_part_def)+
  have "pw_enabled p \<and>
        (case pw_api_url p of
           Some u \<Rightarrow> pw_email p = None \<and> merged_from (filter (\<lambda>q. pw_api_url q = Some u) ps) p
         | None \<Rightarrow> (\<exists>a. pw_email p = Some a \<and> pw_token p = None
              \<and> severities_from (filter (\<lambda>q. pw_email q = Some a) ps) p))"
    if "p \<in> set (map snd apis @ map snd emails)" for p
    using that A E by auto
  then show ?thesis
    unfolding Let_def ps_def [symmetric] r keys using dist all by blast
qed

definition example_patchwork :: "string option \<Rightarrow> string option \<Rightarrow> patchwork_policy" where
  "example_patchwork token sev = patchwork_default\<lparr>pw_enabled := True, pw_api_url := Some ''https://pw.example.org/api'',
     pw_token := token, pw_email := Some ''pw@example.org'', pw_min_severity := sev\<rparr>"

definition example_patchwork_policy :: email_policy_config where
  "example_patchwork_policy = \<lparr>ec_defaults = default_list_default,
     ec_lists = [(''a@vger.kernel.org'', mailing_list_default\<lparr>ml_patchwork := example_patchwork None (Some ''High'')\<rparr>),
                 (''b@vger.kernel.org'', mailing_list_default\<lparr>ml_patchwork := example_patchwork (Some ''tok'') (Some ''Low'')\<rparr>)]\<rparr>"

lemma patchwork_targets_witness:
  "\<exists>p \<in> set (resolve_patchwork example_patchwork_policy [''a@vger.kernel.org''] [''b@vger.kernel.org'']).
     pw_api_url p = Some ''https://pw.example.org/api'' \<and> pw_email p = None
     \<and> merged_from (filter (\<lambda>q. pw_api_url q = Some ''https://pw.example.org/api'')
          (applying_policies example_patchwork_policy ([''a@vger.kernel.org''] @ [''b@vger.kernel.org'']))) p"
proof -
  have "\<exists>p \<in> set (resolve_patchwork example_patchwork_policy [''a@vger.kernel.org''] [''b@vger.kernel.org'']).
      pw_api_url p = Some ''https://pw.example.org/api''"
    by code_simp
  then obtain p where p: "p \<in> set (resolve_patchwork example_patchwork_policy [''a@vger.kernel.org''] [''b@vger.kernel.org''])"
      "pw_api_url p = Some ''https://pw.example.org/api''"
    by blast
  note targets = patchwork_targets [of example_patchwork_policy "[''a@vger.kernel.org'']" "[''b@vger.kernel.org'']", unfolded Let_def]
  from bspec [OF conjunct1 [OF targets] p(1)] show ?thesis
    unfolding p(2) option.case using p by blast
qed

text \<open>
  A finding whose severity is not recognised is dropped from the check of a policy without a
  reporting threshold, which stands for all findings.
\<close>

lemma unrecognised_severity_dropped:
  "check_from_policy patchwork_default [\<lparr>fd_severity = Some ''Blocker'', fd_preexisting = None\<rparr>]
     = \<lparr>cr_state = ''success'', cr_description = ''Sashiko AI review found no regressions''\<rparr>"
  by code_simp

end
