(* ===== verification/Quota.thy ===== *)
theory Quota
  imports Prelude
begin

text \<open>
  The rate limiter of the AI providers (\<open>src/src/ai/quota.rs\<close>). An \<open>Instant\<close> is the number of
  nanoseconds since some origin and a \<open>Duration\<close> a number of nanoseconds, both as natural numbers:
  the sums that the code forms stay far below the limits of the types. The concurrent use of a
  manager is a step relation: every lock region of the code is one step, the clock may
  advance between any two, and the gate that serializes dispatch is part of the state.
\<close>

definition max_retry_after :: nat where "max_retry_after = 5 * 60 * 10 ^ 9"

definition max_pacing_interval :: nat where "max_pacing_interval = 86400 * 10 ^ 9"

definition default_tpm_window :: nat where "default_tpm_window = 60 * 10 ^ 9"

section \<open>The sliding window\<close>

record rate_limit_state =
  rl_next_allowed_at :: "nat option"
  rl_token_window :: "(nat \<times> nat) list"
  rl_window_tokens :: nat

definition rate_limit_default :: rate_limit_state where
  "rate_limit_default = \<lparr>rl_next_allowed_at = None, rl_token_window = [], rl_window_tokens = 0\<rparr>"

text \<open>\<open>saturating_duration_since\<close> and \<open>saturating_sub\<close> are subtraction of natural numbers.\<close>

fun prune_loop :: "nat \<Rightarrow> nat \<Rightarrow> (nat \<times> nat) list \<Rightarrow> nat \<Rightarrow> (nat \<times> nat) list \<times> nat" where
  "prune_loop now window [] tokens = ([], tokens)"
| "prune_loop now window ((ts, n) # entries) tokens =
     (if window \<le> now - ts then prune_loop now window entries (tokens - n)
      else ((ts, n) # entries, tokens))"

definition prune_expired :: "nat \<Rightarrow> nat \<Rightarrow> rate_limit_state \<Rightarrow> rate_limit_state" where
  "prune_expired now window st =
     (let (entries, tokens) = prune_loop now window (rl_token_window st) (rl_window_tokens st)
      in st\<lparr>rl_token_window := entries, rl_window_tokens := tokens\<rparr>)"

fun tpm_scan :: "nat \<Rightarrow> nat \<Rightarrow> nat \<Rightarrow> nat \<Rightarrow> (nat \<times> nat) list \<Rightarrow> nat option" where
  "tpm_scan now window limit remaining [] = None"
| "tpm_scan now window limit remaining ((ts, n) # entries) =
     (if remaining - n < limit
      then (if now < ts + window then Some (ts + window - now) else None)
      else tpm_scan now window limit (remaining - n) entries)"

definition rps_wait :: "nat \<Rightarrow> nat option \<Rightarrow> rate_limit_state \<Rightarrow> nat option" where
  "rps_wait now min_interval st =
     (case min_interval of
        None \<Rightarrow> None
      | Some _ \<Rightarrow> (case rl_next_allowed_at st of
                    None \<Rightarrow> None
                  | Some until \<Rightarrow> if now < until then Some (until - now) else None))"

definition tpm_wait :: "nat \<Rightarrow> nat option \<Rightarrow> nat \<Rightarrow> rate_limit_state \<Rightarrow> nat option" where
  "tpm_wait now max_tpm window st =
     (case max_tpm of
        None \<Rightarrow> None
      | Some limit \<Rightarrow>
          if rl_window_tokens st < limit then None
          else tpm_scan now window limit (rl_window_tokens st) (rl_token_window st))"

definition required_wait ::
  "nat \<Rightarrow> nat option \<Rightarrow> nat option \<Rightarrow> nat \<Rightarrow> rate_limit_state \<Rightarrow> rate_limit_state \<times> nat option" where
  "required_wait now min_interval max_tpm window st0 =
     (let st = prune_expired now window st0
      in (st, case (rps_wait now min_interval st, tpm_wait now max_tpm window st) of
                (Some a, Some b) \<Rightarrow> Some (max a b)
              | (Some a, None) \<Rightarrow> Some a
              | (None, Some b) \<Rightarrow> Some b
              | (None, None) \<Rightarrow> None))"

section \<open>The manager\<close>

record quota_manager =
  qm_blocked_until :: "nat option"
  qm_min_interval :: "nat option"
  qm_max_tpm :: "nat option"
  qm_tpm_window :: nat
  qm_rate :: rate_limit_state

text \<open>
  The rate is a floating-point number, of which the code asks three things: whether it is negative or not
  finite, whether it is zero, and the conversion of its capped inverse to a duration
  (\<open>Duration::try_from_secs_f64((1.0 / r).min(86400.0)).ok()\<close>), the arguments below.
\<close>

definition with_limits_and_window ::
  "('r \<Rightarrow> bool) \<Rightarrow> ('r \<Rightarrow> bool) \<Rightarrow> ('r \<Rightarrow> nat option) \<Rightarrow> 'r option \<Rightarrow> nat option \<Rightarrow> nat \<Rightarrow> quota_manager" where
  "with_limits_and_window invalid zero interval_of max_rps max_tpm window =
     \<lparr>qm_blocked_until = None,
      qm_min_interval =
        (case max_rps of
           None \<Rightarrow> None
         | Some r \<Rightarrow>
             if invalid r then None
             else if zero r then None
             else (case interval_of r of
                     None \<Rightarrow> None
                   | Some d \<Rightarrow> if d = 0 then None else Some (min d max_pacing_interval))),
      qm_max_tpm = (case max_tpm of None \<Rightarrow> None | Some t \<Rightarrow> if 0 < t then Some t else None),
      qm_tpm_window = window,
      qm_rate = rate_limit_default\<rparr>"

definition record_tokens :: "nat \<Rightarrow> nat \<Rightarrow> quota_manager \<Rightarrow> quota_manager" where
  "record_tokens now tokens q =
     (if qm_max_tpm q = None \<or> tokens = 0 then q
      else (let st = prune_expired now (qm_tpm_window q) (qm_rate q)
            in q\<lparr>qm_rate := st\<lparr>rl_token_window := rl_token_window st @ [(now, tokens)],
                               rl_window_tokens := sat_add usize_max (rl_window_tokens st) tokens\<rparr>\<rparr>))"

definition is_in_cooldown :: "nat \<Rightarrow> quota_manager \<Rightarrow> bool" where
  "is_in_cooldown now q = (case qm_blocked_until q of Some until \<Rightarrow> now < until | None \<Rightarrow> False)"

definition report_success :: "quota_manager \<Rightarrow> quota_manager" where
  "report_success q = (if qm_blocked_until q \<noteq> None then q\<lparr>qm_blocked_until := None\<rparr> else q)"

definition report_quota_error :: "nat \<Rightarrow> nat \<Rightarrow> quota_manager \<Rightarrow> quota_manager" where
  "report_quota_error now retry_after0 q =
     (let retry_after = min retry_after0 max_retry_after; resume_time = now + retry_after
      in case qm_blocked_until q of
           Some current \<Rightarrow> if current < resume_time then q\<lparr>qm_blocked_until := Some resume_time\<rparr> else q
         | None \<Rightarrow> q\<lparr>qm_blocked_until := Some resume_time\<rparr>)"

definition manager_wait :: "nat \<Rightarrow> quota_manager \<Rightarrow> quota_manager \<times> nat option" where
  "manager_wait now q =
     (let (st, w) = required_wait now (qm_min_interval q) (qm_max_tpm q) (qm_tpm_window q) (qm_rate q)
      in (q\<lparr>qm_rate := st\<rparr>, w))"

definition reserve_slot :: "nat \<Rightarrow> quota_manager \<Rightarrow> quota_manager" where
  "reserve_slot now q =
     (case qm_min_interval q of
        Some interval \<Rightarrow> q\<lparr>qm_rate := (qm_rate q)\<lparr>rl_next_allowed_at := Some (now + interval)\<rparr>\<rparr>
      | None \<Rightarrow> q)"

section \<open>Concurrent use\<close>

text \<open>
  \<open>wait_for_pacing_checked\<close> holds the gate from its entry to its return: free, about to test the
  cooldown, about to compute the wait, asleep until an instant, or past the loop and about to reserve its slot. The instants of the dispatches are
  recorded in order, the latest first, and the tokens reported in \<open>qs_recorded\<close>, the latest last.
\<close>

datatype gate = GateFree | GateChecking | GateMeasuring | GateSleeping nat | GateReserving

record quota_system =
  qs_now :: nat
  qs_manager :: quota_manager
  qs_gate :: gate
  qs_dispatched :: "nat list"
  qs_recorded :: "(nat \<times> nat) list"

definition quota_initial :: "quota_manager \<Rightarrow> nat \<Rightarrow> quota_system" where
  "quota_initial q now = \<lparr>qs_now = now, qs_manager = q, qs_gate = GateFree, qs_dispatched = [], qs_recorded = []\<rparr>"

definition unpaced :: "quota_manager \<Rightarrow> bool" where
  "unpaced q \<longleftrightarrow> qm_min_interval q = None \<and> qm_max_tpm q = None"

inductive quota_step :: "quota_system \<Rightarrow> quota_system \<Rightarrow> bool" where
  tick: "quota_step s (s\<lparr>qs_now := qs_now s + d\<rparr>)"
| tokens: "quota_step s (s\<lparr>qs_manager := record_tokens (qs_now s) n (qs_manager s),
      qs_recorded := qs_recorded s @ [(qs_now s, n)]\<rparr>)"
| success: "quota_step s (s\<lparr>qs_manager := report_success (qs_manager s)\<rparr>)"
| quota_error: "quota_step s (s\<lparr>qs_manager := report_quota_error (qs_now s) d (qs_manager s)\<rparr>)"
| bypass: "unpaced (qs_manager s) \<Longrightarrow> quota_step s (s\<lparr>qs_dispatched := qs_now s # qs_dispatched s\<rparr>)"
| enter: "qs_gate s = GateFree \<Longrightarrow> \<not> unpaced (qs_manager s) \<Longrightarrow> quota_step s (s\<lparr>qs_gate := GateChecking\<rparr>)"
| refuse: "qs_gate s = GateChecking \<Longrightarrow> quota_step s (s\<lparr>qs_gate := GateFree\<rparr>)"
| cooldown: "qs_gate s = GateChecking \<Longrightarrow> is_in_cooldown (qs_now s) (qs_manager s) \<Longrightarrow>
    quota_step s (s\<lparr>qs_gate := GateFree\<rparr>)"
| measure: "qs_gate s = GateChecking \<Longrightarrow> \<not> is_in_cooldown (qs_now s) (qs_manager s) \<Longrightarrow>
    quota_step s (s\<lparr>qs_gate := GateMeasuring\<rparr>)"
| pace: "qs_gate s = GateMeasuring \<Longrightarrow> manager_wait (qs_now s) (qs_manager s) = (q, Some d) \<Longrightarrow>
    quota_step s (s\<lparr>qs_manager := q, qs_gate := GateSleeping (qs_now s + d)\<rparr>)"
| wake: "qs_gate s = GateSleeping until \<Longrightarrow> until \<le> qs_now s \<Longrightarrow> quota_step s (s\<lparr>qs_gate := GateChecking\<rparr>)"
| pass: "qs_gate s = GateMeasuring \<Longrightarrow> manager_wait (qs_now s) (qs_manager s) = (q, None) \<Longrightarrow>
    quota_step s (s\<lparr>qs_manager := q, qs_gate := GateReserving\<rparr>)"
| reserve: "qs_gate s = GateReserving \<Longrightarrow>
    quota_step s (s\<lparr>qs_manager := reserve_slot (qs_now s) (qs_manager s), qs_gate := GateFree,
      qs_dispatched := qs_now s # qs_dispatched s\<rparr>)"

inductive quota_reachable :: "quota_system \<Rightarrow> quota_system \<Rightarrow> bool" for s0 where
  start: "quota_reachable s0 s0"
| step: "quota_reachable s0 s \<Longrightarrow> quota_step s s' \<Longrightarrow> quota_reachable s0 s'"

section \<open>The window\<close>

definition entries_sum :: "(nat \<times> nat) list \<Rightarrow> nat" where
  "entries_sum es = sum_list (map snd es)"

text \<open>The entries are in the order of their instants, none lies ahead, and their count is not overestimated.\<close>

definition window_ok :: "nat \<Rightarrow> rate_limit_state \<Rightarrow> bool" where
  "window_ok now st \<longleftrightarrow> sorted (map fst (rl_token_window st)) \<and> (\<forall>e \<in> set (rl_token_window st). fst e \<le> now)
     \<and> rl_window_tokens st \<le> entries_sum (rl_token_window st)"

definition unexpired :: "nat \<Rightarrow> nat \<Rightarrow> (nat \<times> nat) list \<Rightarrow> (nat \<times> nat) list" where
  "unexpired now window es = filter (\<lambda>e. now - fst e < window) es"

lemma prune_loop_spec:
  assumes "sorted (map fst es)"
  shows "prune_loop now window es w =
    (unexpired now window es, w - entries_sum (filter (\<lambda>e. \<not> now - fst e < window) es))"
  using assms
proof (induction es arbitrary: w)
  case Nil
  then show ?case by (simp add: unexpired_def entries_sum_def)
next
  case (Cons e es)
  obtain ts n where e: "e = (ts, n)" by (cases e)
  have later: "\<forall>e' \<in> set es. ts \<le> fst e'" and srt: "sorted (map fst es)"
    using Cons.prems by (simp_all add: e)
  show ?case
  proof (cases "window \<le> now - ts")
    case True
    with Cons.IH [OF srt, of "w - n"] show ?thesis by (simp add: e unexpired_def entries_sum_def)
  next
    case False
    then have young: "now - fst e' < window" if "e' \<in> set es" for e'
      using later that by fastforce
    then have "filter (\<lambda>e. now - fst e < window) es = es" "filter (\<lambda>e. \<not> now - fst e < window) es = []"
      by (auto simp: filter_id_conv filter_empty_conv)
    with False show ?thesis by (simp add: e unexpired_def entries_sum_def)
  qed
qed

lemma prune_expired_sel:
  assumes "sorted (map fst (rl_token_window st))"
  shows "rl_token_window (prune_expired now window st) = unexpired now window (rl_token_window st)"
    and "rl_window_tokens (prune_expired now window st) =
      rl_window_tokens st - entries_sum (filter (\<lambda>e. \<not> now - fst e < window) (rl_token_window st))"
    and "rl_next_allowed_at (prune_expired now window st) = rl_next_allowed_at st"
  by (simp_all add: prune_expired_def prune_loop_spec [OF assms])

lemma entries_sum_split: "entries_sum es = entries_sum (filter P es) + entries_sum (filter (\<lambda>e. \<not> P e) es)"
  by (induction es) (auto simp: entries_sum_def)

lemma window_ok_prune:
  assumes "window_ok now st"
  shows "window_ok now (prune_expired now window st)"
    and "\<forall>e \<in> set (rl_token_window (prune_expired now window st)). now < fst e + window"
proof -
  have s: "sorted (map fst (rl_token_window st))" using assms by (simp add: window_ok_def)
  show "window_ok now (prune_expired now window st)"
    using assms entries_sum_split [of "rl_token_window st" "\<lambda>e. now - fst e < window"]
    by (auto simp: window_ok_def prune_expired_sel [OF s] unexpired_def sorted_filter)
  show "\<forall>e \<in> set (rl_token_window (prune_expired now window st)). now < fst e + window"
    using assms by (auto simp: window_ok_def prune_expired_sel [OF s] unexpired_def)
qed

section \<open>Waiting\<close>

lemma tpm_scan_spec:
  assumes "sorted (map fst es)" and "\<forall>e \<in> set es. now < fst e + window"
    and "remaining \<le> entries_sum es" and "limit \<le> remaining" and "0 < limit"
  shows "\<exists>d. tpm_scan now window limit remaining es = Some d \<and> 0 < d
     \<and> (\<exists>e \<in> set es. now + d = fst e + window)
     \<and> remaining - entries_sum (filter (\<lambda>e. \<not> now + d - fst e < window) es) < limit"
  using assms
proof (induction es arbitrary: remaining)
  case Nil
  then show ?case by (simp add: entries_sum_def)
next
  case (Cons e es)
  obtain ts n where e: "e = (ts, n)" by (cases e)
  show ?case
  proof (cases "remaining - n < limit")
    case True
    let ?d = "ts + window - now"
    have "now < ts + window" using Cons.prems(2) by (simp add: e)
    with True show ?thesis by (intro exI [of _ ?d]) (simp add: e entries_sum_def)
  next
    case False
    have "remaining - n \<le> entries_sum es" "limit \<le> remaining - n"
      using Cons.prems(3) False by (auto simp: e entries_sum_def)
    then have "\<exists>d. tpm_scan now window limit (remaining - n) es = Some d \<and> 0 < d
       \<and> (\<exists>e \<in> set es. now + d = fst e + window)
       \<and> remaining - n - entries_sum (filter (\<lambda>e. \<not> now + d - fst e < window) es) < limit"
      by (intro Cons.IH) (use Cons.prems in auto)
    then obtain d where d: "tpm_scan now window limit (remaining - n) es = Some d" "0 < d"
      "\<exists>e \<in> set es. now + d = fst e + window"
      "remaining - n - entries_sum (filter (\<lambda>e. \<not> now + d - fst e < window) es) < limit"
      by blast
    from d(3) Cons.prems(1) have "\<not> now + d - ts < window" by (auto simp: e)
    with d False show ?thesis
      by (intro exI [of _ d]) (auto simp: e entries_sum_def)
  qed
qed

definition tpm_valid :: "nat option \<Rightarrow> bool" where
  "tpm_valid max_tpm \<longleftrightarrow> max_tpm \<noteq> Some 0"

lemma tpm_wait_spec:
  assumes "window_ok now st" and "\<forall>e \<in> set (rl_token_window st). now < fst e + window" and "tpm_valid max_tpm"
  shows "tpm_wait now max_tpm window st = None \<Longrightarrow> max_tpm = Some limit \<Longrightarrow> rl_window_tokens st < limit"
    and "tpm_wait now max_tpm window st = Some d \<Longrightarrow> \<exists>limit. max_tpm = Some limit \<and> 0 < d
      \<and> rl_window_tokens st - entries_sum (filter (\<lambda>e. \<not> now + d - fst e < window) (rl_token_window st)) < limit"
proof -
  have scan: "\<exists>d. tpm_scan now window limit (rl_window_tokens st) (rl_token_window st) = Some d \<and> 0 < d
     \<and> rl_window_tokens st - entries_sum (filter (\<lambda>e. \<not> now + d - fst e < window) (rl_token_window st)) < limit"
    if "max_tpm = Some limit" "\<not> rl_window_tokens st < limit" for limit
    using tpm_scan_spec [of "rl_token_window st" now window "rl_window_tokens st" limit] assms that
    by (auto simp: window_ok_def tpm_valid_def)
  show "rl_window_tokens st < limit" if "tpm_wait now max_tpm window st = None" "max_tpm = Some limit"
    using scan [of limit] that by (auto simp: tpm_wait_def split: if_splits)
  show "\<exists>limit. max_tpm = Some limit \<and> 0 < d
      \<and> rl_window_tokens st - entries_sum (filter (\<lambda>e. \<not> now + d - fst e < window) (rl_token_window st)) < limit"
    if "tpm_wait now max_tpm window st = Some d"
    using scan that by (auto simp: tpm_wait_def split: if_splits option.splits)
qed

lemma required_wait_state: "fst (required_wait now mi mt w st) = prune_expired now w st"
  by (simp add: required_wait_def Let_def)

lemma required_wait_None_iff:
  "snd (required_wait now mi mt w st) = None \<longleftrightarrow>
     rps_wait now mi (prune_expired now w st) = None \<and> tpm_wait now mt w (prune_expired now w st) = None"
  by (auto simp: required_wait_def Let_def split: option.splits)

lemma required_wait_Some:
  assumes "snd (required_wait now mi mt w st) = Some d"
  shows "(rps_wait now mi (prune_expired now w st) = None \<or> tpm_wait now mt w (prune_expired now w st) = None
      \<longrightarrow> rps_wait now mi (prune_expired now w st) = Some d \<or> tpm_wait now mt w (prune_expired now w st) = Some d)"
    and "rps_wait now mi (prune_expired now w st) = Some a \<Longrightarrow> a \<le> d"
    and "tpm_wait now mt w (prune_expired now w st) = Some b \<Longrightarrow> b \<le> d"
    and "rps_wait now mi (prune_expired now w st) = Some d \<or> tpm_wait now mt w (prune_expired now w st) = Some d"
  using assms by (auto simp: required_wait_def Let_def max_def split: option.splits if_splits)

lemma rps_wait_pos: "rps_wait now mi st = Some d \<Longrightarrow> 0 < d"
  by (auto simp: rps_wait_def split: option.splits if_splits)

lemma rps_wait_later:
  "(\<And>a. rps_wait now mi st = Some a \<Longrightarrow> a \<le> d) \<Longrightarrow> rl_next_allowed_at st' = rl_next_allowed_at st
     \<Longrightarrow> rps_wait (now + d) mi st' = None"
proof (cases "rl_next_allowed_at st")
  case (Some u)
  assume "\<And>a. rps_wait now mi st = Some a \<Longrightarrow> a \<le> d" and "rl_next_allowed_at st' = rl_next_allowed_at st"
  with Some show ?thesis by (cases mi; cases "now < u") (auto simp: rps_wait_def)
qed (simp add: rps_wait_def split: option.splits)

lemma entries_sum_mono:
  "(\<And>e. e \<in> set es \<Longrightarrow> P e \<Longrightarrow> Q e) \<Longrightarrow> entries_sum (filter P es) \<le> entries_sum (filter Q es)"
  by (induction es) (auto simp: entries_sum_def trans_le_add2)

lemma tpm_wait_later:
  assumes "window_ok now st" and "\<forall>e \<in> set (rl_token_window st). now < fst e + window" and "tpm_valid mt"
    and "\<And>b. tpm_wait now mt window st = Some b \<Longrightarrow> b \<le> d"
  shows "tpm_wait (now + d) mt window (prune_expired (now + d) window st) = None"
proof (cases mt)
  case None
  then show ?thesis by (simp add: tpm_wait_def)
next
  case (Some limit)
  have s: "sorted (map fst (rl_token_window st))" using assms(1) by (simp add: window_ok_def)
  have "rl_window_tokens st - entries_sum (filter (\<lambda>e. \<not> now + d - fst e < window) (rl_token_window st)) < limit"
  proof (cases "tpm_wait now mt window st")
    case None
    then have "rl_window_tokens st < limit" using tpm_wait_spec(1) [OF assms(1-3)] Some by blast
    then show ?thesis by simp
  next
    case (Some b)
    then have "b \<le> d" by (rule assms(4))
    then have "entries_sum (filter (\<lambda>e. \<not> now + b - fst e < window) (rl_token_window st))
       \<le> entries_sum (filter (\<lambda>e. \<not> now + d - fst e < window) (rl_token_window st))"
      by (intro entries_sum_mono) auto
    with tpm_wait_spec(2) [OF assms(1-3) Some] \<open>mt = Some limit\<close> show ?thesis by auto
  qed
  then show ?thesis by (simp add: tpm_wait_def Some prune_expired_sel [OF s])
qed

text \<open>
  A wait is never in vain: the duration the limiter asks for is positive, and when it has passed, and
  nothing was recorded meanwhile, the limiter asks for no further wait, neither for the pace nor
  for the token ceiling.
\<close>

theorem wait_suffices:
  assumes "window_ok now st" and "tpm_valid mt" and "required_wait now mi mt window st = (st', Some d)"
  shows "0 < d \<and> snd (required_wait (now + d) mi mt window st') = None"
proof -
  let ?st = "prune_expired now window st"
  have st': "st' = ?st" and sd: "snd (required_wait now mi mt window st) = Some d"
    using assms(3) required_wait_state [of now mi mt window st] by simp_all
  note ok = window_ok_prune [OF assms(1), of window]
  note W = required_wait_Some [OF sd]
  have s: "sorted (map fst (rl_token_window ?st))" using ok(1) by (simp add: window_ok_def)
  have "0 < d" using W(4) rps_wait_pos tpm_wait_spec(2) [OF ok assms(2)] by blast
  moreover have "tpm_wait (now + d) mt window (prune_expired (now + d) window ?st) = None"
    by (rule tpm_wait_later [OF ok assms(2) W(3)])
  moreover have "rps_wait (now + d) mi (prune_expired (now + d) window ?st) = None"
    by (rule rps_wait_later [OF W(2)]) (simp_all add: prune_expired_sel [OF s])
  ultimately show ?thesis by (simp add: st' required_wait_None_iff)
qed

section \<open>Invariants of concurrent use\<close>

lemma manager_wait_fst:
  "fst (manager_wait now q) = q\<lparr>qm_rate := prune_expired now (qm_tpm_window q) (qm_rate q)\<rparr>"
  using required_wait_state [of now "qm_min_interval q" "qm_max_tpm q" "qm_tpm_window q" "qm_rate q"]
  by (simp add: manager_wait_def case_prod_beta)

lemma manager_wait_snd:
  "snd (manager_wait now q) = snd (required_wait now (qm_min_interval q) (qm_max_tpm q) (qm_tpm_window q) (qm_rate q))"
  by (simp add: manager_wait_def split: prod.splits)

lemma manager_wait_sel:
  assumes "manager_wait now q = (q', w)"
  shows "q' = q\<lparr>qm_rate := prune_expired now (qm_tpm_window q) (qm_rate q)\<rparr>"
    and "w = snd (required_wait now (qm_min_interval q) (qm_max_tpm q) (qm_tpm_window q) (qm_rate q))"
  using manager_wait_fst [of now q] manager_wait_snd [of now q] by (simp_all add: assms)

lemmas quota_ops = record_tokens_def report_success_def report_quota_error_def reserve_slot_def Let_def

text \<open>The limits never change.\<close>

definition same_limits :: "quota_manager \<Rightarrow> quota_manager \<Rightarrow> bool" where
  "same_limits q q' \<longleftrightarrow> qm_min_interval q' = qm_min_interval q \<and> qm_max_tpm q' = qm_max_tpm q
     \<and> qm_tpm_window q' = qm_tpm_window q"

lemma same_limits_step: "quota_step s s' \<Longrightarrow> same_limits (qs_manager s) (qs_manager s')"
  by (erule quota_step.cases)
    (auto simp: same_limits_def quota_ops dest: manager_wait_sel(1) split: option.splits)

text \<open>The window lists the recorded tokens that still count, and its total is exact unless it overflowed.\<close>

definition log_agrees :: "quota_system \<Rightarrow> bool" where
  "log_agrees s \<longleftrightarrow>
     (let q = qs_manager s; tw = rl_token_window (qm_rate q) in
      window_ok (qs_now s) (qm_rate q)
      \<and> entries_sum tw \<le> entries_sum (qs_recorded s)
      \<and> (entries_sum (qs_recorded s) \<le> usize_max \<longrightarrow> rl_window_tokens (qm_rate q) = entries_sum tw)
      \<and> (qm_max_tpm q \<noteq> None \<longrightarrow>
          (\<forall>t \<ge> qs_now s. entries_sum (unexpired t (qm_tpm_window q) (qs_recorded s))
             = entries_sum (unexpired t (qm_tpm_window q) tw))))"

lemma entries_sum_append [simp]: "entries_sum (xs @ ys) = entries_sum xs + entries_sum ys"
  by (simp add: entries_sum_def)

lemma unexpired_append [simp]: "unexpired t w (xs @ ys) = unexpired t w xs @ unexpired t w ys"
  by (simp add: unexpired_def)

lemma entries_sum_filter_le: "entries_sum (filter P es) \<le> entries_sum es"
  by (induction es) (auto simp: entries_sum_def)

lemma unexpired_unexpired: "now \<le> t \<Longrightarrow> unexpired t w (unexpired now w es) = unexpired t w es"
  by (induction es) (auto simp: unexpired_def)

lemma log_agrees_prune:
  assumes "log_agrees s"
  shows "log_agrees (s\<lparr>qs_manager := (qs_manager s)\<lparr>qm_rate :=
     prune_expired (qs_now s) (qm_tpm_window (qs_manager s)) (qm_rate (qs_manager s))\<rparr>\<rparr>)"
proof -
  let ?q = "qs_manager s" and ?r = "qm_rate (qs_manager s)" and ?w = "qm_tpm_window (qs_manager s)"
  have ok: "window_ok (qs_now s) ?r" using assms by (simp add: log_agrees_def Let_def)
  then have srt: "sorted (map fst (rl_token_window ?r))" by (simp add: window_ok_def)
  have "entries_sum (unexpired (qs_now s) ?w (rl_token_window ?r)) \<le> entries_sum (qs_recorded s)"
    using assms entries_sum_filter_le [of "\<lambda>e. qs_now s - fst e < ?w" "rl_token_window ?r"]
    by (simp add: log_agrees_def Let_def unexpired_def)
  moreover have "entries_sum (qs_recorded s) \<le> usize_max \<longrightarrow>
     rl_window_tokens ?r - entries_sum (filter (\<lambda>e. \<not> qs_now s - fst e < ?w) (rl_token_window ?r))
       = entries_sum (unexpired (qs_now s) ?w (rl_token_window ?r))"
    using assms entries_sum_split [of "rl_token_window ?r" "\<lambda>e. qs_now s - fst e < ?w"]
    by (simp add: log_agrees_def Let_def unexpired_def)
  ultimately show ?thesis
    using assms window_ok_prune(1) [OF ok]
    by (simp add: log_agrees_def Let_def prune_expired_sel [OF srt] unexpired_unexpired)
qed

lemma log_agrees_gate:
  "log_agrees (s\<lparr>qs_gate := g\<rparr>) = log_agrees s"
  "log_agrees (s\<lparr>qs_manager := q, qs_gate := g\<rparr>) = log_agrees (s\<lparr>qs_manager := q\<rparr>)"
  by (simp_all add: log_agrees_def)

lemma log_agrees_tokens:
  assumes "log_agrees s"
  shows "log_agrees (s\<lparr>qs_manager := record_tokens (qs_now s) n (qs_manager s),
     qs_recorded := qs_recorded s @ [(qs_now s, n)]\<rparr>)"
proof (cases "qm_max_tpm (qs_manager s) = None \<or> n = 0")
  case True
  then have "record_tokens (qs_now s) n (qs_manager s) = qs_manager s" by (auto simp: record_tokens_def)
  with assms True show ?thesis
    by (auto simp: log_agrees_def Let_def unexpired_def entries_sum_def)
next
  case False
  let ?p = "s\<lparr>qs_manager := (qs_manager s)\<lparr>qm_rate :=
     prune_expired (qs_now s) (qm_tpm_window (qs_manager s)) (qm_rate (qs_manager s))\<rparr>\<rparr>"
  have p: "log_agrees ?p" by (rule log_agrees_prune [OF assms])
  show ?thesis
    using p False
    by (auto simp: log_agrees_def Let_def record_tokens_def window_ok_def sorted_append sat_add_def
        unexpired_def entries_sum_def)
qed

lemma log_agrees_step: "quota_step s s' \<Longrightarrow> log_agrees s \<Longrightarrow> log_agrees s'"
proof (induction rule: quota_step.cases)
  case (tick s d)
  then show ?case
    by (fastforce simp: log_agrees_def Let_def window_ok_def)
next
  case (tokens s n)
  then show ?case by (simp add: log_agrees_tokens)
next
  case (pace s q d)
  then show ?case
    using log_agrees_prune [of s] manager_wait_sel(1) [OF pace(4)] by (simp add: log_agrees_gate)
next
  case (pass s q)
  then show ?case
    using log_agrees_prune [of s] manager_wait_sel(1) [OF pass(4)] by (simp add: log_agrees_gate)
qed (auto simp: log_agrees_def Let_def window_ok_def quota_ops split: option.splits)

text \<open>Dispatches keep their distance, and the next slot is the last one plus the interval.\<close>

definition spaced :: "nat \<Rightarrow> nat list \<Rightarrow> bool" where
  "spaced i ds \<longleftrightarrow> sorted_wrt (\<lambda>a b. b + i \<le> a) ds"

definition pacing_inv :: "quota_system \<Rightarrow> bool" where
  "pacing_inv s \<longleftrightarrow>
     (\<forall>i. qm_min_interval (qs_manager s) = Some i \<longrightarrow>
        spaced i (qs_dispatched s) \<and> (\<forall>a \<in> set (qs_dispatched s). a \<le> qs_now s)
        \<and> (\<forall>a as. qs_dispatched s = a # as \<longrightarrow>
             rl_next_allowed_at (qm_rate (qs_manager s)) = Some (a + i)
             \<and> (qs_gate s = GateReserving \<longrightarrow> a + i \<le> qs_now s)))"

lemma next_allowed_prune [simp]: "rl_next_allowed_at (prune_expired now w st) = rl_next_allowed_at st"
  by (simp add: prune_expired_def split: prod.splits)

lemma rps_wait_prune: "rps_wait now mi (prune_expired now' w st) = rps_wait now mi st"
  unfolding rps_wait_def next_allowed_prune ..

lemma next_allowed_ops [simp]:
  "rl_next_allowed_at (qm_rate (record_tokens now n q)) = rl_next_allowed_at (qm_rate q)"
  "qm_min_interval (record_tokens now n q) = qm_min_interval q"
  "qm_rate (report_success q) = qm_rate q" "qm_min_interval (report_success q) = qm_min_interval q"
  "qm_rate (report_quota_error now d q) = qm_rate q"
  "qm_min_interval (report_quota_error now d q) = qm_min_interval q"
  by (auto simp: quota_ops split: option.splits)

lemma pacing_inv_reserve:
  assumes "pacing_inv s" and "qs_gate s = GateReserving"
  shows "pacing_inv (s\<lparr>qs_manager := reserve_slot (qs_now s) (qs_manager s), qs_gate := GateFree,
      qs_dispatched := qs_now s # qs_dispatched s\<rparr>)"
proof (cases "qm_min_interval (qs_manager s)")
  case None
  then show ?thesis by (simp add: pacing_inv_def reserve_slot_def)
next
  case (Some i)
  with assms(1) have sp: "spaced i (qs_dispatched s)"
    and le: "\<forall>a \<in> set (qs_dispatched s). a \<le> qs_now s"
    and hd: "\<forall>a as. qs_dispatched s = a # as \<longrightarrow> a + i \<le> qs_now s"
    using assms(2) by (auto simp: pacing_inv_def)
  have "\<forall>a \<in> set (qs_dispatched s). a + i \<le> qs_now s"
    using sp hd by (cases "qs_dispatched s") (fastforce simp: spaced_def)+
  with sp le Some show ?thesis by (simp add: pacing_inv_def reserve_slot_def spaced_def)
qed

lemma pacing_inv_step: "quota_step s s' \<Longrightarrow> pacing_inv s \<Longrightarrow> pacing_inv s'"
proof (induction rule: quota_step.cases)
  case (tick s d)
  then show ?case by (fastforce simp: pacing_inv_def)
next
  case (bypass s)
  then show ?case by (simp add: pacing_inv_def unpaced_def)
next
  case (pace s q d)
  then show ?case using manager_wait_sel(1) [OF pace(4)] by (simp add: pacing_inv_def)
next
  case (pass s q)
  have "rps_wait (qs_now s) (qm_min_interval (qs_manager s)) (qm_rate (qs_manager s)) = None"
    using manager_wait_sel(2) [OF pass(4), symmetric] unfolding required_wait_None_iff rps_wait_prune ..
  with pass show ?case using manager_wait_sel(1) [OF pass(4)]
    by (auto simp: pacing_inv_def rps_wait_def split: if_splits)
next
  case (reserve s)
  then show ?case by (simp add: pacing_inv_reserve)
qed (auto simp: pacing_inv_def)

text \<open>A block never reaches further than five minutes ahead, and only a success lifts one early.\<close>

definition block_bounded :: "quota_system \<Rightarrow> bool" where
  "block_bounded s \<longleftrightarrow> (\<forall>u. qm_blocked_until (qs_manager s) = Some u \<longrightarrow> u \<le> qs_now s + max_retry_after)"

lemma block_bounded_step: "quota_step s s' \<Longrightarrow> block_bounded s \<Longrightarrow> block_bounded s'"
  by (erule quota_step.cases)
    (auto simp: block_bounded_def quota_ops dest!: manager_wait_sel(1) split: option.splits if_splits
      intro: trans_le_add1)

lemma block_monotone_step:
  assumes "quota_step s s'" and "qm_blocked_until (qs_manager s) = Some u"
  shows "(\<exists>u' \<ge> u. qm_blocked_until (qs_manager s') = Some u') \<or> s' = s\<lparr>qs_manager := report_success (qs_manager s)\<rparr>"
  using assms
  by (cases rule: quota_step.cases)
    (auto simp: quota_ops dest!: manager_wait_sel(1) split: option.splits if_splits)

text \<open>What holds at the start of a manager made by the program, and so always.\<close>

abbreviation started ::
  "('r \<Rightarrow> bool) \<Rightarrow> ('r \<Rightarrow> bool) \<Rightarrow> ('r \<Rightarrow> nat option) \<Rightarrow> 'r option \<Rightarrow> nat option \<Rightarrow> nat \<Rightarrow> nat \<Rightarrow> quota_system" where
  "started invalid zero interval_of rps tpm window now \<equiv>
     quota_initial (with_limits_and_window invalid zero interval_of rps tpm window) now"

lemma reachable_invariants:
  assumes "quota_reachable (started invalid zero interval_of rps tpm window t0) s"
  shows "log_agrees s \<and> pacing_inv s \<and> block_bounded s \<and> tpm_valid (qm_max_tpm (qs_manager s))
     \<and> same_limits (with_limits_and_window invalid zero interval_of rps tpm window) (qs_manager s)"
  using assms
proof (induction rule: quota_reachable.induct)
  case start
  then show ?case
    by (simp add: quota_initial_def with_limits_and_window_def log_agrees_def window_ok_def
        rate_limit_default_def entries_sum_def pacing_inv_def spaced_def block_bounded_def tpm_valid_def
        same_limits_def unexpired_def Let_def split: option.splits)
next
  case (step s s')
  then show ?case
    using same_limits_step [OF step.hyps(2)]
    by (auto simp: log_agrees_step pacing_inv_step block_bounded_step same_limits_def)
qed

section \<open>What the limiter guarantees\<close>

text \<open>
  C26. The request rate holds: however the tasks interleave, any two dispatches through one manager
  with a request rate are at least its pacing interval apart.
\<close>

theorem dispatches_spaced:
  assumes "quota_reachable (started invalid zero interval_of rps tpm window t0) s"
    and "qm_min_interval (with_limits_and_window invalid zero interval_of rps tpm window) = Some i"
  shows "sorted_wrt (\<lambda>later earlier. earlier + i \<le> later) (qs_dispatched s)"
  using reachable_invariants [OF assms(1)] assms(2)
  by (auto simp: pacing_inv_def same_limits_def spaced_def)

text \<open>
  C32. The token ceiling holds: when the limiter lets a request through, the tokens reported in the
  window before that instant, by any task, are below the ceiling (as long as the tokens of the whole
  run can be counted in 64 bits).
\<close>

theorem token_ceiling:
  assumes "quota_reachable (started invalid zero interval_of rps tpm window t0) s"
    and "manager_wait (qs_now s) (qs_manager s) = (q, None)"
    and "qm_max_tpm (qs_manager s) = Some limit"
    and "sum_list (map snd (qs_recorded s)) \<le> usize_max"
  shows "sum_list (map snd (filter (\<lambda>e. qs_now s - fst e < window) (qs_recorded s))) < limit"
proof -
  let ?q = "qs_manager s"
  let ?p = "prune_expired (qs_now s) (qm_tpm_window ?q) (qm_rate ?q)"
  note inv = reachable_invariants [OF assms(1)]
  have w: "qm_tpm_window ?q = window" using inv by (simp add: same_limits_def with_limits_and_window_def)
  have agree: "log_agrees (s\<lparr>qs_manager := ?q\<lparr>qm_rate := ?p\<rparr>\<rparr>)"
    using inv by (simp add: log_agrees_prune)
  have "rl_window_tokens ?p = entries_sum (rl_token_window ?p)"
    using agree assms(4) by (simp add: log_agrees_def Let_def entries_sum_def)
  moreover have "entries_sum (unexpired (qs_now s) window (qs_recorded s)) = entries_sum (unexpired (qs_now s) window (rl_token_window ?p))"
    using agree assms(3) by (simp add: log_agrees_def Let_def w)
  moreover have "entries_sum (unexpired (qs_now s) window (rl_token_window ?p)) \<le> entries_sum (rl_token_window ?p)"
    by (simp add: unexpired_def entries_sum_filter_le)
  moreover have "rl_window_tokens ?p < limit"
  proof -
    have ok: "window_ok (qs_now s) (qm_rate ?q)" using inv by (simp add: log_agrees_def Let_def)
    have "tpm_wait (qs_now s) (qm_max_tpm ?q) (qm_tpm_window ?q) ?p = None"
      using manager_wait_sel(2) [OF assms(2), symmetric] unfolding required_wait_None_iff by simp
    then show ?thesis
      using tpm_wait_spec(1) [OF window_ok_prune [OF ok], where max_tpm = "qm_max_tpm ?q"] inv assms(3) by blast
  qed
  ultimately show ?thesis by (simp add: unexpired_def entries_sum_def)
qed

text \<open>
  A cooldown is bounded and never shortened by another error: at every moment the block ends at most five
  minutes ahead, whatever a provider asked for, and a step that does not report a success leaves it
  standing or extends it.
\<close>

theorem cooldown_bounded:
  assumes "quota_reachable (started invalid zero interval_of rps tpm window t0) s"
    and "qm_blocked_until (qs_manager s) = Some u" and "quota_step s s'"
  shows "u \<le> qs_now s + 5 * 60 * 10 ^ 9 \<and>
    (s' = s\<lparr>qs_manager := report_success (qs_manager s)\<rparr> \<or> (\<exists>u' \<ge> u. qm_blocked_until (qs_manager s') = Some u'))"
proof
  have "block_bounded s" using reachable_invariants [OF assms(1)] by blast
  then show "u \<le> qs_now s + 5 * 60 * 10 ^ 9"
    using assms(2) unfolding block_bounded_def max_retry_after_def by blast
  show "s' = s\<lparr>qs_manager := report_success (qs_manager s)\<rparr> \<or> (\<exists>u' \<ge> u. qm_blocked_until (qs_manager s') = Some u')"
    using block_monotone_step [OF assms(3,2)] by blast
qed

subsection \<open>A concrete run\<close>

text \<open>One request per ten units and five tokens per window of a hundred, from a rate given as its interval.\<close>

abbreviation example_start :: quota_system where
  "example_start \<equiv> started (\<lambda>_. False) (\<lambda>r. r = 0) Some (Some (10 :: nat)) (Some 5) 100 1000"

definition example_paced :: quota_system where
  "example_paced = \<lparr>qs_now = 1000,
     qs_manager = reserve_slot 1000 (with_limits_and_window (\<lambda>_. False) (\<lambda>r. r = 0) Some (Some (10 :: nat)) (Some 5) 100),
     qs_gate = GateFree, qs_dispatched = [1000], qs_recorded = []\<rparr>"

lemma example_paced_reachable: "quota_reachable example_start example_paced"
proof -
  let ?q = "with_limits_and_window (\<lambda>_. False) (\<lambda>r. r = 0) Some (Some (10 :: nat)) (Some 5) 100"
  let ?s = "\<lambda>g. \<lparr>qs_now = 1000, qs_manager = ?q, qs_gate = g, qs_dispatched = [], qs_recorded = []\<rparr>"
  have wait: "manager_wait 1000 ?q = (?q, None)"
    by (simp add: manager_wait_def required_wait_def prune_expired_def with_limits_and_window_def
        rate_limit_default_def rps_wait_def tpm_wait_def Let_def)
  have "quota_reachable example_start (?s GateFree)"
    using quota_reachable.start [of example_start] by (simp add: quota_initial_def)
  moreover have "quota_step (?s GateFree) (?s GateChecking)"
    using quota_step.enter [of "?s GateFree"] by (simp add: unpaced_def with_limits_and_window_def)
  moreover have "quota_step (?s GateChecking) (?s GateMeasuring)"
    using quota_step.measure [of "?s GateChecking"] by (simp add: is_in_cooldown_def with_limits_and_window_def)
  moreover have "quota_step (?s GateMeasuring) (?s GateReserving)"
    using quota_step.pass [of "?s GateMeasuring" ?q] wait by simp
  moreover have "quota_step (?s GateReserving) example_paced"
    using quota_step.reserve [of "?s GateReserving"] by (simp add: example_paced_def)
  ultimately show ?thesis by (meson quota_reachable.step)
qed

lemma dispatches_spaced_witness:
  "sorted_wrt (\<lambda>later earlier. earlier + 10 \<le> later) (qs_dispatched example_paced) \<and> qs_dispatched example_paced = [1000]"
proof -
  have "qm_min_interval (with_limits_and_window (\<lambda>_. False) (\<lambda>r. r = 0) Some (Some (10 :: nat)) (Some 5) 100) = Some 10"
    by (simp add: with_limits_and_window_def max_pacing_interval_def)
  from dispatches_spaced [OF example_paced_reachable this] show ?thesis by (simp add: example_paced_def)
qed

lemma wait_suffices_witness:
  "0 < (40 :: nat) \<and>
   snd (required_wait (60 + 40) (Some 10) (Some 5) 100
     \<lparr>rl_next_allowed_at = Some 70, rl_token_window = [(0, 3), (20, 4)], rl_window_tokens = 7\<rparr>) = None"
proof -
  let ?st = "\<lparr>rl_next_allowed_at = Some 70, rl_token_window = [(0, 3), (20, 4)], rl_window_tokens = 7\<rparr>"
  have "window_ok 60 ?st" by (simp add: window_ok_def entries_sum_def)
  moreover have "required_wait 60 (Some 10) (Some 5) 100 ?st = (?st, Some 40)"
    by (simp add: required_wait_def prune_expired_def rps_wait_def tpm_wait_def Let_def)
  ultimately show ?thesis using wait_suffices [of 60 ?st "Some 5" "Some 10" 100 ?st 40] by (simp add: tpm_valid_def)
qed

definition example_spent :: quota_system where
  "example_spent = \<lparr>qs_now = 1000,
     qs_manager = record_tokens 1000 4 (with_limits_and_window (\<lambda>_. False) (\<lambda>r. r = 0) Some (Some (10 :: nat)) (Some 5) 100),
     qs_gate = GateFree, qs_dispatched = [], qs_recorded = [(1000, 4)]\<rparr>"

lemma example_spent_reachable: "quota_reachable example_start example_spent"
proof -
  have "quota_step example_start example_spent"
    using quota_step.tokens [of example_start 4] by (simp add: quota_initial_def example_spent_def)
  then show ?thesis by (meson quota_reachable.intros)
qed

lemma token_ceiling_witness:
  "sum_list (map snd (filter (\<lambda>e. qs_now example_spent - fst e < 100) (qs_recorded example_spent))) < 5
   \<and> qs_recorded example_spent = [(1000, 4)]"
proof -
  have "manager_wait (qs_now example_spent) (qs_manager example_spent) = (qs_manager example_spent, None)"
    by (simp add: example_spent_def record_tokens_def manager_wait_def required_wait_def prune_expired_def
        with_limits_and_window_def rate_limit_default_def rps_wait_def tpm_wait_def Let_def sat_add_def usize_max_def)
  moreover have "qm_max_tpm (qs_manager example_spent) = Some 5"
    by (simp add: example_spent_def record_tokens_def with_limits_and_window_def Let_def)
  moreover have "sum_list (map snd (qs_recorded example_spent)) \<le> usize_max"
    by (simp add: example_spent_def usize_max_def)
  ultimately show ?thesis
    using token_ceiling [OF example_spent_reachable] by (simp add: example_spent_def)
qed

lemma cooldown_bounded_witness:
  "\<exists>s. qm_blocked_until (qs_manager s) = Some 1050 \<and> quota_reachable example_start s \<and> 1050 \<le> qs_now s + 5 * 60 * 10 ^ 9"
proof -
  let ?s = "example_start\<lparr>qs_manager := report_quota_error (qs_now example_start) 50 (qs_manager example_start)\<rparr>"
  have reach: "quota_reachable example_start ?s"
    by (rule quota_reachable.step [OF quota_reachable.start quota_step.quota_error])
  have blocked: "qm_blocked_until (qs_manager ?s) = Some 1050"
    by (simp add: report_quota_error_def with_limits_and_window_def quota_initial_def max_retry_after_def Let_def)
  have "1050 \<le> qs_now ?s + 5 * 60 * 10 ^ 9"
    using cooldown_bounded [OF reach blocked quota_step.success] by blast
  with reach blocked show ?thesis by blast
qed

end
