(* ===== verification/Truncator.thy ===== *)
theory Truncator
  imports Prelude
begin

text \<open>
  Cutting tool output down to a context budget (\<open>src/src/ai/truncator.rs\<close>) and the budget itself
  (\<open>src/src/ai/token_budget.rs\<close>). Lengths are in bytes of UTF-8, as \<open>str::len\<close> counts them, and the
  cut never splits a character. Budgets and lengths are natural numbers: the products the code
  forms overflow \<open>usize\<close> only for budgets above \<open>2 ^ 64 / 3\<close> tokens.
\<close>

section \<open>Token budgets\<close>

record token_budget =
  tb_max_tokens :: nat
  tb_current :: nat

definition budget_new :: "nat \<Rightarrow> token_budget" where
  "budget_new max_tokens = \<lparr>tb_max_tokens = max_tokens, tb_current = 0\<rparr>"

definition budget_remaining :: "token_budget \<Rightarrow> nat" where
  "budget_remaining b = tb_max_tokens b - tb_current b"

definition can_afford :: "token_budget \<Rightarrow> nat \<Rightarrow> bool" where
  "can_afford b estimated \<longleftrightarrow> tb_current b + estimated \<le> tb_max_tokens b"

definition budget_consume :: "nat \<Rightarrow> token_budget \<Rightarrow> token_budget" where
  "budget_consume tokens b = b\<lparr>tb_current := tb_current b + tokens\<rparr>"

definition budget_reset :: "token_budget \<Rightarrow> token_budget" where
  "budget_reset b = b\<lparr>tb_current := 0\<rparr>"

definition bytes_per_token :: nat where "bytes_per_token = 3"

text \<open>\<open>div_ceil\<close>.\<close>

definition approximate_tokens :: "string \<Rightarrow> nat" where
  "approximate_tokens s = (str_len s + (bytes_per_token - 1)) div bytes_per_token"

section \<open>Truncation\<close>

record truncation_result =
  tr_content :: string
  tr_truncated :: bool

record sequential_result =
  sr_content :: string
  sr_lines_kept :: nat
  sr_truncated :: bool

abbreviation nl :: string where "nl \<equiv> [CHR 0x0A]"

definition dropped_lines_warning :: "nat \<Rightarrow> nat \<Rightarrow> string" where
  "dropped_lines_warning dropped estimated =
     ''... [Output truncated. Dropped '' @ nat_str dropped @ '' lines. Original size: ''
       @ nat_str estimated @ '' tokens] ...'' @ nl"

definition oversized_notice :: "nat \<Rightarrow> nat \<Rightarrow> string" where
  "oversized_notice estimated kept =
     nl @ ''... [Output truncated. Content too large ('' @ nat_str estimated
       @ '' tokens). Displaying first '' @ nat_str kept @ '' bytes] ...'' @ nl"

text \<open>The characters whose end offset stays within the allowance, from the given offset on.\<close>

fun kept_chars :: "nat \<Rightarrow> nat \<Rightarrow> string \<Rightarrow> string" where
  "kept_chars allowed offset [] = []"
| "kept_chars allowed offset (c # s) =
     (if offset + len_utf8 c \<le> allowed then c # kept_chars allowed (offset + len_utf8 c) s else [])"

definition head_of :: "string \<Rightarrow> nat \<Rightarrow> nat \<Rightarrow> string" where
  "head_of content max_tokens estimated =
     (let budget_bytes = max_tokens * bytes_per_token;
          reserved = str_len (oversized_notice estimated budget_bytes);
          allowed = budget_bytes - reserved;
          kept = kept_chars allowed 0 content
      in kept @ oversized_notice estimated (str_len kept))"

definition with_newlines :: "string list \<Rightarrow> string" where
  "with_newlines ls = concat (map (\<lambda>l. l @ nl) ls)"

definition diff_notice :: "string \<Rightarrow> nat \<Rightarrow> nat \<Rightarrow> nat \<Rightarrow> string" where
  "diff_notice label total_lines keep_top keep_bottom =
     nl @ ''... ['' @ label @ '' truncated. Dropped '' @ nat_str (total_lines - (keep_top + keep_bottom))
     @ '' lines (lines '' @ nat_str (keep_top + 1) @ ''-'' @ nat_str (total_lines - keep_bottom) @ '')] ...'' @ nl @ nl"

definition truncate_diff :: "string \<Rightarrow> nat \<Rightarrow> string \<Rightarrow> truncation_result" where
  "truncate_diff diff max_tokens label =
     (let estimated = approximate_tokens diff in
      if estimated \<le> max_tokens then \<lparr>tr_content = diff, tr_truncated = False\<rparr>
      else (let budget_bytes = max_tokens * bytes_per_token;
                ls = lines diff; total_lines = length ls; allowed_lines = budget_bytes div 50 in
            if total_lines \<le> allowed_lines then \<lparr>tr_content = head_of diff max_tokens estimated, tr_truncated = True\<rparr>
            else (let keep_top = allowed_lines div 2; keep_bottom = allowed_lines div 2 in
                  if total_lines \<le> keep_top + keep_bottom
                  then \<lparr>tr_content = head_of diff max_tokens estimated, tr_truncated = True\<rparr>
                  else (let result = with_newlines (take keep_top ls) @ diff_notice label total_lines keep_top keep_bottom
                              @ with_newlines (drop (total_lines - keep_bottom) ls) in
                        if max_tokens < approximate_tokens result
                        then \<lparr>tr_content = head_of result max_tokens estimated, tr_truncated = True\<rparr>
                        else \<lparr>tr_content = result, tr_truncated = True\<rparr>))))"

text \<open>The loop: the text so far, the number of lines kept, and the lines to come.\<close>

fun keep_lines :: "nat \<Rightarrow> string \<Rightarrow> nat \<Rightarrow> string list \<Rightarrow> string \<times> nat" where
  "keep_lines available result kept [] = (result, kept)"
| "keep_lines available result kept (line # ls) =
     (if available < str_len result + str_len line + 1 then (result, kept)
      else keep_lines available (result @ line @ nl) (kept + 1) ls)"

definition truncate_sequential :: "string \<Rightarrow> nat \<Rightarrow> sequential_result" where
  "truncate_sequential content max_tokens =
     (let estimated = approximate_tokens content in
      if estimated \<le> max_tokens
      then \<lparr>sr_content = content, sr_lines_kept = length (lines content), sr_truncated = False\<rparr>
      else (let budget_bytes = max_tokens * bytes_per_token; total_lines = length (lines content);
                reserved = str_len (dropped_lines_warning total_lines estimated);
                available = budget_bytes - reserved;
                (result, kept) = keep_lines available [] 0 (lines content) in
            if kept = 0
            then \<lparr>sr_content = head_of content max_tokens estimated, sr_lines_kept = 0, sr_truncated = True\<rparr>
            else \<lparr>sr_content = result @ dropped_lines_warning (total_lines - kept) estimated,
                  sr_lines_kept = kept, sr_truncated = True\<rparr>))"

section \<open>Measures\<close>

lemma approximate_tokens_le_iff: "approximate_tokens s \<le> n \<longleftrightarrow> str_len s \<le> n * bytes_per_token"
  by (auto simp: approximate_tokens_def bytes_per_token_def)

lemma dropped_lines_warning_mono:
  "a \<le> b \<Longrightarrow> str_len (dropped_lines_warning a e) \<le> str_len (dropped_lines_warning b e)"
  by (simp add: dropped_lines_warning_def str_len_nat_str_mono)

lemma oversized_notice_mono:
  "a \<le> b \<Longrightarrow> str_len (oversized_notice e a) \<le> str_len (oversized_notice e b)"
  by (simp add: oversized_notice_def str_len_nat_str_mono)

lemma kept_chars_prefix: "prefix (kept_chars allowed off s) s"
  by (induction allowed off s rule: kept_chars.induct) auto

lemma kept_chars_bound: "off \<le> allowed \<Longrightarrow> off + str_len (kept_chars allowed off s) \<le> allowed"
proof (induction allowed off s rule: kept_chars.induct)
  case (1 allowed offset)
  then show ?case by simp
next
  case (2 allowed offset c s)
  then show ?case by (auto simp: add.assoc)
qed

text \<open>The kept prefix is the longest that fits: the next character would not.\<close>

lemma kept_chars_maximal:
  "prefix p s \<Longrightarrow> off + str_len p \<le> allowed \<Longrightarrow> prefix p (kept_chars allowed off s)"
proof (induction allowed off s arbitrary: p rule: kept_chars.induct)
  case (1 allowed offset)
  then show ?case by simp
next
  case (2 allowed offset c s)
  then show ?case by (cases p) (auto simp: add.assoc)
qed

text \<open>The room a cut needs: its budget, or the notice alone when the budget cannot hold one.\<close>

definition cut_room :: "nat \<Rightarrow> nat \<Rightarrow> nat" where
  "cut_room max_tokens estimated =
     max (max_tokens * bytes_per_token) (str_len (oversized_notice estimated (max_tokens * bytes_per_token)))"

lemma head_of_bound: "str_len (head_of content max_tokens estimated) \<le> cut_room max_tokens estimated"
proof -
  let ?budget = "max_tokens * bytes_per_token"
  let ?reserved = "str_len (oversized_notice estimated ?budget)"
  let ?kept = "kept_chars (?budget - ?reserved) 0 content"
  have kept: "str_len ?kept \<le> ?budget - ?reserved"
    using kept_chars_bound [of 0 "?budget - ?reserved" content] by simp
  then have "str_len (oversized_notice estimated (str_len ?kept)) \<le> ?reserved"
    by (intro oversized_notice_mono) simp
  with kept show ?thesis by (auto simp: head_of_def cut_room_def Let_def)
qed

lemma keep_lines_spec:
  assumes "keep_lines available result kept ls = (r, k)"
  shows "\<exists>n \<le> length ls. k = kept + n \<and> r = result @ with_newlines (take n ls)
     \<and> (str_len result \<le> available \<longrightarrow> str_len r \<le> available)
     \<and> (n < length ls \<longrightarrow> available < str_len r + str_len (ls ! n) + 1)"
  using assms
proof (induction available result kept ls rule: keep_lines.induct)
  case (1 available result kept)
  then show ?case by (simp add: with_newlines_def)
next
  case (2 available result kept line ls)
  show ?case
  proof (cases "available < str_len result + str_len line + 1")
    case True
    with 2 show ?thesis by (intro exI [of _ 0]) (simp add: with_newlines_def)
  next
    case False
    with 2 obtain n where n: "n \<le> length ls" "k = kept + 1 + n" "r = (result @ line @ nl) @ with_newlines (take n ls)"
      "str_len (result @ line @ nl) \<le> available \<longrightarrow> str_len r \<le> available"
      "n < length ls \<longrightarrow> available < str_len r + str_len (ls ! n) + 1"
      by auto
    with False show ?thesis
      by (intro exI [of _ "Suc n"]) (simp add: with_newlines_def len_utf8_def)
  qed
qed

section \<open>What truncation guarantees\<close>

text \<open>
  C35. Truncated output fits its budget: both cuts return content within the budget unchanged, mark exactly
  the content beyond it as truncated, and never return more bytes than the budget, or, when the
  budget cannot even hold the notice, than the notice.
\<close>

theorem truncation_bounded:
  "tr_truncated (truncate_diff s n label) = (n < approximate_tokens s)
   \<and> sr_truncated (truncate_sequential s n) = (n < approximate_tokens s)
   \<and> (approximate_tokens s \<le> n \<longrightarrow> tr_content (truncate_diff s n label) = s \<and> sr_content (truncate_sequential s n) = s)
   \<and> str_len (tr_content (truncate_diff s n label)) \<le> cut_room n (approximate_tokens s)
   \<and> str_len (sr_content (truncate_sequential s n)) \<le> cut_room n (approximate_tokens s)"
proof -
  have small: "approximate_tokens x \<le> n \<Longrightarrow> str_len x \<le> cut_room n e" for x e
    by (simp add: approximate_tokens_le_iff cut_room_def le_max_iff_disj)
  have diff: "str_len (tr_content (truncate_diff s n label)) \<le> cut_room n (approximate_tokens s)"
    by (simp add: truncate_diff_def Let_def small head_of_bound del: str_len_simps(3))
  have seq: "str_len (sr_content (truncate_sequential s n)) \<le> cut_room n (approximate_tokens s)"
  proof (cases "approximate_tokens s \<le> n")
    case True
    then show ?thesis by (simp add: truncate_sequential_def Let_def small)
  next
    case False
    let ?reserved = "str_len (dropped_lines_warning (length (lines s)) (approximate_tokens s))"
    let ?available = "n * bytes_per_token - ?reserved"
    obtain r k where rk: "keep_lines ?available [] 0 (lines s) = (r, k)" by (meson surj_pair)
    from keep_lines_spec [OF rk] have r: "str_len r \<le> ?available" and lines: "r = with_newlines (take k (lines s))"
      by auto
    have "str_len (r @ dropped_lines_warning (length (lines s) - k) (approximate_tokens s)) \<le> n * bytes_per_token"
      if "k \<noteq> 0"
    proof -
      have "lines s \<noteq> []" using rk that by (cases "lines s") auto
      with that have "0 < str_len r" by (cases k; cases "lines s") (simp_all add: lines with_newlines_def len_utf8_def)
      moreover have "str_len (dropped_lines_warning (length (lines s) - k) (approximate_tokens s)) \<le> ?reserved"
        by (intro dropped_lines_warning_mono) simp
      ultimately show ?thesis using r by simp
    qed
    with False rk show ?thesis
      by (auto simp: truncate_sequential_def Let_def head_of_bound) (auto simp: cut_room_def)
  qed
  have "tr_truncated (truncate_diff s n label) = (n < approximate_tokens s)"
    by (auto simp: truncate_diff_def Let_def)
  moreover have "sr_truncated (truncate_sequential s n) = (n < approximate_tokens s)"
    by (auto simp: truncate_sequential_def Let_def split: prod.splits)
  moreover have "approximate_tokens s \<le> n \<longrightarrow>
      tr_content (truncate_diff s n label) = s \<and> sr_content (truncate_sequential s n) = s"
    by (simp add: truncate_diff_def truncate_sequential_def Let_def)
  ultimately show ?thesis using diff seq by blast
qed

lemma truncation_bounded_witness:
  "sr_content (truncate_sequential ''short'' 2) = ''short'' \<and> approximate_tokens ''short'' \<le> 2
   \<and> str_len (sr_content (truncate_sequential ''a long line, cut'' 2)) \<le> cut_room 2 (approximate_tokens ''a long line, cut'')"
proof -
  have "approximate_tokens ''short'' \<le> 2" by code_simp
  with truncation_bounded [of "''short''" 2 "''x''"] truncation_bounded [of "''a long line, cut''" 2 "''x''"]
  show ?thesis by blast
qed

text \<open>
  Cutting by lines is honest and keeps all it can: the result is the longest run of leading lines that
  fits, followed by a notice with the exact number of the lines dropped; when not even the first
  line fits, it is the longest prefix that fits, ending at a character boundary, with
  its exact size in the notice.
\<close>

theorem sequential_honest:
  assumes "n < approximate_tokens s"
  shows "let r = truncate_sequential s n; k = sr_lines_kept r; total_lines = length (lines s);
       e = approximate_tokens s; reserved = str_len (dropped_lines_warning total_lines e) in
     k \<le> total_lines
     \<and> (if k = 0
        then (\<exists>p. prefix p s \<and> sr_content r = p @ oversized_notice e (str_len p)
           \<and> (\<forall>q. prefix q s \<longrightarrow> str_len q + str_len (oversized_notice e (n * bytes_per_token)) \<le> n * bytes_per_token
                \<longrightarrow> prefix q p))
        else sr_content r = with_newlines (take k (lines s)) @ dropped_lines_warning (total_lines - k) e
           \<and> (k < total_lines \<longrightarrow>
                n * bytes_per_token < str_len (with_newlines (take (k + 1) (lines s))) + reserved))"
proof -
  let ?e = "approximate_tokens s" and ?b = "n * bytes_per_token"
  let ?reserved = "str_len (dropped_lines_warning (length (lines s)) ?e)"
  obtain r k where rk: "keep_lines (?b - ?reserved) [] 0 (lines s) = (r, k)" by (meson surj_pair)
  from keep_lines_spec [OF rk] have k: "k \<le> length (lines s)" and r: "r = with_newlines (take k (lines s))"
    and stop: "k < length (lines s) \<longrightarrow> ?b - ?reserved < str_len r + str_len (lines s ! k) + 1"
    by auto
  show ?thesis
  proof (cases "k = 0")
    case True
    let ?p = "kept_chars (?b - str_len (oversized_notice ?e ?b)) 0 s"
    have "prefix q ?p" if "prefix q s" "str_len q + str_len (oversized_notice ?e ?b) \<le> ?b" for q
      using that by (intro kept_chars_maximal) simp_all
    moreover have "truncate_sequential s n = \<lparr>sr_content = ?p @ oversized_notice ?e (str_len ?p), sr_lines_kept = 0, sr_truncated = True\<rparr>"
      using assms rk True by (simp add: truncate_sequential_def head_of_def Let_def)
    ultimately show ?thesis
      using kept_chars_prefix [of "?b - str_len (oversized_notice ?e ?b)" 0 s]
      by (auto simp: Let_def)
  next
    case False
    have "truncate_sequential s n = \<lparr>sr_content = r @ dropped_lines_warning (length (lines s) - k) ?e,
        sr_lines_kept = k, sr_truncated = True\<rparr>"
      using assms rk False by (simp add: truncate_sequential_def Let_def)
    moreover have "?b < str_len (with_newlines (take (k + 1) (lines s))) + ?reserved" if "k < length (lines s)"
      using that stop by (auto simp: r take_Suc_conv_app_nth with_newlines_def len_utf8_def)
    ultimately show ?thesis using False k r by (simp add: Let_def)
  qed
qed

lemma sequential_honest_witness:
  "\<exists>p. prefix p ''a long line, cut'' \<and> sr_content (truncate_sequential ''a long line, cut'' 2)
     = p @ oversized_notice 6 (str_len p)"
proof -
  have e: "approximate_tokens ''a long line, cut'' = 6" by code_simp
  have k: "sr_lines_kept (truncate_sequential ''a long line, cut'' 2) = 0" by code_simp
  show ?thesis
    using sequential_honest [of 2 "''a long line, cut''"] unfolding e k Let_def by auto
qed

end
