(* ===== verification/PatchLineage.thy ===== *)
theory PatchLineage
  imports Prelude "HOL-Library.Product_Lexorder"
begin

text \<open>
  Which patch of the previous version of a series a patch continues (\<open>src/src/db/patch_lineage.rs\<close>), and how
  \<open>Database::reconcile_patch_lineage\<close> of \<open>src/src/db.rs\<close> turns the matches into stored links.
  The rows of the two series, read by SQL, are the arguments; the statements that store a link are the
  resulting list of links.
\<close>

definition min_summary_len :: nat where "min_summary_len = 16"

definition max_prefix_component_len :: nat where "max_prefix_component_len = 40"

record lineage_patch =
  lp_id :: int
  lp_part_index :: int
  lp_git_patch_id :: "string option"
  lp_clean_subject :: string
  lp_existing_prev_id :: "int option"
  lp_existing_prev_status :: "string option"

section \<open>Subjects\<close>

record subject_parts =
  sp_prefix :: "string list"
  sp_summary :: string

definition is_component :: "string \<Rightarrow> string \<Rightarrow> bool" where
  "is_component head tail \<longleftrightarrow> head \<noteq> [] \<and> str_len head \<le> max_prefix_component_len
     \<and> \<not> list_ex is_ws head \<and> tail \<noteq> [] \<and> is_ws (hd tail)"

lemma split_once_tail_shorter: "split_once c s = Some (a, b) \<Longrightarrow> length b < length s"
  by (auto simp: split_once_Some_iff)

text \<open>The loop: leading components as long as there are any, and the rest.\<close>

function parse_prefix :: "string \<Rightarrow> string list \<times> string" where
  "parse_prefix rest =
     (case split_once (CHR '':'') rest of
        None \<Rightarrow> ([], rest)
      | Some (head, tail) \<Rightarrow>
          if is_component (trim head) tail
          then (let (comps, final) = parse_prefix (trim_start tail) in (trim head # comps, final))
          else ([], rest))"
  by pat_completeness auto

termination parse_prefix
  by (relation "measure length")
    (auto simp: trim_start_def dest!: split_once_tail_shorter intro: le_less_trans [OF length_dropWhile_le])

declare parse_prefix.simps [simp del]

definition parse_subject :: "string \<Rightarrow> subject_parts option" where
  "parse_subject subject =
     (let (comps, rest) = parse_prefix (trim subject); summary = trim rest
      in if comps \<noteq> [] \<and> min_summary_len \<le> str_len summary
         then Some \<lparr>sp_prefix = comps, sp_summary = summary\<rparr> else None)"

definition summary_key :: "subject_parts \<Rightarrow> string" where
  "summary_key p = to_lower (sp_summary p)"

definition summary_counts :: "lineage_patch list \<Rightarrow> (string, nat) alist" where
  "summary_counts patches =
     fold (\<lambda>p counts. case parse_subject (lp_clean_subject p) of
             Some parts \<Rightarrow> upsert (summary_key parts) 1 Suc counts
           | None \<Rightarrow> counts) patches []"

text \<open>One shared iterator over the longer list: every component of the shorter is sought after the last one found.\<close>

fun is_component_subsequence :: "string list \<Rightarrow> string list \<Rightarrow> bool" where
  "is_component_subsequence [] ls = True"
| "is_component_subsequence (s # ss) [] = False"
| "is_component_subsequence (s # ss) (l # ls) =
     (if eq_ascii_nocase l s then is_component_subsequence ss ls else is_component_subsequence (s # ss) ls)"

definition summaries_link :: "subject_parts \<Rightarrow> subject_parts \<Rightarrow> bool" where
  "summaries_link prev cur =
     (case (sp_prefix prev, sp_prefix cur) of
        (p # _, c # _) \<Rightarrow> eq_ascii_nocase p c \<and> eq_ascii_nocase (sp_summary prev) (sp_summary cur)
          \<and> (is_component_subsequence (sp_prefix prev) (sp_prefix cur)
             \<or> is_component_subsequence (sp_prefix cur) (sp_prefix prev))
      | _ \<Rightarrow> False)"

section \<open>Tiers\<close>

type_synonym assignments = "(int, int option \<times> string option) alist"

record lineage_tiers =
  lt_matched_prev :: "int list"
  lt_assignments :: assignments

definition assign_one ::
  "lineage_patch list \<Rightarrow> string \<Rightarrow> (lineage_patch \<Rightarrow> lineage_patch \<Rightarrow> bool)
     \<Rightarrow> (lineage_patch \<Rightarrow> lineage_patch \<Rightarrow> nat) \<Rightarrow> lineage_patch \<Rightarrow> lineage_tiers \<Rightarrow> lineage_tiers" where
  "assign_one prevs status matches rank cur st =
     (if lp_id cur \<in> fst ` set (lt_assignments st) then st
      else (case min_by_key (\<lambda>prev. (rank prev cur, nat \<bar>lp_part_index prev - lp_part_index cur\<bar>, lp_part_index prev))
                   (filter (\<lambda>prev. \<not> List.member (lt_matched_prev st) (lp_id prev) \<and> matches prev cur) prevs) of
              Some prev \<Rightarrow>
                st\<lparr>lt_matched_prev := lp_id prev # lt_matched_prev st,
                   lt_assignments := lt_assignments st @ [(lp_id cur, Some (lp_id prev), Some status)]\<rparr>
            | None \<Rightarrow> st))"

definition assign_tier ::
  "lineage_patch list \<Rightarrow> lineage_patch list \<Rightarrow> string \<Rightarrow> (lineage_patch \<Rightarrow> lineage_patch \<Rightarrow> bool)
     \<Rightarrow> (lineage_patch \<Rightarrow> lineage_patch \<Rightarrow> nat) \<Rightarrow> lineage_tiers \<Rightarrow> lineage_tiers" where
  "assign_tier prevs currs status matches rank = fold (assign_one prevs status matches rank) currs"

definition same_git_patch_id :: "lineage_patch \<Rightarrow> lineage_patch \<Rightarrow> bool" where
  "same_git_patch_id prev cur \<longleftrightarrow> lp_git_patch_id cur \<noteq> None \<and> lp_git_patch_id prev = lp_git_patch_id cur"

definition same_subject :: "lineage_patch \<Rightarrow> lineage_patch \<Rightarrow> bool" where
  "same_subject prev cur \<longleftrightarrow> lp_clean_subject cur \<noteq> [] \<and> lp_clean_subject prev = lp_clean_subject cur"

definition unique_summary ::
  "(string, nat) alist \<Rightarrow> (string, nat) alist \<Rightarrow> lineage_patch \<Rightarrow> lineage_patch \<Rightarrow> bool" where
  "unique_summary prev_counts curr_counts prev cur =
     (case (parse_subject (lp_clean_subject prev), parse_subject (lp_clean_subject cur)) of
        (Some p, Some c) \<Rightarrow>
          map_of prev_counts (summary_key p) = Some 1 \<and> map_of curr_counts (summary_key p) = Some 1
          \<and> summaries_link p c
      | _ \<Rightarrow> False)"

definition match_patch_lineage :: "lineage_patch list \<Rightarrow> lineage_patch list \<Rightarrow> assignments \<times> int list" where
  "match_patch_lineage prevs currs =
     (let t0 = \<lparr>lt_matched_prev = [], lt_assignments = []\<rparr>;
          t1 = assign_tier prevs currs ''unchanged'' same_git_patch_id
                 (\<lambda>prev cur. if lp_clean_subject prev \<noteq> lp_clean_subject cur then 1 else 0) t0;
          t2 = assign_tier prevs currs ''modified'' same_subject (\<lambda>_ _. 0) t1;
          t3 = assign_tier prevs currs ''modified''
                 (unique_summary (summary_counts prevs) (summary_counts currs)) (\<lambda>_ _. 0) t2
      in (lt_assignments t3, lt_matched_prev t3))"

section \<open>Reconciliation\<close>

text \<open>
  The data of the two patchsets that the fallback for two single patches reads: their numbers of
  parts (one when unknown) and the signal that linked them; absent when the row is missing.
\<close>

record version_meta =
  vm_prev_total :: "nat option"
  vm_curr_total :: "nat option"
  vm_signal :: "string option"

definition strong_signal :: "string option \<Rightarrow> bool" where
  "strong_signal s \<longleftrightarrow> s = Some ''forge_mr'' \<or> s = Some ''change_id'' \<or> s = Some ''message_ref''"

definition singleton_fallback ::
  "version_meta option \<Rightarrow> lineage_patch list \<Rightarrow> lineage_patch list \<Rightarrow> assignments \<Rightarrow> assignments" where
  "singleton_fallback meta prevs currs asg =
     (if asg = [] \<and> length prevs = 1 \<and> length currs = 1 then
        (case meta of
           None \<Rightarrow> asg
         | Some m \<Rightarrow>
             if (case vm_prev_total m of None \<Rightarrow> 1 | Some n \<Rightarrow> n) = 1
                \<and> (case vm_curr_total m of None \<Rightarrow> 1 | Some n \<Rightarrow> n) = 1 \<and> strong_signal (vm_signal m)
             then [(lp_id (hd currs), Some (lp_id (hd prevs)), Some ''modified'')] else asg)
      else asg)"

text \<open>The stored link of each current patch afterwards, in order.\<close>

fun store_links ::
  "lineage_patch list \<Rightarrow> assignments \<Rightarrow> int list \<Rightarrow> lineage_patch list \<Rightarrow> (int \<times> int option \<times> string option) list" where
  "store_links prevs asg matched [] = []"
| "store_links prevs asg matched (cur # currs) =
     (case map_of asg (lp_id cur) of
        Some link \<Rightarrow> (lp_id cur, link) # store_links prevs asg matched currs
      | None \<Rightarrow>
          (case lp_existing_prev_id cur of
             Some e \<Rightarrow>
               if \<not> List.member matched e \<and> list_ex (\<lambda>p. lp_id p = e) prevs
               then (lp_id cur, Some e, lp_existing_prev_status cur) # store_links prevs asg (e # matched) currs
               else (lp_id cur, None, None) # store_links prevs asg matched currs
           | None \<Rightarrow> (lp_id cur, None, None) # store_links prevs asg matched currs))"

definition reconcile_patch_lineage ::
  "version_meta option \<Rightarrow> lineage_patch list \<Rightarrow> lineage_patch list \<Rightarrow> (int \<times> int option \<times> string option) list" where
  "reconcile_patch_lineage meta prevs currs =
     (let (asg, matched) = match_patch_lineage prevs currs
      in store_links prevs (singleton_fallback meta prevs currs asg) matched currs)"

section \<open>Laws of a tier\<close>

text \<open>Which links a tier makes: between patches that its test accepts, and no previous patch twice.\<close>

definition tiers_ok :: "lineage_patch list \<Rightarrow> lineage_patch list
     \<Rightarrow> (string \<Rightarrow> lineage_patch \<Rightarrow> lineage_patch \<Rightarrow> bool) \<Rightarrow> lineage_tiers \<Rightarrow> bool" where
  "tiers_ok prevs currs reason st \<longleftrightarrow>
     distinct (map fst (lt_assignments st))
     \<and> map (\<lambda>a. fst (snd a)) (lt_assignments st) = map Some (rev (lt_matched_prev st))
     \<and> distinct (lt_matched_prev st)
     \<and> (\<forall>a \<in> set (lt_assignments st). \<exists>cur \<in> set currs. \<exists>prev \<in> set prevs. \<exists>status.
          a = (lp_id cur, Some (lp_id prev), Some status) \<and> reason status prev cur)"

lemma tiers_ok_start: "tiers_ok prevs currs reason \<lparr>lt_matched_prev = [], lt_assignments = []\<rparr>"
  by (simp add: tiers_ok_def)

lemma tiers_ok_one:
  assumes "tiers_ok prevs currs reason st" and "cur \<in> set currs"
    and "\<And>prev. matches prev cur \<Longrightarrow> reason status prev cur"
  shows "tiers_ok prevs currs reason (assign_one prevs status matches rank cur st)"
proof (cases "lp_id cur \<in> fst ` set (lt_assignments st)")
  case True
  with assms(1) show ?thesis by (simp add: assign_one_def)
next
  case new: False
  let ?free = "filter (\<lambda>prev. \<not> List.member (lt_matched_prev st) (lp_id prev) \<and> matches prev cur) prevs"
  let ?best = "min_by_key (\<lambda>prev. (rank prev cur, nat \<bar>lp_part_index prev - lp_part_index cur\<bar>, lp_part_index prev)) ?free"
  show ?thesis
  proof (cases ?best)
    case None
    with assms(1) new show ?thesis by (simp add: assign_one_def)
  next
    case (Some prev)
    from min_by_key_Some [OF Some] have prev: "prev \<in> set prevs" "lp_id prev \<notin> set (lt_matched_prev st)" "matches prev cur" by auto
    have eq: "assign_one prevs status matches rank cur st =
       st\<lparr>lt_matched_prev := lp_id prev # lt_matched_prev st,
          lt_assignments := lt_assignments st @ [(lp_id cur, Some (lp_id prev), Some status)]\<rparr>"
      using new Some by (simp add: assign_one_def)
    show ?thesis
      using assms(1) prev new assms(2) assms(3) [OF prev(3)] unfolding tiers_ok_def eq by auto
  qed
qed

lemma tiers_ok_tier:
  assumes "tiers_ok prevs currs reason st" and "\<And>prev cur. matches prev cur \<Longrightarrow> reason status prev cur"
  shows "tiers_ok prevs currs reason (assign_tier prevs currs status matches rank st)"
proof -
  have "set cs \<subseteq> set currs \<Longrightarrow> tiers_ok prevs currs reason st' \<Longrightarrow>
     tiers_ok prevs currs reason (fold (assign_one prevs status matches rank) cs st')" for cs st'
    by (induction cs arbitrary: st') (auto simp: tiers_ok_one assms(2))
  with assms(1) show ?thesis by (simp add: assign_tier_def)
qed

text \<open>Both the assigned and the matched grow; a tier leaves no acceptable pair unlinked.\<close>

definition extends :: "lineage_tiers \<Rightarrow> lineage_tiers \<Rightarrow> bool" where
  "extends st st' \<longleftrightarrow> (\<exists>more_asg. lt_assignments st' = lt_assignments st @ more_asg)
     \<and> set (lt_matched_prev st) \<subseteq> set (lt_matched_prev st')"

lemma extends_refl: "extends st st"
  by (simp add: extends_def)

lemma extends_trans: "extends a b \<Longrightarrow> extends b c \<Longrightarrow> extends a c"
  by (auto simp: extends_def)

lemma extends_one: "extends st (assign_one prevs status matches rank cur st)"
  by (auto simp: assign_one_def extends_def split: option.splits)

lemma extends_fold: "extends st (fold (assign_one prevs status matches rank) cs st)"
  by (induction cs arbitrary: st) (auto simp: extends_refl intro: extends_trans extends_one)

definition saturated :: "lineage_patch list \<Rightarrow> (lineage_patch \<Rightarrow> lineage_patch \<Rightarrow> bool) \<Rightarrow> lineage_patch \<Rightarrow> lineage_tiers \<Rightarrow> bool" where
  "saturated prevs matches cur st \<longleftrightarrow>
     lp_id cur \<in> fst ` set (lt_assignments st)
     \<or> (\<forall>prev \<in> set prevs. matches prev cur \<longrightarrow> lp_id prev \<in> set (lt_matched_prev st))"

lemma saturated_one: "saturated prevs matches cur (assign_one prevs status matches rank cur st)"
  by (auto simp: saturated_def assign_one_def min_by_key_None filter_empty_conv split: option.splits)

lemma saturated_extends: "extends st st' \<Longrightarrow> saturated prevs matches cur st \<Longrightarrow> saturated prevs matches cur st'"
  by (auto simp: saturated_def extends_def)

lemma saturated_tier:
  assumes "cur \<in> set currs"
  shows "saturated prevs matches cur (assign_tier prevs currs status matches rank st)"
proof -
  have "cur \<in> set cs \<Longrightarrow> saturated prevs matches cur (fold (assign_one prevs status matches rank) cs st')" for cs st'
  proof (induction cs arbitrary: st')
    case Nil
    then show ?case by simp
  next
    case (Cons c cs)
    have "saturated prevs matches c (fold (assign_one prevs status matches rank) cs (assign_one prevs status matches rank c st'))"
      by (rule saturated_extends [OF extends_fold saturated_one])
    with Cons show ?case by auto
  qed
  then show ?thesis using assms by (simp add: assign_tier_def)
qed

section \<open>The three tiers\<close>

definition tier_reason :: "lineage_patch list \<Rightarrow> lineage_patch list \<Rightarrow> string \<Rightarrow> lineage_patch \<Rightarrow> lineage_patch \<Rightarrow> bool" where
  "tier_reason prevs currs status prev cur \<longleftrightarrow>
     (status = ''unchanged'' \<and> same_git_patch_id prev cur)
     \<or> (status = ''modified'' \<and>
         (same_subject prev cur \<or> unique_summary (summary_counts prevs) (summary_counts currs) prev cur))"

lemma match_patch_lineage_ok:
  assumes "match_patch_lineage prevs currs = (asg, matched)"
  shows "tiers_ok prevs currs (tier_reason prevs currs) \<lparr>lt_matched_prev = matched, lt_assignments = asg\<rparr>"
    and "cur \<in> set currs \<Longrightarrow> lp_id cur \<notin> fst ` set asg \<Longrightarrow> prev \<in> set prevs \<Longrightarrow>
      same_git_patch_id prev cur \<or> same_subject prev cur
      \<or> unique_summary (summary_counts prevs) (summary_counts currs) prev cur \<Longrightarrow> lp_id prev \<in> set matched"
proof -
  define t1 where "t1 = assign_tier prevs currs ''unchanged'' same_git_patch_id
     (\<lambda>prev cur. if lp_clean_subject prev \<noteq> lp_clean_subject cur then 1 else 0)
     \<lparr>lt_matched_prev = [], lt_assignments = []\<rparr>"
  define t2 where "t2 = assign_tier prevs currs ''modified'' same_subject (\<lambda>_ _. 0) t1"
  define t3 where "t3 = assign_tier prevs currs ''modified''
     (unique_summary (summary_counts prevs) (summary_counts currs)) (\<lambda>_ _. 0) t2"
  have res: "asg = lt_assignments t3" "matched = lt_matched_prev t3"
    using assms by (simp_all add: match_patch_lineage_def Let_def t1_def t2_def t3_def)
  have "tiers_ok prevs currs (tier_reason prevs currs) t1"
    unfolding t1_def by (rule tiers_ok_tier [OF tiers_ok_start]) (simp add: tier_reason_def)
  then have "tiers_ok prevs currs (tier_reason prevs currs) t2"
    unfolding t2_def by (rule tiers_ok_tier) (simp add: tier_reason_def)
  then have "tiers_ok prevs currs (tier_reason prevs currs) t3"
    unfolding t3_def by (rule tiers_ok_tier) (simp add: tier_reason_def)
  then show "tiers_ok prevs currs (tier_reason prevs currs) \<lparr>lt_matched_prev = matched, lt_assignments = asg\<rparr>"
    by (simp add: tiers_ok_def res)
  have ext: "extends t1 t2" "extends t2 t3"
    unfolding t2_def t3_def assign_tier_def by (rule extends_fold)+
  assume cur: "cur \<in> set currs" "lp_id cur \<notin> fst ` set asg" and prev: "prev \<in> set prevs"
    and reason: "same_git_patch_id prev cur \<or> same_subject prev cur
      \<or> unique_summary (summary_counts prevs) (summary_counts currs) prev cur"
  have "saturated prevs same_git_patch_id cur t3"
    by (rule saturated_extends [OF extends_trans [OF ext]]) (simp add: t1_def saturated_tier [OF cur(1)])
  moreover have "saturated prevs same_subject cur t3"
    by (rule saturated_extends [OF ext(2)]) (simp add: t2_def saturated_tier [OF cur(1)])
  moreover have "saturated prevs (unique_summary (summary_counts prevs) (summary_counts currs)) cur t3"
    by (simp add: t3_def saturated_tier [OF cur(1)])
  ultimately show "lp_id prev \<in> set matched"
    using cur(2) prev reason by (auto simp: saturated_def res)
qed

text \<open>
  C22. The links of a new version are sound and leave nothing obvious out: each joins a patch of the old version with
  one of the new for the reason its status names (the same content, or the same subject or
  unique compatible summary), no old patch is used twice and no new one linked twice; and
  a new patch stays unlinked only if every old patch it could continue is taken.
\<close>

theorem lineage_sound_and_complete:
  assumes "match_patch_lineage prevs currs = (asg, matched)"
  shows "distinct (map fst asg) \<and> distinct (map (\<lambda>a. fst (snd a)) asg)
    \<and> (\<forall>a \<in> set asg. \<exists>cur \<in> set currs. \<exists>prev \<in> set prevs. \<exists>status.
         a = (lp_id cur, Some (lp_id prev), Some status) \<and> tier_reason prevs currs status prev cur)
    \<and> (\<forall>cur \<in> set currs. \<forall>prev \<in> set prevs. lp_id cur \<notin> fst ` set asg \<longrightarrow>
         (same_git_patch_id prev cur \<or> same_subject prev cur
          \<or> unique_summary (summary_counts prevs) (summary_counts currs) prev cur) \<longrightarrow>
         Some (lp_id prev) \<in> set (map (\<lambda>a. fst (snd a)) asg))"
proof -
  note ok = match_patch_lineage_ok [OF assms]
  have used: "map (\<lambda>a. fst (snd a)) asg = map Some (rev matched)" and dist: "distinct matched"
    using ok(1) by (simp_all add: tiers_ok_def)
  show ?thesis
  proof (intro conjI)
    show "distinct (map (\<lambda>a. fst (snd a)) asg)" unfolding used using dist by (simp add: distinct_map)
    show "\<forall>cur \<in> set currs. \<forall>prev \<in> set prevs. lp_id cur \<notin> fst ` set asg \<longrightarrow>
         (same_git_patch_id prev cur \<or> same_subject prev cur
          \<or> unique_summary (summary_counts prevs) (summary_counts currs) prev cur) \<longrightarrow>
         Some (lp_id prev) \<in> set (map (\<lambda>a. fst (snd a)) asg)"
      unfolding used using ok(2) by auto
  qed (use ok(1) in \<open>simp_all add: tiers_ok_def\<close>)
qed

theorem lineage_sound_and_complete_witness:
  "let prev = \<lparr>lp_id = 1, lp_part_index = 1, lp_git_patch_id = Some ''g'', lp_clean_subject = ''a'',
          lp_existing_prev_id = None, lp_existing_prev_status = None\<rparr>;
       cur = \<lparr>lp_id = 2, lp_part_index = 1, lp_git_patch_id = Some ''g'', lp_clean_subject = ''b'',
          lp_existing_prev_id = None, lp_existing_prev_status = None\<rparr>;
       links = fst (match_patch_lineage [prev] [cur])
   in links = [(2, Some 1, Some ''unchanged'')] \<and> distinct (map fst links)"
proof -
  define prev :: lineage_patch where "prev = \<lparr>lp_id = 1, lp_part_index = 1, lp_git_patch_id = Some ''g'', lp_clean_subject = ''a'',
    lp_existing_prev_id = None, lp_existing_prev_status = None\<rparr>"
  define cur :: lineage_patch where "cur = \<lparr>lp_id = 2, lp_part_index = 1, lp_git_patch_id = Some ''g'', lp_clean_subject = ''b'',
    lp_existing_prev_id = None, lp_existing_prev_status = None\<rparr>"
  have "match_patch_lineage [prev] [cur] = ([(2, Some 1, Some ''unchanged'')], [1])"
    unfolding prev_def cur_def by code_simp
  from lineage_sound_and_complete [OF this] this show ?thesis
    unfolding Let_def prev_def cur_def by simp
qed

section \<open>Stored links\<close>

definition link_targets :: "(int \<times> int option \<times> string option) list \<Rightarrow> int list" where
  "link_targets ls = List.map_filter (\<lambda>l. fst (snd l)) ls"

lemma link_targets_simps [simp]:
  "link_targets [] = []"
  "link_targets ((c, Some p, s) # ls) = p # link_targets ls"
  "link_targets ((c, None, s) # ls) = link_targets ls"
  by (simp_all add: link_targets_def map_filter_simps)

lemma store_links_spec:
  assumes "distinct (map lp_id currs)"
    and "\<forall>c p s. map_of asg c = Some (Some p, s) \<longrightarrow> p \<in> set matched \<and> p \<in> lp_id ` set prevs"
    and "\<forall>c c' p s s'. map_of asg c = Some (Some p, s) \<longrightarrow> map_of asg c' = Some (Some p, s') \<longrightarrow> c = c'"
  shows "distinct (link_targets (store_links prevs asg matched currs))
    \<and> set (link_targets (store_links prevs asg matched currs)) \<subseteq>
        {p. \<exists>c \<in> lp_id ` set currs. \<exists>s. map_of asg c = Some (Some p, s)} \<union> (lp_id ` set prevs - set matched)"
  using assms(1,2)
proof (induction currs arbitrary: matched)
  case Nil
  then show ?case by simp
next
  case (Cons cur currs)
  note IH = Cons.IH [of matched] and pre = Cons.prems
  show ?case
  proof (cases "map_of asg (lp_id cur)")
    case (Some link)
    obtain p s where link: "link = (p, s)" by (cases link)
    have new: "q \<notin> set (link_targets (store_links prevs asg matched currs))" if "p = Some q" for q
    proof
      assume "q \<in> set (link_targets (store_links prevs asg matched currs))"
      with IH pre have "(\<exists>c \<in> lp_id ` set currs. \<exists>s. map_of asg c = Some (Some q, s)) \<or> q \<notin> set matched" by auto
      moreover have "q \<in> set matched" using pre(2) Some link that by blast
      ultimately obtain c s' where "c \<in> lp_id ` set currs" "map_of asg c = Some (Some q, s')" by blast
      with assms(3) Some link that have "lp_id cur \<in> lp_id ` set currs" by blast
      with pre(1) show False by simp
    qed
    show ?thesis
    proof (cases p)
      case None
      with IH pre Some link show ?thesis by auto
    next
      case (Some q)
      with IH pre \<open>map_of asg (lp_id cur) = Some link\<close> link new show ?thesis by auto
    qed
  next
    case unassigned: None
    show ?thesis
    proof (cases "\<exists>e. lp_existing_prev_id cur = Some e \<and> e \<notin> set matched \<and> e \<in> lp_id ` set prevs")
      case False
      then have "store_links prevs asg matched (cur # currs) = (lp_id cur, None, None) # store_links prevs asg matched currs"
        using unassigned by (auto simp: list_ex_iff split: option.splits)
      with IH pre show ?thesis by auto
    next
      case True
      then obtain e where e: "lp_existing_prev_id cur = Some e" "e \<notin> set matched" "e \<in> lp_id ` set prevs" by blast
      then have eq: "store_links prevs asg matched (cur # currs) =
         (lp_id cur, Some e, lp_existing_prev_status cur) # store_links prevs asg (e # matched) currs"
        using unassigned by (auto simp: list_ex_iff)
      have "distinct (link_targets (store_links prevs asg (e # matched) currs))
        \<and> set (link_targets (store_links prevs asg (e # matched) currs)) \<subseteq>
           {p. \<exists>c \<in> lp_id ` set currs. \<exists>s. map_of asg c = Some (Some p, s)} \<union> (lp_id ` set prevs - set (e # matched))"
        using pre by (intro Cons.IH) auto
      moreover have "\<not> (\<exists>c s. map_of asg c = Some (Some e, s))" using pre(2) e(2) by blast
      ultimately show ?thesis unfolding eq using e by auto
    qed
  qed
qed

lemma match_patch_lineage_links:
  assumes "match_patch_lineage prevs currs = (asg, matched)"
  shows "map_of asg c = Some (Some p, s) \<Longrightarrow> p \<in> set matched \<and> p \<in> lp_id ` set prevs"
    and "map_of asg c = Some (Some p, s) \<Longrightarrow> map_of asg c' = Some (Some p, s') \<Longrightarrow> c = c'"
    and "asg = [] \<Longrightarrow> matched = []"
proof -
  note ok = match_patch_lineage_ok(1) [OF assms, unfolded tiers_ok_def, simplified]
  have used: "map (\<lambda>a. fst (snd a)) asg = map Some (rev matched)"
    and dist: "distinct (map (\<lambda>a. fst (snd a)) asg)"
    using ok by (simp_all add: distinct_map)
  from used show "asg = [] \<Longrightarrow> matched = []" by simp
  have mem: "(c, Some p, s) \<in> set asg" if "map_of asg c = Some (Some p, s)" for c p s
    using that by (rule map_of_SomeD)
  show "p \<in> set matched \<and> p \<in> lp_id ` set prevs" if "map_of asg c = Some (Some p, s)"
  proof
    have "Some p \<in> set (map (\<lambda>a. fst (snd a)) asg)" using mem [OF that] by force
    then show "p \<in> set matched" unfolding used by auto
    show "p \<in> lp_id ` set prevs" using ok mem [OF that] by fastforce
  qed
  show "c = c'" if "map_of asg c = Some (Some p, s)" "map_of asg c' = Some (Some p, s')"
    using dist mem [OF that(1)] mem [OF that(2)] by (force simp: distinct_map inj_on_def)
qed

text \<open>
  After reconciliation every patch of the new version has exactly one stored link, in order, and
  no patch of the old version is continued by two of them: kept links, new links and
  the fallback for two single patches never point at the same patch, and only at patches of the old version.
\<close>

theorem stored_links_injective:
  assumes "distinct (map lp_id currs)"
  shows "distinct (link_targets (reconcile_patch_lineage meta prevs currs))
    \<and> set (link_targets (reconcile_patch_lineage meta prevs currs)) \<subseteq> lp_id ` set prevs
    \<and> map fst (reconcile_patch_lineage meta prevs currs) = map lp_id currs"
proof -
  obtain asg matched where m: "match_patch_lineage prevs currs = (asg, matched)" by fastforce
  note links = match_patch_lineage_links [OF m]
  define fin where "fin = singleton_fallback meta prevs currs asg"
  have rec: "reconcile_patch_lineage meta prevs currs = store_links prevs fin matched currs"
    by (simp add: reconcile_patch_lineage_def m fin_def)
  have order: "map fst (store_links prevs fin matched cs) = map lp_id cs" for cs
    by (induction cs arbitrary: matched) (auto split: option.splits)
  show ?thesis
  proof (cases "fin = asg")
    case True
    have "distinct (link_targets (store_links prevs asg matched currs))
      \<and> set (link_targets (store_links prevs asg matched currs)) \<subseteq>
          {p. \<exists>c \<in> lp_id ` set currs. \<exists>s. map_of asg c = Some (Some p, s)} \<union> (lp_id ` set prevs - set matched)"
      using links(1,2) by (intro store_links_spec [OF assms]) blast+
    with links(1) True order show ?thesis unfolding rec by blast
  next
    case False
    then obtain cur prev where "currs = [cur]" "prevs = [prev]"
      "fin = [(lp_id cur, Some (lp_id prev), Some ''modified'')]"
      by (auto simp: fin_def singleton_fallback_def length_Suc_conv split: if_splits option.splits)
    with order show ?thesis unfolding rec by simp
  qed
qed

theorem stored_links_injective_witness:
  "let prev = \<lparr>lp_id = 1, lp_part_index = 1, lp_git_patch_id = None, lp_clean_subject = ''a'',
          lp_existing_prev_id = None, lp_existing_prev_status = None\<rparr>;
       cur = \<lambda>i. \<lparr>lp_id = i, lp_part_index = i, lp_git_patch_id = None, lp_clean_subject = ''b'',
          lp_existing_prev_id = Some 1, lp_existing_prev_status = Some ''modified''\<rparr>;
       links = reconcile_patch_lineage None [prev] [cur 2, cur 3]
   in links = [(2, Some 1, Some ''modified''), (3, None, None)] \<and> distinct (link_targets links)"
proof -
  define prev :: lineage_patch where "prev = \<lparr>lp_id = 1, lp_part_index = 1, lp_git_patch_id = None, lp_clean_subject = ''a'',
    lp_existing_prev_id = None, lp_existing_prev_status = None\<rparr>"
  define cur :: "int \<Rightarrow> lineage_patch" where "cur = (\<lambda>i. \<lparr>lp_id = i, lp_part_index = i, lp_git_patch_id = None,
    lp_clean_subject = ''b'', lp_existing_prev_id = Some 1, lp_existing_prev_status = Some ''modified''\<rparr>)"
  have ids: "distinct (map lp_id [cur 2, cur 3])" by (simp add: cur_def)
  have "reconcile_patch_lineage None [prev] [cur 2, cur 3] = [(2, Some 1, Some ''modified''), (3, None, None)]"
    unfolding prev_def cur_def by code_simp
  with stored_links_injective [OF ids, of None "[prev]"] show ?thesis
    unfolding Let_def prev_def cur_def by simp
qed

end
