(* ===== verification/BugTable.thy ===== *)
theory BugTable
  imports Prelude "HOL-Library.Product_Lexorder"
begin

text \<open>
  The rows of the table \<open>bugs\<close> and the statements of \<open>src/src/db.rs\<close> that hand out, renew and give up the
  lease on a row. A table is the list of its rows. Each operation is one statement, or one
  transaction, of a function of \<open>Database\<close>; SQLite serialises them. Of a row the model has the columns that these
  statements read or write, less the audit columns; of the constraints of the schema it has the two that couple these
  columns, and no foreign keys (a statement that violates one changes nothing). The clock is an argument, in whole seconds.
\<close>

section \<open>States\<close>

datatype bug_lifecycle_status = New | Open | Fixed | Dismissed | Duplicate | Closed

fun lifecycle_as_str :: "bug_lifecycle_status \<Rightarrow> string" where
  "lifecycle_as_str New = ''new''"
| "lifecycle_as_str Open = ''open''"
| "lifecycle_as_str Fixed = ''fixed''"
| "lifecycle_as_str Dismissed = ''dismissed''"
| "lifecycle_as_str Duplicate = ''duplicate''"
| "lifecycle_as_str Closed = ''closed''"

definition is_resolved :: "bug_lifecycle_status \<Rightarrow> bool" where
  "is_resolved s \<longleftrightarrow> s = Fixed \<or> s = Dismissed \<or> s = Duplicate \<or> s = Closed"

definition lifecycle_from_str :: "string \<Rightarrow> bug_lifecycle_status option" where
  "lifecycle_from_str s =
     (let t = trim s in
      if t = ''new'' then Some New else if t = ''open'' then Some Open
      else if t = ''fixed'' then Some Fixed else if t = ''dismissed'' then Some Dismissed
      else if t = ''duplicate'' then Some Duplicate else if t = ''closed'' then Some Closed else None)"

datatype bug_pipeline_state = Pending | Running | Succeeded | Failed | Abandoned

fun pipeline_as_str :: "bug_pipeline_state \<Rightarrow> string" where
  "pipeline_as_str Pending = ''pending''"
| "pipeline_as_str Running = ''running''"
| "pipeline_as_str Succeeded = ''succeeded''"
| "pipeline_as_str Failed = ''failed''"
| "pipeline_as_str Abandoned = ''abandoned''"

definition is_in_progress :: "bug_pipeline_state \<Rightarrow> bool" where
  "is_in_progress s \<longleftrightarrow> s = Pending \<or> s = Running"

definition pipeline_from_str :: "string \<Rightarrow> bug_pipeline_state option" where
  "pipeline_from_str s =
     (let t = trim s in
      if t = ''pending'' then Some Pending else if t = ''running'' then Some Running
      else if t = ''succeeded'' then Some Succeeded else if t = ''failed'' then Some Failed
      else if t = ''abandoned'' then Some Abandoned else None)"

section \<open>Rows\<close>

record bug_row =
  br_id :: int
  br_created_at :: int
  br_updated_at :: int
  br_lifecycle :: bug_lifecycle_status
  br_pipeline :: bug_pipeline_state
  br_duplicate_of :: "int option"
  br_verified_on :: "string option"
  br_locked_by :: "string option"
  br_lease :: "int option"
  br_attempts :: int
  br_last_error :: "string option"

type_synonym bug_table = "bug_row list"

text \<open>\<open>UPDATE bugs SET \<dots> WHERE \<dots>\<close>, with the number of rows it changed.\<close>

definition update_where :: "(bug_row \<Rightarrow> bool) \<Rightarrow> (bug_row \<Rightarrow> bug_row) \<Rightarrow> bug_table \<Rightarrow> bug_table \<times> nat" where
  "update_where p f rows = (map (\<lambda>r. if p r then f r else r) rows, length (filter p rows))"

text \<open>
  The two constraints of the table that couple the lifecycle with the canonical bug (\<open>CHECK\<close> in
  \<open>migrations/002_bugs.sql\<close>). A statement that would store a row that violates them fails and changes nothing.
\<close>

datatype write_error = Claim_of_another_bug | Lease_not_held | Not_running | Bad_canonical | Bug_not_found | Check_failed

definition row_check :: "bug_row \<Rightarrow> bool" where
  "row_check r \<longleftrightarrow> br_duplicate_of r \<noteq> Some (br_id r)
     \<and> (br_lifecycle r = Duplicate \<longleftrightarrow> br_duplicate_of r \<noteq> None)"

definition checked_update :: "(bug_row \<Rightarrow> bool) \<Rightarrow> (bug_row \<Rightarrow> bug_row) \<Rightarrow> bug_table \<Rightarrow> write_error + bug_table" where
  "checked_update p f rows =
     (if list_all (\<lambda>r. row_check (f r)) (filter p rows) then Inr (fst (update_where p f rows)) else Inl Check_failed)"

definition find_bug :: "int \<Rightarrow> bug_table \<Rightarrow> bug_row option" where
  "find_bug bug rows = find (\<lambda>r. br_id r = bug) rows"

text \<open>The three comparisons of a lease with the clock that the statements make; a comparison with \<open>NULL\<close> is not true.\<close>

definition lease_expired :: "int \<Rightarrow> bug_row \<Rightarrow> bool" where
  "lease_expired now r = (case br_lease r of None \<Rightarrow> True | Some e \<Rightarrow> e < now)"

definition lease_free :: "int \<Rightarrow> bug_row \<Rightarrow> bool" where
  "lease_free now r = (case br_lease r of None \<Rightarrow> True | Some e \<Rightarrow> e \<le> now)"

definition lease_valid :: "int \<Rightarrow> bug_row \<Rightarrow> bool" where
  "lease_valid now r = (case br_lease r of None \<Rightarrow> False | Some e \<Rightarrow> now \<le> e)"

definition drop_lease :: "bug_row \<Rightarrow> bug_row" where
  "drop_lease r = r\<lparr>br_locked_by := None, br_lease := None\<rparr>"

definition take_lease :: "string \<Rightarrow> int \<Rightarrow> int \<Rightarrow> bug_row \<Rightarrow> bug_row" where
  "take_lease owner expiry now r = r\<lparr>br_locked_by := Some owner, br_lease := Some expiry, br_updated_at := now\<rparr>"

section \<open>Claims for analysis\<close>

text \<open>What both the claim and the dead letter statement look for: a row that no living worker has.\<close>

definition awaits_worker :: "int \<Rightarrow> bug_row \<Rightarrow> bool" where
  "awaits_worker now r \<longleftrightarrow> br_pipeline r = Pending \<or> br_pipeline r = Failed
     \<or> (br_pipeline r = Running \<and> lease_expired now r)"

definition claimable :: "int \<Rightarrow> int \<Rightarrow> bug_row \<Rightarrow> bool" where
  "claimable now max_attempts r \<longleftrightarrow>
     br_attempts r < max_attempts \<and> br_lifecycle r \<noteq> Duplicate \<and> awaits_worker now r"

definition start_attempt :: "string \<Rightarrow> int \<Rightarrow> int \<Rightarrow> bug_row \<Rightarrow> bug_row" where
  "start_attempt worker expiry now r =
     (take_lease worker expiry now r)\<lparr>br_pipeline := Running, br_attempts := br_attempts r + 1\<rparr>"

definition claim_pending_bug :: "int \<Rightarrow> string \<Rightarrow> int \<Rightarrow> int \<Rightarrow> bug_table \<Rightarrow> bug_table \<times> bug_row option" where
  "claim_pending_bug now worker ttl max_attempts rows =
     (case min_by_key br_created_at (filter (claimable now max_attempts) rows) of
        None \<Rightarrow> (rows, None)
      | Some chosen \<Rightarrow>
          (let rows' = fst (update_where (\<lambda>r. br_id r = br_id chosen) (start_attempt worker (now + ttl) now) rows)
           in (rows', find_bug (br_id chosen) rows')))"

text \<open>A row inserted and claimed in one transaction; the database numbers it.\<close>

definition next_id :: "bug_table \<Rightarrow> int" where
  "next_id rows = fold (\<lambda>r m. max m (br_id r)) rows 0 + 1"

definition insert_bug :: "int \<Rightarrow> bug_lifecycle_status \<Rightarrow> bug_pipeline_state \<Rightarrow> int option \<Rightarrow> bug_table \<Rightarrow> bug_row" where
  "insert_bug reported lifecycle pipeline duplicate_of rows =
     \<lparr>br_id = next_id rows, br_created_at = reported, br_updated_at = reported, br_lifecycle = lifecycle,
      br_pipeline = pipeline, br_duplicate_of = duplicate_of, br_verified_on = None,
      br_locked_by = None, br_lease = None, br_attempts = 0, br_last_error = None\<rparr>"

definition create_bug ::
  "int \<Rightarrow> int \<Rightarrow> bug_lifecycle_status \<Rightarrow> bug_pipeline_state \<Rightarrow> int option \<Rightarrow> bug_table \<Rightarrow> write_error + (bug_table \<times> bug_row)" where
  "create_bug now reported_at lifecycle pipeline duplicate_of rows =
     (let inserted = insert_bug (if reported_at > 0 then reported_at else now) lifecycle pipeline duplicate_of rows
      in if row_check inserted then Inr (rows @ [inserted], inserted) else Inl Check_failed)"

definition create_claimed_bug ::
  "int \<Rightarrow> int \<Rightarrow> bug_lifecycle_status \<Rightarrow> bug_pipeline_state \<Rightarrow> int option \<Rightarrow> string \<Rightarrow> int \<Rightarrow> bug_table
     \<Rightarrow> write_error + (bug_table \<times> bug_row)" where
  "create_claimed_bug now reported_at lifecycle pipeline duplicate_of worker ttl rows =
     (case create_bug now reported_at lifecycle pipeline duplicate_of rows of
        Inl e \<Rightarrow> Inl e
      | Inr (_, inserted) \<Rightarrow>
          (let claimed = (take_lease worker (now + ttl) now inserted)\<lparr>br_pipeline := Running, br_attempts := 1\<rparr>
           in Inr (rows @ [claimed], claimed)))"

definition renew_bug_lease :: "int \<Rightarrow> int \<Rightarrow> string \<Rightarrow> int \<Rightarrow> bug_table \<Rightarrow> bug_table \<times> bool" where
  "renew_bug_lease now bug worker ttl rows =
     (let (rows', n) = update_where
            (\<lambda>r. br_id r = bug \<and> br_locked_by r = Some worker
                 \<and> (br_pipeline r = Running \<or> br_pipeline r = Succeeded) \<and> lease_valid now r)
            (\<lambda>r. r\<lparr>br_lease := Some (now + ttl)\<rparr>) rows
      in (rows', n > 0))"

definition abandon_exhausted_bugs :: "int \<Rightarrow> int \<Rightarrow> bug_table \<Rightarrow> bug_table \<times> nat" where
  "abandon_exhausted_bugs now max_attempts =
     update_where (\<lambda>r. br_attempts r \<ge> max_attempts \<and> awaits_worker now r)
       (\<lambda>r. (drop_lease r)\<lparr>br_pipeline := Abandoned, br_updated_at := now\<rparr>)"

definition recover_stale_running_bugs :: "int \<Rightarrow> bug_table \<Rightarrow> bug_table \<times> nat" where
  "recover_stale_running_bugs now =
     update_where (\<lambda>r. br_pipeline r = Running \<and> lease_expired now r)
       (\<lambda>r. (drop_lease r)\<lparr>br_pipeline := Pending, br_updated_at := now\<rparr>)"

definition set_bug_lifecycle_status :: "int \<Rightarrow> int \<Rightarrow> bug_lifecycle_status \<Rightarrow> bug_table \<Rightarrow> write_error + bug_table" where
  "set_bug_lifecycle_status now bug status rows =
     checked_update (\<lambda>r. br_id r = bug) (\<lambda>r. r\<lparr>br_lifecycle := status, br_updated_at := now\<rparr>) rows"

definition set_bug_pipeline_state :: "int \<Rightarrow> int \<Rightarrow> bug_pipeline_state \<Rightarrow> bug_table \<Rightarrow> bug_table" where
  "set_bug_pipeline_state now bug state rows =
     fst (update_where (\<lambda>r. br_id r = bug) (\<lambda>r. r\<lparr>br_pipeline := state, br_updated_at := now\<rparr>) rows)"

text \<open>
  An assignment touches the row; the assignee itself is not a column of the model. A trigger copies the commit
  of a verification that is added to a bug into its row.
\<close>

definition assign_bug :: "int \<Rightarrow> int \<Rightarrow> bug_table \<Rightarrow> bug_table \<times> bool" where
  "assign_bug now bug rows =
     (let (rows', n) = update_where (\<lambda>r. br_id r = bug) (\<lambda>r. r\<lparr>br_updated_at := now\<rparr>) rows in (rows', n > 0))"

definition project_verification :: "int \<Rightarrow> string option \<Rightarrow> bug_table \<Rightarrow> bug_table" where
  "project_verification bug verified_on rows =
     (case verified_on of
        None \<Rightarrow> rows
      | Some sha \<Rightarrow> fst (update_where (\<lambda>r. br_id r = bug) (\<lambda>r. r\<lparr>br_verified_on := Some sha\<rparr>) rows))"

section \<open>Writes bound to a claim\<close>

text \<open>A handle of the database may be bound to the attempt that claimed a bug.\<close>

record bug_analysis_claim =
  ba_bug_id :: int
  ba_owner :: string

definition begin_bug_write :: "bug_analysis_claim option \<Rightarrow> int \<Rightarrow> int \<Rightarrow> bug_table \<Rightarrow> write_error + unit" where
  "begin_bug_write claim now bug_id rows =
     (case claim of
        None \<Rightarrow> Inr ()
      | Some c \<Rightarrow>
          if ba_bug_id c \<noteq> bug_id then Inl Claim_of_another_bug
          else if list_ex (\<lambda>r. br_id r = ba_bug_id c \<and> br_locked_by r = Some (ba_owner c) \<and> lease_valid now r
                            \<and> (br_pipeline r = Running \<or> br_pipeline r = Succeeded)) rows
          then Inr () else Inl Lease_not_held)"

definition release_bug_lease :: "bug_analysis_claim option \<Rightarrow> int \<Rightarrow> int \<Rightarrow> bug_table \<Rightarrow> write_error + bug_table" where
  "release_bug_lease claim now bug rows =
     (case begin_bug_write claim now bug rows of
        Inl e \<Rightarrow> Inl e
      | Inr _ \<Rightarrow> Inr (fst (update_where (\<lambda>r. br_id r = bug) drop_lease rows)))"

definition fail_bug_analysis :: "bug_analysis_claim option \<Rightarrow> int \<Rightarrow> int \<Rightarrow> string \<Rightarrow> bug_table \<Rightarrow> write_error + bug_table" where
  "fail_bug_analysis claim now bug error rows =
     (case begin_bug_write claim now bug rows of
        Inl e \<Rightarrow> Inl e
      | Inr _ \<Rightarrow>
          (let (rows', changed) = update_where (\<lambda>r. br_id r = bug \<and> (claim = None \<or> br_pipeline r = Running))
                 (\<lambda>r. (drop_lease r)\<lparr>br_pipeline := Failed, br_last_error := Some error, br_updated_at := now\<rparr>) rows
           in if claim \<noteq> None \<and> changed = 0 then Inl Not_running else Inr rows'))"

text \<open>The part of an outcome that is stored in the row: a verdict starts triage, it does not undo it.\<close>

definition update_bug_outcome ::
  "bug_analysis_claim option \<Rightarrow> int \<Rightarrow> int \<Rightarrow> bug_lifecycle_status \<Rightarrow> string option \<Rightarrow> bug_table \<Rightarrow> write_error + bug_table" where
  "update_bug_outcome claim now bug verdict verified_on rows =
     (case begin_bug_write claim now bug rows of
        Inl e \<Rightarrow> Inl e
      | Inr _ \<Rightarrow>
          (case checked_update (\<lambda>r. br_id r = bug \<and> br_lifecycle r = New)
                  (\<lambda>r. r\<lparr>br_lifecycle := verdict, br_updated_at := now\<rparr>) rows of
             Inl e \<Rightarrow> Inl e
           | Inr rows' \<Rightarrow>
               Inr (set_bug_pipeline_state now bug Succeeded (project_verification bug verified_on rows'))))"

definition mark_bug_as_duplicate ::
  "bug_analysis_claim option \<Rightarrow> int \<Rightarrow> int \<Rightarrow> int \<Rightarrow> bool \<Rightarrow> bug_table \<Rightarrow> write_error + (bug_table \<times> bool)" where
  "mark_bug_as_duplicate claim now ephemeral canonical preserve_triage rows =
     (case begin_bug_write claim now ephemeral rows of
        Inl e \<Rightarrow> Inl e
      | Inr _ \<Rightarrow>
          if ephemeral = canonical \<or> \<not> list_ex (\<lambda>r. br_id r = canonical \<and> br_duplicate_of r = None) rows
          then Inl Bad_canonical
          else (case find_bug ephemeral rows of
                  None \<Rightarrow> Inl Bug_not_found
                | Some source \<Rightarrow>
                    if preserve_triage \<and> br_lifecycle source \<noteq> New then Inr (rows, False)
                    else Inr (fst (update_where (\<lambda>r. br_id r = ephemeral)
                           (\<lambda>r. (if claim \<noteq> None then r else drop_lease r)
                                  \<lparr>br_lifecycle := Duplicate, br_duplicate_of := Some canonical,
                                   br_pipeline := Succeeded, br_updated_at := now\<rparr>) rows), True)))"

section \<open>Claims for a fix check\<close>

definition fix_checkable :: "int \<Rightarrow> string \<Rightarrow> bug_row \<Rightarrow> bool" where
  "fix_checkable now sha r \<longleftrightarrow>
     br_lifecycle r = Open \<and> br_pipeline r = Succeeded \<and> br_duplicate_of r = None
     \<and> (case br_verified_on r of None \<Rightarrow> False | Some v \<Rightarrow> v \<noteq> [] \<and> v \<noteq> sha)
     \<and> lease_free now r"

definition i64_max :: int where "i64_max = 2 ^ 63 - 1"

definition clamp_int :: "int \<Rightarrow> int \<Rightarrow> int \<Rightarrow> int" where
  "clamp_int lo hi x = (if x < lo then lo else if hi < x then hi else x)"

definition fix_check_expiry :: "int \<Rightarrow> int \<Rightarrow> int" where
  "fix_check_expiry now ttl = min i64_max (now + clamp_int 1 86400 ttl)"

definition claim_open_bug_for_fix_check ::
  "int \<Rightarrow> string \<Rightarrow> string \<Rightarrow> int \<Rightarrow> bug_table \<Rightarrow> bug_table \<times> bug_row option" where
  "claim_open_bug_for_fix_check now sha worker ttl rows =
     (if trim sha = [] then (rows, None)
      else case min_by_key (\<lambda>r. (br_updated_at r, br_id r)) (filter (fix_checkable now (trim sha)) rows) of
        None \<Rightarrow> (rows, None)
      | Some chosen \<Rightarrow>
          (let rows' = fst (update_where (\<lambda>r. br_id r = br_id chosen)
                              (take_lease worker (fix_check_expiry now ttl) now) rows)
           in (rows', find_bug (br_id chosen) rows')))"

definition claim_specific_open_bug_for_fix_check ::
  "int \<Rightarrow> int \<Rightarrow> string \<Rightarrow> string \<Rightarrow> int \<Rightarrow> bug_table \<Rightarrow> bug_table \<times> bug_row option" where
  "claim_specific_open_bug_for_fix_check now bug sha worker ttl rows =
     (if trim sha = [] then (rows, None)
      else let (rows', updated) = update_where (\<lambda>r. br_id r = bug \<and> fix_checkable now (trim sha) r)
                 (take_lease worker (fix_check_expiry now ttl) now) rows
           in if updated > 0 then (rows', find_bug bug rows') else (rows', None))"

definition advance_open_bug_without_llm :: "int \<Rightarrow> int \<Rightarrow> string \<Rightarrow> bug_table \<Rightarrow> bug_table \<times> nat" where
  "advance_open_bug_without_llm now bug sha =
     update_where (\<lambda>r. br_id r = bug \<and> fix_checkable now sha r)
       (\<lambda>r. (drop_lease r)\<lparr>br_verified_on := Some sha, br_updated_at := now\<rparr>)"

definition touch_open_bug_fix_check :: "int \<Rightarrow> int \<Rightarrow> bug_table \<Rightarrow> bug_table \<times> nat" where
  "touch_open_bug_fix_check now bug =
     update_where (\<lambda>r. br_id r = bug \<and> br_lifecycle r = Open \<and> lease_free now r)
       (\<lambda>r. r\<lparr>br_updated_at := now, br_locked_by := None, br_lease := Some (now + 60)\<rparr>)"

definition owner_matches :: "bug_analysis_claim option \<Rightarrow> bug_row \<Rightarrow> bool" where
  "owner_matches claim r = (case claim of None \<Rightarrow> True | Some c \<Rightarrow> br_locked_by r = Some (ba_owner c))"

definition touch_bug_fix_check_timestamp :: "bug_analysis_claim option \<Rightarrow> int \<Rightarrow> int \<Rightarrow> bug_table \<Rightarrow> bug_table" where
  "touch_bug_fix_check_timestamp claim now bug rows =
     fst (update_where (\<lambda>r. br_id r = bug \<and> br_lifecycle r = Open \<and> owner_matches claim r)
            (\<lambda>r. r\<lparr>br_updated_at := now, br_locked_by := None, br_lease := Some (now + 60)\<rparr>) rows)"

definition write_upstream_fix_check ::
  "bug_analysis_claim option \<Rightarrow> int \<Rightarrow> int \<Rightarrow> bool \<Rightarrow> string \<Rightarrow> bug_table \<Rightarrow> bug_table \<times> bool" where
  "write_upstream_fix_check claim now bug fixed sha rows =
     (let (rows', updated) = update_where (\<lambda>r. br_id r = bug \<and> br_lifecycle r = Open \<and> owner_matches claim r)
            (\<lambda>r. (drop_lease r)\<lparr>br_lifecycle := (if fixed then Fixed else br_lifecycle r),
                                 br_verified_on := Some sha, br_updated_at := now\<rparr>) rows
      in (rows', updated > 0))"

end
