(* ===== verification/BugLease.thy ===== *)
theory BugLease
  imports BugTable
begin

text \<open>
  The protocol by which workers share the bugs (\<open>src/src/worker/bug_worker.rs\<close> over the statements of
  \<open>BugTable\<close>): a worker claims a bug under a fresh claim id, analyses it while it keeps
  renewing the lease, and stops when the deadline of the last confirmed lease passes. The system is a step
  relation over the table, the workers' own deadlines and a clock; its specification is a lock per bug.
\<close>

section \<open>The worker's view of its lease\<close>

definition max_bug_lease_ttl_seconds :: int where "max_bug_lease_ttl_seconds = 86400"

definition clamp_lease_ttl_seconds :: "int \<Rightarrow> int" where
  "clamp_lease_ttl_seconds ttl = clamp_int 2 max_bug_lease_ttl_seconds ttl"

text \<open>Instants are milliseconds; the database sees whole seconds of the same clock.\<close>

definition lease_deadline :: "int \<Rightarrow> int \<Rightarrow> int" where
  "lease_deadline started ttl = started + 1000 * max (clamp_lease_ttl_seconds ttl - 1) 1"

definition seconds :: "int \<Rightarrow> int" where
  "seconds ms = ms div 1000"

section \<open>The system\<close>

text \<open>A running analysis: its bug, the deadline until which it may go on, and the time to live that it asks for.\<close>

record analysis =
  an_bug :: int
  an_deadline :: int
  an_ttl :: int

record lease_system =
  ls_rows :: bug_table
  ls_clock :: int
  ls_workers :: "string \<Rightarrow> analysis option"

definition fresh_claim :: "string \<Rightarrow> lease_system \<Rightarrow> bool" where
  "fresh_claim w s \<longleftrightarrow> ls_workers s w = None \<and> (\<forall>r \<in> set (ls_rows s). br_locked_by r \<noteq> Some w)"

definition start_work :: "bug_table \<Rightarrow> string \<Rightarrow> int \<Rightarrow> int \<Rightarrow> int \<Rightarrow> lease_system \<Rightarrow> lease_system" where
  "start_work rows w bug started ttl s =
     s\<lparr>ls_rows := rows,
       ls_workers := (ls_workers s)(w \<mapsto> \<lparr>an_bug = bug, an_deadline = lease_deadline started ttl, an_ttl = ttl\<rparr>)\<rparr>"

definition stop_work :: "bug_table \<Rightarrow> string \<Rightarrow> lease_system \<Rightarrow> lease_system" where
  "stop_work rows w s = s\<lparr>ls_rows := rows, ls_workers := (ls_workers s)(w := None)\<rparr>"

definition set_rows :: "bug_table \<Rightarrow> lease_system \<Rightarrow> lease_system" where
  "set_rows rows s = s\<lparr>ls_rows := rows\<rparr>"

text \<open>
  The steps. \<open>started\<close> is the instant the worker noted before it asked the database. A renewal may be applied
  without the worker learning of it, and an analysis may end at any point. A handle bound to a claim may
  write at any time, also long after its worker has stopped. Operators and the rest of the program act without a claim:
  they change the triage state, fold a bug into another one (also while it is analysed), assign it, add to it and file new bugs.
\<close>

inductive lease_step :: "int \<Rightarrow> lease_system \<Rightarrow> lease_system \<Rightarrow> bool" for max_attempts where
  tick: "0 \<le> d \<Longrightarrow> lease_step max_attempts s (s\<lparr>ls_clock := ls_clock s + d\<rparr>)"
| claim: "fresh_claim w s \<Longrightarrow> started \<le> ls_clock s \<Longrightarrow> ttl = clamp_lease_ttl_seconds cfg \<Longrightarrow>
    claim_pending_bug (seconds (ls_clock s)) w ttl max_attempts (ls_rows s) = (rows, Some r) \<Longrightarrow>
    lease_step max_attempts s (start_work rows w (br_id r) started ttl s)"
| submit: "fresh_claim w s \<Longrightarrow> started \<le> ls_clock s \<Longrightarrow> ttl = clamp_lease_ttl_seconds cfg \<Longrightarrow>
    create_claimed_bug (seconds (ls_clock s)) reported lifecycle pipeline dup w ttl (ls_rows s) = Inr (rows, r) \<Longrightarrow>
    lease_step max_attempts s (start_work rows w (br_id r) started ttl s)"
| claim_check: "fresh_claim w s \<Longrightarrow> started \<le> ls_clock s \<Longrightarrow> ttl = clamp_lease_ttl_seconds cfg \<Longrightarrow>
    seconds (ls_clock s) + ttl \<le> i64_max \<Longrightarrow>
    claim_specific_open_bug_for_fix_check (seconds (ls_clock s)) bug sha w ttl (ls_rows s) = (rows, Some r) \<Longrightarrow>
    lease_step max_attempts s (start_work rows w (br_id r) started ttl s)"
| claim_any_check: "fresh_claim w s \<Longrightarrow> started \<le> ls_clock s \<Longrightarrow> ttl = clamp_lease_ttl_seconds cfg \<Longrightarrow>
    seconds (ls_clock s) + ttl \<le> i64_max \<Longrightarrow>
    claim_open_bug_for_fix_check (seconds (ls_clock s)) sha w ttl (ls_rows s) = (rows, Some r) \<Longrightarrow>
    lease_step max_attempts s (start_work rows w (br_id r) started ttl s)"
| renewed: "ls_workers s w = Some a \<Longrightarrow> ls_clock s < an_deadline a \<Longrightarrow> started \<le> ls_clock s \<Longrightarrow>
    renew_bug_lease (seconds (ls_clock s)) (an_bug a) w (an_ttl a) (ls_rows s) = (rows, True) \<Longrightarrow>
    lease_step max_attempts s (start_work rows w (an_bug a) started (an_ttl a) s)"
| renewed_unseen: "ls_workers s w = Some a \<Longrightarrow>
    lease_step max_attempts s
      (set_rows (fst (renew_bug_lease (seconds (ls_clock s)) (an_bug a) w (an_ttl a) (ls_rows s))) s)"
| stop: "lease_step max_attempts s (stop_work (ls_rows s) w s)"
| release: "release_bug_lease (Some c) (seconds (ls_clock s)) bug (ls_rows s) = Inr rows \<Longrightarrow>
    lease_step max_attempts s (stop_work rows (ba_owner c) s)"
| failed: "fail_bug_analysis (Some c) (seconds (ls_clock s)) bug err (ls_rows s) = Inr rows \<Longrightarrow>
    lease_step max_attempts s (stop_work rows (ba_owner c) s)"
| outcome: "update_bug_outcome (Some c) (seconds (ls_clock s)) bug verdict verified (ls_rows s) = Inr rows \<Longrightarrow>
    lease_step max_attempts s (set_rows rows s)"
| folded: "mark_bug_as_duplicate (Some c) (seconds (ls_clock s)) bug canonical preserve (ls_rows s) = Inr (rows, b) \<Longrightarrow>
    lease_step max_attempts s (set_rows rows s)"
| touched: "lease_step max_attempts s
    (stop_work (touch_bug_fix_check_timestamp (Some c) (seconds (ls_clock s)) bug (ls_rows s)) (ba_owner c) s)"
| checked: "lease_step max_attempts s
    (stop_work (fst (write_upstream_fix_check (Some c) (seconds (ls_clock s)) bug fixed sha (ls_rows s))) (ba_owner c) s)"
| recover: "lease_step max_attempts s (set_rows (fst (recover_stale_running_bugs (seconds (ls_clock s)) (ls_rows s))) s)"
| abandon: "lease_step max_attempts s (set_rows (fst (abandon_exhausted_bugs (seconds (ls_clock s)) max_attempts (ls_rows s))) s)"
| advance: "lease_step max_attempts s (set_rows (fst (advance_open_bug_without_llm (seconds (ls_clock s)) bug sha (ls_rows s))) s)"
| touch_open: "lease_step max_attempts s (set_rows (fst (touch_open_bug_fix_check (seconds (ls_clock s)) bug (ls_rows s))) s)"
| triage: "set_bug_lifecycle_status (seconds (ls_clock s)) bug status (ls_rows s) = Inr rows \<Longrightarrow>
    lease_step max_attempts s (set_rows rows s)"
| operator_folds: "mark_bug_as_duplicate None (seconds (ls_clock s)) bug canonical preserve (ls_rows s) = Inr (rows, b) \<Longrightarrow>
    lease_step max_attempts s (set_rows rows s)"
| assigned: "lease_step max_attempts s (set_rows (fst (assign_bug (seconds (ls_clock s)) bug (ls_rows s))) s)"
| enriched: "lease_step max_attempts s (set_rows (project_verification bug verified (ls_rows s)) s)"
| filed: "create_bug (seconds (ls_clock s)) reported lifecycle pipeline dup (ls_rows s) = Inr (rows, r) \<Longrightarrow>
    lease_step max_attempts s (set_rows rows s)"

section \<open>The specification: a lock per bug\<close>

text \<open>
  A lock with timeouts, without a table: who holds which bug until when. A bug is taken only when every holder it still has
  is out of time, only a holder within its time extends it, and nobody takes it away from another.
\<close>

record lease_lock =
  lk_clock :: int
  lk_held :: "string \<Rightarrow> (int \<times> int) option"

definition within_a_day :: "int \<Rightarrow> lease_lock \<Rightarrow> bool" where
  "within_a_day until l \<longleftrightarrow> until < lk_clock l + 1000 * max_bug_lease_ttl_seconds"

inductive lock_step :: "lease_lock \<Rightarrow> lease_lock \<Rightarrow> bool" where
  passes: "0 \<le> d \<Longrightarrow> lock_step l (l\<lparr>lk_clock := lk_clock l + d\<rparr>)"
| grab: "lk_held l w = None \<Longrightarrow> (\<And>w' until'. lk_held l w' = Some (bug, until') \<Longrightarrow> until' \<le> lk_clock l) \<Longrightarrow>
    within_a_day until l \<Longrightarrow> lock_step l (l\<lparr>lk_held := (lk_held l)(w \<mapsto> (bug, until))\<rparr>)"
| extend: "lk_held l w = Some (bug, until') \<Longrightarrow> lk_clock l < until' \<Longrightarrow> within_a_day until l \<Longrightarrow>
    lock_step l (l\<lparr>lk_held := (lk_held l)(w \<mapsto> (bug, until))\<rparr>)"
| free: "lock_step l (l\<lparr>lk_held := (lk_held l)(w := None)\<rparr>)"

text \<open>The lock that a state of the system stands for: the analyses with their deadlines.\<close>

definition lock_view :: "lease_system \<Rightarrow> lease_lock" where
  "lock_view s = \<lparr>lk_clock = ls_clock s, lk_held = (\<lambda>w. map_option (\<lambda>a. (an_bug a, an_deadline a)) (ls_workers s w))\<rparr>"

definition exclusive :: "lease_lock \<Rightarrow> bool" where
  "exclusive l \<longleftrightarrow> (\<forall>w w' bug until until'. lk_held l w = Some (bug, until) \<longrightarrow> lk_held l w' = Some (bug, until') \<longrightarrow>
     lk_clock l < until \<longrightarrow> lk_clock l < until' \<longrightarrow> w = w')"

lemma exclusive_step: "exclusive l \<Longrightarrow> lock_step l l' \<Longrightarrow> exclusive l'"
  by (erule lock_step.cases) (fastforce simp: exclusive_def split: if_splits)+

section \<open>Invariant\<close>

text \<open>
  A row that a worker may rely on until its deadline: it carries its claim and outlasts the deadline, or an operator has
  retired the bug by folding it into another one, and then nobody else can get it either.
\<close>

definition row_claimed :: "string \<Rightarrow> int \<Rightarrow> bug_row \<Rightarrow> bool" where
  "row_claimed w deadline r \<longleftrightarrow> br_locked_by r = Some w
     \<and> (case br_lease r of None \<Rightarrow> False | Some e \<Rightarrow> deadline < e * 1000)
     \<and> (br_pipeline r = Running \<or> br_pipeline r = Succeeded)"

definition row_retired :: "bug_row \<Rightarrow> bool" where
  "row_retired r \<longleftrightarrow> br_lifecycle r = Duplicate \<and> br_duplicate_of r \<noteq> None \<and> br_pipeline r = Succeeded
     \<and> br_locked_by r = None \<and> br_lease r = None"

definition row_holds :: "string \<Rightarrow> int \<Rightarrow> bug_row \<Rightarrow> bool" where
  "row_holds w deadline r \<longleftrightarrow> row_claimed w deadline r \<or> row_retired r"

definition protected :: "string \<Rightarrow> int \<Rightarrow> int \<Rightarrow> bug_table \<Rightarrow> bool" where
  "protected w bug deadline rows \<longleftrightarrow> (\<exists>r \<in> set rows. br_id r = bug \<and> row_holds w deadline r)"

definition lease_inv :: "lease_system \<Rightarrow> bool" where
  "lease_inv s \<longleftrightarrow> distinct (map br_id (ls_rows s))
     \<and> (\<forall>w a. ls_workers s w = Some a \<longrightarrow>
          an_deadline a \<le> lease_deadline (ls_clock s) (an_ttl a)
          \<and> an_ttl a = clamp_lease_ttl_seconds (an_ttl a)
          \<and> (ls_clock s < an_deadline a \<longrightarrow> protected w (an_bug a) (an_deadline a) (ls_rows s)))"

lemma clamp_lease_ttl_idem [simp]:
  "clamp_lease_ttl_seconds (clamp_lease_ttl_seconds ttl) = clamp_lease_ttl_seconds ttl"
  by (simp add: clamp_lease_ttl_seconds_def clamp_int_def max_bug_lease_ttl_seconds_def)

lemma seconds_less: "ms < e * 1000 \<longleftrightarrow> seconds ms < e"
  unfolding seconds_def by linarith

lemma holds_busy:
  assumes "row_holds w deadline r" and "ms < deadline"
  shows "\<not> (br_lifecycle r = Open \<and> lease_free (seconds ms) r)" "\<not> awaits_worker (seconds ms) r"
    "\<not> claimable (seconds ms) k r" "\<not> fix_checkable (seconds ms) sha r"
proof -
  have "\<not> (br_lifecycle r = Open \<and> lease_free (seconds ms) r) \<and> \<not> awaits_worker (seconds ms) r"
  proof (cases "row_retired r")
    case True
    then show ?thesis by (simp add: row_retired_def awaits_worker_def)
  next
    case False
    with assms(1) obtain e where e: "br_lease r = Some e" "deadline < e * 1000" "br_pipeline r = Running \<or> br_pipeline r = Succeeded"
      by (auto simp: row_holds_def row_claimed_def split: option.splits)
    then have "seconds ms < e" using assms(2) seconds_less [of ms e] by linarith
    with e show ?thesis by (auto simp: lease_expired_def lease_free_def awaits_worker_def)
  qed
  then show "\<not> (br_lifecycle r = Open \<and> lease_free (seconds ms) r)" "\<not> awaits_worker (seconds ms) r"
    "\<not> claimable (seconds ms) k r" "\<not> fix_checkable (seconds ms) sha r"
    by (auto simp: claimable_def fix_checkable_def)
qed

text \<open>The lease in the database outlasts the deadline that the worker keeps.\<close>

lemma deadline_before_expiry:
  assumes "deadline \<le> lease_deadline ms ttl" and "ttl = clamp_lease_ttl_seconds ttl"
  shows "deadline < (seconds ms + ttl) * 1000"
proof -
  have "ms < (seconds ms + 1) * 1000" unfolding seconds_def by presburger
  moreover have "2 \<le> clamp_lease_ttl_seconds ttl"
    by (auto simp: clamp_lease_ttl_seconds_def clamp_int_def max_bug_lease_ttl_seconds_def)
  ultimately show ?thesis
    using assms(1) assms(2) [symmetric] by (simp add: lease_deadline_def algebra_simps)
qed

section \<open>Every statement respects the leases\<close>

lemma protected_update:
  assumes "protected w bug deadline rows"
    and "\<And>r. r \<in> set rows \<Longrightarrow> br_id r = bug \<Longrightarrow> row_holds w deadline r \<Longrightarrow> p r \<Longrightarrow>
      br_id (f r) = bug \<and> row_holds w deadline (f r)"
  shows "protected w bug deadline (fst (update_where p f rows))"
proof -
  obtain r where r: "r \<in> set rows" "br_id r = bug" "row_holds w deadline r"
    using assms(1) by (auto simp: protected_def)
  let ?r = "if p r then f r else r"
  have "?r \<in> set (fst (update_where p f rows))" using r(1) by (simp add: update_where_def)
  moreover have "br_id ?r = bug" and "row_holds w deadline ?r" using r assms(2) [of r] by auto
  ultimately show ?thesis unfolding protected_def by blast
qed

lemma ids_update: "(\<And>r. br_id (f r) = br_id r) \<Longrightarrow> map br_id (fst (update_where p f rows)) = map br_id rows"
  by (auto simp: update_where_def)

text \<open>A statement respects the leases when it leaves every row alone that somebody else may rely on.\<close>

definition spares :: "string set \<Rightarrow> int \<Rightarrow> bug_table \<Rightarrow> bug_table \<Rightarrow> bool" where
  "spares own ms rows rows' \<longleftrightarrow> map br_id rows' = map br_id rows
     \<and> (\<forall>w bug deadline. w \<notin> own \<longrightarrow> ms < deadline \<longrightarrow> protected w bug deadline rows \<longrightarrow> protected w bug deadline rows')"

lemma spares_refl: "spares own ms rows rows"
  by (simp add: spares_def)

lemma spares_trans: "spares own ms a b \<Longrightarrow> spares own ms b c \<Longrightarrow> spares own ms a c"
  by (simp add: spares_def)

lemma spares_update:
  assumes "\<And>r. br_id (f r) = br_id r"
    and "\<And>w deadline r. r \<in> set rows \<Longrightarrow> w \<notin> own \<Longrightarrow> ms < deadline \<Longrightarrow> row_holds w deadline r \<Longrightarrow> p r \<Longrightarrow>
      row_holds w deadline (f r)"
  shows "spares own ms rows (fst (update_where p f rows))"
  unfolding spares_def using assms by (auto intro: protected_update simp: ids_update)

lemmas lease_fields = drop_lease_def take_lease_def start_attempt_def row_holds_def row_claimed_def row_retired_def

lemma spares_free:
  assumes "\<And>r. br_id (f r) = br_id r"
    and "\<And>r. p r \<Longrightarrow> (br_lifecycle r = Open \<and> lease_free (seconds ms) r) \<or> awaits_worker (seconds ms) r"
  shows "spares {} ms rows (fst (update_where p f rows))"
  using assms(1) by (rule spares_update) (use assms(2) holds_busy in blast)

lemma spares_recover: "spares {} ms rows (fst (recover_stale_running_bugs (seconds ms) rows))"
  unfolding recover_stale_running_bugs_def by (rule spares_free) (auto simp: lease_fields awaits_worker_def)

lemma spares_abandon: "spares {} ms rows (fst (abandon_exhausted_bugs (seconds ms) k rows))"
  unfolding abandon_exhausted_bugs_def by (rule spares_free) (auto simp: lease_fields)

lemma spares_advance: "spares {} ms rows (fst (advance_open_bug_without_llm (seconds ms) bug sha rows))"
  unfolding advance_open_bug_without_llm_def by (rule spares_free) (auto simp: lease_fields fix_checkable_def)

lemma spares_touch_open: "spares {} ms rows (fst (touch_open_bug_fix_check (seconds ms) bug rows))"
  unfolding touch_open_bug_fix_check_def by (rule spares_free) auto

lemma spares_assigned: "spares own ms rows (fst (assign_bug now bug rows))"
proof -
  have "fst (assign_bug now bug rows) = fst (update_where (\<lambda>r. br_id r = bug) (\<lambda>r. r\<lparr>br_updated_at := now\<rparr>) rows)"
    by (simp add: assign_bug_def Let_def split_def)
  then show ?thesis by (simp only:) (rule spares_update, auto simp: lease_fields)
qed

lemma spares_verified: "spares own ms rows (project_verification bug verified rows)"
  by (cases verified) (auto simp: project_verification_def spares_refl lease_fields intro!: spares_update)

lemma checked_update_Inr:
  "checked_update p f rows = Inr rows' \<longleftrightarrow>
     rows' = fst (update_where p f rows) \<and> (\<forall>r \<in> set rows. p r \<longrightarrow> row_check (f r))"
  by (auto simp: checked_update_def list_all_iff)

text \<open>By the constraint of the table, a change of the lifecycle alone cannot bring a retired bug back.\<close>

lemma spares_triage:
  assumes "set_bug_lifecycle_status now bug status rows = Inr rows'"
  shows "spares own ms rows rows'"
proof -
  note checked = assms [unfolded set_bug_lifecycle_status_def checked_update_Inr]
  then show ?thesis
    by (simp only: checked) (rule spares_update, auto simp: lease_fields row_check_def)
qed

lemma spares_outcome:
  assumes "update_bug_outcome c now bug verdict verified rows = Inr rows'"
  shows "spares own ms rows rows'"
proof -
  let ?rows = "fst (update_where (\<lambda>r. br_id r = bug \<and> br_lifecycle r = New)
      (\<lambda>r. r\<lparr>br_lifecycle := verdict, br_updated_at := now\<rparr>) rows)"
  have rows': "rows' = set_bug_pipeline_state now bug Succeeded (project_verification bug verified ?rows)"
    using assms by (auto simp: update_bug_outcome_def checked_update_Inr split: sum.splits)
  have verdict: "spares own ms rows ?rows"
    by (rule spares_update) (auto simp: lease_fields)
  have "spares own ms rs (set_bug_pipeline_state now bug Succeeded rs)" for rs
    unfolding set_bug_pipeline_state_def by (rule spares_update) (auto simp: lease_fields)
  then show ?thesis
    unfolding rows' by (rule spares_trans [OF spares_trans [OF verdict spares_verified]])
qed

text \<open>A fold, by the owner of the claim or by an operator, retires the bug.\<close>

lemma spares_folded:
  assumes "mark_bug_as_duplicate c now bug canonical preserve rows = Inr (rows', b)"
  shows "spares own ms rows rows'"
proof -
  have "spares own ms rows (fst (update_where (\<lambda>r. br_id r = bug)
     (\<lambda>r. (if c \<noteq> None then r else drop_lease r)
        \<lparr>br_lifecycle := Duplicate, br_duplicate_of := Some canonical, br_pipeline := Succeeded, br_updated_at := now\<rparr>) rows))"
    by (rule spares_update) (auto simp: lease_fields)
  with assms show ?thesis
    by (auto simp: mark_bug_as_duplicate_def spares_refl split: sum.splits if_splits option.splits)
qed

text \<open>The writes that give a lease up concern the owner's own row only, as ids are unique.\<close>

lemma held_row:
  assumes "begin_bug_write (Some c) now bug rows = Inr ()" and "distinct (map br_id rows)"
    and "r \<in> set rows" and "br_id r = bug"
  shows "br_locked_by r = Some (ba_owner c)"
  using assms by (auto simp: begin_bug_write_def list_ex_iff distinct_map inj_on_def split: if_splits)

lemma spares_release:
  assumes "release_bug_lease (Some c) now bug rows = Inr rows'" and "distinct (map br_id rows)"
  shows "spares {ba_owner c} ms rows rows'"
proof -
  have ok: "begin_bug_write (Some c) now bug rows = Inr ()"
    and rows': "rows' = fst (update_where (\<lambda>r. br_id r = bug) drop_lease rows)"
    using assms(1) by (auto simp: release_bug_lease_def split: sum.splits)
  show ?thesis
    unfolding rows' using held_row [OF ok assms(2)] by (intro spares_update) (auto simp: lease_fields)
qed

lemma spares_failed:
  assumes "fail_bug_analysis (Some c) now bug err rows = Inr rows'" and "distinct (map br_id rows)"
  shows "spares {ba_owner c} ms rows rows'"
proof -
  let ?f = "\<lambda>r. (drop_lease r)\<lparr>br_pipeline := Failed, br_last_error := Some err, br_updated_at := now\<rparr>"
  have ok: "begin_bug_write (Some c) now bug rows = Inr ()"
    and rows': "rows' = fst (update_where (\<lambda>r. br_id r = bug \<and> (Some c = None \<or> br_pipeline r = Running)) ?f rows)"
    using assms(1) by (auto simp: fail_bug_analysis_def Let_def split: sum.splits prod.splits if_splits)
  show ?thesis
    unfolding rows' using held_row [OF ok assms(2)] by (intro spares_update) (auto simp: lease_fields)
qed

lemma spares_touched: "spares {ba_owner c} ms rows (touch_bug_fix_check_timestamp (Some c) now bug rows)"
  unfolding touch_bug_fix_check_timestamp_def by (rule spares_update) (auto simp: owner_matches_def lease_fields)

lemma spares_checked: "spares {ba_owner c} ms rows (fst (write_upstream_fix_check (Some c) now bug fixed sha rows))"
proof -
  have eq: "fst (write_upstream_fix_check (Some c) now bug fixed sha rows) =
    fst (update_where (\<lambda>r. br_id r = bug \<and> br_lifecycle r = Open \<and> owner_matches (Some c) r)
      (\<lambda>r. (drop_lease r)\<lparr>br_lifecycle := (if fixed then Fixed else br_lifecycle r),
                            br_verified_on := Some sha, br_updated_at := now\<rparr>) rows)"
    by (simp add: write_upstream_fix_check_def Let_def split_def)
  show ?thesis unfolding eq by (rule spares_update) (auto simp: owner_matches_def lease_fields)
qed

text \<open>A claim finds a row that nobody may rely on, and leaves it to the claimant.\<close>

lemma claimed_row:
  assumes "chosen \<in> set rows" and "br_id chosen = bug"
    and "br_id (f chosen) = bug" and "row_holds w deadline (f chosen)" and "p chosen"
  shows "protected w bug deadline (fst (update_where p f rows))"
proof -
  have "f chosen \<in> set (fst (update_where p f rows))"
    using assms(1,5) by (force simp: update_where_def)
  with assms(3,4) show ?thesis by (auto simp: protected_def)
qed

text \<open>What every claim of a bug guarantees.\<close>

definition grants :: "string \<Rightarrow> int \<Rightarrow> int \<Rightarrow> int \<Rightarrow> bug_table \<Rightarrow> bug_table \<Rightarrow> bool" where
  "grants w bug expiry ms rows rows' \<longleftrightarrow>
     (\<forall>w' deadline. ms < deadline \<longrightarrow> \<not> protected w' bug deadline rows)
     \<and> (\<forall>w' b deadline. ms < deadline \<longrightarrow> protected w' b deadline rows \<longrightarrow> protected w' b deadline rows')
     \<and> (\<forall>deadline. deadline < expiry * 1000 \<longrightarrow> protected w bug deadline rows')
     \<and> (distinct (map br_id rows) \<longrightarrow> distinct (map br_id rows'))"

lemma grants_update:
  assumes "distinct (map br_id rows)" and "chosen \<in> set rows" and "p chosen" and "\<And>r. p r \<Longrightarrow> br_id r = br_id chosen"
    and free: "(br_lifecycle chosen = Open \<and> lease_free (seconds ms) chosen) \<or> awaits_worker (seconds ms) chosen"
    and "\<And>r. br_id (f r) = br_id r"
    and "\<And>deadline. deadline < expiry * 1000 \<Longrightarrow> row_holds w deadline (f chosen)"
  shows "grants w (br_id chosen) expiry ms rows (fst (update_where p f rows))"
proof -
  have same: "r = chosen" if "r \<in> set rows" "br_id r = br_id chosen" for r
    using that assms(1,2) by (auto simp: distinct_map inj_on_def)
  have idle: "\<not> row_holds w' deadline chosen" if "ms < deadline" for w' deadline
    using holds_busy [of w' deadline chosen ms] that free by blast
  show ?thesis
    unfolding grants_def
  proof (intro conjI allI impI)
    fix w' deadline assume "ms < deadline"
    then show "\<not> protected w' (br_id chosen) deadline rows"
      using same idle by (auto simp: protected_def)
  next
    fix w' b deadline assume d: "ms < deadline" and prot: "protected w' b deadline rows"
    show "protected w' b deadline (fst (update_where p f rows))"
    proof (rule protected_update [OF prot])
      fix r assume r: "r \<in> set rows" "row_holds w' deadline r" "p r"
      then have "r = chosen" using same assms(4) by simp
      with idle [OF d] r(2) show "br_id (f r) = b \<and> row_holds w' deadline (f r)" by simp
    qed
  next
    fix deadline assume "deadline < expiry * 1000"
    then show "protected w (br_id chosen) deadline (fst (update_where p f rows))"
      using claimed_row [of chosen rows "br_id chosen" f w deadline p] assms(2,3,6,7) by simp
  next
    show "distinct (map br_id (fst (update_where p f rows)))"
      using assms(1,6) by (simp add: ids_update)
  qed
qed

lemma grants_claim:
  assumes "claim_pending_bug (seconds ms) w ttl k rows = (rows', Some r)" and "distinct (map br_id rows)"
  shows "grants w (br_id r) (seconds ms + ttl) ms rows rows'"
proof -
  obtain chosen where c: "min_by_key br_created_at (filter (claimable (seconds ms) k) rows) = Some chosen"
    and rows': "rows' = fst (update_where (\<lambda>q. br_id q = br_id chosen) (start_attempt w (seconds ms + ttl) (seconds ms)) rows)"
    and r: "find_bug (br_id chosen) rows' = Some r"
    using assms(1) by (auto simp: claim_pending_bug_def Let_def split: option.splits)
  from min_by_key_Some [OF c] have "chosen \<in> set rows" "claimable (seconds ms) k chosen" by auto
  moreover have "br_id r = br_id chosen" using r by (auto simp: find_bug_def find_Some_iff)
  ultimately show ?thesis
    unfolding rows' using assms(2) by (auto intro!: grants_update simp: claimable_def lease_fields)
qed

lemma fix_check_expiry_exact:
  assumes "now + ttl \<le> i64_max" and "ttl = clamp_lease_ttl_seconds ttl"
  shows "fix_check_expiry now ttl = now + ttl"
  using assms by (auto simp: fix_check_expiry_def clamp_lease_ttl_seconds_def clamp_int_def max_bug_lease_ttl_seconds_def split: if_splits)

lemma grants_claim_any_check:
  assumes "claim_open_bug_for_fix_check (seconds ms) sha w ttl rows = (rows', Some r)" and "distinct (map br_id rows)"
    and "seconds ms + ttl \<le> i64_max" and "ttl = clamp_lease_ttl_seconds ttl"
  shows "grants w (br_id r) (seconds ms + ttl) ms rows rows'"
proof -
  note exp = fix_check_expiry_exact [OF assms(3,4)]
  obtain chosen where c: "min_by_key (\<lambda>r. (br_updated_at r, br_id r)) (filter (fix_checkable (seconds ms) (trim sha)) rows) = Some chosen"
    and rows': "rows' = fst (update_where (\<lambda>q. br_id q = br_id chosen) (take_lease w (seconds ms + ttl) (seconds ms)) rows)"
    and r: "find_bug (br_id chosen) rows' = Some r"
    using assms(1) by (auto simp: claim_open_bug_for_fix_check_def Let_def exp split: option.splits if_splits)
  from min_by_key_Some [OF c] have "chosen \<in> set rows" "fix_checkable (seconds ms) (trim sha) chosen" by auto
  moreover have "br_id r = br_id chosen" using r by (auto simp: find_bug_def find_Some_iff)
  ultimately show ?thesis
    unfolding rows' using assms(2) by (auto intro!: grants_update simp: fix_checkable_def lease_fields)
qed

lemma grants_claim_check:
  assumes "claim_specific_open_bug_for_fix_check (seconds ms) bug sha w ttl rows = (rows', Some r)"
    and "distinct (map br_id rows)" and "seconds ms + ttl \<le> i64_max" and "ttl = clamp_lease_ttl_seconds ttl"
  shows "grants w (br_id r) (seconds ms + ttl) ms rows rows'"
proof -
  let ?p = "\<lambda>q. br_id q = bug \<and> fix_checkable (seconds ms) (trim sha) q"
  note exp = fix_check_expiry_exact [OF assms(3,4)]
  have rows': "rows' = fst (update_where ?p (take_lease w (seconds ms + ttl) (seconds ms)) rows)"
    and some: "filter ?p rows \<noteq> []" and r: "find_bug bug rows' = Some r"
    using assms(1) by (auto simp: claim_specific_open_bug_for_fix_check_def Let_def exp update_where_def split: if_splits)
  from some obtain chosen where chosen: "chosen \<in> set rows" "?p chosen" by (auto simp: filter_empty_conv)
  have id: "br_id r = br_id chosen" using r chosen by (auto simp: find_bug_def find_Some_iff)
  show ?thesis
    unfolding rows' id using assms(2) chosen
    by (intro grants_update [where chosen = chosen]) (auto simp: fix_checkable_def lease_fields)
qed

lemma fold_max_ge:
  "(m :: int) \<le> fold (\<lambda>r m. max m (br_id r)) rows m"
  "r \<in> set rows \<Longrightarrow> br_id r \<le> fold (\<lambda>r m. max m (br_id r)) rows m"
proof (induction rows arbitrary: m)
  case (Cons a rows)
  { case 1 show ?case using Cons(1) [of "max m (br_id a)"] by simp }
  { case 2 then show ?case using Cons(1,2) [of "max m (br_id a)"] by auto }
qed simp_all

lemma next_id_fresh: "r \<in> set rows \<Longrightarrow> br_id r < next_id rows"
  using fold_max_ge(2) [of r rows 0] by (simp add: next_id_def)

lemma grants_submit:
  assumes "create_claimed_bug (seconds ms) reported lifecycle pipeline dup w ttl rows = Inr (rows', r)"
  shows "grants w (br_id r) (seconds ms + ttl) ms rows rows'"
proof -
  have rows': "rows' = rows @ [r]" and id: "br_id r = next_id rows"
    and holds: "deadline < (seconds ms + ttl) * 1000 \<Longrightarrow> row_holds w deadline r" for deadline
    using assms by (auto simp: create_claimed_bug_def create_bug_def insert_bug_def Let_def lease_fields split: if_splits)
  show ?thesis
    unfolding grants_def
  proof (intro conjI allI impI)
    fix w' deadline
    show "\<not> protected w' (br_id r) deadline rows"
      using next_id_fresh [of _ rows] by (force simp: protected_def id)
  next
    show "distinct (map br_id rows) \<Longrightarrow> distinct (map br_id rows')"
      using next_id_fresh [of _ rows] by (force simp: rows' id)
  qed (use holds in \<open>auto simp: protected_def rows'\<close>)
qed

lemma renew_eq:
  "renew_bug_lease now bug w ttl rows =
    (fst (update_where (\<lambda>r. br_id r = bug \<and> br_locked_by r = Some w
            \<and> (br_pipeline r = Running \<or> br_pipeline r = Succeeded) \<and> lease_valid now r)
          (\<lambda>r. r\<lparr>br_lease := Some (now + ttl)\<rparr>) rows),
     list_ex (\<lambda>r. br_id r = bug \<and> br_locked_by r = Some w
            \<and> (br_pipeline r = Running \<or> br_pipeline r = Succeeded) \<and> lease_valid now r) rows)"
  by (auto simp: renew_bug_lease_def update_where_def list_ex_iff filter_empty_conv)

text \<open>A renewal keeps what its own worker relies on, and does not touch the others.\<close>

lemma spares_renew: "spares {w} ms rows (fst (renew_bug_lease now bug w ttl rows))"
  unfolding renew_eq fst_conv by (rule spares_update) (auto simp: lease_fields)

lemma renew_keeps_own:
  assumes "protected w b deadline rows" and "deadline < (now + ttl) * 1000"
  shows "protected w b deadline (fst (renew_bug_lease now bug w ttl rows))"
  unfolding renew_eq fst_conv using assms by (intro protected_update) (auto simp: lease_fields)

lemma renew_grants:
  assumes "renew_bug_lease now bug w ttl rows = (rows', True)" and "deadline < (now + ttl) * 1000"
  shows "protected w bug deadline rows'"
proof -
  have rows': "rows' = fst (renew_bug_lease now bug w ttl rows)" using assms(1) by simp
  obtain r where r: "r \<in> set rows" "br_id r = bug" "br_locked_by r = Some w"
      "br_pipeline r = Running \<or> br_pipeline r = Succeeded" "lease_valid now r"
    using assms(1) by (auto simp: renew_eq list_ex_iff)
  show ?thesis
    unfolding rows' renew_eq fst_conv using r assms(2)
    by (intro claimed_row [where chosen = r]) (auto simp: lease_fields)
qed

section \<open>Every step keeps the invariant and is a step of the lock\<close>

lemma lease_invD:
  assumes "lease_inv s"
  shows "distinct (map br_id (ls_rows s))"
    and "ls_workers s w = Some a \<Longrightarrow> an_deadline a \<le> lease_deadline (ls_clock s) (an_ttl a)"
    and "ls_workers s w = Some a \<Longrightarrow> an_ttl a = clamp_lease_ttl_seconds (an_ttl a)"
    and "ls_workers s w = Some a \<Longrightarrow> ls_clock s < an_deadline a \<Longrightarrow> protected w (an_bug a) (an_deadline a) (ls_rows s)"
  using assms by (auto simp: lease_inv_def)

lemma lock_views [simp]:
  "lock_view (set_rows rows s) = lock_view s"
  "lock_view (stop_work rows w s) = (lock_view s)\<lparr>lk_held := (lk_held (lock_view s))(w := None)\<rparr>"
  "lock_view (start_work rows w bug started ttl s)
     = (lock_view s)\<lparr>lk_held := (lk_held (lock_view s))(w \<mapsto> (bug, lease_deadline started ttl))\<rparr>"
  by (auto simp: lock_view_def set_rows_def stop_work_def start_work_def)

lemma lock_idle: "lock_step l l"
  using lock_step.passes [of 0 l] by simp

text \<open>The three shapes of a step: the table alone changes, an analysis ends, an analysis starts.\<close>

lemma step_set_rows:
  assumes "lease_inv s" and "distinct (map br_id rows)"
    and "\<And>w a. ls_workers s w = Some a \<Longrightarrow> ls_clock s < an_deadline a \<Longrightarrow> protected w (an_bug a) (an_deadline a) (ls_rows s) \<Longrightarrow>
      protected w (an_bug a) (an_deadline a) rows"
  shows "lease_inv (set_rows rows s) \<and> lock_step (lock_view s) (lock_view (set_rows rows s))"
proof
  show "lease_inv (set_rows rows s)"
    using assms lease_invD [OF assms(1)] by (simp add: lease_inv_def set_rows_def)
qed (simp add: lock_idle)

lemma step_spares:
  assumes "lease_inv s" and "spares {} (ls_clock s) (ls_rows s) rows"
  shows "lease_inv (set_rows rows s) \<and> lock_step (lock_view s) (lock_view (set_rows rows s))"
  using assms lease_invD(1) [OF assms(1)] by (intro step_set_rows) (auto simp: spares_def)

lemma step_filed:
  assumes "lease_inv s" and "create_bug now reported lifecycle pipeline dup (ls_rows s) = Inr (rows, r)"
  shows "lease_inv (set_rows rows s) \<and> lock_step (lock_view s) (lock_view (set_rows rows s))"
proof -
  have rows: "rows = ls_rows s @ [r]" and id: "br_id r = next_id (ls_rows s)"
    using assms(2) by (auto simp: create_bug_def insert_bug_def Let_def split: if_splits)
  show ?thesis
    using lease_invD(1) [OF assms(1)] next_id_fresh [of _ "ls_rows s"]
    by (intro step_set_rows [OF assms(1)]) (force simp: rows id protected_def)+
qed

lemma step_stop:
  assumes "lease_inv s" and "spares {w} (ls_clock s) (ls_rows s) rows"
  shows "lease_inv (stop_work rows w s) \<and> lock_step (lock_view s) (lock_view (stop_work rows w s))"
proof
  show "lease_inv (stop_work rows w s)"
    using assms lease_invD [OF assms(1)] by (simp add: lease_inv_def stop_work_def spares_def)
qed (simp add: lock_step.free)

lemma inv_start:
  assumes "lease_inv s" and "started \<le> ls_clock s" and "ttl = clamp_lease_ttl_seconds ttl"
    and "distinct (map br_id rows)"
    and "\<And>deadline. deadline < (seconds (ls_clock s) + ttl) * 1000 \<Longrightarrow> protected w bug deadline rows"
    and "\<And>w' (a :: analysis). w' \<noteq> w \<Longrightarrow> ls_clock s < an_deadline a \<Longrightarrow> protected w' (an_bug a) (an_deadline a) (ls_rows s) \<Longrightarrow>
      protected w' (an_bug a) (an_deadline a) rows"
  shows "lease_inv (start_work rows w bug started ttl s)"
proof -
  have le: "lease_deadline started ttl \<le> lease_deadline (ls_clock s) ttl"
    using assms(2) by (simp add: lease_deadline_def)
  then have "protected w bug (lease_deadline started ttl) rows"
    using assms(3) by (intro assms(5) deadline_before_expiry)
  with le show ?thesis
    using assms(3,4,6) lease_invD [OF assms(1)] by (simp add: lease_inv_def start_work_def)
qed

lemma deadline_within_a_day:
  assumes "started \<le> ls_clock s" and "ttl = clamp_lease_ttl_seconds ttl"
  shows "within_a_day (lease_deadline started ttl) (lock_view s)"
proof -
  have "2 \<le> clamp_lease_ttl_seconds ttl \<and> clamp_lease_ttl_seconds ttl \<le> 86400"
    by (auto simp: clamp_lease_ttl_seconds_def clamp_int_def max_bug_lease_ttl_seconds_def)
  then have "1000 * max (clamp_lease_ttl_seconds ttl - 1) 1 < 86400000" by (simp add: max_def)
  with assms(1) have "started + 1000 * max (clamp_lease_ttl_seconds ttl - 1) 1 < ls_clock s + 86400000" by (rule add_le_less_mono)
  then show ?thesis by (simp add: within_a_day_def lock_view_def lease_deadline_def max_bug_lease_ttl_seconds_def)
qed

lemma step_start:
  assumes "lease_inv s" and "fresh_claim w s" and "started \<le> ls_clock s" and "ttl = clamp_lease_ttl_seconds ttl"
    and "grants w bug (seconds (ls_clock s) + ttl) (ls_clock s) (ls_rows s) rows"
  shows "lease_inv (start_work rows w bug started ttl s)
    \<and> lock_step (lock_view s) (lock_view (start_work rows w bug started ttl s))"
proof
  note g = assms(5) [unfolded grants_def]
  show "lease_inv (start_work rows w bug started ttl s)"
  proof (rule inv_start [OF assms(1,3,4)])
    show "distinct (map br_id rows)" using g lease_invD(1) [OF assms(1)] by blast
    show "protected w bug deadline rows" if "deadline < (seconds (ls_clock s) + ttl) * 1000" for deadline
      using g that by blast
    show "protected w' (an_bug a) (an_deadline a) rows"
      if "ls_clock s < an_deadline a" "protected w' (an_bug a) (an_deadline a) (ls_rows s)" for w' and a :: analysis
      using g that by blast
  qed
  have "until' \<le> lk_clock (lock_view s)" if held: "lk_held (lock_view s) w' = Some (bug, until')" for w' until'
  proof (rule ccontr)
    assume late: "\<not> until' \<le> lk_clock (lock_view s)"
    obtain a where "ls_workers s w' = Some a" "an_bug a = bug" "ls_clock s < an_deadline a"
      using held late by (auto simp: lock_view_def)
    with lease_invD(4) [OF assms(1)] g show False by blast
  qed
  moreover have "lk_held (lock_view s) w = None" using assms(2) by (simp add: lock_view_def fresh_claim_def)
  ultimately show "lock_step (lock_view s) (lock_view (start_work rows w bug started ttl s))"
    using deadline_within_a_day [OF assms(3,4)] by (simp add: lock_step.grab)
qed

lemma step_renewed:
  assumes "lease_inv s" and w: "ls_workers s w = Some a" "ls_clock s < an_deadline a" and "started \<le> ls_clock s"
    and r: "renew_bug_lease (seconds (ls_clock s)) (an_bug a) w (an_ttl a) (ls_rows s) = (rows, True)"
  shows "lease_inv (start_work rows w (an_bug a) started (an_ttl a) s)
    \<and> lock_step (lock_view s) (lock_view (start_work rows w (an_bug a) started (an_ttl a) s))"
proof
  have sp: "spares {w} (ls_clock s) (ls_rows s) rows"
    using spares_renew [of w "ls_clock s" "ls_rows s" "seconds (ls_clock s)" "an_bug a" "an_ttl a"] r by simp
  show "lease_inv (start_work rows w (an_bug a) started (an_ttl a) s)"
    using sp lease_invD(1) [OF assms(1)] renew_grants [OF r]
    by (intro inv_start [OF assms(1,4) lease_invD(3) [OF assms(1) w(1)]]) (auto simp: spares_def)
  show "lock_step (lock_view s) (lock_view (start_work rows w (an_bug a) started (an_ttl a) s))"
    unfolding lock_views
    by (rule lock_step.extend [OF _ _ deadline_within_a_day [OF assms(4) lease_invD(3) [OF assms(1) w(1)]]])
      (use w in \<open>simp_all add: lock_view_def\<close>)
qed

lemma step_renewed_unseen:
  assumes "lease_inv s" and "ls_workers s w = Some a"
    and "rows = fst (renew_bug_lease (seconds (ls_clock s)) (an_bug a) w (an_ttl a) (ls_rows s))"
  shows "lease_inv (set_rows rows s) \<and> lock_step (lock_view s) (lock_view (set_rows rows s))"
  unfolding assms(3)
proof (rule step_set_rows [OF assms(1)])
  note sp = spares_renew [of w "ls_clock s" "ls_rows s" "seconds (ls_clock s)" "an_bug a" "an_ttl a", unfolded spares_def]
  show "distinct (map br_id (fst (renew_bug_lease (seconds (ls_clock s)) (an_bug a) w (an_ttl a) (ls_rows s))))"
    using sp lease_invD(1) [OF assms(1)] by simp
  fix w' a'
  assume a': "ls_workers s w' = Some a'" "ls_clock s < an_deadline a'" "protected w' (an_bug a') (an_deadline a') (ls_rows s)"
  show "protected w' (an_bug a') (an_deadline a') (fst (renew_bug_lease (seconds (ls_clock s)) (an_bug a) w (an_ttl a) (ls_rows s)))"
  proof (cases "w' = w")
    case True
    with a'(1) assms(2) have "a' = a" by simp
    with a' True assms(2) have "an_deadline a' < (seconds (ls_clock s) + an_ttl a) * 1000"
      using lease_invD(2,3) [OF assms(1)] by (intro deadline_before_expiry) auto
    with a'(3) True show ?thesis by (simp add: renew_keeps_own)
  qed (use sp a' in simp)
qed

lemma lease_step_ok:
  assumes "lease_step k s s'" and "lease_inv s"
  shows "lease_inv s' \<and> lock_step (lock_view s) (lock_view s')"
  using assms
proof (induction rule: lease_step.induct)
  case (tick d s)
  have "lock_view (s\<lparr>ls_clock := ls_clock s + d\<rparr>) = (lock_view s)\<lparr>lk_clock := lk_clock (lock_view s) + d\<rparr>"
    by (simp add: lock_view_def)
  moreover have "lease_inv (s\<lparr>ls_clock := ls_clock s + d\<rparr>)"
    using tick lease_invD [OF tick(2)] by (force simp: lease_inv_def lease_deadline_def)
  ultimately show ?case using lock_step.passes [OF tick(1), of "lock_view s"] by simp
next
  case (claim w s started ttl cfg rows r)
  note g = grants_claim [OF claim(4) lease_invD(1) [OF claim(5)]]
  show ?case using step_start [OF claim(5,1,2) _ g] claim(3) by simp
next
  case (submit w s started ttl cfg reported lifecycle pipeline dup rows r)
  show ?case using step_start [OF submit(5,1,2) _ grants_submit [OF submit(4)]] submit(3) by simp
next
  case (claim_check w s started ttl cfg bug sha rows r)
  have ttl: "ttl = clamp_lease_ttl_seconds ttl" using claim_check(3) by simp
  note g = grants_claim_check [OF claim_check(5) lease_invD(1) [OF claim_check(6)] claim_check(4) ttl]
  show ?case by (rule step_start [OF claim_check(6,1,2) ttl g])
next
  case (claim_any_check w s started ttl cfg sha rows r)
  have ttl: "ttl = clamp_lease_ttl_seconds ttl" using claim_any_check(3) by simp
  note g = grants_claim_any_check [OF claim_any_check(5) lease_invD(1) [OF claim_any_check(6)] claim_any_check(4) ttl]
  show ?case by (rule step_start [OF claim_any_check(6,1,2) ttl g])
next
  case (renewed s w a started rows)
  then show ?case by (intro step_renewed)
next
  case (renewed_unseen s w a)
  then show ?case by (intro step_renewed_unseen) simp_all
next
  case (stop s w)
  then show ?case by (intro step_stop spares_refl)
next
  case (release c s bug rows)
  then show ?case by (intro step_stop spares_release) (auto dest: lease_invD(1))
next
  case (failed c s bug err rows)
  then show ?case by (intro step_stop spares_failed) (auto dest: lease_invD(1))
next
  case (outcome c s bug verdict rows)
  then show ?case by (intro step_spares spares_outcome)
next
  case (folded c s bug canonical preserve rows b)
  then show ?case by (intro step_spares spares_folded)
next
  case (triage s bug status rows)
  then show ?case by (intro step_spares spares_triage)
next
  case (operator_folds s bug canonical preserve rows b)
  then show ?case by (intro step_spares spares_folded)
next
  case (filed s reported lifecycle pipeline dup rows r)
  then show ?case by (intro step_filed)
qed (auto simp del: lock_views intro!: step_stop step_spares spares_touched spares_checked spares_recover spares_abandon
      spares_advance spares_touch_open spares_assigned spares_verified)

interpretation lease: simulation "lease_step k" lease_inv lock_view lock_step
  by unfold_locales (use lease_step_ok in blast)+

definition lease_initial :: "bug_table \<Rightarrow> int \<Rightarrow> lease_system" where
  "lease_initial rows clock = \<lparr>ls_rows = rows, ls_clock = clock, ls_workers = (\<lambda>_. None)\<rparr>"

lemma lease_initial_ok:
  "distinct (map br_id rows) \<Longrightarrow> lease_inv (lease_initial rows clock)"
  "lock_view (lease_initial rows clock) = \<lparr>lk_clock = clock, lk_held = (\<lambda>_. None)\<rparr>"
  by (simp_all add: lease_inv_def lease_initial_def lock_view_def)

section \<open>Properties\<close>

text \<open>
  C4. The lease protocol implements a lock per bug with timeouts: every run of workers, renewals lost or late, crashes,
  stale handles, recovery sweeps, new bugs and operators is, step for step, a run of that lock, once the table is
  forgotten and of each worker only the bug and its deadline are kept. In the lock a bug is taken only when everybody who has it is
  out of time, is extended only by a holder within its time and for less than a day ahead, and is taken away from nobody else.
\<close>

theorem lease_refines_mutex:
  assumes "successively (lease_step k) (lease_initial rows clock # ss)" and "distinct (map br_id rows)"
  shows "successively lock_step (map lock_view (lease_initial rows clock # ss))
    \<and> lock_view (lease_initial rows clock) = \<lparr>lk_clock = clock, lk_held = (\<lambda>_. None)\<rparr>"
  using lease.runs [OF assms(1) lease_initial_ok(1) [OF assms(2)]] lease_initial_ok(2) by blast

text \<open>
  C5. At no time are two analyses at work on one bug. While one is at work, the row of its bug carries its claim id and a
  lease that outlasts the deadline it keeps; or an operator has folded the bug into another one while it was analysed, and then
  the row is a duplicate that carries no claim and that no statement hands out any more.
\<close>

theorem analysis_exclusive:
  assumes "(lease_step k)\<^sup>*\<^sup>* (lease_initial rows clock) s" and "distinct (map br_id rows)"
    and "ls_workers s w = Some a" and "ls_clock s < an_deadline a"
  shows "(\<exists>r \<in> set (ls_rows s). br_id r = an_bug a
            \<and> (br_locked_by r = Some w \<and> (\<exists>e. br_lease r = Some e \<and> an_deadline a < e * 1000)
               \<or> br_lifecycle r = Duplicate \<and> br_duplicate_of r \<noteq> None \<and> br_pipeline r = Succeeded \<and> br_locked_by r = None)
            \<and> \<not> claimable (seconds (ls_clock s)) k r \<and> \<not> fix_checkable (seconds (ls_clock s)) sha r)
    \<and> (\<forall>w' a'. ls_workers s w' = Some a' \<longrightarrow> ls_clock s < an_deadline a' \<longrightarrow> an_bug a' = an_bug a \<longrightarrow> w' = w)"
proof
  note inv = lease_initial_ok(1) [OF assms(2), of clock]
  have "protected w (an_bug a) (an_deadline a) (ls_rows s)"
    using lease.reachable [OF assms(1) inv] assms(3,4) lease_invD(4) by blast
  then obtain r where r: "r \<in> set (ls_rows s)" "br_id r = an_bug a" "row_holds w (an_deadline a) r"
    by (auto simp: protected_def)
  show "\<exists>r \<in> set (ls_rows s). br_id r = an_bug a
      \<and> (br_locked_by r = Some w \<and> (\<exists>e. br_lease r = Some e \<and> an_deadline a < e * 1000)
         \<or> br_lifecycle r = Duplicate \<and> br_duplicate_of r \<noteq> None \<and> br_pipeline r = Succeeded \<and> br_locked_by r = None)
      \<and> \<not> claimable (seconds (ls_clock s)) k r \<and> \<not> fix_checkable (seconds (ls_clock s)) sha r"
    using r holds_busy(3,4) [OF r(3) assms(4)]
    by (intro bexI [of _ r]) (auto simp: row_holds_def row_claimed_def row_retired_def split: option.splits)
  have "exclusive (lock_view s)"
    by (rule lease.keeps [OF assms(1) inv _ exclusive_step]) (simp add: lease_initial_ok exclusive_def)
  then show "\<forall>w' a'. ls_workers s w' = Some a' \<longrightarrow> ls_clock s < an_deadline a' \<longrightarrow> an_bug a' = an_bug a \<longrightarrow> w' = w"
    using assms(3,4) by (auto simp: exclusive_def lock_view_def)
qed

text \<open>Attempts are counted when they start, and only a claim starts one.\<close>

definition attempts_within :: "int \<Rightarrow> bug_table \<Rightarrow> bool" where
  "attempts_within k rows \<longleftrightarrow> (\<forall>r \<in> set rows. br_attempts r \<le> k)"

lemma attempts_update:
  assumes "attempts_within k rows" and "\<And>r. r \<in> set rows \<Longrightarrow> p r \<Longrightarrow> br_attempts r \<le> k \<Longrightarrow> br_attempts (f r) \<le> k"
  shows "attempts_within k (fst (update_where p f rows))"
  using assms by (auto simp: attempts_within_def update_where_def)

lemma attempts_same:
  assumes "attempts_within k rows" and "\<And>r. br_attempts (f r) = br_attempts r"
  shows "attempts_within k (fst (update_where p f rows))"
  by (rule attempts_update [OF assms(1)]) (simp add: assms(2))

lemma attempts_claim:
  assumes "claim_pending_bug now w ttl k rows = (rows', r)" and "attempts_within k rows" and "distinct (map br_id rows)"
  shows "attempts_within k rows'"
proof (cases "min_by_key br_created_at (filter (claimable now k) rows)")
  case None
  with assms show ?thesis by (simp add: claim_pending_bug_def)
next
  case (Some chosen)
  from min_by_key_Some [OF this] have chosen: "chosen \<in> set rows" "br_attempts chosen < k"
    by (auto simp: claimable_def)
  have rows': "rows' = fst (update_where (\<lambda>q. br_id q = br_id chosen) (start_attempt w (now + ttl) now) rows)"
    using assms(1) Some by (auto simp: claim_pending_bug_def Let_def)
  show ?thesis
    unfolding rows'
  proof (rule attempts_update [OF assms(2)])
    fix r assume "r \<in> set rows" "br_id r = br_id chosen"
    with chosen(1) assms(3) have "r = chosen" by (auto simp: distinct_map inj_on_def)
    with chosen(2) show "br_attempts (start_attempt w (now + ttl) now r) \<le> k" by (simp add: lease_fields)
  qed
qed

text \<open>The other statements leave the attempts as they are.\<close>

named_theorems lease_ops

lemmas [lease_ops] = release_bug_lease_def fail_bug_analysis_def update_bug_outcome_def mark_bug_as_duplicate_def
  touch_bug_fix_check_timestamp_def write_upstream_fix_check_def recover_stale_running_bugs_def
  abandon_exhausted_bugs_def advance_open_bug_without_llm_def touch_open_bug_fix_check_def
  set_bug_lifecycle_status_def set_bug_pipeline_state_def renew_bug_lease_def assign_bug_def project_verification_def
  claim_specific_open_bug_for_fix_check_def claim_open_bug_for_fix_check_def

lemma attempts_map: "map br_attempts rows' = map br_attempts rows \<Longrightarrow> attempts_within k rows \<Longrightarrow> attempts_within k rows'"
proof -
  assume "map br_attempts rows' = map br_attempts rows"
  then have "br_attempts ` set rows' = br_attempts ` set rows" by (metis list.set_map)
  moreover assume "attempts_within k rows"
  ultimately show ?thesis by (force simp: attempts_within_def)
qed

lemma map_attempts_update:
  "(\<And>r. br_attempts (f r) = br_attempts r) \<Longrightarrow> map br_attempts (fst (update_where p f rows)) = map br_attempts rows"
  by (simp add: update_where_def)

lemma attempts_kept:
  "release_bug_lease c now bug rows = Inr rows' \<Longrightarrow> map br_attempts rows' = map br_attempts rows"
  "fail_bug_analysis c now bug err rows = Inr rows' \<Longrightarrow> map br_attempts rows' = map br_attempts rows"
  "update_bug_outcome c now bug verdict verified rows = Inr rows' \<Longrightarrow> map br_attempts rows' = map br_attempts rows"
  "mark_bug_as_duplicate c now bug canonical preserve rows = Inr (rows', b) \<Longrightarrow> map br_attempts rows' = map br_attempts rows"
  "claim_specific_open_bug_for_fix_check now bug sha w ttl rows = (rows', r) \<Longrightarrow> map br_attempts rows' = map br_attempts rows"
  "claim_open_bug_for_fix_check now sha w ttl rows = (rows', r) \<Longrightarrow> map br_attempts rows' = map br_attempts rows"
  "renew_bug_lease now bug w ttl rows = (rows', ok) \<Longrightarrow> map br_attempts rows' = map br_attempts rows"
  "set_bug_lifecycle_status now bug status rows = Inr rows' \<Longrightarrow> map br_attempts rows' = map br_attempts rows"
  by (auto simp: lease_ops checked_update_Inr update_where_def Let_def lease_fields split: sum.splits option.splits if_splits)

lemma attempts_kept_always:
  "map br_attempts (touch_bug_fix_check_timestamp c now bug rows) = map br_attempts rows"
  "map br_attempts (fst (write_upstream_fix_check c now bug fixed sha rows)) = map br_attempts rows"
  "map br_attempts (fst (recover_stale_running_bugs now rows)) = map br_attempts rows"
  "map br_attempts (fst (abandon_exhausted_bugs now k rows)) = map br_attempts rows"
  "map br_attempts (fst (advance_open_bug_without_llm now bug sha rows)) = map br_attempts rows"
  "map br_attempts (fst (touch_open_bug_fix_check now bug rows)) = map br_attempts rows"
  "map br_attempts (fst (assign_bug now bug rows)) = map br_attempts rows"
  "map br_attempts (project_verification bug verified rows) = map br_attempts rows"
  by (simp_all add: lease_ops map_attempts_update update_where_def Let_def lease_fields split: option.splits)

lemma attempts_step:
  assumes "lease_step k s s'" and "1 \<le> k" and "distinct (map br_id (ls_rows s))" and "attempts_within k (ls_rows s)"
  shows "attempts_within k (ls_rows s')"
  using assms
proof (induction rule: lease_step.induct)
  case (claim w s started ttl cfg rows r)
  then show ?case by (simp add: start_work_def attempts_claim)
next
  case (submit w s started ttl cfg reported lifecycle pipeline dup rows r)
  then show ?case
    by (auto simp: start_work_def create_claimed_bug_def create_bug_def Let_def attempts_within_def split: if_splits)
next
  case (filed s reported lifecycle pipeline dup rows r)
  then show ?case
    by (auto simp: set_rows_def create_bug_def insert_bug_def Let_def attempts_within_def split: if_splits)
next
  case (renewed_unseen s w a)
  obtain rows ok where r: "renew_bug_lease (seconds (ls_clock s)) (an_bug a) w (an_ttl a) (ls_rows s) = (rows, ok)" by fastforce
  with renewed_unseen show ?case by (simp add: set_rows_def) (rule attempts_map [OF attempts_kept(7) [OF r]])
qed (auto simp: start_work_def stop_work_def set_rows_def
       intro: attempts_map [OF attempts_kept(1)] attempts_map [OF attempts_kept(2)] attempts_map [OF attempts_kept(3)]
         attempts_map [OF attempts_kept(4)] attempts_map [OF attempts_kept(5)] attempts_map [OF attempts_kept(6)]
         attempts_map [OF attempts_kept(7)] attempts_map [OF attempts_kept_always(1)] attempts_map [OF attempts_kept_always(2)]
         attempts_map [OF attempts_kept_always(3)] attempts_map [OF attempts_kept_always(4)]
         attempts_map [OF attempts_kept_always(5)] attempts_map [OF attempts_kept_always(6)]
         attempts_map [OF attempts_kept_always(7)]
         attempts_map [OF attempts_kept_always(8)] attempts_map [OF attempts_kept(8)])

text \<open>
  No bug is analysed more often than the limit on attempts allows, however often its workers die: across all steps the
  attempts of every row stay within the limit.
\<close>

theorem attempts_bounded:
  assumes "(lease_step k)\<^sup>*\<^sup>* (lease_initial rows clock) s" and "distinct (map br_id rows)"
    and "1 \<le> k" and "attempts_within k rows"
  shows "attempts_within k (ls_rows s)"
  using assms(1)
proof (induction rule: rtranclp_induct)
  case base
  then show ?case using assms(4) by (simp add: lease_initial_def)
next
  case (step t u)
  have "lease_inv t" using lease.reachable [OF step(1)] lease_initial_ok(1) [OF assms(2)] by blast
  with step show ?case using attempts_step assms(3) lease_invD(1) by blast
qed


section \<open>A run\<close>

definition example_row :: "int \<Rightarrow> bug_row" where
  "example_row i = \<lparr>br_id = i, br_created_at = i, br_updated_at = i, br_lifecycle = New, br_pipeline = Pending,
     br_duplicate_of = None, br_verified_on = None, br_locked_by = None, br_lease = None, br_attempts = 0, br_last_error = None\<rparr>"

definition example_claimed :: bug_table where
  "example_claimed = [(example_row 7)\<lparr>br_pipeline := Running, br_locked_by := Some ''w'', br_lease := Some 302,
     br_attempts := 1, br_updated_at := 2\<rparr>, example_row 8]"

definition example_state :: lease_system where
  "example_state = start_work example_claimed ''w'' 7 1500 300 (lease_initial [example_row 7, example_row 8] 2000)"

lemma example_step: "lease_step 3 (lease_initial [example_row 7, example_row 8] 2000) example_state"
proof -
  have claim: "claim_pending_bug 2 ''w'' 300 3 [example_row 7, example_row 8] = (example_claimed, Some (hd example_claimed))"
    by code_simp
  have ttl: "300 = clamp_lease_ttl_seconds 300" by code_simp
  have "lease_step 3 (lease_initial [example_row 7, example_row 8] 2000)
    (start_work example_claimed ''w'' (br_id (hd example_claimed)) 1500 300 (lease_initial [example_row 7, example_row 8] 2000))"
    using claim by (intro lease_step.claim [OF _ _ ttl])
      (simp_all add: fresh_claim_def lease_initial_def example_row_def seconds_def)
  then show "lease_step 3 (lease_initial [example_row 7, example_row 8] 2000) example_state"
    by (simp add: example_state_def example_claimed_def example_row_def)
qed

lemma example_run: "(lease_step 3)\<^sup>*\<^sup>* (lease_initial [example_row 7, example_row 8] 2000) example_state"
  using example_step by (rule r_into_rtranclp)

lemma example_distinct: "distinct (map br_id [example_row 7, example_row 8])"
  by (simp add: example_row_def)

lemma example_worker: "ls_workers example_state ''w'' = Some \<lparr>an_bug = 7, an_deadline = 300500, an_ttl = 300\<rparr>"
  by (simp add: example_state_def start_work_def lease_deadline_def clamp_lease_ttl_seconds_def clamp_int_def
      max_bug_lease_ttl_seconds_def)

lemma example_clock: "ls_clock example_state = 2000"
  by (simp add: example_state_def start_work_def lease_initial_def)

lemma example_rows: "ls_rows example_state = example_claimed"
  by (simp add: example_state_def start_work_def)

theorem lease_refines_mutex_witness:
  "lock_step \<lparr>lk_clock = 2000, lk_held = (\<lambda>_. None)\<rparr> (lock_view example_state)
   \<and> lk_held (lock_view example_state) ''w'' = Some (7, 300500)"
proof -
  have "successively (lease_step 3) (lease_initial [example_row 7, example_row 8] 2000 # [example_state])"
    using example_step by simp
  from lease_refines_mutex [OF this example_distinct] show ?thesis
    by (auto simp: lock_view_def example_worker)
qed

theorem analysis_exclusive_witness:
  "\<exists>r \<in> set (ls_rows example_state). br_id r = 7
     \<and> (br_locked_by r = Some ''w'' \<and> (\<exists>e. br_lease r = Some e \<and> 300500 < e * 1000)
        \<or> br_lifecycle r = Duplicate \<and> br_duplicate_of r \<noteq> None \<and> br_pipeline r = Succeeded \<and> br_locked_by r = None)
     \<and> \<not> claimable 2 3 r"
  using analysis_exclusive [OF example_run example_distinct example_worker] by (simp add: example_clock seconds_def) blast

theorem attempts_bounded_witness: "attempts_within 3 (ls_rows example_state) \<and> br_attempts (hd (ls_rows example_state)) = 1"
  using attempts_bounded [OF example_run example_distinct]
  by (simp add: attempts_within_def example_row_def example_rows example_claimed_def)


end
