(* ===== verification/AiTypes.thy ===== *)
theory AiTypes
  imports Prelude
begin

text \<open>
  The vocabulary of conversations with a model (\<open>src/src/ai/mod.rs\<close>): messages, tool calls, requests,
  responses and errors. A JSON value is either a string or some other value, given by its serialised text; what the JSON library does
  is a parameter: when two values are equal, and the value \<open>{"error": e}\<close> of a text. The settings of a
  request that are passed on unread (temperature, response format, context tag, effort) are the type parameter \<open>'opt\<close>.
\<close>

datatype ai_role = System | User | Assistant | Tool

datatype json_value = JString string | JOther string

record json_ops =
  jo_eq :: "json_value \<Rightarrow> json_value \<Rightarrow> bool"
  jo_error :: "string \<Rightarrow> json_value"

text \<open>The content of a tool's answer: a string as it is, any other value serialised.\<close>

fun json_text :: "json_value \<Rightarrow> string" where
  "json_text (JString s) = s"
| "json_text (JOther s) = s"

record tool_call =
  tc_id :: string
  tc_function_name :: string
  tc_arguments :: json_value
  tc_thought_signature :: "string option"

record ai_message =
  am_role :: ai_role
  am_content :: "string option"
  am_thought :: "string option"
  am_thought_signature :: "string option"
  am_tool_calls :: "tool_call list option"
  am_tool_call_id :: "string option"

record ai_tool =
  at_name :: string
  at_description :: string
  at_parameters :: json_value

record ai_usage =
  au_prompt_tokens :: nat
  au_completion_tokens :: nat
  au_total_tokens :: nat
  au_cached_tokens :: "nat option"

record 'opt ai_request =
  rq_system :: "string option"
  rq_messages :: "ai_message list"
  rq_tools :: "ai_tool list option"
  rq_settings :: 'opt

record ai_response =
  rp_content :: "string option"
  rp_thought :: "string option"
  rp_thought_signature :: "string option"
  rp_tool_calls :: "tool_call list option"
  rp_usage :: "ai_usage option"
  rp_truncated :: bool

text \<open>An error of a provider: the class that \<open>classify_ai_error\<close> assigns to it (with the pause it asks for, in milliseconds) and its text.\<close>

datatype ai_error_class = Fatal | RateLimit nat | Transient nat

record ai_error =
  ae_class :: ai_error_class
  ae_text :: string

definition user_message :: "string \<Rightarrow> ai_message" where
  "user_message text = \<lparr>am_role = User, am_content = Some text, am_thought = None, am_thought_signature = None,
     am_tool_calls = None, am_tool_call_id = None\<rparr>"

definition assistant_message :: "ai_response \<Rightarrow> ai_message" where
  "assistant_message r = \<lparr>am_role = Assistant, am_content = rp_content r, am_thought = rp_thought r,
     am_thought_signature = rp_thought_signature r, am_tool_calls = rp_tool_calls r, am_tool_call_id = None\<rparr>"

definition tool_message :: "string \<times> json_value \<Rightarrow> ai_message" where
  "tool_message a = \<lparr>am_role = Tool, am_content = Some (json_text (snd a)), am_thought = None, am_thought_signature = None,
     am_tool_calls = None, am_tool_call_id = Some (fst a)\<rparr>"

end
