(* ===== verification/Session.thy ===== *)
theory Session
  imports AiTypes
begin

text \<open>
  The loop that talks to a model until it has a valid answer (\<open>SessionRunner::run\<close> of \<open>src/src/ai/session.rs\<close>): turns,
  retries after errors of the provider, tool calls, validation with feedback. The session is a record of the operations of the trait
  \<open>LlmSession\<close> on a state of its own; the provider is a function of the number of
  requests sent so far and the request, so it may answer the same request differently. The run keeps, beside the variables of the code,
  what it did to the outside: the exchanges with the provider, the requests it made the
  provider forget, and its pauses. Telemetry (the turn callback, warnings) is left out.
\<close>

section \<open>Sessions\<close>

datatype validation_error = FormatViolation string | ValidationFatal string

datatype error_action = RetryWithFeedback string | Fail

record ('s, 'o, 'opt) llm_session =
  ss_system_prompt :: "'s \<Rightarrow> string"
  ss_initial_user_prompt :: "'s \<Rightarrow> string"
  ss_log_user_prompt :: "'s \<Rightarrow> string"
  ss_format_validation_feedback :: "'s \<Rightarrow> string \<Rightarrow> string"
  ss_tools :: "'s \<Rightarrow> ai_tool list option"
  ss_settings :: "'s \<Rightarrow> 'opt"
  ss_call_tools :: "'s \<Rightarrow> tool_call list \<Rightarrow> (ai_error + (string \<times> json_value) list) \<times> 's"
  ss_validate :: "'s \<Rightarrow> ai_response \<Rightarrow> (validation_error + 'o) \<times> 's"
  ss_handle_provider_error :: "'s \<Rightarrow> ai_error \<Rightarrow> nat \<Rightarrow> bool \<Rightarrow> error_action \<times> 's"

type_synonym 'opt ai_provider = "nat \<Rightarrow> 'opt ai_request \<Rightarrow> ai_error + ai_response"

text \<open>The operations of the trait that have a default.\<close>

definition is_malformed_tool_call_error :: "string \<Rightarrow> bool" where
  "is_malformed_tool_call_error err \<longleftrightarrow> contains err ''MALFORMED_FUNCTION_CALL'' \<or> contains err ''UNEXPECTED_TOOL_CALL''"

definition malformed_tool_call_feedback :: "bool \<Rightarrow> string" where
  "malformed_tool_call_feedback has_tools =
     (if has_tools then
        ''IMPORTANT: Your previous tool call was malformed or unexpected and could not be executed. '' @
        ''Either respond directly in the required output format without calling tools, or emit a '' @
        ''valid tool call matching one of the declared tool schemas.''
      else
        ''IMPORTANT: No tools are available in this stage. Do NOT attempt to call any tools; '' @
        ''respond directly in the required output format using only the provided context.'')"

definition default_handle_provider_error :: "ai_error \<Rightarrow> nat \<Rightarrow> bool \<Rightarrow> error_action" where
  "default_handle_provider_error e attempt has_active_tools =
     (if is_malformed_tool_call_error (ae_text e) then
        RetryWithFeedback (malformed_tool_call_feedback has_active_tools)
      else if contains (ae_text e) ''RECITATION'' \<or> contains (ae_text e) ''blocked'' then
        RetryWithFeedback (''IMPORTANT: Your previous response was blocked by a recitation filter. '' @
          ''Please do NOT copy large blocks of code verbatim in your response. '' @
          ''Describe changes in prose, or use highly simplified pseudo-code if you must show code structure.'')
      else Fail)"

definition default_validation_feedback :: "string \<Rightarrow> string" where
  "default_validation_feedback violation =
     ''Previous attempt was rejected: '' @ violation @ ''. Please correct your output format.''"

text \<open>\<open>call_tools\<close> by default: one call after the other, an error of a tool being its answer.\<close>

fun default_call_tools ::
  "json_ops \<Rightarrow> ('s \<Rightarrow> string \<Rightarrow> json_value \<Rightarrow> (ai_error + json_value) \<times> 's) \<Rightarrow> 's \<Rightarrow> tool_call list
     \<Rightarrow> (string \<times> json_value) list \<times> 's" where
  "default_call_tools json call_tool s [] = ([], s)"
| "default_call_tools json call_tool s (c # cs) =
     (let (res, s') = call_tool s (tc_function_name c) (tc_arguments c);
          answer = (case res of Inr v \<Rightarrow> v | Inl e \<Rightarrow> jo_error json (ae_text e));
          (rest, s'') = default_call_tools json call_tool s' cs
      in ((tc_id c, answer) # rest, s''))"

section \<open>The runner\<close>

record session_runner =
  sn_max_turns :: nat
  sn_max_validation_attempts :: nat
  sn_max_transient_retries :: nat
  sn_max_provider_error_retries :: nat

definition session_runner_new :: session_runner where
  "session_runner_new = \<lparr>sn_max_turns = 15, sn_max_validation_attempts = 3, sn_max_transient_retries = 5,
     sn_max_provider_error_retries = 3\<rparr>"

record 'o session_result =
  sx_output :: 'o
  sx_history :: "ai_message list"
  sx_usage :: ai_usage

record session_failure =
  sf_message :: string
  sf_history :: "ai_message list"
  sf_usage :: ai_usage

text \<open>The error of a run: the failure, and the error it is the context of, if any.\<close>

record session_error =
  se_failure :: session_failure
  se_cause :: "ai_error option"

record ('s, 'opt) session_run =
  sr_session :: 's
  sr_history :: "ai_message list"
  sr_log_history :: "ai_message list"
  sr_turns :: nat
  sr_validation_attempts :: nat
  sr_rejected :: "'opt ai_request list"
  sr_transient_retries :: nat
  sr_provider_error_retries :: nat
  sr_pushed_final_turn_prompt :: bool
  sr_prompt_tokens :: nat
  sr_completion_tokens :: nat
  sr_cached_tokens :: nat
  sr_exchanges :: "('opt ai_request \<times> (ai_error + ai_response)) list"
  sr_forgotten :: "'opt ai_request list"
  sr_pauses :: "nat list"

type_synonym ('s, 'o, 'opt) session_end = "(session_error + 'o session_result) \<times> ('s, 'opt) session_run"

definition session_start :: "('s, 'o, 'opt) llm_session \<Rightarrow> 's \<Rightarrow> ('s, 'opt) session_run" where
  "session_start ses s =
     \<lparr>sr_session = s, sr_history = [user_message (ss_initial_user_prompt ses s)],
      sr_log_history = [user_message (ss_log_user_prompt ses s)],
      sr_turns = 0, sr_validation_attempts = 0, sr_rejected = [], sr_transient_retries = 0,
      sr_provider_error_retries = 0, sr_pushed_final_turn_prompt = False, sr_prompt_tokens = 0,
      sr_completion_tokens = 0, sr_cached_tokens = 0, sr_exchanges = [], sr_forgotten = [], sr_pauses = []\<rparr>"

definition run_usage :: "('s, 'opt) session_run \<Rightarrow> ai_usage" where
  "run_usage run =
     \<lparr>au_prompt_tokens = sr_prompt_tokens run, au_completion_tokens = sr_completion_tokens run,
      au_total_tokens = sat_add usize_max (sr_prompt_tokens run) (sr_completion_tokens run),
      au_cached_tokens = Some (sr_cached_tokens run)\<rparr>"

definition fail_run :: "string \<Rightarrow> ai_error option \<Rightarrow> ('s, 'opt) session_run \<Rightarrow> ('s, 'o, 'opt) session_end" where
  "fail_run message cause run =
     (Inl \<lparr>se_failure = \<lparr>sf_message = message, sf_history = sr_log_history run, sf_usage = run_usage run\<rparr>,
           se_cause = cause\<rparr>, run)"

definition push :: "ai_message list \<Rightarrow> ('s, 'opt) session_run \<Rightarrow> ('s, 'opt) session_run" where
  "push msgs run = run\<lparr>sr_history := sr_history run @ msgs, sr_log_history := sr_log_history run @ msgs\<rparr>"

definition forget :: "'opt ai_request list \<Rightarrow> ('s, 'opt) session_run \<Rightarrow> ('s, 'opt) session_run" where
  "forget requests run = run\<lparr>sr_forgotten := sr_forgotten run @ requests\<rparr>"

text \<open>A retry does not count as a turn.\<close>

definition undo_turn :: "('s, 'opt) session_run \<Rightarrow> ('s, 'opt) session_run" where
  "undo_turn run = run\<lparr>sr_turns := sr_turns run - 1\<rparr>"

definition final_turn_prompt :: string where
  "final_turn_prompt = ''TURN BUDGET EXHAUSTED: You have reached the maximum allowed investigation turns. '' @
     ''Do NOT call any tools. Synthesize your final JSON verdict now based on the evidence gathered so far.''"

definition is_final_turn :: "session_runner \<Rightarrow> ('s, 'opt) session_run \<Rightarrow> bool" where
  "is_final_turn cfg run \<longleftrightarrow> sr_turns run = sn_max_turns cfg"

definition announce_final_turn :: "session_runner \<Rightarrow> ('s, 'opt) session_run \<Rightarrow> ('s, 'opt) session_run" where
  "announce_final_turn cfg run =
     (if is_final_turn cfg run \<and> 1 < sr_turns run \<and> \<not> sr_pushed_final_turn_prompt run
      then push [user_message final_turn_prompt] (run\<lparr>sr_pushed_final_turn_prompt := True\<rparr>) else run)"

definition session_request ::
  "session_runner \<Rightarrow> ('s, 'o, 'opt) llm_session \<Rightarrow> ('s, 'opt) session_run \<Rightarrow> 'opt ai_request" where
  "session_request cfg ses run =
     \<lparr>rq_system = Some (ss_system_prompt ses (sr_session run)), rq_messages = sr_history run,
      rq_tools = (if is_final_turn cfg run then None else ss_tools ses (sr_session run)),
      rq_settings = ss_settings ses (sr_session run)\<rparr>"

definition on_retryable_error ::
  "session_runner \<Rightarrow> ai_error \<Rightarrow> nat \<Rightarrow> ('s, 'opt) session_run \<Rightarrow> ('s, 'opt) session_run + ('s, 'o, 'opt) session_end" where
  "on_retryable_error cfg e retry_after run0 =
     (let run = run0\<lparr>sr_transient_retries := sat_add usize_max (sr_transient_retries run0) 1\<rparr>
      in if sn_max_transient_retries cfg < sr_transient_retries run
         then Inr (fail_run (''Session failed after '' @ nat_str (sn_max_transient_retries cfg)
                     @ '' transient/rate-limit errors. Last error: '' @ ae_text e) None run)
         else Inl (undo_turn (run\<lparr>sr_pauses := sr_pauses run @ [retry_after]\<rparr>)))"

definition on_fatal_error ::
  "session_runner \<Rightarrow> ('s, 'o, 'opt) llm_session \<Rightarrow> 'opt ai_request \<Rightarrow> ai_error \<Rightarrow> ('s, 'opt) session_run
     \<Rightarrow> ('s, 'opt) session_run + ('s, 'o, 'opt) session_end" where
  "on_fatal_error cfg ses sent e run0 =
     (let has_active_tools = (case rq_tools sent of None \<Rightarrow> False | Some ts \<Rightarrow> ts \<noteq> []);
          (action, s) = ss_handle_provider_error ses (sr_session run0) e (sr_provider_error_retries run0) has_active_tools;
          run = run0\<lparr>sr_session := s\<rparr>
      in case action of
           RetryWithFeedback feedback \<Rightarrow>
             (let run = run\<lparr>sr_provider_error_retries := sat_add usize_max (sr_provider_error_retries run) 1\<rparr>
              in if sn_max_provider_error_retries cfg < sr_provider_error_retries run
                 then Inr (fail_run (''Session failed after '' @ nat_str (sn_max_provider_error_retries cfg)
                             @ '' provider error retries. Last error: '' @ ae_text e) None (forget (sr_rejected run) run))
                 else Inl (undo_turn (push [user_message feedback] run)))
         | Fail \<Rightarrow> Inr (fail_run (ae_text e) (Some e) (forget (sr_rejected run) run)))"

definition add_usage :: "ai_usage option \<Rightarrow> ('s, 'opt) session_run \<Rightarrow> ('s, 'opt) session_run" where
  "add_usage usage run =
     (case usage of
        None \<Rightarrow> run
      | Some u \<Rightarrow> run\<lparr>sr_prompt_tokens := sat_add usize_max (sr_prompt_tokens run) (au_prompt_tokens u),
                     sr_completion_tokens := sat_add usize_max (sr_completion_tokens run) (au_completion_tokens u),
                     sr_cached_tokens := sat_add usize_max (sr_cached_tokens run)
                       (case au_cached_tokens u of None \<Rightarrow> 0 | Some n \<Rightarrow> n)\<rparr>)"

definition on_validation ::
  "session_runner \<Rightarrow> ('s, 'o, 'opt) llm_session \<Rightarrow> 'opt ai_request \<Rightarrow> ai_response \<Rightarrow> ('s, 'opt) session_run
     \<Rightarrow> ('s, 'opt) session_run + ('s, 'o, 'opt) session_end" where
  "on_validation cfg ses sent resp run0 =
     (let (res, s) = ss_validate ses (sr_session run0) resp; run = run0\<lparr>sr_session := s\<rparr>
      in case res of
           Inr out \<Rightarrow> Inr (Inr \<lparr>sx_output = out, sx_history = sr_log_history run, sx_usage = run_usage run\<rparr>, run)
         | Inl (FormatViolation violation) \<Rightarrow>
             (let run = run\<lparr>sr_rejected := sr_rejected run @ [sent], sr_validation_attempts := sr_validation_attempts run + 1\<rparr>
              in if sn_max_validation_attempts cfg \<le> sr_validation_attempts run
                 then Inr (fail_run (''Failed to generate valid response after '' @ nat_str (sn_max_validation_attempts cfg)
                             @ '' validation attempts. Last violation: '' @ violation) None (forget (sr_rejected run) run))
                 else Inl (undo_turn (push [user_message (ss_format_validation_feedback ses (sr_session run) violation)] run)))
         | Inl (ValidationFatal err) \<Rightarrow> Inr (fail_run (''Fatal validation error: '' @ err) None run))"

definition on_response ::
  "session_runner \<Rightarrow> ('s, 'o, 'opt) llm_session \<Rightarrow> 'opt ai_request \<Rightarrow> ai_response \<Rightarrow> ('s, 'opt) session_run
     \<Rightarrow> ('s, 'opt) session_run + ('s, 'o, 'opt) session_end" where
  "on_response cfg ses sent resp run0 =
     (if rp_truncated resp
      then Inr (fail_run ''LLM output was truncated by provider (e.g. hit max tokens)'' None
                  (forget (sr_rejected run0 @ [sent]) run0))
      else let run = push [assistant_message resp] (add_usage (rp_usage resp) run0)
           in case rp_tool_calls resp of
                Some calls \<Rightarrow>
                  if calls \<noteq> [] \<and> \<not> is_final_turn cfg run then
                    (case ss_call_tools ses (sr_session run) calls of
                       (Inl e, s) \<Rightarrow> Inr (fail_run (ae_text e) (Some e) (run\<lparr>sr_session := s\<rparr>))
                     | (Inr results, s) \<Rightarrow> Inl (push (map tool_message results) (run\<lparr>sr_session := s\<rparr>)))
                  else on_validation cfg ses sent resp run
              | None \<Rightarrow> on_validation cfg ses sent resp run)"

text \<open>The request of a turn, its answer, and the state afterwards.\<close>

definition send_request ::
  "session_runner \<Rightarrow> ('s, 'o, 'opt) llm_session \<Rightarrow> 'opt ai_provider \<Rightarrow> ('s, 'opt) session_run
     \<Rightarrow> 'opt ai_request \<times> (ai_error + ai_response) \<times> ('s, 'opt) session_run" where
  "send_request cfg ses provider run0 =
     (let run = announce_final_turn cfg run0;
          sent = session_request cfg ses run;
          reply = provider (length (sr_exchanges run)) sent
      in (sent, reply, run\<lparr>sr_exchanges := sr_exchanges run @ [(sent, reply)]\<rparr>))"

text \<open>One turn of the loop: either the next state or the end.\<close>

definition session_step ::
  "session_runner \<Rightarrow> ('s, 'o, 'opt) llm_session \<Rightarrow> 'opt ai_provider \<Rightarrow> ('s, 'opt) session_run
     \<Rightarrow> ('s, 'opt) session_run + ('s, 'o, 'opt) session_end" where
  "session_step cfg ses provider run0 =
     (let run = run0\<lparr>sr_turns := sat_add usize_max (sr_turns run0) 1\<rparr>
      in if sn_max_turns cfg < sr_turns run
         then Inr (fail_run (''Session exceeded max turns limit ('' @ nat_str (sn_max_turns cfg) @ '')'') None run)
         else (case send_request cfg ses provider run of
                 (sent, Inr resp, run) \<Rightarrow> on_response cfg ses sent resp run
               | (sent, Inl e, run) \<Rightarrow>
                   (case ae_class e of
                      RateLimit t \<Rightarrow> on_retryable_error cfg e t run
                    | Transient t \<Rightarrow> on_retryable_error cfg e t run
                    | Fatal \<Rightarrow> on_fatal_error cfg ses sent e run)))"

text \<open>The loop. That it ends is a theorem, not part of its definition.\<close>

partial_function (option) session_loop ::
  "session_runner \<Rightarrow> ('s, 'o, 'opt) llm_session \<Rightarrow> 'opt ai_provider \<Rightarrow> ('s, 'opt) session_run
     \<Rightarrow> ('s, 'o, 'opt) session_end option" where
  "session_loop cfg ses provider run =
     (if isl (session_step cfg ses provider run) then session_loop cfg ses provider (projl (session_step cfg ses provider run))
      else Some (projr (session_step cfg ses provider run)))"

declare session_loop.simps [code]

definition run_session ::
  "session_runner \<Rightarrow> ('s, 'o, 'opt) llm_session \<Rightarrow> 'opt ai_provider \<Rightarrow> 's \<Rightarrow> ('s, 'o, 'opt) session_end option" where
  "run_session cfg ses provider s = session_loop cfg ses provider (session_start ses s)"

section \<open>Termination\<close>

text \<open>What is left of the limits: every turn that does not end the run uses up some of it.\<close>

definition room :: "session_runner \<Rightarrow> ('s, 'opt) session_run \<Rightarrow> nat" where
  "room cfg run = (sn_max_turns cfg - sr_turns run) + (sn_max_transient_retries cfg - sr_transient_retries run)
     + (sn_max_provider_error_retries cfg - sr_provider_error_retries run)
     + (sn_max_validation_attempts cfg - sr_validation_attempts run)"

definition limits_ok :: "session_runner \<Rightarrow> bool" where
  "limits_ok cfg \<longleftrightarrow> sn_max_turns cfg < usize_max \<and> sn_max_transient_retries cfg < usize_max
     \<and> sn_max_provider_error_retries cfg < usize_max"

definition within_limits :: "session_runner \<Rightarrow> ('s, 'opt) session_run \<Rightarrow> bool" where
  "within_limits cfg run \<longleftrightarrow> sr_turns run \<le> sn_max_turns cfg
     \<and> sr_transient_retries run \<le> sn_max_transient_retries cfg
     \<and> sr_provider_error_retries run \<le> sn_max_provider_error_retries cfg
     \<and> (sr_validation_attempts run = 0 \<or> sr_validation_attempts run < sn_max_validation_attempts cfg)"

lemmas session_ops = on_retryable_error_def on_fatal_error_def on_validation_def on_response_def
  fail_run_def push_def forget_def undo_turn_def add_usage_def announce_final_turn_def

lemmas session_splits = if_splits sum.splits option.splits prod.splits ai_error_class.splits error_action.splits
  validation_error.splits

text \<open>The counters and the exchanges that each part of a turn leaves as they are.\<close>

lemma announce_fields [simp]:
  "sr_turns (announce_final_turn cfg run) = sr_turns run"
  "sr_transient_retries (announce_final_turn cfg run) = sr_transient_retries run"
  "sr_provider_error_retries (announce_final_turn cfg run) = sr_provider_error_retries run"
  "sr_validation_attempts (announce_final_turn cfg run) = sr_validation_attempts run"
  "sr_exchanges (announce_final_turn cfg run) = sr_exchanges run"
  by (simp_all add: announce_final_turn_def push_def)

lemma add_usage_fields [simp]:
  "sr_turns (add_usage u run) = sr_turns run"
  "sr_transient_retries (add_usage u run) = sr_transient_retries run"
  "sr_provider_error_retries (add_usage u run) = sr_provider_error_retries run"
  "sr_validation_attempts (add_usage u run) = sr_validation_attempts run"
  "sr_exchanges (add_usage u run) = sr_exchanges run"
  by (simp_all add: add_usage_def split: option.splits)

text \<open>How a continued turn changes the counters: one of four ways.\<close>

definition continues :: "session_runner \<Rightarrow> ('s, 'opt) session_run \<Rightarrow> ('s, 'opt) session_run \<Rightarrow> bool" where
  "continues cfg run run' \<longleftrightarrow> sr_exchanges run' = sr_exchanges run
     \<and> ((sr_turns run' = sr_turns run - 1
           \<and> sr_transient_retries run' = sat_add usize_max (sr_transient_retries run) 1
           \<and> sr_transient_retries run' \<le> sn_max_transient_retries cfg
           \<and> sr_provider_error_retries run' = sr_provider_error_retries run
           \<and> sr_validation_attempts run' = sr_validation_attempts run)
        \<or> (sr_turns run' = sr_turns run - 1 \<and> sr_transient_retries run' = sr_transient_retries run
           \<and> sr_provider_error_retries run' = sat_add usize_max (sr_provider_error_retries run) 1
           \<and> sr_provider_error_retries run' \<le> sn_max_provider_error_retries cfg
           \<and> sr_validation_attempts run' = sr_validation_attempts run)
        \<or> (sr_turns run' = sr_turns run - 1 \<and> sr_transient_retries run' = sr_transient_retries run
           \<and> sr_provider_error_retries run' = sr_provider_error_retries run
           \<and> sr_validation_attempts run' = sr_validation_attempts run + 1
           \<and> sr_validation_attempts run' < sn_max_validation_attempts cfg)
        \<or> (sr_turns run' = sr_turns run \<and> sr_transient_retries run' = sr_transient_retries run
           \<and> sr_provider_error_retries run' = sr_provider_error_retries run
           \<and> sr_validation_attempts run' = sr_validation_attempts run))"

lemma continues_retryable:
  assumes "on_retryable_error cfg e t run = Inl run'"
  shows "continues cfg run run'"
proof -
  have "\<not> sn_max_transient_retries cfg < sat_add usize_max (sr_transient_retries run) 1"
    and "run' = undo_turn (run\<lparr>sr_transient_retries := sat_add usize_max (sr_transient_retries run) 1,
      sr_pauses := sr_pauses run @ [t]\<rparr>)"
    using assms by (simp_all add: on_retryable_error_def Let_def split: if_splits)
  then show ?thesis by (simp add: continues_def undo_turn_def)
qed

lemma continues_fatal:
  assumes "on_fatal_error cfg ses sent e run = Inl run'"
  shows "continues cfg run run'"
proof -
  obtain s feedback where "\<not> sn_max_provider_error_retries cfg < sat_add usize_max (sr_provider_error_retries run) 1"
    and "run' = undo_turn (push [user_message feedback]
      (run\<lparr>sr_session := s, sr_provider_error_retries := sat_add usize_max (sr_provider_error_retries run) 1\<rparr>))"
    using assms by (simp add: on_fatal_error_def Let_def split: if_splits prod.splits error_action.splits) metis
  then show ?thesis by (simp add: continues_def undo_turn_def push_def)
qed

lemma continues_validation:
  assumes "on_validation cfg ses sent resp run = Inl run'"
  shows "continues cfg run run'"
proof -
  obtain s feedback where "\<not> sn_max_validation_attempts cfg \<le> sr_validation_attempts run + 1"
    and "run' = undo_turn (push [user_message feedback] (run\<lparr>sr_session := s, sr_rejected := sr_rejected run @ [sent],
      sr_validation_attempts := sr_validation_attempts run + 1\<rparr>))"
    using assms
    by (simp add: on_validation_def Let_def split: if_splits prod.splits sum.splits validation_error.splits) metis
  then show ?thesis by (simp add: continues_def undo_turn_def push_def)
qed

lemma continues_after:
  assumes "continues cfg run' run''" and "sr_turns run' = sr_turns run"
    and "sr_transient_retries run' = sr_transient_retries run"
    and "sr_provider_error_retries run' = sr_provider_error_retries run"
    and "sr_validation_attempts run' = sr_validation_attempts run" and "sr_exchanges run' = sr_exchanges run"
  shows "continues cfg run run''"
  using assms by (simp add: continues_def)

lemma continues_response: "on_response cfg ses sent resp run = Inl run' \<Longrightarrow> continues cfg run run'"
proof -
  assume r: "on_response cfg ses sent resp run = Inl run'"
  let ?run = "push [assistant_message resp] (add_usage (rp_usage resp) run)"
  have "on_validation cfg ses sent resp ?run = Inl run'
     \<or> (\<exists>results s. run' = push (map tool_message results) (?run\<lparr>sr_session := s\<rparr>))"
    using r by (auto simp: on_response_def Let_def split: if_splits option.splits prod.splits sum.splits)
  then show ?thesis
  proof
    assume "on_validation cfg ses sent resp ?run = Inl run'"
    then have "continues cfg ?run run'" by (rule continues_validation)
    then show ?thesis by (rule continues_after) (simp_all add: push_def)
  qed (auto simp: continues_def push_def)
qed

text \<open>A turn either fails at the limit of turns or consists of a request and the handling of its answer.\<close>

definition next_turn :: "('s, 'opt) session_run \<Rightarrow> ('s, 'opt) session_run" where
  "next_turn run = run\<lparr>sr_turns := sat_add usize_max (sr_turns run) 1\<rparr>"

definition handle_reply ::
  "session_runner \<Rightarrow> ('s, 'o, 'opt) llm_session \<Rightarrow> 'opt ai_request \<Rightarrow> ai_error + ai_response \<Rightarrow> ('s, 'opt) session_run
     \<Rightarrow> ('s, 'opt) session_run + ('s, 'o, 'opt) session_end" where
  "handle_reply cfg ses sent reply run =
     (case reply of
        Inr resp \<Rightarrow> on_response cfg ses sent resp run
      | Inl e \<Rightarrow> (case ae_class e of
          RateLimit t \<Rightarrow> on_retryable_error cfg e t run
        | Transient t \<Rightarrow> on_retryable_error cfg e t run
        | Fatal \<Rightarrow> on_fatal_error cfg ses sent e run))"

lemma session_step_turn:
  assumes "sr_turns (next_turn run0) \<le> sn_max_turns cfg"
    and "send_request cfg ses provider (next_turn run0) = (sent, reply, run)"
  shows "session_step cfg ses provider run0 = handle_reply cfg ses sent reply run"
  using assms by (simp add: session_step_def handle_reply_def next_turn_def split: sum.splits)

lemma session_step_limit:
  assumes "sn_max_turns cfg < sr_turns (next_turn run0)"
  shows "session_step cfg ses provider run0 =
    Inr (fail_run (''Session exceeded max turns limit ('' @ nat_str (sn_max_turns cfg) @ '')'') None (next_turn run0))"
  using assms by (simp add: session_step_def next_turn_def)

lemma send_request_fields:
  assumes "send_request cfg ses provider run0 = (sent, reply, run)"
  shows "sr_turns run = sr_turns run0"
    and "sr_transient_retries run = sr_transient_retries run0"
    and "sr_provider_error_retries run = sr_provider_error_retries run0"
    and "sr_validation_attempts run = sr_validation_attempts run0"
    and "sr_exchanges run = sr_exchanges run0 @ [(sent, reply)]"
    and "reply = provider (length (sr_exchanges run0)) sent"
    and "sent = session_request cfg ses (announce_final_turn cfg run0)"
  using assms by (auto simp: send_request_def Let_def)

lemma continues_reply: "handle_reply cfg ses sent reply run = Inl run' \<Longrightarrow> continues cfg run run'"
  by (auto simp: handle_reply_def continues_retryable continues_fatal continues_response
      split: sum.splits ai_error_class.splits)

text \<open>The end of a run keeps the exchanges made so far.\<close>

lemma ends_keep_exchanges:
  "on_retryable_error cfg e t run = Inr r \<Longrightarrow> sr_exchanges (snd r) = sr_exchanges run"
  "on_fatal_error cfg ses sent e run = Inr r \<Longrightarrow> sr_exchanges (snd r) = sr_exchanges run"
  "on_validation cfg ses sent resp run = Inr r \<Longrightarrow> sr_exchanges (snd r) = sr_exchanges run"
  by (auto simp: on_retryable_error_def on_fatal_error_def on_validation_def fail_run_def forget_def Let_def
      split: if_splits prod.splits error_action.splits sum.splits validation_error.splits)

lemma response_end_keeps_exchanges:
  assumes "on_response cfg ses sent resp run = Inr r"
  shows "sr_exchanges (snd r) = sr_exchanges run"
proof -
  let ?run = "push [assistant_message resp] (add_usage (rp_usage resp) run)"
  have "on_validation cfg ses sent resp ?run = Inr r \<or> sr_exchanges (snd r) = sr_exchanges run"
    using assms by (auto simp: on_response_def Let_def fail_run_def forget_def push_def
        split: if_splits option.splits prod.splits sum.splits)
  then show ?thesis using ends_keep_exchanges(3) [of cfg ses sent resp ?run r] by (auto simp: push_def)
qed

lemma reply_end_keeps_exchanges: "handle_reply cfg ses sent reply run = Inr r \<Longrightarrow> sr_exchanges (snd r) = sr_exchanges run"
  by (auto simp: handle_reply_def ends_keep_exchanges response_end_keeps_exchanges
      split: sum.splits ai_error_class.splits)

lemma turn_count:
  assumes "within_limits cfg run" and "limits_ok cfg"
  shows "sr_turns (next_turn run) = sr_turns run + 1"
  using assms by (simp add: next_turn_def within_limits_def limits_ok_def sat_add_exact)

lemma step_room:
  assumes "session_step cfg ses provider run = Inl run'" and "within_limits cfg run" and "limits_ok cfg"
  shows "within_limits cfg run' \<and> room cfg run' < room cfg run
    \<and> length (sr_exchanges run') = Suc (length (sr_exchanges run))"
proof -
  have turns: "sr_turns (next_turn run) \<le> sn_max_turns cfg"
    using assms(1) session_step_limit [of cfg run ses provider] by (fastforce simp: not_le)
  obtain sent reply run1 where s: "send_request cfg ses provider (next_turn run) = (sent, reply, run1)"
    by (rule prod_cases3)
  have cont: "continues cfg run1 run'"
    using assms(1) session_step_turn [OF turns s] continues_reply by simp
  have exact: "sat_add usize_max (sr_transient_retries run) 1 = sr_transient_retries run + 1"
    "sat_add usize_max (sr_provider_error_retries run) 1 = sr_provider_error_retries run + 1"
    using assms(2,3) by (simp_all add: within_limits_def limits_ok_def sat_add_exact)
  have same: "sr_turns run1 = sr_turns run + 1" "sr_transient_retries run1 = sr_transient_retries run"
    "sr_provider_error_retries run1 = sr_provider_error_retries run"
    "sr_validation_attempts run1 = sr_validation_attempts run" "length (sr_exchanges run1) = Suc (length (sr_exchanges run))"
    using send_request_fields [OF s] turn_count [OF assms(2,3)] by (simp_all add: next_turn_def)
  have "sr_turns run + 1 \<le> sn_max_turns cfg" using turns turn_count [OF assms(2,3)] by simp
  then show ?thesis
    using cont assms(2) same(5) unfolding continues_def within_limits_def room_def same(1-4) exact by auto
qed

lemma step_end_exchanges:
  assumes "session_step cfg ses provider run = Inr r" and "within_limits cfg run" and "limits_ok cfg"
  shows "length (sr_exchanges (snd r)) \<le> length (sr_exchanges run) + room cfg run"
proof (cases "sn_max_turns cfg < sr_turns (next_turn run)")
  case True
  with assms(1) session_step_limit [OF True, of ses provider] show ?thesis by (auto simp: fail_run_def next_turn_def)
next
  case False
  then have turns: "sr_turns (next_turn run) \<le> sn_max_turns cfg" by simp
  obtain sent reply run1 where s: "send_request cfg ses provider (next_turn run) = (sent, reply, run1)"
    by (rule prod_cases3)
  have "sr_exchanges (snd r) = sr_exchanges run1"
    using assms(1) session_step_turn [OF turns s] reply_end_keeps_exchanges by simp
  moreover have "1 \<le> room cfg run" using turns turn_count [OF assms(2,3)] by (simp add: room_def)
  ultimately show ?thesis using send_request_fields(5) [OF s] by (simp add: next_turn_def)
qed

lemma session_loop_ends:
  assumes "within_limits cfg run" and "limits_ok cfg"
  shows "\<exists>r. session_loop cfg ses provider run = Some r
    \<and> length (sr_exchanges (snd r)) \<le> length (sr_exchanges run) + room cfg run"
  using assms(1)
proof (induction "room cfg run" arbitrary: run rule: less_induct)
  case less
  show ?case
  proof (cases "session_step cfg ses provider run")
    case (Inr r)
    then show ?thesis
      using step_end_exchanges [OF Inr less.prems assms(2)] by (subst session_loop.simps) simp
  next
    case (Inl run')
    note st = step_room [OF Inl less.prems assms(2)]
    obtain r where "session_loop cfg ses provider run' = Some r"
      "length (sr_exchanges (snd r)) \<le> length (sr_exchanges run') + room cfg run'"
      using less.hyps [of run'] st by auto
    with Inl st show ?thesis by (subst session_loop.simps) auto
  qed
qed

text \<open>
  C8. A session always ends, with a validated output or a failure, whatever the provider, the tools and the validation do; and it asks the provider
  at most as often as turns, retries after transient errors, retries after provider errors and validation attempts
  are allowed together.
\<close>

theorem session_terminates:
  assumes "limits_ok cfg"
  shows "\<exists>r. run_session cfg ses provider s = Some r
    \<and> length (sr_exchanges (snd r)) \<le> sn_max_turns cfg + sn_max_transient_retries cfg
        + sn_max_provider_error_retries cfg + sn_max_validation_attempts cfg"
proof -
  have "within_limits cfg (session_start ses s)" by (simp add: within_limits_def session_start_def)
  from session_loop_ends [OF this assms, of ses provider] show ?thesis
    by (simp add: run_session_def room_def session_start_def)
qed

text \<open>A session against a provider whose requests fail forever.\<close>

definition demo_session :: "(unit, nat, unit) llm_session" where
  "demo_session = \<lparr>ss_system_prompt = \<lambda>_. ''s'', ss_initial_user_prompt = \<lambda>_. ''go'', ss_log_user_prompt = \<lambda>_. ''log'',
     ss_format_validation_feedback = \<lambda>_. default_validation_feedback,
     ss_tools = \<lambda>_. Some [\<lparr>at_name = ''t'', at_description = '''', at_parameters = JOther ''{}''\<rparr>],
     ss_settings = \<lambda>_. (),
     ss_call_tools = \<lambda>s calls. (Inr (map (\<lambda>c. (tc_id c, JString ''done'')) calls), s),
     ss_validate = \<lambda>s resp. (if rp_content resp = Some ''7'' then Inr 7 else Inl (FormatViolation ''not seven''), s),
     ss_handle_provider_error = \<lambda>s e n t. (default_handle_provider_error e n t, s)\<rparr>"

theorem session_terminates_witness:
  "\<exists>r. run_session session_runner_new demo_session (\<lambda>_ _. Inl \<lparr>ae_class = Transient 5, ae_text = ''down''\<rparr>) () = Some r
     \<and> length (sr_exchanges (snd r)) \<le> 26"
proof -
  have "limits_ok session_runner_new" by (simp add: limits_ok_def session_runner_new_def usize_max_def)
  from session_terminates [OF this, of demo_session "\<lambda>_ _. Inl \<lparr>ae_class = Transient 5, ae_text = ''down''\<rparr>" "()"]
  show ?thesis by (simp add: session_runner_new_def)
qed

section \<open>What a session returns\<close>

lemma session_loop_induct:
  assumes "session_loop cfg ses provider run = Some r" and "I run"
    and "\<And>run run'. I run \<Longrightarrow> session_step cfg ses provider run = Inl run' \<Longrightarrow> I run'"
    and "\<And>run r. I run \<Longrightarrow> session_step cfg ses provider run = Inr r \<Longrightarrow> Q r"
  shows "Q r"
  using assms
proof (induction rule: session_loop.raw_induct)
  case (1 loop cfg ses provider run r)
  show ?case
  proof (cases "session_step cfg ses provider run")
    case (Inl run')
    with 1(2) have l: "loop cfg ses provider run' = Some r" by simp
    have "session_loop cfg ses provider run' = Some r"
      using 1(3) Inl by (subst (asm) session_loop.simps) simp
    from 1(1) [OF l this 1(5) [OF 1(4) Inl]] 1(5,6) show ?thesis by meson
  next
    case (Inr r')
    with 1(2) have "r' = r" by simp
    with 1(6) [OF 1(4)] Inr show ?thesis by simp
  qed
qed (fact assms(1))

text \<open>The responses that count: those not cut off.\<close>

definition accepted :: "('opt ai_request \<times> (ai_error + ai_response)) list \<Rightarrow> ai_response list" where
  "accepted exchanges = List.map_filter
     (\<lambda>x. case snd x of Inl _ \<Rightarrow> None | Inr resp \<Rightarrow> if rp_truncated resp then None else Some resp) exchanges"

definition spent :: "(ai_usage \<Rightarrow> nat) \<Rightarrow> ai_response list \<Rightarrow> nat" where
  "spent f rs = sum_list (map (\<lambda>r. case rp_usage r of None \<Rightarrow> 0 | Some u \<Rightarrow> f u) rs)"

definition cached_of :: "ai_usage \<Rightarrow> nat" where
  "cached_of u = (case au_cached_tokens u of None \<Rightarrow> 0 | Some n \<Rightarrow> n)"

definition accounted :: "ai_response list \<Rightarrow> ('s, 'opt) session_run \<Rightarrow> bool" where
  "accounted rs run \<longleftrightarrow>
     sr_prompt_tokens run = min usize_max (spent au_prompt_tokens rs)
     \<and> sr_completion_tokens run = min usize_max (spent au_completion_tokens rs)
     \<and> sr_cached_tokens run = min usize_max (spent cached_of rs)
     \<and> filter (\<lambda>m. am_role m = Assistant) (sr_log_history run) = map assistant_message rs
     \<and> tl (sr_history run) = tl (sr_log_history run) \<and> sr_history run \<noteq> [] \<and> sr_log_history run \<noteq> []"

definition reports :: "session_error + 'o session_result \<Rightarrow> ('s, 'opt) session_run \<Rightarrow> bool" where
  "reports res run \<longleftrightarrow>
     (case res of
        Inl e \<Rightarrow> sf_history (se_failure e) = sr_log_history run \<and> sf_usage (se_failure e) = run_usage run
      | Inr ok \<Rightarrow> sx_history ok = sr_log_history run \<and> sx_usage ok = run_usage run)"

lemma accounted_start: "accounted [] (session_start ses s)"
  by (simp add: accounted_def session_start_def spent_def user_message_def)

lemma accounted_push_other:
  assumes "accounted rs run" and "\<forall>m \<in> set msgs. am_role m \<noteq> Assistant"
  shows "accounted rs (push msgs run)"
  using assms by (simp add: accounted_def push_def filter_empty_conv)

lemma accounted_upd [simp]:
  "accounted rs (run\<lparr>sr_turns := n\<rparr>) = accounted rs run"
  "accounted rs (run\<lparr>sr_session := s\<rparr>) = accounted rs run"
  "accounted rs (run\<lparr>sr_transient_retries := n\<rparr>) = accounted rs run"
  "accounted rs (run\<lparr>sr_provider_error_retries := n\<rparr>) = accounted rs run"
  "accounted rs (run\<lparr>sr_validation_attempts := n\<rparr>) = accounted rs run"
  "accounted rs (run\<lparr>sr_rejected := rq\<rparr>) = accounted rs run"
  "accounted rs (run\<lparr>sr_forgotten := rq\<rparr>) = accounted rs run"
  "accounted rs (run\<lparr>sr_pauses := p\<rparr>) = accounted rs run"
  "accounted rs (run\<lparr>sr_exchanges := ex\<rparr>) = accounted rs run"
  "accounted rs (run\<lparr>sr_pushed_final_turn_prompt := b\<rparr>) = accounted rs run"
  by (simp_all add: accounted_def)

lemma sat_add_min: "sat_add m (min m a) b = min m (a + b)"
  by (simp add: sat_add_def)

lemma accounted_response:
  assumes "accounted rs run"
  shows "accounted (rs @ [resp]) (push [assistant_message resp] (add_usage (rp_usage resp) run))"
  using assms
  by (cases "rp_usage resp")
    (auto simp: accounted_def push_def add_usage_def spent_def sat_add_min cached_of_def assistant_message_def)

lemma user_not_assistant [simp]: "am_role (user_message s) \<noteq> Assistant" "am_role (tool_message a) \<noteq> Assistant"
  by (simp_all add: user_message_def tool_message_def)

lemma accounted_next_turn [simp]: "accounted rs (next_turn run) = accounted rs run"
  by (simp add: next_turn_def)

lemma accounted_announce: "accounted rs run \<Longrightarrow> accounted rs (announce_final_turn cfg run)"
  by (simp add: announce_final_turn_def accounted_push_other)

lemma accounted_send:
  assumes "send_request cfg ses provider run0 = (sent, reply, run)" and "accounted rs run0"
  shows "accounted rs run"
  using assms(1) accounted_announce [OF assms(2), of cfg] by (auto simp: send_request_def Let_def)

text \<open>How each handler of an answer ends or goes on.\<close>

definition keeps_account :: "ai_response list \<Rightarrow> ('s, 'opt) session_run + ('s, 'o, 'opt) session_end \<Rightarrow> bool" where
  "keeps_account rs out = (case out of Inl run \<Rightarrow> accounted rs run | Inr (res, run) \<Rightarrow> accounted rs run \<and> reports res run)"

lemma keeps_account_simps [simp]:
  "keeps_account rs (Inl run) = accounted rs run"
  "keeps_account rs (Inr (fail_run m c run)) = accounted rs run"
  "keeps_account rs (Inr (Inr \<lparr>sx_output = out, sx_history = sr_log_history run, sx_usage = run_usage run\<rparr>, run)) = accounted rs run"
  by (simp_all add: keeps_account_def fail_run_def reports_def)

lemma account_retryable: "accounted rs run \<Longrightarrow> keeps_account rs (on_retryable_error cfg e t run)"
  by (simp add: on_retryable_error_def Let_def undo_turn_def)

lemma account_fatal: "accounted rs run \<Longrightarrow> keeps_account rs (on_fatal_error cfg ses sent e run)"
  by (simp add: on_fatal_error_def Let_def undo_turn_def forget_def accounted_push_other
      split: prod.splits error_action.splits)

lemma account_validation: "accounted rs run \<Longrightarrow> keeps_account rs (on_validation cfg ses sent resp run)"
  by (simp add: on_validation_def Let_def undo_turn_def forget_def accounted_push_other keeps_account_def fail_run_def
      reports_def run_usage_def split: prod.splits sum.splits validation_error.splits)

lemma account_response:
  assumes "accounted rs run"
  shows "keeps_account (if rp_truncated resp then rs else rs @ [resp]) (on_response cfg ses sent resp run)"
  using assms accounted_response [OF assms, of resp] account_validation [OF accounted_response [OF assms, of resp], of cfg ses sent resp]
  by (simp add: on_response_def Let_def forget_def accounted_push_other split: option.splits prod.splits sum.splits)

lemma account_reply:
  assumes "accounted rs run"
  shows "keeps_account (rs @ accepted [(sent, reply)]) (handle_reply cfg ses sent reply run)"
proof (cases reply)
  case (Inl e)
  then show ?thesis
    by (simp add: handle_reply_def accepted_def account_retryable [OF assms] account_fatal [OF assms]
        split: ai_error_class.splits)
next
  case (Inr resp)
  then have "rs @ accepted [(sent, reply)] = (if rp_truncated resp then rs else rs @ [resp])"
    by (simp add: accepted_def)
  with Inr show ?thesis using account_response [OF assms, of resp cfg ses sent] by (simp add: handle_reply_def)
qed

text \<open>An output is what the validation of the last response gave.\<close>

lemma validated_end:
  assumes "on_validation cfg ses sent resp run = Inr (Inr ok, run')"
  shows "\<exists>s. fst (ss_validate ses s resp) = Inr (sx_output ok)"
proof -
  have "fst (ss_validate ses (sr_session run) resp) = Inr (sx_output ok)"
    using assms
    by (auto simp: on_validation_def fail_run_def Let_def split: prod.splits sum.splits validation_error.splits if_splits)
  then show ?thesis ..
qed

lemma validated_response:
  assumes "on_response cfg ses sent resp run = Inr (Inr ok, run')"
  shows "\<not> rp_truncated resp \<and> (\<exists>s. fst (ss_validate ses s resp) = Inr (sx_output ok))"
proof -
  let ?run = "push [assistant_message resp] (add_usage (rp_usage resp) run)"
  have "\<not> rp_truncated resp \<and> on_validation cfg ses sent resp ?run = Inr (Inr ok, run')"
    using assms by (auto simp: on_response_def fail_run_def Let_def split: if_splits option.splits prod.splits sum.splits)
  with validated_end show ?thesis by blast
qed

lemma validated_reply:
  assumes "handle_reply cfg ses sent reply run = Inr (Inr ok, run')"
  shows "\<exists>resp. reply = Inr resp \<and> \<not> rp_truncated resp \<and> (\<exists>s. fst (ss_validate ses s resp) = Inr (sx_output ok))"
proof (cases reply)
  case (Inl e)
  with assms show ?thesis
    by (auto simp: handle_reply_def on_retryable_error_def on_fatal_error_def fail_run_def Let_def
        split: ai_error_class.splits if_splits prod.splits error_action.splits)
next
  case (Inr resp)
  with assms have "on_response cfg ses sent resp run = Inr (Inr ok, run')" by (simp add: handle_reply_def)
  from validated_response [OF this] Inr show ?thesis by simp
qed

lemma accepted_append: "accepted (xs @ ys) = accepted xs @ accepted ys"
  by (induction xs) (auto simp: accepted_def split: option.splits)

lemma accounted_step:
  assumes "accounted (accepted (sr_exchanges run)) run"
  shows "session_step cfg ses provider run = Inl run' \<Longrightarrow> accounted (accepted (sr_exchanges run')) run'"
    and "session_step cfg ses provider run = Inr (res, run') \<Longrightarrow>
      accounted (accepted (sr_exchanges run')) run' \<and> reports res run'
      \<and> (\<forall>ok. res = Inr ok \<longrightarrow> accepted (sr_exchanges run') \<noteq> []
           \<and> (\<exists>s. fst (ss_validate ses s (last (accepted (sr_exchanges run')))) = Inr (sx_output ok)))"
proof -
  obtain sent reply run1 where s: "send_request cfg ses provider (next_turn run) = (sent, reply, run1)"
    by (rule prod_cases3)
  have ex: "sr_exchanges run1 = sr_exchanges run @ [(sent, reply)]"
    using send_request_fields(5) [OF s] by (simp add: next_turn_def)
  have acc: "accounted (accepted (sr_exchanges run)) run1"
    using accounted_send [OF s] assms by simp
  note reply_ok = account_reply [OF acc, of sent reply cfg ses, folded accepted_append ex]
  show "accounted (accepted (sr_exchanges run')) run'" if step: "session_step cfg ses provider run = Inl run'"
  proof (cases "sr_turns (next_turn run) \<le> sn_max_turns cfg")
    case True
    with step session_step_turn [OF True s] have h: "handle_reply cfg ses sent reply run1 = Inl run'" by simp
    have "sr_exchanges run' = sr_exchanges run1" using continues_reply [OF h] by (simp add: continues_def)
    with reply_ok h show ?thesis by (simp add: ex)
  next
    case False
    with step session_step_limit [of cfg run ses provider] show ?thesis by simp
  qed
  show "accounted (accepted (sr_exchanges run')) run' \<and> reports res run'
      \<and> (\<forall>ok. res = Inr ok \<longrightarrow> accepted (sr_exchanges run') \<noteq> []
           \<and> (\<exists>s. fst (ss_validate ses s (last (accepted (sr_exchanges run')))) = Inr (sx_output ok)))"
    if step: "session_step cfg ses provider run = Inr (res, run')"
  proof (cases "sr_turns (next_turn run) \<le> sn_max_turns cfg")
    case True
    with step session_step_turn [OF True s] have h: "handle_reply cfg ses sent reply run1 = Inr (res, run')" by simp
    from reply_end_keeps_exchanges [OF h] have same: "sr_exchanges run' = sr_exchanges run1" by simp
    have "accepted (sr_exchanges run') \<noteq> []
        \<and> (\<exists>s. fst (ss_validate ses s (last (accepted (sr_exchanges run')))) = Inr (sx_output ok))" if "res = Inr ok" for ok
    proof -
      have "handle_reply cfg ses sent reply run1 = Inr (Inr ok, run')" using h that by simp
      from validated_reply [OF this]
      obtain resp where "reply = Inr resp" "\<not> rp_truncated resp" "\<exists>s. fst (ss_validate ses s resp) = Inr (sx_output ok)"
        by blast
      then show ?thesis by (simp add: same ex accepted_append) (simp add: accepted_def)
    qed
    with reply_ok h show ?thesis by (simp add: keeps_account_def same ex)
  next
    case False
    then have "(res, run') = fail_run (''Session exceeded max turns limit ('' @ nat_str (sn_max_turns cfg) @ '')'') None (next_turn run)"
      using step session_step_limit [of cfg run ses provider] by simp
    with assms show ?thesis by (auto simp: fail_run_def reports_def next_turn_def)
  qed
qed

text \<open>
  C27. What a session returns can be trusted: an output is what the validation made of the last response that was not cut off; and, succeed or
  fail, the usage is the sum of all such responses (saturating at the width of the counter), the
  reported history is the conversation with exactly those responses, in order, and what the model was sent differs from it
  at most in the first message.
\<close>

theorem session_result_accounted:
  assumes "run_session cfg ses provider s = Some (res, run)"
  shows "(case res of
            Inl e \<Rightarrow> sf_history (se_failure e) = sr_log_history run \<and> sf_usage (se_failure e) = run_usage run
          | Inr ok \<Rightarrow> sx_history ok = sr_log_history run \<and> sx_usage ok = run_usage run
              \<and> accepted (sr_exchanges run) \<noteq> []
              \<and> (\<exists>s'. fst (ss_validate ses s' (last (accepted (sr_exchanges run)))) = Inr (sx_output ok)))
    \<and> au_prompt_tokens (run_usage run) = min usize_max (spent au_prompt_tokens (accepted (sr_exchanges run)))
    \<and> au_completion_tokens (run_usage run) = min usize_max (spent au_completion_tokens (accepted (sr_exchanges run)))
    \<and> au_cached_tokens (run_usage run) = Some (min usize_max (spent cached_of (accepted (sr_exchanges run))))
    \<and> filter (\<lambda>m. am_role m = Assistant) (sr_log_history run) = map assistant_message (accepted (sr_exchanges run))
    \<and> tl (sr_history run) = tl (sr_log_history run)"
proof -
  let ?I = "\<lambda>run. accounted (accepted (sr_exchanges run)) run"
  let ?Q = "\<lambda>r. ?I (snd r) \<and> reports (fst r) (snd r)
      \<and> (\<forall>ok. fst r = Inr ok \<longrightarrow> accepted (sr_exchanges (snd r)) \<noteq> []
           \<and> (\<exists>s. fst (ss_validate ses s (last (accepted (sr_exchanges (snd r))))) = Inr (sx_output ok)))"
  have "?Q (res, run)"
  proof (rule session_loop_induct [where I = ?I])
    show "session_loop cfg ses provider (session_start ses s) = Some (res, run)"
      using assms by (simp add: run_session_def)
    have "sr_exchanges (session_start ses s) = []" by (simp add: session_start_def)
    then show "?I (session_start ses s)" using accounted_start [of ses s] by (simp add: accepted_def)
  next
    fix run r assume "?I run" "session_step cfg ses provider run = Inr r"
    then show "?Q r" using accounted_step(2) [of run cfg ses provider "fst r" "snd r"] by simp
  qed (rule accounted_step(1))
  then show ?thesis
    by (auto simp: accounted_def reports_def run_usage_def split: sum.splits)
qed

text \<open>A provider that first calls a tool, then answers wrongly, then rightly.\<close>

definition demo_provider :: "unit ai_provider" where
  "demo_provider n rq = Inr \<lparr>rp_content = Some (if n = 2 then ''7'' else ''?''), rp_thought = None, rp_thought_signature = None,
     rp_tool_calls = (if n = 0 then Some [\<lparr>tc_id = ''c0'', tc_function_name = ''t'', tc_arguments = JOther ''{}'',
       tc_thought_signature = None\<rparr>] else None),
     rp_usage = Some \<lparr>au_prompt_tokens = 10, au_completion_tokens = n, au_total_tokens = 10 + n, au_cached_tokens = None\<rparr>,
     rp_truncated = False\<rparr>"

theorem session_result_accounted_witness:
  "\<exists>ok run. run_session session_runner_new demo_session demo_provider () = Some (Inr ok, run) \<and> sx_output ok = 7
     \<and> map am_role (sx_history ok) = [User, Assistant, Tool, Assistant, User, Assistant]
     \<and> au_prompt_tokens (sx_usage ok) = min usize_max (spent au_prompt_tokens (accepted (sr_exchanges run)))
     \<and> au_prompt_tokens (sx_usage ok) = 30"
proof -
  have "\<exists>ok run. run_session session_runner_new demo_session demo_provider () = Some (Inr ok, run) \<and> sx_output ok = 7
     \<and> map am_role (sx_history ok) = [User, Assistant, Tool, Assistant, User, Assistant]
     \<and> au_prompt_tokens (sx_usage ok) = 30"
    by (simp add: run_session_def session_loop.simps session_start_def session_step_def send_request_def Let_def
        session_request_def session_ops is_final_turn_def run_usage_def demo_session_def demo_provider_def
        session_runner_new_def sat_add_def usize_max_def user_message_def assistant_message_def tool_message_def)
  then obtain ok run where r: "run_session session_runner_new demo_session demo_provider () = Some (Inr ok, run)" "sx_output ok = 7"
     "map am_role (sx_history ok) = [User, Assistant, Tool, Assistant, User, Assistant]" "au_prompt_tokens (sx_usage ok) = 30"
    by (elim exE conjE) rule
  from session_result_accounted [OF r(1)] r show ?thesis by auto
qed

end
