(* ===== verification/Conversation.thy ===== *)
theory Conversation
  imports Session
begin

text \<open>
  What holds of every session whose operations keep a contract: an invariant of the session's own state, and tools that answer
  every call in order. The contracts are locales; the sessions of the workflow stages are instances of both.
\<close>

section \<open>Sessions with an invariant\<close>

definition ends_validated :: "('s, 'o, 'opt) llm_session \<Rightarrow> ('s \<Rightarrow> bool) \<Rightarrow> ('s, 'o, 'opt) session_end \<Rightarrow> bool" where
  "ends_validated ses J r \<longleftrightarrow>
     (\<forall>ok. fst r = Inr ok \<longrightarrow> (\<exists>s resp. J s \<and> fst (ss_validate ses s resp) = Inr (sx_output ok)
        \<and> sx_history ok \<noteq> [] \<and> last (sx_history ok) = assistant_message resp))"

locale session_invariant =
  fixes ses :: "('s, 'o, 'opt) llm_session" and J :: "'s \<Rightarrow> bool"
  assumes J_call_tools: "J s \<Longrightarrow> J (snd (ss_call_tools ses s calls))"
    and J_validate: "J s \<Longrightarrow> J (snd (ss_validate ses s resp))"
    and J_handle_provider_error: "J s \<Longrightarrow> J (snd (ss_handle_provider_error ses s e n b))"
begin

lemma J_call_tools': "ss_call_tools ses s calls = (r, s') \<Longrightarrow> J s \<Longrightarrow> J s'"
  using J_call_tools [of s calls] by simp

lemma J_validate': "ss_validate ses s resp = (r, s') \<Longrightarrow> J s \<Longrightarrow> J s'"
  using J_validate [of s resp] by simp

lemma J_handle': "ss_handle_provider_error ses s e n b = (r, s') \<Longrightarrow> J s \<Longrightarrow> J s'"
  using J_handle_provider_error [of s e n b] by simp

lemma J_validation:
  assumes "on_validation cfg ses sent resp run = Inl run'" and "J (sr_session run)"
  shows "J (sr_session run')"
  using assms
  by (auto simp: on_validation_def Let_def undo_turn_def push_def J_validate'
      split: prod.splits sum.splits validation_error.splits if_splits)

lemma J_response:
  assumes "on_response cfg ses sent resp run = Inl run'" and "J (sr_session run)"
  shows "J (sr_session run')"
proof -
  let ?run = "push [assistant_message resp] (add_usage (rp_usage resp) run)"
  have J: "J (sr_session ?run)" using assms(2) by (simp add: push_def add_usage_def split: option.splits)
  have "on_validation cfg ses sent resp ?run = Inl run'
     \<or> (\<exists>calls results s. ss_call_tools ses (sr_session ?run) calls = (Inr results, s) \<and> sr_session run' = s)"
    using assms(1) by (auto simp: on_response_def Let_def push_def split: if_splits option.splits prod.splits sum.splits)
  then show ?thesis using J_validation [OF _ J] J_call_tools' J by blast
qed

lemma J_step:
  assumes "session_step cfg ses provider run = Inl run'" and "J (sr_session run)"
  shows "J (sr_session run')"
proof -
  obtain sent reply run1 where s: "send_request cfg ses provider (next_turn run) = (sent, reply, run1)"
    by (rule prod_cases3)
  have J: "J (sr_session run1)"
    using s assms(2) by (auto simp: send_request_def Let_def announce_final_turn_def push_def next_turn_def)
  have "sr_turns (next_turn run) \<le> sn_max_turns cfg"
    using assms(1) session_step_limit [of cfg run ses provider] by (fastforce simp: not_le)
  then have "handle_reply cfg ses sent reply run1 = Inl run'" using session_step_turn s assms(1) by metis
  then show ?thesis
    using J J_response [of cfg sent _ run1 run']
    by (auto simp: handle_reply_def on_retryable_error_def on_fatal_error_def Let_def undo_turn_def push_def J_handle'
        split: sum.splits ai_error_class.splits if_splits prod.splits error_action.splits)
qed

lemma validation_end:
  assumes "on_validation cfg ses sent resp run = Inr (Inr ok, run')"
  shows "fst (ss_validate ses (sr_session run) resp) = Inr (sx_output ok) \<and> sx_history ok = sr_log_history run"
  using assms
  by (auto simp: on_validation_def fail_run_def Let_def split: prod.splits sum.splits validation_error.splits if_splits)

text \<open>The validation that ends a session happens in a state with the invariant, on the last message of its history.\<close>

lemma response_end:
  assumes "on_response cfg ses sent resp run = Inr (Inr ok, run')" and "J (sr_session run)"
  shows "\<exists>s. J s \<and> fst (ss_validate ses s resp) = Inr (sx_output ok)
    \<and> sx_history ok \<noteq> [] \<and> last (sx_history ok) = assistant_message resp"
proof -
  let ?run = "push [assistant_message resp] (add_usage (rp_usage resp) run)"
  have "on_validation cfg ses sent resp ?run = Inr (Inr ok, run')"
    using assms(1) by (auto simp: on_response_def fail_run_def Let_def split: if_splits option.splits prod.splits sum.splits)
  from validation_end [OF this] assms(2) show ?thesis
    by (intro exI [where x = "sr_session ?run"]) (simp add: push_def add_usage_def split: option.splits)
qed

lemma step_end:
  assumes "session_step cfg ses provider run = Inr (Inr ok, run')" and "J (sr_session run)"
  shows "\<exists>s resp. J s \<and> fst (ss_validate ses s resp) = Inr (sx_output ok)
    \<and> sx_history ok \<noteq> [] \<and> last (sx_history ok) = assistant_message resp"
proof -
  obtain sent reply run1 where s: "send_request cfg ses provider (next_turn run) = (sent, reply, run1)"
    by (rule prod_cases3)
  have J: "J (sr_session run1)"
    using s assms(2) by (auto simp: send_request_def Let_def announce_final_turn_def push_def next_turn_def)
  have "sr_turns (next_turn run) \<le> sn_max_turns cfg"
    using assms(1) session_step_limit [of cfg run ses provider] by (fastforce simp: not_le fail_run_def)
  then have h: "handle_reply cfg ses sent reply run1 = Inr (Inr ok, run')" using session_step_turn s assms(1) by metis
  from validated_reply [OF this] obtain resp where "reply = Inr resp" by blast
  with h have "on_response cfg ses sent resp run1 = Inr (Inr ok, run')" by (simp add: handle_reply_def)
  from response_end [OF this J] show ?thesis by blast
qed

lemma run_validated:
  assumes "run_session cfg ses provider s = Some (Inr ok, run)" and "J s"
  shows "\<exists>s' resp. J s' \<and> fst (ss_validate ses s' resp) = Inr (sx_output ok)
    \<and> sx_history ok \<noteq> [] \<and> last (sx_history ok) = assistant_message resp"
proof -
  have "ends_validated ses J (Inr ok, run)"
  proof (rule session_loop_induct [where I = "\<lambda>run. J (sr_session run)" and Q = "ends_validated ses J"])
    show "session_loop cfg ses provider (session_start ses s) = Some (Inr ok, run)"
      using assms(1) by (simp add: run_session_def)
    show "J (sr_session (session_start ses s))" using assms(2) by (simp add: session_start_def)
  next
    fix run r assume "J (sr_session run)" "session_step cfg ses provider run = Inr r"
    then show "ends_validated ses J r"
      using step_end [of cfg provider run _ "snd r"] by (cases r) (auto simp: ends_validated_def)
  qed (use J_step in blast)
  then show ?thesis by (simp add: ends_validated_def)
qed

end

section \<open>Tool calls and their answers\<close>

text \<open>Every message with tool calls is followed by the answers to these calls, in order.\<close>

definition no_calls :: "ai_message \<Rightarrow> bool" where
  "no_calls m \<longleftrightarrow> am_tool_calls m = None \<or> am_tool_calls m = Some []"

inductive well_answered :: "ai_message list \<Rightarrow> bool" where
  wa_nil: "well_answered []"
| wa_plain: "well_answered h \<Longrightarrow> no_calls m \<Longrightarrow> am_role m \<noteq> Tool \<Longrightarrow> well_answered (h @ [m])"
| wa_called: "well_answered h \<Longrightarrow> am_role m = Assistant \<Longrightarrow> am_tool_calls m = Some calls
    \<Longrightarrow> \<forall>a \<in> set answers. am_role a = Tool \<and> no_calls a
    \<Longrightarrow> map am_tool_call_id answers = map (Some \<circ> tc_id) calls \<Longrightarrow> well_answered (h @ m # answers)"

text \<open>
  A request that offers no tools may still be answered with calls. Nobody answers these: \<open>ignored_call xs m\<close> says that the message \<open>m\<close>
  holds such calls, given the exchanges \<open>xs\<close>. A history of well answered calls may be followed by a part that starts with ignored calls.
\<close>

type_synonym 'opt exchanges = "('opt ai_request \<times> (ai_error + ai_response)) list"

definition ignored_call :: "'opt exchanges \<Rightarrow> ai_message \<Rightarrow> bool" where
  "ignored_call xs m \<longleftrightarrow> \<not> no_calls m
     \<and> (\<exists>sent resp. (sent, Inr resp) \<in> set xs \<and> rq_tools sent = None \<and> m = assistant_message resp)"

definition unanswered_tail :: "'opt exchanges \<Rightarrow> ai_message list \<Rightarrow> bool" where
  "unanswered_tail xs rest \<longleftrightarrow> (rest = [] \<or> ignored_call xs (hd rest))
     \<and> (\<forall>m \<in> set rest. am_role m \<noteq> Tool \<and> (no_calls m \<or> ignored_call xs m))"

definition orderly :: "'opt exchanges \<Rightarrow> bool \<Rightarrow> ai_message list \<Rightarrow> bool" where
  "orderly xs toolless h \<longleftrightarrow>
     (\<exists>answered rest. h = answered @ rest \<and> well_answered answered \<and> unanswered_tail xs rest \<and> (rest = [] \<or> toolless))"

definition requests_orderly :: "('s, 'opt) session_run \<Rightarrow> bool" where
  "requests_orderly run \<longleftrightarrow>
     (\<forall>x \<in> set (sr_exchanges run). orderly (sr_exchanges run) (rq_tools (fst x) = None) (rq_messages (fst x)))"

lemma ignored_call_mono: "ignored_call xs m \<Longrightarrow> set xs \<subseteq> set ys \<Longrightarrow> ignored_call ys m"
  unfolding ignored_call_def by blast

lemma orderly_mono:
  assumes "orderly xs f h" and "set xs \<subseteq> set ys" and "f \<Longrightarrow> g"
  shows "orderly ys g h"
proof -
  obtain answered rest where h: "h = answered @ rest" "well_answered answered" "unanswered_tail xs rest" "rest = [] \<or> f"
    using assms(1) by (auto simp: orderly_def)
  have "unanswered_tail ys rest"
    using h(3) ignored_call_mono [OF _ assms(2)] by (auto simp: unanswered_tail_def)
  with h assms(3) show ?thesis unfolding orderly_def by blast
qed

lemma orderly_answered: "orderly xs False h \<longleftrightarrow> well_answered h"
  by (simp add: orderly_def unanswered_tail_def)

lemma orderly_plain:
  assumes "orderly xs f h" and "no_calls m" and "am_role m \<noteq> Tool"
  shows "orderly xs f (h @ [m])"
proof -
  obtain answered rest where h: "h = answered @ rest" "well_answered answered" "unanswered_tail xs rest" "rest = [] \<or> f"
    using assms(1) by (auto simp: orderly_def)
  show ?thesis
  proof (cases rest)
    case Nil
    with h wa_plain [OF h(2) assms(2,3)] show ?thesis
      unfolding orderly_def by (intro exI [of _ "h @ [m]"] exI [of _ "[]"]) (simp add: unanswered_tail_def)
  next
    case (Cons a as)
    with h assms(2,3) have "unanswered_tail xs (rest @ [m])" by (auto simp: unanswered_tail_def)
    with h Cons show ?thesis unfolding orderly_def by (intro exI [of _ answered] exI [of _ "rest @ [m]"]) simp
  qed
qed

lemma orderly_user: "orderly xs f h \<Longrightarrow> orderly xs f (h @ [user_message t])"
  by (rule orderly_plain) (simp_all add: no_calls_def user_message_def)

lemma orderly_ignored:
  assumes "orderly xs f h" and "ignored_call xs m" and "am_role m \<noteq> Tool"
  shows "orderly xs True (h @ [m])"
proof -
  obtain answered rest where h: "h = answered @ rest" "well_answered answered" "unanswered_tail xs rest"
    using assms(1) by (auto simp: orderly_def)
  have "unanswered_tail xs (rest @ [m])" using h(3) assms(2,3) by (cases rest) (auto simp: unanswered_tail_def)
  with h show ?thesis unfolding orderly_def by (intro exI [of _ answered] exI [of _ "rest @ [m]"]) simp
qed

lemma well_answered_user: "well_answered h \<Longrightarrow> well_answered (h @ [user_message t])"
  by (rule wa_plain) (simp_all add: no_calls_def user_message_def)

lemma well_answered_start: "well_answered (sr_history (session_start ses s))"
  using well_answered_user [OF wa_nil] by (simp add: session_start_def)

text \<open>A retry repeats the turn, so after the final turn comes the final turn.\<close>

lemma turn_again: "sr_turns run' = sr_turns (next_turn run) - 1 \<Longrightarrow> is_final_turn cfg (next_turn run') = is_final_turn cfg (next_turn run)"
  by (auto simp: is_final_turn_def next_turn_def sat_add_def usize_max_def)

locale answering_session =
  fixes ses :: "('s, 'o, 'opt) llm_session"
  assumes answers: "fst (ss_call_tools ses s calls) = Inr results \<Longrightarrow> map fst results = map tc_id calls"
begin

lemma well_answered_results:
  assumes "well_answered h" and "rp_tool_calls resp = Some calls" and "ss_call_tools ses s calls = (Inr results, s')"
  shows "well_answered (h @ assistant_message resp # map tool_message results)"
proof (rule wa_called [OF assms(1)])
  have "map fst results = map tc_id calls" using answers assms(3) by (metis fst_conv)
  then have "map Some (map fst results) = map Some (map tc_id calls)" by simp
  then show "map am_tool_call_id (map tool_message results) = map (Some \<circ> tc_id) calls"
    by (simp add: tool_message_def comp_def)
qed (use assms(2) in \<open>auto simp: assistant_message_def tool_message_def no_calls_def\<close>)

lemma orderly_validation:
  assumes "on_validation cfg ses sent resp run = Inl run'" and "orderly xs f (sr_history run)"
  shows "orderly xs f (sr_history run') \<and> sr_turns run' = sr_turns run - 1"
  using assms
  by (auto simp: on_validation_def Let_def undo_turn_def push_def orderly_user
      split: prod.splits sum.splits validation_error.splits if_splits)

text \<open>A continued turn either repeats itself or leaves all calls answered.\<close>

lemma orderly_response:
  assumes "on_response cfg ses sent resp run = Inl run'" and "orderly xs (is_final_turn cfg run) (sr_history run)"
    and "is_final_turn cfg run \<Longrightarrow> \<not> no_calls (assistant_message resp) \<Longrightarrow> ignored_call xs (assistant_message resp)"
  shows "well_answered (sr_history run')
    \<or> (orderly xs (is_final_turn cfg run) (sr_history run') \<and> sr_turns run' = sr_turns run - 1)"
proof -
  let ?run = "push [assistant_message resp] (add_usage (rp_usage resp) run)"
  have h: "sr_history ?run = sr_history run @ [assistant_message resp]"
    by (simp add: push_def add_usage_def split: option.splits)
  have f: "is_final_turn cfg ?run = is_final_turn cfg run"
    by (simp add: is_final_turn_def push_def)
  have role: "am_role (assistant_message resp) \<noteq> Tool" by (simp add: assistant_message_def)
  consider calls results s where "rp_tool_calls resp = Some calls" "ss_call_tools ses (sr_session ?run) calls = (Inr results, s)"
      "sr_history run' = sr_history ?run @ map tool_message results" "\<not> is_final_turn cfg run"
    | "on_validation cfg ses sent resp ?run = Inl run'" "no_calls (assistant_message resp) \<or> is_final_turn cfg run"
    using assms(1) f
    by (auto simp: on_response_def Let_def push_def no_calls_def assistant_message_def
        split: if_splits option.splits prod.splits sum.splits)
  then show ?thesis
  proof cases
    case (1 calls results s)
    have "well_answered (sr_history run)" using assms(2) 1(4) by (simp add: orderly_answered)
    from well_answered_results [OF this 1(1,2)] show ?thesis by (simp add: h 1(3))
  next
    case 2
    have "orderly xs (is_final_turn cfg run) (sr_history ?run)"
    proof (cases "no_calls (assistant_message resp)")
      case True
      from orderly_plain [OF assms(2) this role] show ?thesis by (simp add: h)
    next
      case False
      with 2(2) have final: "is_final_turn cfg run" by blast
      from orderly_ignored [OF assms(2) assms(3) [OF final False] role] final show ?thesis by (simp add: h)
    qed
    from orderly_validation [OF 2(1) this] have "orderly xs (is_final_turn cfg run) (sr_history run')"
      "sr_turns run' = sr_turns ?run - 1" by blast+
    moreover have "sr_turns ?run = sr_turns run" by (simp add: push_def)
    ultimately show ?thesis by presburger
  qed
qed

lemma orderly_reply:
  assumes "handle_reply cfg ses sent reply run = Inl run'" and "orderly xs (is_final_turn cfg run) (sr_history run)"
    and "(sent, reply) \<in> set xs" and "is_final_turn cfg run \<Longrightarrow> rq_tools sent = None"
  shows "well_answered (sr_history run')
    \<or> (orderly xs (is_final_turn cfg run) (sr_history run') \<and> sr_turns run' = sr_turns run - 1)"
proof (cases reply)
  case (Inl e)
  with assms(1,2) show ?thesis
    by (auto simp: handle_reply_def on_retryable_error_def on_fatal_error_def Let_def undo_turn_def push_def orderly_user
        split: ai_error_class.splits if_splits prod.splits error_action.splits)
next
  case (Inr resp)
  with assms(1) have "on_response cfg ses sent resp run = Inl run'" by (simp add: handle_reply_def)
  from orderly_response [OF this assms(2)] show ?thesis
    using assms(3,4) Inr unfolding ignored_call_def by blast
qed

definition run_orderly :: "session_runner \<Rightarrow> ('s, 'opt) session_run \<Rightarrow> bool" where
  "run_orderly cfg run \<longleftrightarrow> requests_orderly run
     \<and> orderly (sr_exchanges run) (is_final_turn cfg (next_turn run)) (sr_history run)"

lemma orderly_send:
  assumes "send_request cfg ses provider (next_turn run) = (sent, reply, run1)" and "run_orderly cfg run"
  shows "requests_orderly run1" "orderly (sr_exchanges run1) (is_final_turn cfg run1) (sr_history run1)"
    "is_final_turn cfg run1 \<Longrightarrow> rq_tools sent = None" "(sent, reply) \<in> set (sr_exchanges run1)"
proof -
  let ?run = "announce_final_turn cfg (next_turn run)"
  have xs: "sr_exchanges run1 = sr_exchanges run @ [(sent, reply)]"
    using send_request_fields(5) [OF assms(1)] by (simp add: next_turn_def)
  have final: "is_final_turn cfg run1 = is_final_turn cfg (next_turn run)" "is_final_turn cfg ?run = is_final_turn cfg (next_turn run)"
    using send_request_fields(1) [OF assms(1)] by (simp_all add: is_final_turn_def)
  have sent: "rq_messages sent = sr_history ?run" "sr_history run1 = sr_history ?run"
    "is_final_turn cfg run1 \<Longrightarrow> rq_tools sent = None"
    using assms(1) final by (auto simp: send_request_def Let_def session_request_def)
  have "orderly (sr_exchanges run) (is_final_turn cfg (next_turn run)) (sr_history run)"
    using assms(2) by (simp add: run_orderly_def)
  moreover have "sr_history ?run = sr_history run \<or> sr_history ?run = sr_history run @ [user_message final_turn_prompt]"
    by (simp add: announce_final_turn_def push_def next_turn_def)
  ultimately have "orderly (sr_exchanges run) (is_final_turn cfg run1) (sr_history ?run)"
    unfolding final(1) by (metis orderly_user)
  from orderly_mono [OF this, of "sr_exchanges run1"]
  have hist: "orderly (sr_exchanges run1) g (sr_history ?run)" if "is_final_turn cfg run1 \<Longrightarrow> g" for g
    using that by (simp add: xs subset_insertI)
  then show "orderly (sr_exchanges run1) (is_final_turn cfg run1) (sr_history run1)" by (simp add: sent(2))
  have old: "orderly (sr_exchanges run1) (rq_tools (fst x) = None) (rq_messages (fst x))" if "x \<in> set (sr_exchanges run)" for x
  proof -
    have "orderly (sr_exchanges run) (rq_tools (fst x) = None) (rq_messages (fst x))"
      using assms(2) that by (simp add: run_orderly_def requests_orderly_def)
    then show ?thesis by (rule orderly_mono) (auto simp: xs)
  qed
  have "orderly (sr_exchanges run1) (rq_tools sent = None) (rq_messages sent)"
    using hist [of "rq_tools sent = None"] sent(1,3) by simp
  with old show "requests_orderly run1" by (auto simp: requests_orderly_def xs)
  show "is_final_turn cfg run1 \<Longrightarrow> rq_tools sent = None" by (rule sent(3))
  show "(sent, reply) \<in> set (sr_exchanges run1)" by (simp add: xs)
qed

lemma orderly_step:
  assumes "run_orderly cfg run"
  shows "session_step cfg ses provider run = Inl run' \<Longrightarrow> run_orderly cfg run'"
    and "session_step cfg ses provider run = Inr r \<Longrightarrow> requests_orderly (snd r)"
proof -
  obtain sent reply run1 where s: "send_request cfg ses provider (next_turn run) = (sent, reply, run1)"
    by (rule prod_cases3)
  note sent = orderly_send [OF s assms]
  show "run_orderly cfg run'" if step: "session_step cfg ses provider run = Inl run'"
  proof -
    have "sr_turns (next_turn run) \<le> sn_max_turns cfg"
      using step session_step_limit [of cfg run ses provider] by (fastforce simp: not_le)
    with step s have h: "handle_reply cfg ses sent reply run1 = Inl run'" by (metis session_step_turn)
    have xs: "sr_exchanges run' = sr_exchanges run1" using continues_reply [OF h] by (simp add: continues_def)
    have final: "is_final_turn cfg run1 = is_final_turn cfg (next_turn run)"
      using send_request_fields(1) [OF s] by (simp add: is_final_turn_def)
    from orderly_reply [OF h sent(2,4,3)]
    have "orderly (sr_exchanges run') (is_final_turn cfg (next_turn run')) (sr_history run')"
    proof
      assume "well_answered (sr_history run')"
      then have "orderly (sr_exchanges run') False (sr_history run')" by (simp add: orderly_answered)
      then show ?thesis by (rule orderly_mono) auto
    next
      assume "orderly (sr_exchanges run1) (is_final_turn cfg run1) (sr_history run') \<and> sr_turns run' = sr_turns run1 - 1"
      with turn_again [of run' run cfg] send_request_fields(1) [OF s] final xs show ?thesis by simp
    qed
    then show ?thesis using sent(1) xs by (simp add: run_orderly_def requests_orderly_def)
  qed
  show "requests_orderly (snd r)" if step: "session_step cfg ses provider run = Inr r"
  proof (cases "sr_turns (next_turn run) \<le> sn_max_turns cfg")
    case True
    with step s have "handle_reply cfg ses sent reply run1 = Inr r" by (metis session_step_turn)
    from reply_end_keeps_exchanges [OF this] sent(1) show ?thesis by (simp add: requests_orderly_def)
  next
    case False
    with step session_step_limit [of cfg run ses provider] assms show ?thesis
      by (auto simp: fail_run_def next_turn_def requests_orderly_def run_orderly_def)
  qed
qed

lemma run_requests_orderly:
  assumes "run_session cfg ses provider s = Some r"
  shows "requests_orderly (snd r)"
proof (rule session_loop_induct [where I = "run_orderly cfg" and Q = "\<lambda>r. requests_orderly (snd r)"])
  show "session_loop cfg ses provider (session_start ses s) = Some r" using assms by (simp add: run_session_def)
  have "orderly (sr_exchanges (session_start ses s)) False (sr_history (session_start ses s))"
    by (simp add: orderly_answered well_answered_start)
  then have "orderly (sr_exchanges (session_start ses s)) (is_final_turn cfg (next_turn (session_start ses s)))
      (sr_history (session_start ses s))" by (rule orderly_mono) auto
  then show "run_orderly cfg (session_start ses s)"
    by (simp add: run_orderly_def requests_orderly_def session_start_def)
qed (use orderly_step in blast)+

end

end
