(* ===== verification/ModelOutput.thy ===== *)
theory ModelOutput
  imports Prelude
begin

text \<open>
  Reading the answer of a model (\<open>src/src/workflow/output.rs\<close>, \<open>clean_json_string\<close> of \<open>src/src/utils.rs\<close>): repair of raw control
  characters in JSON strings, code fences, embedded objects. The JSON parser itself is
  not part of the program: \<open>from_str\<close> parses a text into the output type or gives an error, \<open>value_of\<close>
  parses it into a JSON value, \<open>from_value\<close> turns a value into the output type.
\<close>

abbreviation dquote :: char where "dquote \<equiv> CHR 0x22"

abbreviation backslash :: char where "backslash \<equiv> CHR 0x5C"

section \<open>Control characters in strings\<close>

definition hex_digit :: "nat \<Rightarrow> char" where
  "hex_digit d = (if d < 10 then char_of (48 + d) else char_of (87 + d))"

text \<open>\<open>{:04x}\<close> of a code point below 32.\<close>

definition hex4 :: "nat \<Rightarrow> string" where
  "hex4 n = ''00'' @ [hex_digit (n div 16), hex_digit (n mod 16)]"

definition escape_control :: "char \<Rightarrow> string" where
  "escape_control c =
     (if c = CHR 0x0A then [backslash, CHR ''n'']
      else if c = CHR 0x0D then [backslash, CHR ''r'']
      else if c = CHR 0x09 then [backslash, CHR ''t'']
      else if code_point c < 32 then [backslash, CHR ''u''] @ hex4 (code_point c)
      else [c])"

text \<open>The loop, with its flags: inside a string literal, after a backslash.\<close>

fun clean_json_loop :: "bool \<Rightarrow> bool \<Rightarrow> string \<Rightarrow> string" where
  "clean_json_loop in_string escape [] = (if escape then [backslash] else [])"
| "clean_json_loop True True (c # s) = backslash # c # clean_json_loop True False s"
| "clean_json_loop True False (c # s) =
     (if c = backslash then clean_json_loop True True s
      else if c = dquote then c # clean_json_loop False False s
      else escape_control c @ clean_json_loop True False s)"
| "clean_json_loop False escape (c # s) = c # clean_json_loop (c = dquote) escape s"

definition clean_json_string :: "string \<Rightarrow> string" where
  "clean_json_string s = clean_json_loop False False s"

section \<open>Fences and embedded objects\<close>

definition strip_leading_json_fence :: "string \<Rightarrow> string" where
  "strip_leading_json_fence text =
     (case strip_prefix ''```'' (trim_start text) of
        None \<Rightarrow> text
      | Some rest \<Rightarrow>
          (case split_once (CHR 0x0A) rest of
             None \<Rightarrow> text
           | Some (_, body) \<Rightarrow>
               (case strip_suffix ''```'' (trim_end body) of
                  Some inner \<Rightarrow> trim_end inner
                | None \<Rightarrow> text)))"

text \<open>The scan for the closing brace, from the index \<open>i\<close> of the next character.\<close>

fun brace_scan :: "int \<Rightarrow> bool \<Rightarrow> bool \<Rightarrow> nat \<Rightarrow> string \<Rightarrow> nat option" where
  "brace_scan depth in_string escape i [] = None"
| "brace_scan depth in_string escape i (c # s) =
     (if in_string then
        (if escape then brace_scan depth True False (Suc i) s
         else if c = backslash then brace_scan depth True True (Suc i) s
         else brace_scan depth (c \<noteq> dquote) False (Suc i) s)
      else if c = dquote then brace_scan depth True escape (Suc i) s
      else if c = CHR ''{'' then brace_scan (depth + 1) False escape (Suc i) s
      else if c = CHR ''}'' then
        (if depth - 1 = 0 then Some i else brace_scan (depth - 1) False escape (Suc i) s)
      else brace_scan depth False escape (Suc i) s)"

definition find_matching_brace :: "string \<Rightarrow> nat \<Rightarrow> nat option" where
  "find_matching_brace chars start = brace_scan 0 False False start (drop start chars)"

lemma brace_scan_bounds: "brace_scan depth in_string escape i s = Some j \<Longrightarrow> i \<le> j \<and> j < i + length s \<and> s ! (j - i) = CHR ''}''"
proof (induction depth in_string escape i s rule: brace_scan.induct)
  case (2 depth in_string escape i c s)
  then have "(j = i \<and> c = CHR ''}'') \<or> (\<exists>d q e. brace_scan d q e (Suc i) s = Some j)
     \<and> (Suc i \<le> j \<and> j < Suc i + length s \<and> s ! (j - Suc i) = CHR ''}'')"
    by (auto split: if_splits)
  then show ?case
    by (auto simp: nth_Cons' Suc_le_eq)
qed simp

lemma find_matching_brace_bounds:
  assumes "find_matching_brace chars start = Some j"
  shows "start \<le> j \<and> j < length chars \<and> chars ! j = CHR ''}''"
proof -
  note b = brace_scan_bounds [OF assms [unfolded find_matching_brace_def]]
  then have "start < length chars" by (cases "start < length chars") auto
  with b show ?thesis by auto
qed

text \<open>Objects in the text, from left to right; one that does not parse is searched for objects inside it.\<close>

function json_candidates_from :: "(string \<Rightarrow> 'v option) \<Rightarrow> string \<Rightarrow> nat \<Rightarrow> 'v list" where
  "json_candidates_from value_of chars i =
     (if length chars \<le> i then []
      else (case (if chars ! i = CHR ''{'' then find_matching_brace chars i else None) of
              None \<Rightarrow> json_candidates_from value_of chars (i + 1)
            | Some e \<Rightarrow>
                (let candidate = take (e + 1 - i) (drop i chars)
                 in case (case value_of (clean_json_string candidate) of Some v \<Rightarrow> Some v | None \<Rightarrow> value_of candidate) of
                      Some v \<Rightarrow> v # json_candidates_from value_of chars (e + 1)
                    | None \<Rightarrow> json_candidates_from value_of chars (i + 1))))"
  by pat_completeness auto

termination json_candidates_from
  by (relation "measure (\<lambda>(_, chars, i). length chars - i)")
    (auto dest: find_matching_brace_bounds split: if_splits)

declare json_candidates_from.simps [simp del]

definition find_json_candidates :: "(string \<Rightarrow> 'v option) \<Rightarrow> string \<Rightarrow> 'v list" where
  "find_json_candidates value_of text = json_candidates_from value_of text 0"

text \<open>\<open>utf8_prefix\<close>: the longest prefix of whole characters of at most so many bytes.\<close>

fun utf8_prefix :: "string \<Rightarrow> nat \<Rightarrow> string" where
  "utf8_prefix [] n = []"
| "utf8_prefix (c # s) n = (if len_utf8 c \<le> n then c # utf8_prefix s (n - len_utf8 c) else [])"

definition parse_json_from_text ::
  "(string \<Rightarrow> string + 'o) \<Rightarrow> (string \<Rightarrow> 'v option) \<Rightarrow> ('v \<Rightarrow> 'o option) \<Rightarrow> string \<Rightarrow> string + 'o" where
  "parse_json_from_text from_str value_of from_value raw_text =
     (let unfenced = strip_leading_json_fence raw_text
      in case from_str (clean_json_string unfenced) of
           Inr val \<Rightarrow> Inr val
         | Inl primary_err \<Rightarrow>
             (case from_str unfenced of
                Inr val \<Rightarrow> Inr val
              | Inl _ \<Rightarrow>
                  (case List.map_filter from_value (rev (find_json_candidates value_of raw_text)) of
                     val # _ \<Rightarrow> Inr val
                   | [] \<Rightarrow> Inl (''Failed to parse JSON from output ('' @ primary_err @ ''): '' @ utf8_prefix raw_text 200))))"

section \<open>Output formats\<close>

datatype ('s, 'o) output_format =
    Json "string option" "('o \<Rightarrow> 's \<Rightarrow> string option) option" "(string \<Rightarrow> string) option"
  | Text "string \<Rightarrow> 's \<Rightarrow> string option" "string \<Rightarrow> string" "string \<Rightarrow> 'o"

definition default_feedback :: "string \<Rightarrow> string" where
  "default_feedback violation = ''Previous attempt was rejected: '' @ violation @ ''. Please correct your output format.''"

definition json_format :: "('s, 'o) output_format" where
  "json_format = Json None None None"

definition json_with_schema :: "string \<Rightarrow> ('s, 'o) output_format" where
  "json_with_schema schema = Json (Some schema) None None"

fun with_validator :: "('o \<Rightarrow> 's \<Rightarrow> string option) \<Rightarrow> ('s, 'o) output_format \<Rightarrow> ('s, 'o) output_format" where
  "with_validator v (Json schema _ feedback) = Json schema (Some v) feedback"
| "with_validator v (Text validator feedback of_text) = Text validator feedback of_text"

fun with_feedback_formatter :: "(string \<Rightarrow> string) \<Rightarrow> ('s, 'o) output_format \<Rightarrow> ('s, 'o) output_format" where
  "with_feedback_formatter f (Json schema validator _) = Json schema validator (Some f)"
| "with_feedback_formatter f (Text validator feedback of_text) = Text validator feedback of_text"

definition text_with_validator :: "(string \<Rightarrow> 's \<Rightarrow> string option) \<Rightarrow> (string \<Rightarrow> string) \<Rightarrow> ('s, string) output_format" where
  "text_with_validator v feedback = Text v feedback (\<lambda>t. t)"

definition text_format :: "('s, string) output_format" where
  "text_format = Text (\<lambda>_ _. None) default_feedback (\<lambda>t. t)"

fun output_schema :: "('s, 'o) output_format \<Rightarrow> string option" where
  "output_schema (Json sch _ _) = sch"
| "output_schema (Text _ _ _) = None"

fun format_feedback :: "('s, 'o) output_format \<Rightarrow> string \<Rightarrow> string" where
  "format_feedback (Json _ _ (Some f)) violation = f violation"
| "format_feedback (Text _ f _) violation = f violation"
| "format_feedback (Json _ _ None) violation = default_feedback violation"

text \<open>A validator returns the violation it finds, if any. The output type of a text format is the text itself.\<close>

fun validate_with_recitation_fallback ::
  "(string \<Rightarrow> string + 'o) \<Rightarrow> (string \<Rightarrow> 'v option) \<Rightarrow> ('v \<Rightarrow> 'o option) \<Rightarrow> ('s, 'o) output_format
     \<Rightarrow> string \<Rightarrow> 's \<Rightarrow> bool \<Rightarrow> string + 'o" where
  "validate_with_recitation_fallback from_str value_of from_value (Json _ validator _) raw_text s fallback =
     (case parse_json_from_text from_str value_of from_value raw_text of
        Inl e \<Rightarrow> Inl e
      | Inr parsed \<Rightarrow>
          (case validator of
             None \<Rightarrow> Inr parsed
           | Some v \<Rightarrow> (case v parsed s of None \<Rightarrow> Inr parsed | Some violation \<Rightarrow> Inl violation)))"
| "validate_with_recitation_fallback from_str value_of from_value (Text validator _ of_text) raw_text s fallback =
     (if fallback then
        (if trim raw_text = [] then Inl ''The output must not be empty.'' else Inr (of_text raw_text))
      else (case validator raw_text s of None \<Rightarrow> Inr (of_text raw_text) | Some violation \<Rightarrow> Inl violation))"

definition validate ::
  "(string \<Rightarrow> string + 'o) \<Rightarrow> (string \<Rightarrow> 'v option) \<Rightarrow> ('v \<Rightarrow> 'o option) \<Rightarrow> ('s, 'o) output_format
     \<Rightarrow> string \<Rightarrow> 's \<Rightarrow> string + 'o" where
  "validate from_str value_of from_value fmt raw_text s =
     validate_with_recitation_fallback from_str value_of from_value fmt raw_text s False"

section \<open>Laws of the repair\<close>

text \<open>Whether every string literal of a text is free of raw control characters that no backslash precedes, the state of the scan being known.\<close>

fun clean_literals :: "bool \<Rightarrow> bool \<Rightarrow> string \<Rightarrow> bool" where
  "clean_literals in_string escape [] \<longleftrightarrow> True"
| "clean_literals True True (c # s) \<longleftrightarrow> clean_literals True False s"
| "clean_literals True False (c # s) \<longleftrightarrow>
     (if c = backslash then clean_literals True True s
      else if c = dquote then clean_literals False False s
      else 32 \<le> code_point c \<and> clean_literals True False s)"
| "clean_literals False escape (c # s) \<longleftrightarrow> clean_literals (c = dquote) escape s"

lemma hex_digit_plain:
  assumes "d < 16"
  shows "hex_digit d \<noteq> backslash \<and> hex_digit d \<noteq> dquote \<and> 32 \<le> code_point (hex_digit d)"
proof -
  have "code_point (hex_digit d) = (if d < 10 then 48 + d else 87 + d)"
    using assms by (simp add: hex_digit_def)
  moreover have "code_point backslash = 92" and "code_point dquote = 34" by simp_all
  ultimately show ?thesis using assms by (auto simp: split: if_splits)
qed

lemma clean_literals_escape:
  assumes "c \<noteq> backslash" and "c \<noteq> dquote"
  shows "clean_literals True False (escape_control c @ s) = clean_literals True False s"
proof (cases "code_point c < 32")
  case True
  then have "code_point c div 16 < 16" "code_point c mod 16 < 16" by simp_all
  from this [THEN hex_digit_plain] show ?thesis
    using assms by (simp add: escape_control_def hex4_def)
qed (use assms in \<open>auto simp: escape_control_def\<close>)

lemma escape_control_plain: "32 \<le> code_point c \<Longrightarrow> escape_control c = [c]"
  by (auto simp: escape_control_def)

lemma clean_json_loop_clean:
  "(in_string \<longrightarrow> clean_literals True False (clean_json_loop in_string escape s))
   \<and> (\<not> in_string \<and> \<not> escape \<longrightarrow> clean_literals False False (clean_json_loop in_string escape s))"
proof (induction in_string escape s rule: clean_json_loop.induct)
  case (4 escape c s)
  then show ?case by (cases "c = dquote"; cases escape) simp_all
qed (auto simp: clean_literals_escape)

lemma clean_json_loop_same:
  "(clean_literals in_string escape s \<longrightarrow> in_string \<longrightarrow> clean_json_loop in_string escape s = (if escape then backslash # s else s))
   \<and> (clean_literals in_string escape s \<longrightarrow> \<not> in_string \<longrightarrow> \<not> escape \<longrightarrow> clean_json_loop in_string escape s = s)"
proof (induction in_string escape s rule: clean_json_loop.induct)
  case (4 escape c s)
  then show ?case by (cases "c = dquote"; cases escape) simp_all
qed (auto simp: escape_control_plain)

text \<open>Where a text is: outside of its string literals, inside one, or in one after an unescaped backslash.\<close>

datatype scan_state = Outside | Inside | Escaped

fun scan_char :: "scan_state \<Rightarrow> char \<Rightarrow> scan_state" where
  "scan_char Outside c = (if c = dquote then Inside else Outside)"
| "scan_char Inside c = (if c = backslash then Escaped else if c = dquote then Outside else Inside)"
| "scan_char Escaped c = Inside"

definition cleaned :: "scan_state \<Rightarrow> string \<Rightarrow> string" where
  "cleaned st s = concat (map (\<lambda>i. if foldl scan_char st (take i s) = Inside then escape_control (s ! i) else [s ! i]) [0..<length s])"

lemma cleaned_Nil: "cleaned st [] = []"
  by (simp add: cleaned_def)

lemma cleaned_Cons: "cleaned st (c # s) = (if st = Inside then escape_control c else [c]) @ cleaned (scan_char st c) s"
  by (simp only: cleaned_def length_Cons upt_conv_Cons [OF zero_less_Suc] map_Suc_upt [symmetric] list.map map_map comp_def
      take_Suc_Cons take_0 nth_Cons_0 nth_Cons_Suc foldl_Cons foldl_Nil concat.simps)

lemma clean_json_loop_cleaned:
  "clean_json_loop (st \<noteq> Outside) (st = Escaped) s = (if st = Escaped then [backslash] else []) @ cleaned st s"
proof (induction s arbitrary: st)
  case Nil
  then show ?case by (cases st) (simp_all add: cleaned_Nil)
next
  case (Cons c s)
  note IH = Cons.IH [of Outside, simplified] Cons.IH [of Inside, simplified] Cons.IH [of Escaped, simplified]
  show ?case
    by (cases st) (simp_all add: cleaned_Cons IH escape_control_def)
qed

text \<open>
  What a JSON text says: its characters outside of string literals (and the quotes) as they are, and what the characters and escape sequences
  of the literals stand for, as code units. A strict reader refuses a raw control character in a literal, as JSON does; a lenient one
  reads it as itself. Neither accepts a backslash that no valid escape sequence follows.
\<close>

definition hex_value :: "char \<Rightarrow> nat option" where
  "hex_value c =
     (let n = code_point c
      in if 48 \<le> n \<and> n \<le> 57 then Some (n - 48)
         else if 97 \<le> n \<and> n \<le> 102 then Some (n - 87)
         else if 65 \<le> n \<and> n \<le> 70 then Some (n - 55) else None)"

fun read_hex :: "nat \<Rightarrow> nat \<Rightarrow> string \<Rightarrow> (nat \<times> string) option" where
  "read_hex 0 v s = Some (v, s)"
| "read_hex (Suc k) v [] = None"
| "read_hex (Suc k) v (c # s) = (case hex_value c of None \<Rightarrow> None | Some d \<Rightarrow> read_hex k (16 * v + d) s)"

definition simple_escape :: "char \<Rightarrow> nat option" where
  "simple_escape e = map_of [(dquote, 34), (backslash, 92), (CHR ''/'', 47), (CHR ''b'', 8), (CHR ''f'', 12), (CHR ''n'', 10),
     (CHR ''r'', 13), (CHR ''t'', 9)] e"

fun read_escape :: "string \<Rightarrow> (nat \<times> string) option" where
  "read_escape [] = None"
| "read_escape (e # s) = (if e = CHR ''u'' then read_hex 4 0 s else map_option (\<lambda>u. (u, s)) (simple_escape e))"

lemma read_hex_length: "read_hex k v s = Some (u, r) \<Longrightarrow> length r \<le> length s"
  by (induction k v s rule: read_hex.induct) (auto split: option.splits)

lemma read_escape_length: "read_escape s = Some (u, r) \<Longrightarrow> length r \<le> length s"
  by (cases s) (auto dest: read_hex_length split: if_splits)

function read_json :: "bool \<Rightarrow> bool \<Rightarrow> string \<Rightarrow> (char + nat) list option" where
  "read_json strict in_string [] = Some []"
| "read_json strict False (c # s) = map_option ((#) (Inl c)) (read_json strict (c = dquote) s)"
| "read_json strict True (c # s) =
     (if c = dquote then map_option ((#) (Inl c)) (read_json strict False s)
      else if c = backslash then
        (case read_escape s of None \<Rightarrow> None | Some (u, r) \<Rightarrow> map_option ((#) (Inr u)) (read_json strict True r))
      else if strict \<and> code_point c < 32 then None
      else map_option ((#) (Inr (code_point c))) (read_json strict True s))"
  by pat_completeness auto
termination
  by (relation "measure (\<lambda>(strict, in_string, s). length s)") (auto dest: read_escape_length)

lemma hex_value_digit: "d < 16 \<Longrightarrow> hex_value (hex_digit d) = Some d"
  by (auto simp: hex_value_def hex_digit_def)

lemma hex_value_escape: "hex_value backslash = None" "hex_value dquote = None" "code_point c < 32 \<Longrightarrow> hex_value c = None"
  by (simp_all add: hex_value_def)

lemma escape_control_starts: "code_point c < 32 \<Longrightarrow> \<exists>t. escape_control c = backslash # t"
  by (auto simp: escape_control_def)

lemma read_hex_cleaned:
  "read_hex k v (clean_json_loop True False s) = map_option (\<lambda>(u, r). (u, clean_json_loop True False r)) (read_hex k v s)"
proof (induction k v s rule: read_hex.induct)
  case (3 k v c s)
  show ?case
  proof (cases "hex_value c")
    case None
    have "hex_value (hd (clean_json_loop True False (c # s))) = None \<and> clean_json_loop True False (c # s) \<noteq> []"
    proof (cases "c = backslash")
      case True
      then show ?thesis by (cases s) (simp_all add: hex_value_escape)
    next
      case False
      with None escape_control_starts [of c] show ?thesis
        by (cases "code_point c < 32") (auto simp: hex_value_escape escape_control_plain)
    qed
    then obtain d t where "clean_json_loop True False (c # s) = d # t" "hex_value d = None"
      by (cases "clean_json_loop True False (c # s)") auto
    with None show ?thesis by (simp only: read_hex.simps option.case option.map)
  next
    case (Some d)
    then have "c \<noteq> backslash" "c \<noteq> dquote" "32 \<le> code_point c"
      using hex_value_escape by (auto simp: not_less [symmetric])
    with Some 3 show ?thesis by (simp add: escape_control_plain)
  qed
qed simp_all

lemma read_json_control:
  assumes "code_point c < 32"
  shows "read_json strict True (escape_control c @ s) = map_option ((#) (Inr (code_point c))) (read_json strict True s)"
proof -
  have hex: "read_hex 4 0 (hex4 (code_point c) @ s) = Some (code_point c, s)"
  proof -
    have "hex_value (CHR ''0'') = Some 0" by (simp add: hex_value_def)
    moreover have "code_point c div 16 < 16" "code_point c mod 16 < 16" using assms by simp_all
    moreover have "4 = Suc (Suc (Suc (Suc 0)))" by simp
    moreover have "16 * (code_point c div 16) + code_point c mod 16 = code_point c" by simp
    ultimately show ?thesis
      by (simp only: hex4_def hex_value_digit read_hex.simps append.simps option.case mult_0_right add_0_left)
  qed
  show ?thesis
    using hex by (auto simp: escape_control_def simple_escape_def assms)
qed

text \<open>The strict reader reads in the repaired text what the lenient one reads in the original.\<close>

lemma read_json_cleaned: "strict = False \<Longrightarrow> read_json True in_string (clean_json_loop in_string False s) = read_json strict in_string s"
proof (induction strict in_string s rule: read_json.induct)
  case (3 strict c s)
  consider "c = backslash" | "c = dquote" | "c \<noteq> backslash" "c \<noteq> dquote" by blast
  then show ?case
  proof cases
    case 1
    show ?thesis
    proof (cases s)
      case Nil
      with 1 show ?thesis by simp
    next
      case (Cons e t)
      have "read_escape (e # clean_json_loop True False t)
          = map_option (\<lambda>(u, r). (u, clean_json_loop True False r)) (read_escape (e # t))"
        by (simp add: read_hex_cleaned option.map_comp comp_def)
      with 1 Cons 3(1,2,3,4) show ?thesis
        by (auto split: option.splits)
    qed
  next
    case 2
    with 3 show ?thesis by simp
  next
    case 3
    then show ?thesis
      using read_json_control [of c True "clean_json_loop True False s"] "3.IH" "3.prems"
      by (cases "code_point c < 32") (simp_all add: escape_control_plain)
  qed
qed simp_all

text \<open>
  C40. The repair of a model's JSON writes each control character that stands unescaped in a string literal as an escape sequence, and
  every other character, one after a backslash included, as it is. A strict reader of JSON then
  reads in the repaired text exactly what a reader that lets raw control characters stand for themselves reads in the original, and fails where that fails.
  No unescaped raw control character is left in a literal, a text that has none is unchanged, and the repair is idempotent.
\<close>

theorem clean_json_string_repairs:
  "clean_json_string s
     = concat (map (\<lambda>i. if foldl scan_char Outside (take i s) = Inside then escape_control (s ! i) else [s ! i]) [0..<length s])
   \<and> read_json True False (clean_json_string s) = read_json False False s
   \<and> clean_literals False False (clean_json_string s)
   \<and> (clean_literals False False s \<longleftrightarrow> clean_json_string s = s)
   \<and> clean_json_string (clean_json_string s) = clean_json_string s"
proof (intro conjI)
  have clean: "clean_literals False False (clean_json_string t)" for t
    using clean_json_loop_clean [of False False t] by (simp add: clean_json_string_def)
  have same: "clean_json_string t = t" if "clean_literals False False t" for t
    using clean_json_loop_same [of False False t] that by (simp add: clean_json_string_def)
  show "clean_json_string s
     = concat (map (\<lambda>i. if foldl scan_char Outside (take i s) = Inside then escape_control (s ! i) else [s ! i]) [0..<length s])"
    using clean_json_loop_cleaned [of Outside s] by (simp add: clean_json_string_def cleaned_def)
  show "read_json True False (clean_json_string s) = read_json False False s"
    by (simp add: clean_json_string_def read_json_cleaned)
  show "clean_literals False False (clean_json_string s)" by (rule clean)
  show "clean_literals False False s \<longleftrightarrow> clean_json_string s = s" using clean same by metis
  show "clean_json_string (clean_json_string s) = clean_json_string s" using clean same by blast
qed

end
