(* ===== verification/Prompt.thy ===== *)
theory Prompt
  imports Prelude "HOL-Library.Multiset"
begin

text \<open>
  Prompt templates (\<open>src/src/workflow/prompt.rs\<close>): files placed at directives, variables substituted. A patch under review
  may contain anything, so what is placed must never be read as part of the template. Paths are texts in normal form (no empty or
  \<open>.\<close> component, no slash at the end of a base directory); the file system is a parameter that does not change during a rendering. An
  error is its text.
\<close>

type_synonym path = string

datatype inclusion = File path | Directory path "string \<Rightarrow> bool"

record 's prompt_template =
  pt_raw_template :: string
  pt_vars :: "(string \<times> ('s \<Rightarrow> string)) list"
  pt_static_inclusions :: "inclusion list"
  pt_dynamic_inclusions :: "('s \<Rightarrow> path list) list"

record file_system =
  fs_exists :: "path \<Rightarrow> bool"
  fs_read :: "path \<Rightarrow> string + string"
  fs_list :: "path \<Rightarrow> string + string list"

section \<open>Building a template\<close>

definition prompt_template_new :: "string \<Rightarrow> 's prompt_template" where
  "prompt_template_new t = \<lparr>pt_raw_template = t, pt_vars = [], pt_static_inclusions = [], pt_dynamic_inclusions = []\<rparr>"

definition with_var :: "string \<Rightarrow> ('s \<Rightarrow> string) \<Rightarrow> 's prompt_template \<Rightarrow> 's prompt_template" where
  "with_var key extractor tpl = tpl\<lparr>pt_vars := pt_vars tpl @ [(key, extractor)]\<rparr>"

definition include_file :: "path \<Rightarrow> 's prompt_template \<Rightarrow> 's prompt_template" where
  "include_file path tpl = tpl\<lparr>pt_static_inclusions := pt_static_inclusions tpl @ [File path]\<rparr>"

definition include_dir :: "path \<Rightarrow> (string \<Rightarrow> bool) \<Rightarrow> 's prompt_template \<Rightarrow> 's prompt_template" where
  "include_dir path filt tpl = tpl\<lparr>pt_static_inclusions := pt_static_inclusions tpl @ [Directory path filt]\<rparr>"

definition include_files_from_state :: "('s \<Rightarrow> path list) \<Rightarrow> 's prompt_template \<Rightarrow> 's prompt_template" where
  "include_files_from_state resolver tpl = tpl\<lparr>pt_dynamic_inclusions := pt_dynamic_inclusions tpl @ [resolver]\<rparr>"

section \<open>Placing blocks\<close>

definition dynamic_include_marker :: string where
  "dynamic_include_marker = ''@includes''"

definition include_directive :: "path \<Rightarrow> string" where
  "include_directive path = ''@include('' @ [CHR 0x22] @ path @ [CHR 0x22] @ '')''"

datatype 'b segment = Template string | Included 'b

text \<open>The parts before and after the first occurrence of a pattern.\<close>

fun split_str :: "string \<Rightarrow> string \<Rightarrow> (string \<times> string) option" where
  "split_str p [] = (if p = [] then Some ([], []) else None)"
| "split_str p (c # s) =
     (if prefix p (c # s) then Some ([], drop (length p) (c # s))
      else map_option (\<lambda>(before, after). (c # before, after)) (split_str p s))"

fun place :: "'b segment list \<Rightarrow> string \<Rightarrow> 'b \<Rightarrow> 'b segment list option" where
  "place [] directive block = None"
| "place (Included b # segments) directive block = map_option ((#) (Included b)) (place segments directive block)"
| "place (Template t # segments) directive block =
     (case split_str directive t of
        Some (before, after) \<Rightarrow> Some (Template before # Included block # Template after # segments)
      | None \<Rightarrow> map_option ((#) (Template t)) (place segments directive block))"

text \<open>The blocks one after the other, each with its directive; what no segment names goes to the end.\<close>

fun place_all :: "(string \<times> 'b) list \<Rightarrow> 'b segment list \<Rightarrow> 'b list \<Rightarrow> 'b segment list \<times> 'b list" where
  "place_all [] segments trailing = (segments, trailing)"
| "place_all ((directive, block) # bs) segments trailing =
     (case place segments directive block of
        Some segments' \<Rightarrow> place_all bs segments' trailing
      | None \<Rightarrow> place_all bs segments (trailing @ [block]))"

section \<open>Variables\<close>

text \<open>The first variable whose placeholder a text starts with, and the text after it.\<close>

definition bound_var :: "(string \<times> 'v) list \<Rightarrow> string \<Rightarrow> ('v \<times> string) option" where
  "bound_var vars candidate =
     (case List.map_filter (\<lambda>(key, v).
             Option.bind (Option.bind (strip_prefix ''{{'' candidate) (strip_prefix key))
               (\<lambda>body. map_option (Pair v) (strip_prefix ''}}'' body))) vars of
        [] \<Rightarrow> None
      | b # _ \<Rightarrow> Some b)"

lemma split_str_length: "split_str p s = Some (before, after) \<Longrightarrow> length s = length before + length p + length after"
proof (induction s arbitrary: before)
  case (Cons c s)
  have "length (c # s) = length p + length (drop (length p) (c # s))" if "prefix p (c # s)"
    using prefix_length_le [OF that] by simp
  with Cons show ?case by (auto split: if_splits)
qed (auto split: if_splits)

lemma bound_var_length: "bound_var vars candidate = Some (v, after) \<Longrightarrow> length after < length candidate"
proof -
  assume "bound_var vars candidate = Some (v, after)"
  then obtain bs where "List.map_filter (\<lambda>(key, v).
      Option.bind (Option.bind (strip_prefix ''{{'' candidate) (strip_prefix key))
        (\<lambda>body. map_option (Pair v) (strip_prefix ''}}'' body))) vars = (v, after) # bs"
    by (auto simp: bound_var_def split: list.splits)
  then have "(v, after) \<in> set (List.map_filter (\<lambda>(key, v).
      Option.bind (Option.bind (strip_prefix ''{{'' candidate) (strip_prefix key))
        (\<lambda>body. map_option (Pair v) (strip_prefix ''}}'' body))) vars)" by simp
  then show ?thesis
    by (auto simp: set_map_filter bind_eq_Some_conv strip_prefix_def prefix_def split: if_splits)
qed

function substitute_vars :: "(string \<times> ('s \<Rightarrow> string)) list \<Rightarrow> 's \<Rightarrow> string \<Rightarrow> string" where
  "substitute_vars vars state rest =
     (case split_str ''{{'' rest of
        None \<Rightarrow> rest
      | Some (before, after) \<Rightarrow>
          before @ (case bound_var vars (''{{'' @ after) of
                      Some (extractor, r) \<Rightarrow> extractor state @ substitute_vars vars state r
                    | None \<Rightarrow> ''{'' @ substitute_vars vars state (''{'' @ after)))"
  by pat_completeness auto

termination substitute_vars
  by (relation "measure (\<lambda>(_, _, rest). length rest)") (auto dest!: split_str_length bound_var_length)

declare substitute_vars.simps [simp del]

definition assemble :: "'s prompt_template \<Rightarrow> 's \<Rightarrow> string segment list \<times> string list \<Rightarrow> string" where
  "assemble tpl state = (\<lambda>(segments, trailing).
     concat (map (\<lambda>seg. case seg of Template t \<Rightarrow> substitute_vars (pt_vars tpl) state t | Included block \<Rightarrow> block) segments)
     @ concat trailing)"

section \<open>The blocks\<close>

definition path_join :: "path \<Rightarrow> path \<Rightarrow> path" where
  "path_join base p = (if prefix ''/'' p then p else base @ ''/'' @ p)"

definition strip_base :: "path \<Rightarrow> path \<Rightarrow> path" where
  "strip_base base p = (case strip_prefix (base @ ''/'') p of Some r \<Rightarrow> r | None \<Rightarrow> p)"

text \<open>The extension of a file name is \<open>md\<close>; a name that is only an extension has none.\<close>

definition is_md :: "string \<Rightarrow> bool" where
  "is_md name \<longleftrightarrow> suffix ''.md'' name \<and> name \<noteq> ''.md''"

definition quoted :: "path \<Rightarrow> string" where
  "quoted p = [CHR 0x22] @ concat (map (\<lambda>c. if c = CHR 0x22 \<or> c = CHR 0x5C then [CHR 0x5C, c] else [c]) p) @ [CHR 0x22]"

fun traverse :: "('a \<Rightarrow> 'e + 'b) \<Rightarrow> 'a list \<Rightarrow> 'e + 'b list" where
  "traverse f [] = Inr []"
| "traverse f (x # xs) =
     (case f x of
        Inl e \<Rightarrow> Inl e
      | Inr y \<Rightarrow> (case traverse f xs of Inl e \<Rightarrow> Inl e | Inr ys \<Rightarrow> Inr (y # ys)))"

abbreviation newline :: char where "newline \<equiv> CHR 0x0A"

definition file_block :: "string \<Rightarrow> string \<Rightarrow> string \<Rightarrow> string" where
  "file_block marker title content = [newline, newline] @ marker @ title @ [newline] @ content @ [newline]"

definition read_block :: "file_system \<Rightarrow> (path \<Rightarrow> string) \<Rightarrow> string \<Rightarrow> path \<Rightarrow> path \<Rightarrow> string + string" where
  "read_block fs context marker title full_path =
     (case fs_read fs full_path of Inl _ \<Rightarrow> Inl (context full_path) | Inr content \<Rightarrow> Inr (file_block marker title content))"

fun inclusion_path :: "inclusion \<Rightarrow> path" where
  "inclusion_path (File path) = path"
| "inclusion_path (Directory path filt) = path"

text \<open>A file or directory that is not there has the empty block.\<close>

fun static_block :: "file_system \<Rightarrow> path \<Rightarrow> inclusion \<Rightarrow> string + string" where
  "static_block fs base (File path) =
     (let full_path = path_join base path
      in if fs_exists fs full_path
         then read_block fs (\<lambda>p. ''Failed to read file: '' @ quoted p) ''# '' path full_path
         else Inr [])"
| "static_block fs base (Directory path filt) =
     (let dir_path = path_join base path
      in if \<not> fs_exists fs dir_path then Inr []
         else (case fs_list fs dir_path of
                 Inl e \<Rightarrow> Inl e
               | Inr names \<Rightarrow>
                   map_sum (\<lambda>e. e) concat
                     (traverse (\<lambda>name. let file_path = path_join dir_path name
                                       in case fs_read fs file_path of
                                            Inl e \<Rightarrow> Inl e
                                          | Inr content \<Rightarrow> Inr (file_block ''## '' (strip_base base file_path) content))
                        (sort (filter (\<lambda>name. is_md name \<and> filt name) names)))))"

definition dynamic_block :: "file_system \<Rightarrow> path \<Rightarrow> 's prompt_template \<Rightarrow> 's \<Rightarrow> string + string" where
  "dynamic_block fs base tpl state =
     map_sum (\<lambda>e. e) concat
       (traverse (\<lambda>path. read_block fs (\<lambda>p. ''Failed to read dynamic file: '' @ quoted p) ''# '' path (path_join base path))
          (filter (\<lambda>path. fs_exists fs (path_join base path)) (concat (map (\<lambda>r. r state) (pt_dynamic_inclusions tpl)))))"

fun static_token :: "inclusion \<Rightarrow> string" where
  "static_token (File path) = [newline, newline] @ ''@'' @ path @ [newline]"
| "static_token (Directory path filt) = [newline, newline] @ ''@'' @ path @ ''/'' @ [newline]"

definition dynamic_token :: "'s prompt_template \<Rightarrow> 's \<Rightarrow> string" where
  "dynamic_token tpl state =
     concat (map (\<lambda>files. if files = [] then [] else [newline, newline] @ join '', '' (map ((@) ''@'') files) @ [newline])
       (map (\<lambda>r. r state) (pt_dynamic_inclusions tpl)))"

definition directives :: "'s prompt_template \<Rightarrow> string list" where
  "directives tpl = map (include_directive \<circ> inclusion_path) (pt_static_inclusions tpl) @ [dynamic_include_marker]"

definition model_blocks :: "file_system \<Rightarrow> path \<Rightarrow> 's prompt_template \<Rightarrow> 's \<Rightarrow> string + string list" where
  "model_blocks fs base tpl state =
     (case traverse (static_block fs base) (pt_static_inclusions tpl) of
        Inl e \<Rightarrow> Inl e
      | Inr blocks \<Rightarrow> map_sum (\<lambda>e. e) (\<lambda>d. blocks @ [d]) (dynamic_block fs base tpl state))"

definition log_blocks :: "'s prompt_template \<Rightarrow> 's \<Rightarrow> string list" where
  "log_blocks tpl state = map static_token (pt_static_inclusions tpl) @ [dynamic_token tpl state]"

definition render_for_model :: "'s prompt_template \<Rightarrow> file_system \<Rightarrow> path \<Rightarrow> 's \<Rightarrow> string + string" where
  "render_for_model tpl fs base state =
     map_sum (\<lambda>e. e)
       (\<lambda>blocks. assemble tpl state (place_all (zip (directives tpl) blocks) [Template (pt_raw_template tpl)] []))
       (model_blocks fs base tpl state)"

definition render_for_log :: "'s prompt_template \<Rightarrow> 's \<Rightarrow> string" where
  "render_for_log tpl state =
     assemble tpl state (place_all (zip (directives tpl) (log_blocks tpl state)) [Template (pt_raw_template tpl)] [])"

section \<open>The layout of a template\<close>

text \<open>What a template says about its rendering before any content is known.\<close>

datatype 's piece = Literal string | Value "'s \<Rightarrow> string" | Block nat

function var_pieces :: "(string \<times> ('s \<Rightarrow> string)) list \<Rightarrow> string \<Rightarrow> 's piece list" where
  "var_pieces vars rest =
     (case split_str ''{{'' rest of
        None \<Rightarrow> [Literal rest]
      | Some (before, after) \<Rightarrow>
          Literal before # (case bound_var vars (''{{'' @ after) of
                      Some (extractor, r) \<Rightarrow> Value extractor # var_pieces vars r
                    | None \<Rightarrow> Literal ''{'' # var_pieces vars (''{'' @ after)))"
  by pat_completeness auto

termination var_pieces
  by (relation "measure (\<lambda>(_, rest). length rest)") (auto dest!: split_str_length bound_var_length)

declare var_pieces.simps [simp del]

definition prompt_layout :: "'s prompt_template \<Rightarrow> 's piece list" where
  "prompt_layout tpl =
     (let (segments, trailing) =
            place_all (zip (directives tpl) [0..<length (directives tpl)]) [Template (pt_raw_template tpl)] []
      in concat (map (\<lambda>seg. case seg of Template t \<Rightarrow> var_pieces (pt_vars tpl) t | Included i \<Rightarrow> [Block i]) segments)
         @ map Block trailing)"

definition fill :: "'s \<Rightarrow> string list \<Rightarrow> 's piece list \<Rightarrow> string" where
  "fill state blocks pieces =
     concat (map (\<lambda>p. case p of Literal t \<Rightarrow> t | Value extractor \<Rightarrow> extractor state | Block i \<Rightarrow> blocks ! i) pieces)"

definition block_numbers :: "'s piece list \<Rightarrow> nat list" where
  "block_numbers pieces = List.map_filter (\<lambda>p. case p of Block i \<Rightarrow> Some i | _ \<Rightarrow> None) pieces"

lemma fill_append [simp]: "fill state blocks (ps @ qs) = fill state blocks ps @ fill state blocks qs"
  by (simp add: fill_def)

lemma fill_simps [simp]:
  "fill state blocks [] = []"
  "fill state blocks (Literal t # ps) = t @ fill state blocks ps"
  "fill state blocks (Value f # ps) = f state @ fill state blocks ps"
  "fill state blocks (Block i # ps) = blocks ! i @ fill state blocks ps"
  by (simp_all add: fill_def)

lemma block_numbers_simps [simp]:
  "block_numbers [] = []"
  "block_numbers (Literal t # ps) = block_numbers ps"
  "block_numbers (Value f # ps) = block_numbers ps"
  "block_numbers (Block i # ps) = i # block_numbers ps"
  "block_numbers (ps @ qs) = block_numbers ps @ block_numbers qs"
  by (simp_all add: block_numbers_def List.map_filter_simps) (simp add: List.map_filter_def)

lemma substitute_vars_pieces: "substitute_vars vars state t = fill state blocks (var_pieces vars t)"
proof (induction vars t rule: var_pieces.induct)
  case (1 vars rest)
  then show ?case
    by (subst substitute_vars.simps, subst var_pieces.simps) (auto split: option.splits)
qed

lemma block_numbers_var_pieces [simp]: "block_numbers (var_pieces vars t) = []"
proof (induction vars t rule: var_pieces.induct)
  case (1 vars rest)
  then show ?case by (subst var_pieces.simps) (auto split: option.splits)
qed

text \<open>Placing does not look at the blocks.\<close>

lemma place_map: "place (map (map_segment f) segments) d (f b) = map_option (map (map_segment f)) (place segments d b)"
  by (induction segments d b rule: place.induct) (auto simp: option.map_comp comp_def split: option.splits)

lemma place_all_map:
  "place_all (map (apsnd f) bs) (map (map_segment f) segments) (map f trailing) =
     map_prod (map (map_segment f)) (map f) (place_all bs segments trailing)"
proof (induction bs segments trailing rule: place_all.induct)
  case (2 d b bs segments trailing)
  then show ?case by (auto simp: place_map split: option.splits)
qed simp

lemma zip_map_upt:
  assumes "length blocks = length ds"
  shows "zip ds blocks = map (apsnd ((!) blocks)) (zip ds [0..<length ds])"
  by (rule nth_equalityI) (use assms in auto)

lemma assemble_layout:
  assumes "length blocks = length (directives tpl)"
  shows "assemble tpl state (place_all (zip (directives tpl) blocks) [Template (pt_raw_template tpl)] [])
    = fill state blocks (prompt_layout tpl)"
proof -
  obtain segments trailing where p: "place_all (zip (directives tpl) [0..<length (directives tpl)])
      [Template (pt_raw_template tpl)] [] = (segments, trailing)" by fastforce
  have "place_all (zip (directives tpl) blocks) [Template (pt_raw_template tpl)] []
      = (map (map_segment ((!) blocks)) segments, map ((!) blocks) trailing)"
    using place_all_map [of "(!) blocks" "zip (directives tpl) [0..<length (directives tpl)]"
        "[Template (pt_raw_template tpl)]" "[]"] p
    by (simp add: zip_map_upt [OF assms])
  moreover have "concat (map (\<lambda>seg. case seg of Template t \<Rightarrow> substitute_vars (pt_vars tpl) state t | Included block \<Rightarrow> block)
        (map (map_segment ((!) blocks)) segs))
      = fill state blocks (concat (map (\<lambda>seg. case seg of Template t \<Rightarrow> var_pieces (pt_vars tpl) t | Included i \<Rightarrow> [Block i]) segs))" for segs
    by (induction segs) (auto simp: substitute_vars_pieces [where blocks = blocks] split: segment.splits)
  moreover have "concat (map ((!) blocks) tr) = fill state blocks (map Block tr)" for tr
    by (induction tr) auto
  ultimately show ?thesis by (simp add: assemble_def prompt_layout_def p)
qed

text \<open>No block is lost or placed twice.\<close>

fun included :: "'b segment list \<Rightarrow> 'b list" where
  "included [] = []"
| "included (Template t # segments) = included segments"
| "included (Included b # segments) = b # included segments"

lemma included_place: "place segments d b = Some segments' \<Longrightarrow> mset (included segments') = add_mset b (mset (included segments))"
  by (induction segments d b arbitrary: segments' rule: place.induct) (auto split: option.splits)

lemma included_place_all:
  "place_all bs segments trailing = (segments', trailing') \<Longrightarrow>
     mset (included segments' @ trailing') = mset (included segments @ trailing @ map snd bs)"
proof (induction bs segments trailing rule: place_all.induct)
  case (2 d b bs segments trailing)
  then show ?case by (auto dest: included_place split: option.splits)
qed simp

lemma block_numbers_layout:
  "mset (block_numbers (prompt_layout tpl)) = mset [0..<length (directives tpl)]"
proof -
  obtain segments trailing where p: "place_all (zip (directives tpl) [0..<length (directives tpl)])
      [Template (pt_raw_template tpl)] [] = (segments, trailing)" by fastforce
  have "block_numbers (concat (map (\<lambda>seg. case seg of Template t \<Rightarrow> var_pieces (pt_vars tpl) t | Included i \<Rightarrow> [Block i]) segs))
      = included segs" for segs
    by (induction segs rule: included.induct) auto
  moreover have "block_numbers (map Block tr :: 's piece list) = tr" for tr by (induction tr) auto
  ultimately have "block_numbers (prompt_layout tpl) = included segments @ trailing"
    by (simp add: prompt_layout_def p)
  with included_place_all [OF p] show ?thesis by simp
qed

lemma traverse_length: "traverse f xs = Inr ys \<Longrightarrow> length ys = length xs"
  by (induction xs arbitrary: ys) (auto split: sum.splits)

text \<open>
  C28. What is put into a prompt is never read as part of it: which literal pieces of the template, which variables and
  which blocks the prompt consists of, and in which order, is known from the template alone, before the state, the patch and the
  files are. The prompt for the model and the one for the log only differ in the blocks, and each
  inclusion has exactly one place.
\<close>

theorem prompt_layout_fixed:
  "(case render_for_model tpl fs base state of
      Inl e \<Rightarrow> model_blocks fs base tpl state = Inl e
    | Inr prompt \<Rightarrow> (\<exists>blocks. model_blocks fs base tpl state = Inr blocks \<and> length blocks = length (directives tpl)
        \<and> prompt = fill state blocks (prompt_layout tpl)))
   \<and> render_for_log tpl state = fill state (log_blocks tpl state) (prompt_layout tpl)
   \<and> mset (block_numbers (prompt_layout tpl)) = mset [0..<length (directives tpl)]"
proof (intro conjI)
  show "mset (block_numbers (prompt_layout tpl)) = mset [0..<length (directives tpl)]" by (rule block_numbers_layout)
  show "render_for_log tpl state = fill state (log_blocks tpl state) (prompt_layout tpl)"
    unfolding render_for_log_def by (rule assemble_layout) (simp add: log_blocks_def directives_def)
  have "length blocks = length (directives tpl)" if "model_blocks fs base tpl state = Inr blocks" for blocks
    using that by (cases "dynamic_block fs base tpl state")
      (auto simp: model_blocks_def directives_def traverse_length split: sum.splits)
  then show "case render_for_model tpl fs base state of
      Inl e \<Rightarrow> model_blocks fs base tpl state = Inl e
    | Inr prompt \<Rightarrow> (\<exists>blocks. model_blocks fs base tpl state = Inr blocks \<and> length blocks = length (directives tpl)
        \<and> prompt = fill state blocks (prompt_layout tpl))"
    by (cases "model_blocks fs base tpl state") (simp_all add: render_for_model_def assemble_layout)
qed

end
