(* ===== verification/Stage.thy ===== *)
theory Stage
  imports Conversation ModelOutput Prompt
begin

text \<open>
  The stages of a workflow (\<open>src/src/workflow/stage.rs\<close>, \<open>policy.rs\<close>): a prompt, an output format, a policy and a reducer,
  executed as a session with the model. The environment offers the provider and the tools, each as a function of how often it
  was asked before; the deserialisation of the output type is a parameter.
\<close>

section \<open>Policies\<close>

datatype tool_scope = NoTools | AllTools | SelectedTools "string list"

datatype recitation_policy = RecitationFail | RetryWithReminder string | FallbackToFreeForm string

datatype reasoning_effort = Low | Medium | High

record 'f stage_policy =
  pl_max_turns :: nat
  pl_max_validation_attempts :: nat
  pl_temperature :: 'f
  pl_tools :: tool_scope
  pl_recitation_policy :: recitation_policy
  pl_reasoning_effort :: "reasoning_effort option"

definition stage_policy_default :: "'f :: zero stage_policy" where
  "stage_policy_default =
     \<lparr>pl_max_turns = 15, pl_max_validation_attempts = 3, pl_temperature = 0, pl_tools = AllTools,
      pl_recitation_policy = RetryWithReminder
        (''IMPORTANT: Your previous response was blocked by a recitation filter. '' @
         ''To bypass this filter, please rephrase your response: do NOT quote large blocks '' @
         ''of code verbatim. Describe code logic in your own words, summarize findings, or '' @
         ''quote only short snippets (1-2 lines). Re-emit your JSON output now.''),
      pl_reasoning_effort = None\<rparr>"

datatype response_format = TextFormat | JsonFormat "string option"

record 'f request_settings =
  rs_temperature :: "'f option"
  rs_response_format :: "response_format option"
  rs_context_tag :: "string option"
  rs_reasoning_effort :: "reasoning_effort option"

section \<open>Stages\<close>

record ('s, 'o, 'f) stage =
  sg_name :: string
  sg_system_prompt :: "'s prompt_template option"
  sg_user_prompt :: "'s prompt_template"
  sg_output_format :: "('s, 'o) output_format"
  sg_policy :: "'f stage_policy"
  sg_reducer :: "'s \<Rightarrow> 'o \<Rightarrow> 's"
  sg_skip_if :: "('s \<Rightarrow> bool) option"
  sg_required :: bool

record ('s, 'o, 'f) stage_builder =
  sb_name :: string
  sb_system_prompt :: "'s prompt_template option"
  sb_user_prompt :: "'s prompt_template option"
  sb_output_format :: "('s, 'o) output_format option"
  sb_policy :: "'f stage_policy"
  sb_reducer :: "('s \<Rightarrow> 'o \<Rightarrow> 's) option"
  sb_skip_if :: "('s \<Rightarrow> bool) option"
  sb_required :: bool

definition stage_builder_new :: "string \<Rightarrow> ('s, 'o, 'f :: zero) stage_builder" where
  "stage_builder_new name = \<lparr>sb_name = name, sb_system_prompt = None, sb_user_prompt = None, sb_output_format = None,
     sb_policy = stage_policy_default, sb_reducer = None, sb_skip_if = None, sb_required = False\<rparr>"

text \<open>Building panics (\<^const>\<open>None\<close>) without a user prompt or an output format.\<close>

definition stage_build :: "('s, 'o, 'f) stage_builder \<Rightarrow> ('s, 'o, 'f) stage option" where
  "stage_build b =
     Option.bind (sb_user_prompt b) (\<lambda>user_prompt. Option.bind (sb_output_format b) (\<lambda>output_format.
       Some \<lparr>sg_name = sb_name b, sg_system_prompt = sb_system_prompt b, sg_user_prompt = user_prompt,
             sg_output_format = output_format, sg_policy = sb_policy b,
             sg_reducer = (case sb_reducer b of Some r \<Rightarrow> r | None \<Rightarrow> (\<lambda>s _. s)),
             sg_skip_if = sb_skip_if b, sg_required = sb_required b\<rparr>))"

record stage_outcome =
  so_tokens_in :: nat
  so_tokens_out :: nat
  so_tokens_cached :: nat
  so_history :: "ai_message list"
  so_skipped :: bool

definition stage_outcome_default :: stage_outcome where
  "stage_outcome_default = \<lparr>so_tokens_in = 0, so_tokens_out = 0, so_tokens_cached = 0, so_history = [], so_skipped = False\<rparr>"

definition stage_turns :: "stage_outcome \<Rightarrow> nat" where
  "stage_turns oc = length (filter (\<lambda>m. am_role m = Assistant) (so_history oc))"

text \<open>The error of a stage: its text, and the failed session if there was one.\<close>

record stage_error =
  sge_text :: string
  sge_session :: "session_failure option"

record 'f workflow_env =
  we_provider :: "'f request_settings ai_provider"
  we_declarations :: "ai_tool list"
  we_call_tool :: "nat \<Rightarrow> string \<Rightarrow> json_value \<Rightarrow> string + json_value"
  we_json :: json_ops
  we_files :: file_system
  we_base_dir :: path
  we_context_tag :: "string option"

record ('v, 'o) deserialiser =
  de_from_str :: "string \<Rightarrow> string + 'o"
  de_value_of :: "string \<Rightarrow> 'v option"
  de_from_value :: "'v \<Rightarrow> 'o option"

section \<open>The session of a stage\<close>

text \<open>What changes during the session: free-form output after a recitation error, the last call, and the number of tools called.\<close>

record stage_session =
  gs_recitation_fallback_active :: bool
  gs_last_tool_call :: "(string \<times> json_value) option"
  gs_calls :: nat

definition stage_session_start :: stage_session where
  "stage_session_start = \<lparr>gs_recitation_fallback_active = False, gs_last_tool_call = None, gs_calls = 0\<rparr>"

definition stage_tools :: "('s, 'o, 'f) stage \<Rightarrow> 'f workflow_env \<Rightarrow> ai_tool list option" where
  "stage_tools st env =
     (case pl_tools (sg_policy st) of
        NoTools \<Rightarrow> None
      | AllTools \<Rightarrow> Some (we_declarations env)
      | SelectedTools names \<Rightarrow> Some (filter (\<lambda>t. at_name t \<in> set names) (we_declarations env)))"

definition stage_response_format :: "('s, 'o, 'f) stage \<Rightarrow> stage_session \<Rightarrow> response_format option" where
  "stage_response_format st ss =
     (if gs_recitation_fallback_active ss then None
      else map_option (\<lambda>s. JsonFormat (Some s)) (output_schema (sg_output_format st)))"

definition stage_settings :: "('s, 'o, 'f) stage \<Rightarrow> 'f workflow_env \<Rightarrow> stage_session \<Rightarrow> 'f request_settings" where
  "stage_settings st env ss =
     \<lparr>rs_temperature = Some (pl_temperature (sg_policy st)), rs_response_format = stage_response_format st ss,
      rs_context_tag = we_context_tag env, rs_reasoning_effort = pl_reasoning_effort (sg_policy st)\<rparr>"

definition duplicate_call_error :: string where
  "duplicate_call_error = ''Duplicate tool call blocked. Please change parameters or use a different tool.''"

definition repeated_call :: "json_ops \<Rightarrow> (string \<times> json_value) option \<Rightarrow> string \<Rightarrow> json_value \<Rightarrow> bool" where
  "repeated_call json last_call name args \<longleftrightarrow>
     (case last_call of None \<Rightarrow> False | Some (n, a) \<Rightarrow> n = name \<and> jo_eq json a args)"

definition run_tool :: "'f workflow_env \<Rightarrow> nat \<Rightarrow> string \<Rightarrow> json_value \<Rightarrow> json_value" where
  "run_tool env n name args = (case we_call_tool env n name args of Inr v \<Rightarrow> v | Inl e \<Rightarrow> jo_error (we_json env) e)"

definition stage_call_tool :: "'f workflow_env \<Rightarrow> stage_session \<Rightarrow> string \<Rightarrow> json_value \<Rightarrow> json_value \<times> stage_session" where
  "stage_call_tool env ss name args =
     (if repeated_call (we_json env) (gs_last_tool_call ss) name args
      then (jo_error (we_json env) duplicate_call_error, ss)
      else (run_tool env (gs_calls ss) name args,
            ss\<lparr>gs_last_tool_call := Some (name, args), gs_calls := gs_calls ss + 1\<rparr>))"

text \<open>The first loop over a batch: the answers to repeated calls, the calls to run, the last call.\<close>

type_synonym screening =
  "(string \<times> json_value) option list \<times> (nat \<times> tool_call) list \<times> (string \<times> json_value) option"

definition screen_call :: "json_ops \<Rightarrow> nat \<times> tool_call \<Rightarrow> screening \<Rightarrow> screening" where
  "screen_call json = (\<lambda>(idx, call) (results, to_run, last_call).
     if repeated_call json last_call (tc_function_name call) (tc_arguments call)
     then (results[idx := Some (tc_id call, jo_error json duplicate_call_error)], to_run, last_call)
     else (results, to_run @ [(idx, call)], Some (tc_function_name call, tc_arguments call)))"

definition stage_call_tools ::
  "'f workflow_env \<Rightarrow> stage_session \<Rightarrow> tool_call list \<Rightarrow> (string \<times> json_value) list \<times> stage_session" where
  "stage_call_tools env ss calls =
     (let (results, to_run, last_call) =
            fold (screen_call (we_json env)) (enumerate 0 calls) (replicate (length calls) None, [], gs_last_tool_call ss);
          answers = map (\<lambda>(k, idx, call).
            (idx, tc_id call, run_tool env k (tc_function_name call) (tc_arguments call))) (enumerate (gs_calls ss) to_run);
          results = fold (\<lambda>(idx, answer) results. results[idx := Some answer]) answers results
      in (List.map_filter (\<lambda>r. r) results, ss\<lparr>gs_last_tool_call := last_call, gs_calls := gs_calls ss + length to_run\<rparr>))"

definition stage_validate ::
  "('v, 'o) deserialiser \<Rightarrow> ('s, 'o, 'f) stage \<Rightarrow> 's \<Rightarrow> stage_session \<Rightarrow> ai_response \<Rightarrow> validation_error + 'o" where
  "stage_validate de st state ss resp =
     (let text = (case rp_content resp of None \<Rightarrow> [] | Some t \<Rightarrow> t)
      in case validate_with_recitation_fallback (de_from_str de) (de_value_of de) (de_from_value de) (sg_output_format st) text state
                (gs_recitation_fallback_active ss) of
           Inr parsed \<Rightarrow> Inr parsed
         | Inl violation \<Rightarrow> Inl (FormatViolation violation))"

definition stage_handle_provider_error ::
  "('s, 'o, 'f) stage \<Rightarrow> stage_session \<Rightarrow> ai_error \<Rightarrow> nat \<Rightarrow> bool \<Rightarrow> error_action \<times> stage_session" where
  "stage_handle_provider_error st ss e attempt has_active_tools =
     (if is_malformed_tool_call_error (ae_text e) then
        (RetryWithFeedback (malformed_tool_call_feedback has_active_tools), ss)
      else if contains (ae_text e) ''RECITATION'' \<or> contains (ae_text e) ''blocked'' then
        (case pl_recitation_policy (sg_policy st) of
           RecitationFail \<Rightarrow> (Fail, ss)
         | RetryWithReminder reminder \<Rightarrow> (RetryWithFeedback reminder, ss)
         | FallbackToFreeForm reminder \<Rightarrow>
             (RetryWithFeedback reminder, ss\<lparr>gs_recitation_fallback_active := True\<rparr>))
      else (Fail, ss))"

definition stage_llm_session ::
  "('v, 'o) deserialiser \<Rightarrow> ('s, 'o, 'f) stage \<Rightarrow> 'f workflow_env \<Rightarrow> 's \<Rightarrow> string \<Rightarrow> string \<Rightarrow> string
     \<Rightarrow> (stage_session, 'o, 'f request_settings) llm_session" where
  "stage_llm_session de st env state system user log_user =
     \<lparr>ss_system_prompt = \<lambda>_. system, ss_initial_user_prompt = \<lambda>_. user, ss_log_user_prompt = \<lambda>_. log_user,
      ss_format_validation_feedback = \<lambda>_. format_feedback (sg_output_format st),
      ss_tools = \<lambda>_. stage_tools st env, ss_settings = stage_settings st env,
      ss_call_tools = \<lambda>ss calls. map_prod Inr (\<lambda>s. s) (stage_call_tools env ss calls),
      ss_validate = \<lambda>ss resp. (stage_validate de st state ss resp, ss),
      ss_handle_provider_error = stage_handle_provider_error st\<rparr>"

section \<open>Executing a stage\<close>

definition stage_runner :: "('s, 'o, 'f) stage \<Rightarrow> session_runner" where
  "stage_runner st = session_runner_new\<lparr>sn_max_turns := pl_max_turns (sg_policy st),
     sn_max_validation_attempts := pl_max_validation_attempts (sg_policy st)\<rparr>"

definition render_prompts :: "('s, 'o, 'f) stage \<Rightarrow> 'f workflow_env \<Rightarrow> 's \<Rightarrow> string + string \<times> string \<times> string" where
  "render_prompts st env state =
     (case (case sg_system_prompt st of
              Some sys \<Rightarrow> render_for_model sys (we_files env) (we_base_dir env) state
            | None \<Rightarrow> Inr []) of
        Inl e \<Rightarrow> Inl e
      | Inr system \<Rightarrow>
          (case render_for_model (sg_user_prompt st) (we_files env) (we_base_dir env) state of
             Inl e \<Rightarrow> Inl e
           | Inr user \<Rightarrow> Inr (system, user, render_for_log (sg_user_prompt st) state)))"

definition session_outcome :: "'o session_result \<Rightarrow> stage_outcome" where
  "session_outcome ok =
     \<lparr>so_tokens_in = clamp_to u32_max (au_prompt_tokens (sx_usage ok)),
      so_tokens_out = clamp_to u32_max (au_completion_tokens (sx_usage ok)),
      so_tokens_cached = clamp_to u32_max (case au_cached_tokens (sx_usage ok) of None \<Rightarrow> 0 | Some n \<Rightarrow> n),
      so_history = sx_history ok, so_skipped = False\<rparr>"

text \<open>The outcome and the change of the state, an error, or no return if the session does not end.\<close>

definition execute_isolated ::
  "('v, 'o) deserialiser \<Rightarrow> ('s, 'o, 'f) stage \<Rightarrow> 'f workflow_env \<Rightarrow> 's \<Rightarrow> (stage_error + stage_outcome \<times> ('s \<Rightarrow> 's)) option" where
  "execute_isolated de st env state =
     (if (case sg_skip_if st of None \<Rightarrow> False | Some predicate \<Rightarrow> predicate state)
      then Some (Inr (stage_outcome_default\<lparr>so_skipped := True\<rparr>, \<lambda>s. s))
      else (case render_prompts st env state of
              Inl e \<Rightarrow> Some (Inl \<lparr>sge_text = e, sge_session = None\<rparr>)
            | Inr (system, user, log_user) \<Rightarrow>
                map_option
                  (\<lambda>(res, run). case res of
                     Inl err \<Rightarrow> Inl \<lparr>sge_text = sf_message (se_failure err), sge_session = Some (se_failure err)\<rparr>
                   | Inr ok \<Rightarrow> Inr (session_outcome ok, \<lambda>s. sg_reducer st s (sx_output ok)))
                  (run_session (stage_runner st) (stage_llm_session de st env state system user log_user) (we_provider env)
                     stage_session_start)))"

section \<open>Every call is answered\<close>

text \<open>A slot of the results after some calls: answered, or with a call that is still to run.\<close>

definition screened :: "tool_call list \<Rightarrow> nat \<Rightarrow> screening \<Rightarrow> bool" where
  "screened calls n = (\<lambda>(results, to_run, last_call).
     length results = length calls
     \<and> (\<forall>(j, c) \<in> set to_run. j < length calls \<and> c = calls ! j)
     \<and> (\<forall>j < n. j \<in> fst ` set to_run \<or> (\<exists>v. results ! j = Some (tc_id (calls ! j), v))))"

lemma screened_step:
  assumes "screened calls n r" and "n < length calls"
  shows "screened calls (Suc n) (screen_call json (n, calls ! n) r)"
proof -
  obtain results to_run last_call where r: "r = (results, to_run, last_call)" by (rule prod_cases3)
  show ?thesis
    using assms by (auto simp: screened_def screen_call_def r less_Suc_eq nth_list_update)
qed

lemma screened_fold:
  assumes "n \<le> length calls"
  shows "screened calls n (fold (screen_call json) (enumerate 0 (take n calls)) (replicate (length calls) None, [], last_call))"
  using assms
proof (induction n)
  case (Suc n)
  then have t: "enumerate 0 (take (Suc n) calls) = enumerate 0 (take n calls) @ [(n, calls ! n)]"
    by (simp add: take_Suc_conv_app_nth enumerate_append_eq)
  show ?case using screened_step [OF Suc.IH] Suc.prems by (simp add: t)
qed (simp add: screened_def)

abbreviation fill_slots :: "(nat \<times> 'a) list \<Rightarrow> 'a option list \<Rightarrow> 'a option list" where
  "fill_slots answers results \<equiv> fold (\<lambda>(idx, answer) results. results[idx := Some answer]) answers results"

lemma length_fill_slots [simp]: "length (fill_slots answers rs) = length rs"
  by (induction answers arbitrary: rs) auto

lemma fill_slots_keeps:
  assumes "\<forall>(i, a) \<in> set answers. i < length rs \<and> fst a = key i" and "j < length rs" and "rs ! j = Some (key j, v)"
  shows "\<exists>v. fill_slots answers rs ! j = Some (key j, v)"
  using assms
proof (induction answers arbitrary: rs v)
  case (Cons x answers)
  obtain i k w where x: "x = (i, k, w)" by (rule prod_cases3)
  have "\<exists>v. rs[i := Some (k, w)] ! j = Some (key j, v)"
    using Cons.prems by (cases "i = j") (simp_all add: x)
  then obtain v' where v': "rs[i := Some (k, w)] ! j = Some (key j, v')" ..
  have "\<exists>v. fill_slots answers (rs[i := Some (k, w)]) ! j = Some (key j, v)"
    by (rule Cons.IH [OF _ _ v']) (use Cons.prems in auto)
  then show ?case by (simp add: x)
qed auto

lemma fill_slots_sets:
  assumes "\<forall>(i, a) \<in> set answers. i < length rs \<and> fst a = key i" and "j \<in> fst ` set answers"
  shows "\<exists>v. fill_slots answers rs ! j = Some (key j, v)"
  using assms
proof (induction answers arbitrary: rs)
  case (Cons x answers)
  obtain i k w where x: "x = (i, k, w)" by (rule prod_cases3)
  have "\<exists>v. fill_slots answers (rs[i := Some (k, w)]) ! j = Some (key j, v)"
  proof (cases "j \<in> fst ` set answers")
    case True
    show ?thesis by (rule Cons.IH [OF _ True]) (use Cons.prems(1) in auto)
  next
    case False
    then have "j = i" "i < length rs" "k = key i" using Cons.prems by (auto simp: x)
    then have "rs[i := Some (k, w)] ! j = Some (key j, w)" "j < length (rs[i := Some (k, w)])" by simp_all
    then show ?thesis by (intro fill_slots_keeps) (use Cons.prems(1) in auto)
  qed
  then show ?case by (simp add: x)
qed simp

lemma map_filter_slots:
  fixes rs :: "('a \<times> 'b) option list"
  assumes "\<And>j. j < length rs \<Longrightarrow> \<exists>v. rs ! j = Some (key j, v)"
  shows "map fst (List.map_filter (\<lambda>r. r) rs) = map key [0..<length rs]"
proof -
  have "rs = map (\<lambda>j. Some (key j, snd (the (rs ! j)))) [0..<length rs]"
    by (rule nth_equalityI) (use assms in fastforce)+
  moreover have "List.map_filter (\<lambda>r. r) (map (\<lambda>j. Some (f j)) js) = map f js" for f :: "nat \<Rightarrow> 'a \<times> 'b" and js
    by (induction js) (simp_all add: List.map_filter_simps)
  ultimately have "List.map_filter (\<lambda>r. r) rs = map (\<lambda>j. (key j, snd (the (rs ! j)))) [0..<length rs]" by metis
  then show ?thesis by (simp add: comp_def)
qed

lemma enumerated_answers:
  assumes "(i, a) \<in> set (map (\<lambda>(k, idx, call). (idx, tc_id call, g k call)) (enumerate n to_run))"
  shows "\<exists>call. (i, call) \<in> set to_run \<and> fst a = tc_id call"
  using assms by (auto simp: in_set_enumerate_eq) (metis nth_mem add_diff_cancel_left' le_Suc_ex nat_add_left_cancel_less add.commute)

lemma fst_enumerated_answers:
  "fst ` set (map (\<lambda>(k, idx, call). (idx, tc_id call, g k call)) (enumerate n to_run)) = fst ` set to_run"
proof -
  have "map fst (map (\<lambda>(k, idx, call). (idx, tc_id call, g k call)) (enumerate n to_run)) = map fst to_run"
    by (rule nth_equalityI) (auto simp: nth_enumerate_eq split: prod.splits)
  then show ?thesis by (metis set_map)
qed

lemma stage_call_tools_answers: "map fst (fst (stage_call_tools env ss calls)) = map tc_id calls"
proof -
  obtain results to_run last_call where f:
    "fold (screen_call (we_json env)) (enumerate 0 calls) (replicate (length calls) None, [], gs_last_tool_call ss)
       = (results, to_run, last_call)" by (rule prod_cases3)
  define answers where "answers = map (\<lambda>(k, idx, call).
    (idx, tc_id call, run_tool env k (tc_function_name call) (tc_arguments call))) (enumerate (gs_calls ss) to_run)"
  have sc: "screened calls (length calls) (results, to_run, last_call)"
    using screened_fold [of "length calls" calls "we_json env" "gs_last_tool_call ss"] f by simp
  have len: "length results = length calls" using sc by (simp add: screened_def)
  have ans: "\<forall>(i, a) \<in> set answers. i < length results \<and> fst a = tc_id (calls ! i)"
  proof (clarify, intro conjI)
    fix i k v assume "(i, k, v) \<in> set answers"
    then obtain call where "(i, call) \<in> set to_run" "k = tc_id call"
      using enumerated_answers unfolding answers_def by fastforce
    with sc show "i < length results" "fst (k, v) = tc_id (calls ! i)" by (auto simp: screened_def)
  qed
  have "\<exists>v. fill_slots answers results ! j = Some (tc_id (calls ! j), v)" if "j < length calls" for j
  proof (cases "j \<in> fst ` set answers")
    case True
    from fill_slots_sets [OF ans this] show ?thesis .
  next
    case False
    then have "j \<notin> fst ` set to_run" unfolding answers_def fst_enumerated_answers .
    with sc that obtain v where "results ! j = Some (tc_id (calls ! j), v)" by (auto simp: screened_def)
    from fill_slots_keeps [OF ans _ this] that len show ?thesis by simp
  qed
  then have "map fst (List.map_filter (\<lambda>r. r) (fill_slots answers results)) = map (\<lambda>j. tc_id (calls ! j)) [0..<length calls]"
    using map_filter_slots [of "fill_slots answers results" "\<lambda>j. tc_id (calls ! j)"] by (simp add: len)
  also have "\<dots> = map tc_id calls" by (rule nth_equalityI) simp_all
  finally show ?thesis by (simp add: stage_call_tools_def f answers_def Let_def)
qed

interpretation stage: answering_session "stage_llm_session de st env state system user log_user"
  for de :: "('v, 'o) deserialiser" and st :: "('s, 'o, 'f) stage" and env state system user log_user
proof unfold_locales
  fix ss calls results
  assume "fst (ss_call_tools (stage_llm_session de st env state system user log_user) ss calls) = Inr results"
  then have "results = fst (stage_call_tools env ss calls)" by (simp add: stage_llm_session_def)
  then show "map fst results = map tc_id calls" by (simp add: stage_call_tools_answers)
qed

text \<open>Free-form output is only ever accepted under the policy that allows it.\<close>

definition fallback_allowed :: "('s, 'o, 'f) stage \<Rightarrow> stage_session \<Rightarrow> bool" where
  "fallback_allowed st ss \<longleftrightarrow>
     (gs_recitation_fallback_active ss \<longrightarrow> (\<exists>reminder. pl_recitation_policy (sg_policy st) = FallbackToFreeForm reminder))"

interpretation stage_fallback: session_invariant "stage_llm_session de st env state system user log_user" "fallback_allowed st"
  for de :: "('v, 'o) deserialiser" and st :: "('s, 'o, 'f) stage" and env state system user log_user
  by unfold_locales
    (auto simp: stage_llm_session_def fallback_allowed_def stage_call_tools_def stage_handle_provider_error_def Let_def
      split: prod.splits recitation_policy.splits)


text \<open>
  C14. A stage changes the workflow state only by its reducer, and only with an output that its format accepted for the state the stage
  was started in, from the content of the last message of its history; free-form output counts only if the policy of the stage allows
  the fallback. A skipped stage changes nothing.
\<close>

theorem stage_applies_validated_output:
  fixes de :: "('v, 'o) deserialiser" and st :: "('s, 'o, 'f) stage"
  assumes "execute_isolated de st env state = Some (Inr (outcome, mutation))"
  shows "(so_skipped outcome \<and> so_history outcome = [] \<and> mutation = (\<lambda>s. s)
       \<and> (\<exists>predicate. sg_skip_if st = Some predicate \<and> predicate state))
    \<or> (\<exists>resp out fallback. so_history outcome \<noteq> [] \<and> last (so_history outcome) = assistant_message resp
       \<and> validate_with_recitation_fallback (de_from_str de) (de_value_of de) (de_from_value de) (sg_output_format st)
           (case rp_content resp of None \<Rightarrow> [] | Some t \<Rightarrow> t) state fallback = Inr out
       \<and> mutation = (\<lambda>s. sg_reducer st s out)
       \<and> (fallback \<longrightarrow> (\<exists>reminder. pl_recitation_policy (sg_policy st) = FallbackToFreeForm reminder)))"
proof (cases "case sg_skip_if st of None \<Rightarrow> False | Some predicate \<Rightarrow> predicate state")
  case True
  with assms have "outcome = stage_outcome_default\<lparr>so_skipped := True\<rparr> \<and> mutation = (\<lambda>s. s)"
    by (simp add: execute_isolated_def)
  with True show ?thesis by (intro disjI1) (simp add: stage_outcome_default_def split: option.splits)
next
  case False
  then obtain system user log_user where p: "render_prompts st env state = Inr (system, user, log_user)"
    using assms by (auto simp: execute_isolated_def split: sum.splits)
  let ?ses = "stage_llm_session de st env state system user log_user"
  obtain ok run where r: "run_session (stage_runner st) ?ses (we_provider env) stage_session_start = Some (Inr ok, run)"
    and out: "outcome = session_outcome ok" "mutation = (\<lambda>s. sg_reducer st s (sx_output ok))"
  proof -
    obtain res run where "run_session (stage_runner st) ?ses (we_provider env) stage_session_start = Some (res, run)"
      "(case res of
          Inl err \<Rightarrow> Inl \<lparr>sge_text = sf_message (se_failure err), sge_session = Some (se_failure err)\<rparr>
        | Inr ok \<Rightarrow> Inr (session_outcome ok, \<lambda>s. sg_reducer st s (sx_output ok))) = Inr (outcome, mutation)"
      using assms False p by (auto simp: execute_isolated_def)
    with that show thesis by (auto split: sum.splits)
  qed
  have "fallback_allowed st stage_session_start" by (simp add: fallback_allowed_def stage_session_start_def)
  from stage_fallback.run_validated [OF r this] obtain ss resp where "fallback_allowed st ss"
    "fst (ss_validate ?ses ss resp) = Inr (sx_output ok)" "sx_history ok \<noteq> []" "last (sx_history ok) = assistant_message resp"
    by blast
  then show ?thesis
    by (intro disjI2 exI [where x = resp] exI [where x = "sx_output ok"] exI [where x = "gs_recitation_fallback_active ss"])
      (auto simp: out session_outcome_def fallback_allowed_def stage_llm_session_def stage_validate_def Let_def split: sum.splits)
qed

text \<open>A stage whose limits are below the width of the counters always returns.\<close>

lemma execute_isolated_returns:
  assumes "pl_max_turns (sg_policy st) < usize_max"
  shows "\<exists>r. execute_isolated de st env state = Some r"
proof -
  have "limits_ok (stage_runner st)"
    using assms by (simp add: limits_ok_def stage_runner_def session_runner_new_def usize_max_def)
  then have "\<exists>r. run_session (stage_runner st) (stage_llm_session de st env state system user log_user) (we_provider env)
      stage_session_start = Some r" for system user log_user
    using session_loop_ends [of "stage_runner st" "session_start _ _"]
    by (fastforce simp: run_session_def within_limits_def session_start_def)
  then show ?thesis by (force simp: execute_isolated_def split: sum.splits)
qed

section \<open>A concrete stage\<close>

definition demo_stage :: "(nat, string, nat) stage" where
  "demo_stage = \<lparr>sg_name = ''demo'', sg_system_prompt = None, sg_user_prompt = prompt_template_new ''go'',
     sg_output_format = Text (\<lambda>t s. if t = ''ok'' then None else Some ''not ok'') (\<lambda>v. v) (\<lambda>t. t),
     sg_policy = stage_policy_default\<lparr>pl_max_turns := 3\<rparr>, sg_reducer = \<lambda>s t. s + length t, sg_skip_if = None,
     sg_required = False\<rparr>"

definition demo_env :: "nat workflow_env" where
  "demo_env = \<lparr>we_provider = \<lambda>n rq. Inr \<lparr>rp_content = Some (if n = 0 then '''' else ''ok''), rp_thought = None,
       rp_thought_signature = None,
       rp_tool_calls = (if n = 0 \<and> rq_tools rq \<noteq> None then Some (map (\<lambda>c. \<lparr>tc_id = [c], tc_function_name = ''f'',
         tc_arguments = JOther ''{}'', tc_thought_signature = None\<rparr>) ''ab'') else None),
       rp_usage = None, rp_truncated = False\<rparr>,
     we_declarations = [\<lparr>at_name = ''f'', at_description = '''', at_parameters = JOther ''{}''\<rparr>],
     we_call_tool = \<lambda>n name args. Inr (JString ''answer''),
     we_json = \<lparr>jo_eq = (=), jo_error = \<lambda>e. JOther e\<rparr>,
     we_files = \<lparr>fs_exists = \<lambda>_. False, fs_read = \<lambda>_. Inl '''', fs_list = \<lambda>_. Inl ''''\<rparr>,
     we_base_dir = ''/p'', we_context_tag = None\<rparr>"

definition demo_deserialiser :: "(unit, string) deserialiser" where
  "demo_deserialiser = \<lparr>de_from_str = Inr, de_value_of = \<lambda>_. None, de_from_value = \<lambda>_. None\<rparr>"

lemmas session_eval = run_session_def session_loop.simps session_start_def session_step_def send_request_def Let_def
  session_request_def session_ops is_final_turn_def run_usage_def session_runner_new_def sat_add_def usize_max_def
  user_message_def assistant_message_def tool_message_def

lemmas stage_eval = stage_runner_def stage_llm_session_def stage_tools_def stage_settings_def stage_response_format_def
  stage_call_tools_def screen_call_def repeated_call_def run_tool_def duplicate_call_error_def stage_validate_def
  stage_session_start_def stage_policy_default_def demo_stage_def demo_env_def demo_deserialiser_def List.map_filter_simps


theorem stage_applies_validated_output_witness:
  "\<exists>outcome mutation. execute_isolated demo_deserialiser demo_stage demo_env 5 = Some (Inr (outcome, mutation))
     \<and> \<not> so_skipped outcome \<and> last (so_history outcome) \<noteq> hd (so_history outcome)
     \<and> (\<exists>resp. last (so_history outcome) = assistant_message resp) \<and> mutation 5 = 7"
proof -
  have "\<exists>outcome mutation. execute_isolated demo_deserialiser demo_stage demo_env 5 = Some (Inr (outcome, mutation))
     \<and> \<not> so_skipped outcome \<and> am_role (hd (so_history outcome)) = User \<and> mutation 5 = 7"
    by (simp add: execute_isolated_def render_prompts_def render_for_model_def model_blocks_def dynamic_block_def
        render_for_log_def log_blocks_def directives_def assemble_def prompt_template_new_def dynamic_include_marker_def
        dynamic_token_def substitute_vars.simps session_outcome_def session_eval stage_eval)
  then obtain outcome mutation where e: "execute_isolated demo_deserialiser demo_stage demo_env 5 = Some (Inr (outcome, mutation))"
     "\<not> so_skipped outcome" "am_role (hd (so_history outcome)) = User" "mutation 5 = 7" by blast
  then obtain resp where resp: "last (so_history outcome) = assistant_message resp"
    using stage_applies_validated_output [OF e(1)] by blast
  then have "am_role (last (so_history outcome)) = Assistant" by (simp add: assistant_message_def)
  then have "last (so_history outcome) \<noteq> hd (so_history outcome)" using e(3) by fastforce
  with e resp show ?thesis by blast
qed

end
