(* ===== verification/Workflow.thy ===== *)
theory Workflow
  imports Stage
begin

text \<open>
  The workflow engine (\<open>src/src/workflow/engine.rs\<close>, \<open>graph.rs\<close>): steps executed in order on a state, batches of stages executed at
  the same time under a policy, branches, early exits; and what is recorded of it. A stage is given by what its execution
  returns, which may depend on how many executions were started before; when the executions of a batch finish is a
  parameter as well. The events of a run are left out.
\<close>

section \<open>Workflows\<close>

record 's exec_stage =
  es_name :: string
  es_required :: bool
  es_isolated :: "nat \<Rightarrow> 's \<Rightarrow> stage_error + stage_outcome \<times> ('s \<Rightarrow> 's)"

datatype parallel_policy = FailFast | BestEffort

datatype 's workflow_step =
    Stage_step "'s exec_stage"
  | Parallel "'s exec_stage list" parallel_policy
  | Dynamic_parallel "'s exec_stage" "'s \<Rightarrow> 's exec_stage list" parallel_policy
  | Resolved_parallel "'s \<Rightarrow> 's exec_stage list" parallel_policy
  | Branch "'s \<Rightarrow> bool" "'s workflow" "'s workflow option"
  | Early_exit_if "'s \<Rightarrow> bool" string
and 's workflow = Workflow string "'s workflow_step list"

section \<open>What is recorded\<close>

record stage_run =
  wr_name :: string
  wr_skipped :: bool
  wr_turns :: nat
  wr_tokens_in :: nat
  wr_tokens_out :: nat
  wr_tokens_cached :: nat
  wr_history_start :: nat
  wr_history_end :: nat

record workflow_outcome =
  wo_tokens_in :: nat
  wo_tokens_out :: nat
  wo_tokens_cached :: nat
  wo_history :: "ai_message list"
  wo_stage_runs :: "stage_run list"
  wo_early_exit :: bool
  wo_early_exit_reason :: "string option"

definition workflow_outcome_default :: workflow_outcome where
  "workflow_outcome_default = \<lparr>wo_tokens_in = 0, wo_tokens_out = 0, wo_tokens_cached = 0, wo_history = [],
     wo_stage_runs = [], wo_early_exit = False, wo_early_exit_reason = None\<rparr>"

text \<open>An error with the contexts it was given on its way up; the outermost is its text.\<close>

datatype workflow_error =
    Stage_failed stage_error
  | In_context string workflow_error
  | Workflow_failure string workflow_outcome workflow_error

fun error_text :: "workflow_error \<Rightarrow> string" where
  "error_text (Stage_failed e) = sge_text e"
| "error_text (In_context t e) = t"
| "error_text (Workflow_failure t outcome e) = t"

fun error_session :: "workflow_error \<Rightarrow> session_failure option" where
  "error_session (Stage_failed e) = sge_session e"
| "error_session (In_context t e) = error_session e"
| "error_session (Workflow_failure t outcome e) = error_session e"

fun error_workflow :: "workflow_error \<Rightarrow> workflow_outcome option" where
  "error_workflow (Stage_failed e) = None"
| "error_workflow (In_context t e) = error_workflow e"
| "error_workflow (Workflow_failure t outcome e) = Some outcome"

definition stage_outcome_from_error :: "workflow_error \<Rightarrow> stage_outcome" where
  "stage_outcome_from_error err =
     (case error_session err of
        Some failure \<Rightarrow>
          \<lparr>so_tokens_in = clamp_to u32_max (au_prompt_tokens (sf_usage failure)),
           so_tokens_out = clamp_to u32_max (au_completion_tokens (sf_usage failure)),
           so_tokens_cached = clamp_to u32_max (case au_cached_tokens (sf_usage failure) of None \<Rightarrow> 0 | Some n \<Rightarrow> n),
           so_history = sf_history failure, so_skipped = False\<rparr>
      | None \<Rightarrow> stage_outcome_default)"

definition record_stage_outcome :: "string \<Rightarrow> stage_outcome \<Rightarrow> workflow_outcome \<Rightarrow> workflow_outcome" where
  "record_stage_outcome name oc outcome =
     (let history = wo_history outcome @ so_history oc
      in outcome\<lparr>wo_tokens_in := sat_add u32_max (wo_tokens_in outcome) (so_tokens_in oc),
           wo_tokens_out := sat_add u32_max (wo_tokens_out outcome) (so_tokens_out oc),
           wo_tokens_cached := sat_add u32_max (wo_tokens_cached outcome) (so_tokens_cached oc),
           wo_history := history,
           wo_stage_runs := wo_stage_runs outcome @
             [\<lparr>wr_name = name, wr_skipped = so_skipped oc, wr_turns = stage_turns oc, wr_tokens_in = so_tokens_in oc,
               wr_tokens_out = so_tokens_out oc, wr_tokens_cached = so_tokens_cached oc,
               wr_history_start = length (wo_history outcome), wr_history_end = length history\<rparr>]\<rparr>)"

definition shift_run :: "nat \<Rightarrow> stage_run \<Rightarrow> stage_run" where
  "shift_run base r = r\<lparr>wr_history_start := sat_add usize_max (wr_history_start r) base,
     wr_history_end := sat_add usize_max (wr_history_end r) base\<rparr>"

definition merge_workflow_outcome :: "workflow_outcome \<Rightarrow> workflow_outcome \<Rightarrow> workflow_outcome" where
  "merge_workflow_outcome outcome branch =
     outcome\<lparr>wo_tokens_in := sat_add u32_max (wo_tokens_in outcome) (wo_tokens_in branch),
       wo_tokens_out := sat_add u32_max (wo_tokens_out outcome) (wo_tokens_out branch),
       wo_tokens_cached := sat_add u32_max (wo_tokens_cached outcome) (wo_tokens_cached branch),
       wo_history := wo_history outcome @ wo_history branch,
       wo_stage_runs := wo_stage_runs outcome @ map (shift_run (length (wo_history outcome))) (wo_stage_runs branch)\<rparr>"

section \<open>The engine\<close>

record 's engine =
  en_state :: 's
  en_count :: nat
  en_outcome :: workflow_outcome

definition note_outcome :: "'s exec_stage \<Rightarrow> stage_outcome \<Rightarrow> 's engine \<Rightarrow> 's engine" where
  "note_outcome st oc e = e\<lparr>en_outcome := record_stage_outcome (es_name st) oc (en_outcome e)\<rparr>"

definition mutate :: "('s \<Rightarrow> 's) \<Rightarrow> 's engine \<Rightarrow> 's engine" where
  "mutate mutation e = e\<lparr>en_state := mutation (en_state e)\<rparr>"

definition start_stages :: "nat \<Rightarrow> 's engine \<Rightarrow> 's engine" where
  "start_stages n e = e\<lparr>en_count := en_count e + n\<rparr>"

text \<open>A single stage, by itself or as the planner of a dynamic batch.\<close>

definition run_stage :: "'s exec_stage \<Rightarrow> 's engine \<Rightarrow> workflow_error option \<times> 's engine" where
  "run_stage st e =
     (case es_isolated st (en_count e) (en_state e) of
        Inr (oc, mutation) \<Rightarrow> (None, note_outcome st oc (mutate mutation (start_stages 1 e)))
      | Inl err \<Rightarrow>
          (Some (Stage_failed err), note_outcome st (stage_outcome_from_error (Stage_failed err)) (start_stages 1 e)))"

type_synonym 's stage_result = "stage_error + stage_outcome \<times> ('s \<Rightarrow> 's)"

definition batch_results :: "'s exec_stage list \<Rightarrow> 's engine \<Rightarrow> 's stage_result list" where
  "batch_results stages e = map (\<lambda>(i, st). es_isolated st i (en_state e)) (enumerate (en_count e) stages)"

definition result_outcome :: "'s stage_result \<Rightarrow> stage_outcome" where
  "result_outcome res = (case res of Inr (oc, _) \<Rightarrow> oc | Inl err \<Rightarrow> stage_outcome_from_error (Stage_failed err))"

text \<open>The stages of a batch in the order in which they finish.\<close>

definition finish_order :: "(nat \<Rightarrow> nat) \<Rightarrow> nat \<Rightarrow> nat \<Rightarrow> nat list" where
  "finish_order finish n len = sort_key (\<lambda>i. finish (n + i)) [0..<len]"

text \<open>
  \<open>FailFast\<close>: the first failure to finish ends the batch; what had finished by then is recorded, in the order of the stages, and
  nothing is applied.
\<close>

definition apply_results :: "'s exec_stage list \<Rightarrow> 's stage_result list \<Rightarrow> 's engine \<Rightarrow> 's engine" where
  "apply_results stages results =
     fold (\<lambda>(st, res) e. note_outcome st (result_outcome res) (mutate (snd (projr res)) e)) (zip stages results)"

definition record_completed :: "'s exec_stage list \<Rightarrow> 's stage_result list \<Rightarrow> nat set \<Rightarrow> 's engine \<Rightarrow> 's engine" where
  "record_completed stages results completed =
     fold (\<lambda>(i, st) e. if i \<in> completed then note_outcome st (result_outcome (results ! i)) e else e) (enumerate 0 stages)"

definition fail_fast :: "(nat \<Rightarrow> nat) \<Rightarrow> 's exec_stage list \<Rightarrow> 's engine \<Rightarrow> workflow_error option \<times> 's engine" where
  "fail_fast finish stages e =
     (let results = batch_results stages e;
          order = finish_order finish (en_count e) (length stages);
          e1 = start_stages (length stages) e
      in case find (\<lambda>i. isl (results ! i)) order of
           None \<Rightarrow> (None, apply_results stages results e1)
         | Some k \<Rightarrow>
             (Some (Stage_failed (projl (results ! k))),
              record_completed stages results (insert k (set (takeWhile (\<lambda>i. \<not> isl (results ! i)) order))) e1))"

text \<open>\<open>BestEffort\<close>: the results in the order of the stages, with the number of successes and the first errors.\<close>

type_synonym 's best_effort_state = "nat \<times> workflow_error option \<times> workflow_error option \<times> 's engine"

definition required_failed :: "'s exec_stage \<Rightarrow> stage_error \<Rightarrow> workflow_error" where
  "required_failed st err =
     In_context (''Required parallel stage '' @ [CHR 0x27] @ es_name st @ [CHR 0x27] @ '' failed'') (Stage_failed err)"

definition all_failed :: "nat \<Rightarrow> 's exec_stage \<Rightarrow> stage_error \<Rightarrow> workflow_error" where
  "all_failed len st err =
     In_context (''All '' @ nat_str len @ '' parallel stages failed under BestEffort policy (first failure in stage ''
       @ [CHR 0x27] @ es_name st @ [CHR 0x27] @ '')'') (Stage_failed err)"

definition best_effort_step :: "nat \<Rightarrow> 's exec_stage \<times> 's stage_result \<Rightarrow> 's best_effort_state \<Rightarrow> 's best_effort_state" where
  "best_effort_step len = (\<lambda>(st, res) (successes, first_error, required_error, e).
     case res of
       Inr (oc, mutation) \<Rightarrow> (sat_add usize_max successes 1, first_error, required_error, note_outcome st oc (mutate mutation e))
     | Inl err \<Rightarrow>
         (let e = note_outcome st (stage_outcome_from_error (Stage_failed err)) e
          in if es_required st
             then (successes, first_error, if required_error = None then Some (required_failed st err) else required_error, e)
             else (successes, if first_error = None then Some (all_failed len st err) else first_error, required_error, e)))"

definition best_effort :: "'s exec_stage list \<Rightarrow> 's engine \<Rightarrow> workflow_error option \<times> 's engine" where
  "best_effort stages e =
     (let (successes, first_error, required_error, e') =
            fold (best_effort_step (length stages)) (zip stages (batch_results stages e))
              (0, None, None, start_stages (length stages) e)
      in case required_error of
           Some err \<Rightarrow> (Some err, e')
         | None \<Rightarrow> if stages \<noteq> [] \<and> successes = 0 then (first_error, e') else (None, e'))"

definition execute_parallel_batch ::
  "(nat \<Rightarrow> nat) \<Rightarrow> 's exec_stage list \<Rightarrow> parallel_policy \<Rightarrow> 's engine \<Rightarrow> workflow_error option \<times> 's engine" where
  "execute_parallel_batch finish stages policy e =
     (case policy of FailFast \<Rightarrow> fail_fast finish stages e | BestEffort \<Rightarrow> best_effort stages e)"

text \<open>A dynamic batch: none at all if no stages were resolved.\<close>

definition execute_resolved ::
  "(nat \<Rightarrow> nat) \<Rightarrow> ('s \<Rightarrow> 's exec_stage list) \<Rightarrow> parallel_policy \<Rightarrow> 's engine \<Rightarrow> workflow_error option \<times> 's engine" where
  "execute_resolved finish resolver policy e =
     (let stages = resolver (en_state e)
      in if stages = [] then (None, e) else execute_parallel_batch finish stages policy e)"

definition exit_early :: "string option \<Rightarrow> 's engine \<Rightarrow> 's engine" where
  "exit_early reason e = e\<lparr>en_outcome := (en_outcome e)\<lparr>wo_early_exit := True, wo_early_exit_reason := reason\<rparr>\<rparr>"

text \<open>How a step ends: the loop goes on, is left, or the workflow fails.\<close>

datatype step_end = Go_on | Leave | Raise workflow_error

fun ends_with :: "workflow_error option \<times> 's engine \<Rightarrow> step_end \<times> 's engine" where
  "ends_with (None, e) = (Go_on, e)"
| "ends_with (Some err, e) = (Raise err, e)"

definition merge_branch :: "'s engine \<Rightarrow> (workflow_error + workflow_outcome) \<times> 's \<times> nat \<Rightarrow> step_end \<times> 's engine" where
  "merge_branch e = (\<lambda>(res, state, n).
     let e = e\<lparr>en_state := state, en_count := n\<rparr>
     in case res of
          Inr branch \<Rightarrow>
            (let e = e\<lparr>en_outcome := merge_workflow_outcome (en_outcome e) branch\<rparr>
             in if wo_early_exit branch then (Leave, exit_early (wo_early_exit_reason branch) e) else (Go_on, e))
        | Inl err \<Rightarrow>
            (case error_workflow err of
               Some branch \<Rightarrow> (Raise err, e\<lparr>en_outcome := merge_workflow_outcome (en_outcome e) branch\<rparr>)
             | None \<Rightarrow> (Raise err, e)))"

fun execute_step :: "(nat \<Rightarrow> nat) \<Rightarrow> 's workflow_step \<Rightarrow> 's engine \<Rightarrow> step_end \<times> 's engine"
  and execute_steps :: "(nat \<Rightarrow> nat) \<Rightarrow> 's workflow_step list \<Rightarrow> 's engine \<Rightarrow> workflow_error option \<times> 's engine"
  and execute :: "(nat \<Rightarrow> nat) \<Rightarrow> 's workflow \<Rightarrow> 's \<Rightarrow> nat \<Rightarrow> (workflow_error + workflow_outcome) \<times> 's \<times> nat"
where
  "execute_step finish (Stage_step st) e = ends_with (run_stage st e)"
| "execute_step finish (Parallel stages policy) e = ends_with (execute_parallel_batch finish stages policy e)"
| "execute_step finish (Dynamic_parallel planner resolver policy) e =
     (case run_stage planner e of
        (Some err, e') \<Rightarrow> (Raise err, e')
      | (None, e') \<Rightarrow> ends_with (execute_resolved finish resolver policy e'))"
| "execute_step finish (Resolved_parallel resolver policy) e = ends_with (execute_resolved finish resolver policy e)"
| "execute_step finish (Branch condition then_flow else_flow) e =
     (if condition (en_state e) then merge_branch e (execute finish then_flow (en_state e) (en_count e))
      else (case else_flow of
              Some flow \<Rightarrow> merge_branch e (execute finish flow (en_state e) (en_count e))
            | None \<Rightarrow> (Go_on, e)))"
| "execute_step finish (Early_exit_if condition reason) e =
     (if condition (en_state e) then (Leave, exit_early (Some reason) e) else (Go_on, e))"
| "execute_steps finish [] e = (None, e)"
| "execute_steps finish (step # steps) e =
     (case execute_step finish step e of
        (Go_on, e') \<Rightarrow> execute_steps finish steps e'
      | (Leave, e') \<Rightarrow> (None, e')
      | (Raise err, e') \<Rightarrow> (Some err, e'))"
| "execute finish (Workflow name steps) state n =
     (let (err, e) = execute_steps finish steps \<lparr>en_state = state, en_count = n, en_outcome = workflow_outcome_default\<rparr>
      in (case err of
            Some err \<Rightarrow> Inl (Workflow_failure (error_text err) (en_outcome e) err)
          | None \<Rightarrow> Inr (en_outcome e), en_state e, en_count e))"

section \<open>Accounting\<close>

text \<open>The transcript slices of the runs follow one another from one position to another.\<close>

fun slices :: "nat \<Rightarrow> stage_run list \<Rightarrow> nat \<Rightarrow> bool" where
  "slices a [] z \<longleftrightarrow> a = z"
| "slices a (r # rs) z \<longleftrightarrow> wr_history_start r = a \<and> a \<le> wr_history_end r \<and> slices (wr_history_end r) rs z"

definition run_slice :: "ai_message list \<Rightarrow> stage_run \<Rightarrow> ai_message list" where
  "run_slice history r = take (wr_history_end r - wr_history_start r) (drop (wr_history_start r) history)"

definition run_accounted :: "ai_message list \<Rightarrow> stage_run \<Rightarrow> bool" where
  "run_accounted history r \<longleftrightarrow> wr_turns r = length (filter (\<lambda>m. am_role m = Assistant) (run_slice history r))"

definition total :: "(stage_run \<Rightarrow> nat) \<Rightarrow> workflow_outcome \<Rightarrow> nat" where
  "total f outcome = sum_list (map f (wo_stage_runs outcome))"

definition outcome_accounted :: "workflow_outcome \<Rightarrow> bool" where
  "outcome_accounted outcome \<longleftrightarrow>
     slices 0 (wo_stage_runs outcome) (length (wo_history outcome))
     \<and> list_all (run_accounted (wo_history outcome)) (wo_stage_runs outcome)
     \<and> wo_tokens_in outcome = min u32_max (total wr_tokens_in outcome)
     \<and> wo_tokens_out outcome = min u32_max (total wr_tokens_out outcome)
     \<and> wo_tokens_cached outcome = min u32_max (total wr_tokens_cached outcome)"

lemma slices_le: "slices a rs z \<Longrightarrow> a \<le> z"
  by (induction a rs z rule: slices.induct) auto

lemma slices_append: "slices a (xs @ ys) z \<longleftrightarrow> (\<exists>m. slices a xs m \<and> slices m ys z)"
  by (induction a xs z rule: slices.induct) auto

lemma slices_bounds: "slices a rs z \<Longrightarrow> r \<in> set rs \<Longrightarrow> wr_history_start r \<le> wr_history_end r \<and> wr_history_end r \<le> z"
  by (induction a rs z rule: slices.induct) (auto dest: slices_le)

text \<open>Runs keep their slices when the transcript grows at its end, and move with it when it grows at its beginning.\<close>

lemma run_accounted_append:
  assumes "wr_history_end r \<le> length history"
  shows "run_accounted (history @ extra) r = run_accounted history r"
  using assms by (simp add: run_accounted_def run_slice_def)

lemma run_accounted_shift:
  assumes "wr_history_end r + length extra \<le> usize_max" and "wr_history_start r \<le> wr_history_end r"
  shows "run_accounted (extra @ history) (shift_run (length extra) r) = run_accounted history r"
proof -
  have "shift_run (length extra) r = r\<lparr>wr_history_start := wr_history_start r + length extra,
      wr_history_end := wr_history_end r + length extra\<rparr>"
    using assms by (simp add: shift_run_def sat_add_exact)
  then show ?thesis by (simp add: run_accounted_def run_slice_def)
qed

lemma slices_shift:
  assumes "slices a rs z" and "z + base \<le> usize_max"
  shows "slices (a + base) (map (shift_run base) rs) (z + base)"
  using assms
proof (induction a rs z rule: slices.induct)
  case (2 a r rs z)
  then have "a + base \<le> usize_max" "wr_history_end r + base \<le> usize_max" by (auto dest: slices_le)
  with 2 show ?case by (simp add: shift_run_def sat_add_exact)
qed simp

lemma total_append:
  assumes "wo_stage_runs outcome' = wo_stage_runs outcome @ rs"
  shows "total f outcome' = total f outcome + sum_list (map f rs)"
  using assms by (simp add: total_def)

lemma sat_add_mins: "sat_add m (min m a) (min m b) = min m (a + b)"
  by (simp add: sat_add_def min_def)

lemma accounted_default [simp]: "outcome_accounted workflow_outcome_default"
  by (simp add: outcome_accounted_def workflow_outcome_default_def total_def)

lemma accounted_record:
  assumes "outcome_accounted outcome"
  shows "outcome_accounted (record_stage_outcome name oc outcome)"
proof -
  let ?o = "record_stage_outcome name oc outcome"
  have runs: "wo_stage_runs ?o = wo_stage_runs outcome @ [last (wo_stage_runs ?o)]"
    and r: "last (wo_stage_runs ?o) = \<lparr>wr_name = name, wr_skipped = so_skipped oc, wr_turns = stage_turns oc,
      wr_tokens_in = so_tokens_in oc, wr_tokens_out = so_tokens_out oc, wr_tokens_cached = so_tokens_cached oc,
      wr_history_start = length (wo_history outcome), wr_history_end = length (wo_history outcome @ so_history oc)\<rparr>"
    and h: "wo_history ?o = wo_history outcome @ so_history oc"
    by (simp_all add: record_stage_outcome_def Let_def)
  have "slices 0 (wo_stage_runs ?o) (length (wo_history ?o))"
    using assms by (subst runs) (auto simp: slices_append outcome_accounted_def h r)
  moreover have "list_all (run_accounted (wo_history ?o)) (wo_stage_runs ?o)"
  proof -
    have "run_accounted (wo_history ?o) r" if "r \<in> set (wo_stage_runs outcome)" for r
      using assms that slices_bounds [OF _ that] by (auto simp: h outcome_accounted_def list_all_iff run_accounted_append)
    moreover have "run_accounted (wo_history ?o) (last (wo_stage_runs ?o))"
      by (simp add: h r run_accounted_def run_slice_def stage_turns_def)
    ultimately show ?thesis by (subst runs) (simp add: list_all_iff)
  qed
  moreover have "total f ?o = total f outcome + f (last (wo_stage_runs ?o))" for f
    using total_append [OF runs] by simp
  ultimately show ?thesis
    using assms by (simp add: outcome_accounted_def r)
      (simp add: record_stage_outcome_def Let_def sat_add_min)
qed

lemma accounted_merge:
  assumes "outcome_accounted outcome" and "outcome_accounted branch"
    and "length (wo_history outcome) + length (wo_history branch) \<le> usize_max"
  shows "outcome_accounted (merge_workflow_outcome outcome branch)"
proof -
  let ?m = "merge_workflow_outcome outcome branch"
  let ?base = "length (wo_history outcome)"
  have runs: "wo_stage_runs ?m = wo_stage_runs outcome @ map (shift_run ?base) (wo_stage_runs branch)"
    and h: "wo_history ?m = wo_history outcome @ wo_history branch"
    by (simp_all add: merge_workflow_outcome_def)
  have s: "slices 0 (wo_stage_runs branch) (length (wo_history branch))" using assms(2) by (simp add: outcome_accounted_def)
  have "slices ?base (map (shift_run ?base) (wo_stage_runs branch)) (length (wo_history branch) + ?base)"
    using slices_shift [OF s, of ?base] assms(3) by (simp add: add.commute)
  then have "slices 0 (wo_stage_runs ?m) (length (wo_history ?m))"
    using assms(1) by (auto simp: runs h slices_append outcome_accounted_def add.commute)
  moreover have "run_accounted (wo_history ?m) r" if "r \<in> set (wo_stage_runs outcome)" for r
    using assms(1) that slices_bounds [OF _ that] by (auto simp: h outcome_accounted_def list_all_iff run_accounted_append)
  moreover have "run_accounted (wo_history ?m) (shift_run ?base r)" if "r \<in> set (wo_stage_runs branch)" for r
    using assms(2,3) that slices_bounds [OF s that]
    by (auto simp: h outcome_accounted_def list_all_iff run_accounted_shift)
  moreover have "total f ?m = total f outcome + total f branch" if "\<And>r. f (shift_run ?base r) = f r" for f
    using total_append [OF runs, of f] that by (simp add: total_def comp_def)
  then have "total wr_tokens_in ?m = total wr_tokens_in outcome + total wr_tokens_in branch"
    "total wr_tokens_out ?m = total wr_tokens_out outcome + total wr_tokens_out branch"
    "total wr_tokens_cached ?m = total wr_tokens_cached outcome + total wr_tokens_cached branch"
    by (simp_all add: shift_run_def)
  moreover have "wo_tokens_in ?m = sat_add u32_max (wo_tokens_in outcome) (wo_tokens_in branch)"
    "wo_tokens_out ?m = sat_add u32_max (wo_tokens_out outcome) (wo_tokens_out branch)"
    "wo_tokens_cached ?m = sat_add u32_max (wo_tokens_cached outcome) (wo_tokens_cached branch)"
    by (simp_all add: merge_workflow_outcome_def)
  ultimately show ?thesis
    using assms(1,2) unfolding outcome_accounted_def list_all_iff by (auto simp: runs sat_add_mins)
qed

text \<open>A transcript only grows, and stays accounted as long as its length is within the counters.\<close>

definition grows :: "'s engine \<Rightarrow> 's engine \<Rightarrow> bool" where
  "grows e e' \<longleftrightarrow> length (wo_history (en_outcome e)) \<le> length (wo_history (en_outcome e'))
     \<and> (outcome_accounted (en_outcome e) \<longrightarrow> length (wo_history (en_outcome e')) \<le> usize_max
          \<longrightarrow> outcome_accounted (en_outcome e'))"

lemma grows_refl [simp]: "grows e e"
  by (simp add: grows_def)

lemma grows_trans: "grows e1 e2 \<Longrightarrow> grows e2 e3 \<Longrightarrow> grows e1 e3"
  by (auto simp: grows_def)

lemma grows_start [simp]: "grows e (start_stages n e')= grows e e'" "grows (start_stages n e) e' = grows e e'"
  by (simp_all add: grows_def start_stages_def)

lemma grows_mutate [simp]: "grows e (mutate f e') = grows e e'" "grows (mutate f e) e' = grows e e'"
  by (simp_all add: grows_def mutate_def)

lemma grows_note: "grows e (note_outcome st oc e)"
  by (simp add: grows_def note_outcome_def accounted_record) (simp add: record_stage_outcome_def Let_def)

lemma grows_fold:
  assumes "\<And>x e. x \<in> set xs \<Longrightarrow> grows e (f x e)"
  shows "grows e (fold f xs e)"
  using assms by (induction xs arbitrary: e) (auto intro: grows_trans)

lemma grows_run_stage: "run_stage st e = (r, e') \<Longrightarrow> grows e e'"
  using grows_note [of "start_stages 1 e"] grows_note [of "mutate _ (start_stages 1 e)"]
  by (auto simp: run_stage_def split: sum.splits)

lemma grows_apply_results: "grows e (apply_results stages results e)"
  unfolding apply_results_def
  by (intro grows_fold) (simp split: prod.split, meson grows_mutate grows_note grows_refl grows_trans)

lemma grows_record_completed: "grows e (record_completed stages results completed e)"
  unfolding record_completed_def by (intro grows_fold) (simp add: grows_note split: prod.split)

lemma grows_fail_fast: "grows e (snd (fail_fast finish stages e))"
  using grows_apply_results [of "start_stages (length stages) e" stages]
    grows_record_completed [of "start_stages (length stages) e" stages]
  by (simp add: fail_fast_def Let_def split: option.split)

lemma grows_best_effort_step: "best_effort_step len x (s, fe, re, e) = (s', fe', re', e') \<Longrightarrow> grows e e'"
  using grows_note [of e] grows_note [of "mutate _ e"]
  by (auto simp: best_effort_step_def Let_def split: prod.splits sum.splits if_splits)

lemma grows_best_effort_fold: "fold (best_effort_step len) xs (s, fe, re, e) = (s', fe', re', e') \<Longrightarrow> grows e e'"
proof (induction xs arbitrary: s fe re e)
  case (Cons x xs)
  obtain s1 fe1 re1 e1 where x: "best_effort_step len x (s, fe, re, e) = (s1, fe1, re1, e1)" by (rule prod_cases4)
  then show ?case using Cons grows_best_effort_step [OF x] by (auto intro: grows_trans)
qed simp

lemma grows_best_effort: "grows e (snd (best_effort stages e))"
proof -
  obtain s fe re e' where f: "fold (best_effort_step (length stages)) (zip stages (batch_results stages e))
      (0, None, None, start_stages (length stages) e) = (s, fe, re, e')" by (rule prod_cases4)
  from grows_best_effort_fold [OF f] show ?thesis by (simp add: best_effort_def f split: option.split)
qed

lemma grows_batch: "grows e (snd (execute_parallel_batch finish stages policy e))"
  by (simp add: execute_parallel_batch_def grows_fail_fast grows_best_effort split: parallel_policy.split)

lemma grows_resolved: "grows e (snd (execute_resolved finish resolver policy e))"
  by (simp add: execute_resolved_def Let_def grows_batch)

lemma snd_ends_with [simp]: "snd (ends_with r) = snd r"
  by (cases r rule: ends_with.cases) auto

text \<open>The outcome of an execution, successful or not.\<close>

fun final_outcome :: "workflow_error + workflow_outcome \<Rightarrow> workflow_outcome option" where
  "final_outcome (Inr outcome) = Some outcome"
| "final_outcome (Inl err) = error_workflow err"

definition well_accounted :: "workflow_error + workflow_outcome \<Rightarrow> bool" where
  "well_accounted res \<longleftrightarrow> (\<exists>outcome. final_outcome res = Some outcome
     \<and> (length (wo_history outcome) \<le> usize_max \<longrightarrow> outcome_accounted outcome))"

lemma accounted_exit_early [simp]: "outcome_accounted (outcome\<lparr>wo_early_exit := b, wo_early_exit_reason := r\<rparr>) = outcome_accounted outcome"
  by (simp add: outcome_accounted_def total_def)

lemma grows_exit_early [simp]: "grows e (exit_early reason e') = grows e e'"
  by (simp add: grows_def exit_early_def)

lemma grows_merge:
  assumes "length (wo_history branch) \<le> usize_max \<longrightarrow> outcome_accounted branch"
  shows "grows e (e\<lparr>en_state := s, en_count := n, en_outcome := merge_workflow_outcome (en_outcome e) branch\<rparr>)"
  using assms accounted_merge [of "en_outcome e" branch]
  by (auto simp: grows_def) (auto simp: merge_workflow_outcome_def)

lemma grows_merge_branch:
  assumes "well_accounted (fst r)"
  shows "grows e (snd (merge_branch e r))"
proof -
  obtain res s n where r: "r = (res, s, n)" by (rule prod_cases3)
  have "grows e (e\<lparr>en_state := s, en_count := n\<rparr>)" by (simp add: grows_def)
  then show ?thesis
    using assms
    by (auto simp: r merge_branch_def Let_def well_accounted_def intro: grows_merge split: sum.split option.split)
qed

lemma execute_accounted:
  fixes step :: "'s workflow_step" and steps :: "'s workflow_step list" and flow :: "'s workflow"
  shows "grows e (snd (execute_step finish step e))"
  "grows e' (snd (execute_steps finish steps e'))"
  "well_accounted (fst (execute finish flow state n))"
proof (induction finish step e and finish steps e' and finish flow state n
    rule: execute_step_execute_steps_execute.induct)
  case (1 finish st e)
  then show ?case using grows_run_stage [of st e] by (cases "run_stage st e") simp
next
  case (3 finish planner resolver policy e)
  then show ?case
    using grows_run_stage [of planner e] grows_trans [OF _ grows_resolved]
    by (auto split: prod.split option.split)
next
  case (5 finish condition then_flow else_flow e)
  then show ?case by (auto simp: grows_merge_branch split: option.split)
next
  case (8 finish step steps e)
  then show ?case by (auto split: prod.split step_end.split intro: grows_trans)
next
  case (9 finish name steps state n)
  then show ?case by (auto simp: well_accounted_def grows_def Let_def split: prod.split option.split)
qed (simp_all add: grows_batch grows_resolved)

text \<open>
  C15. Every execution of a workflow yields an outcome, a failed one inside its error. The slices of its stage runs
  split the transcript without gaps or overlaps, in the order of the runs, whatever batches and branches they
  come from; each run counts the turns of its slice; and the token totals are the sums over the runs, up to the
  width of the counters.
\<close>

theorem workflow_outcome_accounted:
  "\<exists>outcome. final_outcome (fst (execute finish flow state n)) = Some outcome
    \<and> (length (wo_history outcome) \<le> usize_max \<longrightarrow>
         slices 0 (wo_stage_runs outcome) (length (wo_history outcome))
         \<and> (\<forall>r \<in> set (wo_stage_runs outcome).
              wr_turns r = length (filter (\<lambda>m. am_role m = Assistant) (run_slice (wo_history outcome) r)))
         \<and> wo_tokens_in outcome = min u32_max (total wr_tokens_in outcome)
         \<and> wo_tokens_out outcome = min u32_max (total wr_tokens_out outcome)
         \<and> wo_tokens_cached outcome = min u32_max (total wr_tokens_cached outcome))"
  using execute_accounted(3) [of finish flow state n]
  by (auto simp: well_accounted_def outcome_accounted_def list_all_iff run_accounted_def)

text \<open>A workflow that is left early from inside a branch, after a batch with a failed stage.\<close>

definition demo_exec_stage :: "bool \<Rightarrow> nat exec_stage" where
  "demo_exec_stage ok = \<lparr>es_name = (if ok then ''a'' else ''b''), es_required = False,
     es_isolated = \<lambda>n s. if ok
       then Inr (\<lparr>so_tokens_in = 3000000000, so_tokens_out = n, so_tokens_cached = 0,
              so_history = [user_message ''go'', (user_message ''well'')\<lparr>am_role := Assistant\<rparr>], so_skipped = False\<rparr>, Suc)
       else Inl \<lparr>sge_text = ''down'', sge_session = None\<rparr>\<rparr>"

definition demo_workflow :: "nat workflow" where
  "demo_workflow = Workflow ''main''
     [Stage_step (demo_exec_stage True),
      Branch (\<lambda>s. s = 1)
        (Workflow ''then_branch'' [Parallel [demo_exec_stage False, demo_exec_stage True] BestEffort, Early_exit_if (\<lambda>s. s = 2) ''done''])
        None,
      Stage_step (demo_exec_stage True)]"

theorem workflow_outcome_accounted_witness:
  "\<exists>outcome. final_outcome (fst (execute (\<lambda>i. i) demo_workflow 0 0)) = Some outcome
     \<and> wo_early_exit_reason outcome = Some ''done''
     \<and> map wr_name (wo_stage_runs outcome) = [''a'', ''b'', ''a'']
     \<and> slices 0 (wo_stage_runs outcome) 4
     \<and> wo_tokens_in outcome = u32_max \<and> wo_tokens_in outcome = min u32_max (total wr_tokens_in outcome)"
proof -
  have "\<exists>outcome. final_outcome (fst (execute (\<lambda>i. i) demo_workflow 0 0)) = Some outcome
     \<and> length (wo_history outcome) = 4 \<and> wo_early_exit_reason outcome = Some ''done''
     \<and> map wr_name (wo_stage_runs outcome) = [''a'', ''b'', ''a''] \<and> wo_tokens_in outcome = u32_max"
    by (simp add: demo_workflow_def demo_exec_stage_def run_stage_def execute_parallel_batch_def best_effort_def batch_results_def
        best_effort_step_def note_outcome_def mutate_def start_stages_def merge_branch_def exit_early_def Let_def
        record_stage_outcome_def merge_workflow_outcome_def stage_outcome_from_error_def stage_outcome_default_def
        workflow_outcome_default_def shift_run_def sat_add_def u32_max_def usize_max_def stage_turns_def)
  then obtain outcome where o: "final_outcome (fst (execute (\<lambda>i. i) demo_workflow 0 0)) = Some outcome"
    "length (wo_history outcome) = 4" "wo_early_exit_reason outcome = Some ''done''"
    "map wr_name (wo_stage_runs outcome) = [''a'', ''b'', ''a'']" "wo_tokens_in outcome = u32_max"
    by (elim exE conjE) rule
  from workflow_outcome_accounted [of "\<lambda>i. i" demo_workflow 0 0] o show ?thesis by (auto simp: usize_max_def)
qed

section \<open>Batches\<close>

definition run_names :: "'s engine \<Rightarrow> string list" where
  "run_names e = map wr_name (wo_stage_runs (en_outcome e))"

definition apply_result :: "'s stage_result \<Rightarrow> 's \<Rightarrow> 's" where
  "apply_result res s = (case res of Inr (oc, mutation) \<Rightarrow> mutation s | Inl err \<Rightarrow> s)"

lemma engine_fields [simp]:
  "en_state (note_outcome st oc e) = en_state e"
  "run_names (note_outcome st oc e) = run_names e @ [es_name st]"
  "en_state (mutate f e) = f (en_state e)"
  "run_names (mutate f e) = run_names e"
  "en_state (start_stages k e) = en_state e"
  "run_names (start_stages k e) = run_names e"
  by (simp_all add: note_outcome_def mutate_def start_stages_def run_names_def record_stage_outcome_def Let_def)

lemma length_batch_results [simp]: "length (batch_results stages e) = length stages"
  by (simp add: batch_results_def)

lemma apply_results_fields:
  assumes "length results = length stages" and "list_all (\<lambda>res. \<not> isl res) results"
  shows "en_state (apply_results stages results e) = fold apply_result results (en_state e)
    \<and> run_names (apply_results stages results e) = run_names e @ map es_name stages"
  using assms
proof (induction results stages arbitrary: e rule: list_induct2)
  case (Cons res results st stages)
  then obtain oc mutation where "res = Inr (oc, mutation)" by (cases res) auto
  with Cons show ?case by (simp add: apply_results_def apply_result_def)
qed (simp add: apply_results_def)

lemma nths_enumerate: "map snd (filter (\<lambda>p. fst p \<in> A) (enumerate 0 xs)) = nths xs A"
  by (induction xs rule: rev_induct) (auto simp: enumerate_append_eq nths_append nths_singleton)

lemma record_completed_fields:
  "en_state (record_completed stages results completed e) = en_state e"
  "run_names (record_completed stages results completed e) = run_names e @ map es_name (nths stages completed)"
proof -
  let ?f = "\<lambda>(i, st) e. if i \<in> completed then note_outcome st (result_outcome (results ! i)) e else e"
  have "en_state (fold ?f ys e) = en_state e" for ys by (induction ys arbitrary: e) auto
  then show "en_state (record_completed stages results completed e) = en_state e" by (simp add: record_completed_def)
  have "run_names (fold ?f ys e) = run_names e @ map (es_name \<circ> snd) (filter (\<lambda>p. fst p \<in> completed) ys)" for ys
    by (induction ys arbitrary: e) auto
  then show "run_names (record_completed stages results completed e) = run_names e @ map es_name (nths stages completed)"
    by (simp add: record_completed_def flip: nths_enumerate)
qed

lemma first_failure:
  assumes "find P order = Some k"
  shows "k \<in> set order \<and> P k \<and> {i \<in> insert k (set (takeWhile (\<lambda>i. \<not> P i) order)). P i} = {k}"
  using assms by (auto simp: find_Some_iff dest: set_takeWhileD)

lemma set_finish_order [simp]: "set (finish_order finish n len) = {..<len}"
  by (auto simp: finish_order_def)

text \<open>
  C25. A \<open>FailFast\<close> batch is all or nothing. If every stage succeeds, all their changes are applied in the order of the stages, whatever the
  order in which they finished, and all of them are recorded. If one fails, the state is as before, the error is that of a
  failed stage, and recorded are this stage and only successful ones beside it.
\<close>

theorem fail_fast_atomic:
  "(if list_all (\<lambda>res. \<not> isl res) (batch_results stages e)
    then \<exists>e'. fail_fast finish stages e = (None, e')
      \<and> en_state e' = fold apply_result (batch_results stages e) (en_state e)
      \<and> run_names e' = run_names e @ map es_name stages
    else \<exists>k err completed e'. fail_fast finish stages e = (Some (Stage_failed err), e')
      \<and> k < length stages \<and> batch_results stages e ! k = Inl err
      \<and> en_state e' = en_state e
      \<and> {i \<in> completed. isl (batch_results stages e ! i)} = {k}
      \<and> run_names e' = run_names e @ map es_name (nths stages completed))"
proof -
  let ?rs = "batch_results stages e" and ?order = "finish_order finish (en_count e) (length stages)"
  show ?thesis
  proof (cases "find (\<lambda>i. isl (?rs ! i)) ?order")
    case None
    then have "list_all (\<lambda>res. \<not> isl res) ?rs" by (auto simp: find_None_iff list_all_length)
    with None show ?thesis by (simp add: fail_fast_def Let_def apply_results_fields)
  next
    case (Some k)
    note k = first_failure [OF Some]
    then have "k < length stages" by simp
    with k have not_all: "\<not> list_all (\<lambda>res. \<not> isl res) ?rs" by (auto simp: list_all_length)
    let ?completed = "insert k (set (takeWhile (\<lambda>i. \<not> isl (?rs ! i)) ?order))"
    let ?e = "record_completed stages ?rs ?completed (start_stages (length stages) e)"
    have "fail_fast finish stages e = (Some (Stage_failed (projl (?rs ! k))), ?e)"
      using Some by (simp add: fail_fast_def Let_def)
    moreover have "?rs ! k = Inl (projl (?rs ! k))" using k by simp
    moreover have "en_state ?e = en_state e" "run_names ?e = run_names e @ map es_name (nths stages ?completed)"
      by (simp_all add: record_completed_fields)
    ultimately have "\<exists>k err completed e'. fail_fast finish stages e = (Some (Stage_failed err), e')
      \<and> k < length stages \<and> ?rs ! k = Inl err \<and> en_state e' = en_state e
      \<and> {i \<in> completed. isl (?rs ! i)} = {k} \<and> run_names e' = run_names e @ map es_name (nths stages completed)"
      using k \<open>k < length stages\<close> by blast
    with not_all show ?thesis by simp
  qed
qed

lemma best_effort_step_fields:
  assumes "best_effort_step len (st, res) (successes, first_error, required_error, e) = (s1, fe1, re1, e1)"
    and "successes \<le> usize_max"
  shows "s1 \<le> usize_max \<and> (s1 = 0 \<longleftrightarrow> successes = 0 \<and> isl res)
    \<and> fe1 = (case first_error of Some err \<Rightarrow> Some err
        | None \<Rightarrow> if isl res \<and> \<not> es_required st then Some (all_failed len st (projl res)) else None)
    \<and> re1 = (case required_error of Some err \<Rightarrow> Some err
        | None \<Rightarrow> if isl res \<and> es_required st then Some (required_failed st (projl res)) else None)
    \<and> en_state e1 = apply_result res (en_state e) \<and> run_names e1 = run_names e @ [es_name st]"
  using assms
  by (cases res)
    (auto simp: best_effort_step_def Let_def apply_result_def sat_add_def usize_max_def split: option.splits if_splits)

lemma best_effort_fold:
  assumes "fold (best_effort_step len) xs (successes, first_error, required_error, e) = (successes', first_error', required_error', e')"
    and "successes \<le> usize_max"
  shows "(successes' = 0 \<longleftrightarrow> successes = 0 \<and> list_all (\<lambda>x. isl (snd x)) xs)
    \<and> first_error' = (case first_error of Some err \<Rightarrow> Some err
      | None \<Rightarrow> map_option (\<lambda>(st, res). all_failed len st (projl res)) (find (\<lambda>(st, res). isl res \<and> \<not> es_required st) xs))
    \<and> required_error' = (case required_error of Some err \<Rightarrow> Some err
      | None \<Rightarrow> map_option (\<lambda>(st, res). required_failed st (projl res)) (find (\<lambda>(st, res). isl res \<and> es_required st) xs))
    \<and> en_state e' = fold apply_result (map snd xs) (en_state e)
    \<and> run_names e' = run_names e @ map (es_name \<circ> fst) xs"
  using assms
proof (induction xs arbitrary: successes first_error required_error e)
  case (Cons x xs)
  obtain st res where x: "x = (st, res)" by (cases x)
  obtain s1 fe1 re1 e1 where step: "best_effort_step len x (successes, first_error, required_error, e) = (s1, fe1, re1, e1)"
    by (rule prod_cases4)
  note f = best_effort_step_fields [OF step [unfolded x] Cons.prems(2)]
  have "fold (best_effort_step len) xs (s1, fe1, re1, e1) = (successes', first_error', required_error', e')"
    using Cons.prems(1) step by simp
  from Cons.IH [OF this] f show ?case by (simp add: x split: option.splits)
qed (auto split: option.splits)

lemma list_all_snd_zip: "length results = length stages \<Longrightarrow> list_all (\<lambda>x. P (snd x)) (zip stages results) = list_all P results"
  by (induction results stages rule: list_induct2) auto

lemma find_all: "list_all P xs \<Longrightarrow> find P xs = (case xs of [] \<Rightarrow> None | x # _ \<Rightarrow> Some x)"
  by (cases xs) auto

text \<open>
  C33. A \<open>BestEffort\<close> batch runs all its stages and records them in their order; the changes of those that succeed are applied in
  that order. It fails if a required stage failed, with the first such failure; else if every stage failed, with
  the first failure; and not otherwise.
\<close>

theorem best_effort_outcome:
  "let results = zip stages (batch_results stages e); (err, e') = best_effort stages e
   in en_state e' = fold apply_result (map snd results) (en_state e)
     \<and> run_names e' = run_names e @ map es_name stages
     \<and> err = (case find (\<lambda>(st, res). isl res \<and> es_required st) results of
           Some (st, res) \<Rightarrow> Some (required_failed st (projl res))
         | None \<Rightarrow> (if list_all (\<lambda>x. isl (snd x)) results
                   then (case results of [] \<Rightarrow> None | (st, res) # _ \<Rightarrow> Some (all_failed (length stages) st (projl res)))
                   else None))"
proof -
  let ?xs = "zip stages (batch_results stages e)"
  obtain s fe re e' where f: "fold (best_effort_step (length stages)) ?xs (0, None, None, start_stages (length stages) e) = (s, fe, re, e')"
    by (rule prod_cases4)
  note b = best_effort_fold [OF f]
  have names: "map (es_name \<circ> fst) ?xs = map es_name stages" by (simp flip: map_map)
  show ?thesis
  proof (cases "find (\<lambda>(st, res). isl res \<and> es_required st) ?xs")
    case None
    have "find (\<lambda>(st, res). isl res \<and> \<not> es_required st) ?xs = (case ?xs of [] \<Rightarrow> None | x # _ \<Rightarrow> Some x)"
      if "list_all (\<lambda>x. isl (snd x)) ?xs"
      using that None by (intro find_all) (auto simp: find_None_iff list_all_iff)
    moreover have "?xs = [] \<longleftrightarrow> stages = []" by (metis length_0_conv length_batch_results length_zip min.idem)
    ultimately show ?thesis
      using b None by (auto simp: best_effort_def f names split: list.splits)
  next
    case (Some p)
    with b show ?thesis by (cases p) (simp add: best_effort_def f names)
  qed
qed

lemma stage_is_executable:
  fixes st :: "('s, 'o, 'f) stage"
  assumes "pl_max_turns (sg_policy st) < usize_max"
  shows "\<exists>es :: 's exec_stage. es_name es = sg_name st \<and> es_required es = sg_required st
    \<and> (\<forall>n s. execute_isolated de st (env n) s = Some (es_isolated es n s))"
proof -
  have "execute_isolated de st (env n) s = Some (the (execute_isolated de st (env n) s))" for n s
    using execute_isolated_returns [OF assms, of de "env n" s] by auto
  then show ?thesis
    by (intro exI [where x = "\<lparr>es_name = sg_name st, es_required = sg_required st,
      es_isolated = \<lambda>n s. the (execute_isolated de st (env n) s)\<rparr>"]) simp
qed

end
