(* ===== verification/Budget.thy ===== *)
theory Budget
  imports Prelude
begin

text \<open>
  The deadline of a review and the time it is given back (\<open>ActiveTracker\<close> and \<open>DeadlineBudget\<close> of
  \<open>src/src/ai/backoff_provider.rs\<close>): waiting for the quota is not charged while no request of the review is in flight. Instants
  are integers, in nanoseconds; durations are natural numbers. The two locks are held together by every operation, so each is one step,
  at an instant that it read before it had them.
\<close>

section \<open>The tracker\<close>

record active_tracker =
  tk_active_count :: nat
  tk_waiting_count :: nat
  tk_idle_wait_since :: "int option"
  tk_last_credit_end :: "int option"
  tk_last_active_end :: "int option"

definition active_tracker_default :: active_tracker where
  "active_tracker_default = \<lparr>tk_active_count = 0, tk_waiting_count = 0, tk_idle_wait_since = None,
     tk_last_credit_end = None, tk_last_active_end = None\<rparr>"

text \<open>\<open>Duration::from_millis(1)\<close>.\<close>

definition millisecond :: int where "millisecond = 10 ^ 6"

definition flush_idle_wait_at :: "int \<Rightarrow> active_tracker \<times> int \<Rightarrow> active_tracker \<times> int" where
  "flush_idle_wait_at now = (\<lambda>(tk, deadline).
     case tk_idle_wait_since tk of
       Some since \<Rightarrow>
         if tk_active_count tk = 0 \<and> now > since \<and> now - since \<ge> millisecond
         then (tk\<lparr>tk_last_credit_end := Some now, tk_idle_wait_since := Some now\<rparr>, deadline + (now - since))
         else (tk, deadline)
     | None \<Rightarrow> (tk, deadline))"

definition wait_since :: "int \<Rightarrow> active_tracker \<Rightarrow> int" where
  "wait_since now tk = (case tk_last_credit_end tk of None \<Rightarrow> now | Some e \<Rightarrow> max now e)"

definition on_wait_start_at :: "int \<Rightarrow> active_tracker \<times> int \<Rightarrow> active_tracker \<times> int" where
  "on_wait_start_at now td =
     (let (tk, deadline) = flush_idle_wait_at now td;
          tk = (if tk_waiting_count tk = 0 \<and> tk_active_count tk = 0
                then tk\<lparr>tk_idle_wait_since := Some (wait_since now tk)\<rparr> else tk)
      in (tk\<lparr>tk_waiting_count := tk_waiting_count tk + 1\<rparr>, deadline))"

definition on_wait_end_at :: "int \<Rightarrow> active_tracker \<times> int \<Rightarrow> active_tracker \<times> int" where
  "on_wait_end_at now td =
     (let (tk, deadline) = flush_idle_wait_at now td;
          tk = tk\<lparr>tk_waiting_count := tk_waiting_count tk - 1\<rparr>
      in (if tk_waiting_count tk = 0 then tk\<lparr>tk_idle_wait_since := None\<rparr> else tk, deadline))"

definition on_request_start_at :: "int \<Rightarrow> active_tracker \<times> int \<Rightarrow> active_tracker \<times> int" where
  "on_request_start_at now td =
     (let (tk, deadline) = flush_idle_wait_at now td
      in (tk\<lparr>tk_idle_wait_since := None, tk_active_count := tk_active_count tk + 1\<rparr>, deadline))"

definition on_request_end_at :: "int \<Rightarrow> active_tracker \<times> int \<Rightarrow> active_tracker \<times> int" where
  "on_request_end_at now = (\<lambda>(tk, deadline).
     let tk = tk\<lparr>tk_last_active_end := Some now, tk_active_count := tk_active_count tk - 1\<rparr>
     in (if tk_active_count tk = 0 \<and> tk_waiting_count tk > 0
         then tk\<lparr>tk_idle_wait_since := Some (wait_since now tk)\<rparr> else tk, deadline))"

definition effective_start :: "int \<Rightarrow> active_tracker \<Rightarrow> int" where
  "effective_start sleep_start tk =
     (let start = (case tk_last_credit_end tk of Some e \<Rightarrow> if e > sleep_start then e else sleep_start | None \<Rightarrow> sleep_start)
      in case tk_last_active_end tk of Some active_end \<Rightarrow> if active_end > start then active_end else start | None \<Rightarrow> start)"

definition credit_wait_at :: "int \<Rightarrow> nat \<Rightarrow> active_tracker \<times> int \<Rightarrow> active_tracker \<times> int" where
  "credit_wait_at now slept td =
     (let (tk, deadline) = flush_idle_wait_at now td
      in if slept = 0 \<or> tk_active_count tk > 0 then (tk, deadline)
         else let start = effective_start (now - int slept) tk
              in if now > start \<and> now - start \<ge> millisecond
                 then (tk\<lparr>tk_last_credit_end := Some now\<rparr>, deadline + (now - start))
                 else (tk, deadline))"

section \<open>A budget over time\<close>

text \<open>What the users of a budget do to it; \<open>Ask\<close> is \<open>current_deadline\<close>, also as part of \<open>check\<close>.\<close>

datatype budget_event = Wait_start | Wait_end | Request_start | Request_end | Credit_wait nat | Ask

text \<open>
  A run of a budget: the time, the tracker and the deadline, and beside them what is to be compared: the time in which no request was
  in flight, the part of it in which somebody waited, how many waits were reported and how much sleep, and how late the operations were.
\<close>

record budget_run =
  bu_now :: int
  bu_tracker :: active_tracker
  bu_deadline :: int
  bu_inactive :: int
  bu_idle :: int
  bu_credits :: nat
  bu_slept :: int
  bu_lag :: int

definition deadline_budget_new :: "int \<Rightarrow> int \<Rightarrow> budget_run" where
  "deadline_budget_new deadline now = \<lparr>bu_now = now, bu_tracker = active_tracker_default, bu_deadline = deadline,
     bu_inactive = 0, bu_idle = 0, bu_credits = 0, bu_slept = 0, bu_lag = 0\<rparr>"

definition let_pass :: "nat \<Rightarrow> budget_run \<Rightarrow> budget_run" where
  "let_pass dt r =
     (let quiet = tk_active_count (bu_tracker r) = 0; waiting = tk_waiting_count (bu_tracker r) > 0
      in r\<lparr>bu_now := bu_now r + int dt,
           bu_inactive := bu_inactive r + (if quiet then int dt else 0),
           bu_idle := bu_idle r + (if quiet \<and> waiting then int dt else 0)\<rparr>)"

fun apply_event :: "budget_event \<Rightarrow> int \<Rightarrow> active_tracker \<times> int \<Rightarrow> active_tracker \<times> int" where
  "apply_event Wait_start now td = on_wait_start_at now td"
| "apply_event Wait_end now td = on_wait_end_at now td"
| "apply_event Request_start now td = on_request_start_at now td"
| "apply_event Request_end now td = on_request_end_at now td"
| "apply_event (Credit_wait slept) now td = credit_wait_at now slept td"
| "apply_event Ask now td = flush_idle_wait_at now td"

fun reported_sleep :: "budget_event \<Rightarrow> nat option" where
  "reported_sleep (Credit_wait slept) = Some slept"
| "reported_sleep _ = None"

text \<open>
  An operation reads the clock before it takes the locks, so other operations may come between and its instant may be older than theirs:
  the event \<open>(dt, lag, ev)\<close> takes effect \<open>dt\<close> after the one before it, with an instant read \<open>lag\<close> earlier.
\<close>

definition budget_step :: "nat \<times> nat \<times> budget_event \<Rightarrow> budget_run \<Rightarrow> budget_run" where
  "budget_step = (\<lambda>(dt, lag, ev) r0.
     let r = let_pass dt r0;
         (tk, deadline) = apply_event ev (bu_now r - int lag) (bu_tracker r, bu_deadline r)
     in r\<lparr>bu_tracker := tk, bu_deadline := deadline, bu_lag := bu_lag r + int lag,
          bu_credits := bu_credits r + (case reported_sleep ev of None \<Rightarrow> 0 | Some _ \<Rightarrow> 1),
          bu_slept := bu_slept r + (case reported_sleep ev of None \<Rightarrow> 0 | Some slept \<Rightarrow> int slept)\<rparr>)"

definition run_budget :: "(nat \<times> nat \<times> budget_event) list \<Rightarrow> budget_run \<Rightarrow> budget_run" where
  "run_budget evs = fold budget_step evs"

text \<open>\<open>current_deadline_at\<close> and \<open>check\<close>: whether the review has timed out.\<close>

definition current_deadline_at :: "int \<Rightarrow> active_tracker \<times> int \<Rightarrow> int" where
  "current_deadline_at now td = snd (flush_idle_wait_at now td)"

definition timed_out :: "budget_run \<Rightarrow> bool" where
  "timed_out r \<longleftrightarrow> bu_now r > current_deadline_at (bu_now r) (bu_tracker r, bu_deadline r)"

text \<open>
  The clock is never read before the budget exists, the reports of waits are true as far as they go (nobody slept longer than the budget
  existed when the clock was read), and requests end only after they started, as the guards ensure.
\<close>

fun usable :: "nat \<Rightarrow> nat \<Rightarrow> budget_event \<Rightarrow> bool" where
  "usable elapsed active (Credit_wait slept) \<longleftrightarrow> slept \<le> elapsed"
| "usable elapsed active Request_end \<longleftrightarrow> 0 < active"
| "usable elapsed active _ \<longleftrightarrow> True"

fun active_after :: "nat \<Rightarrow> budget_event \<Rightarrow> nat" where
  "active_after active Request_start = active + 1"
| "active_after active Request_end = active - 1"
| "active_after active _ = active"

fun well_used :: "nat \<Rightarrow> nat \<Rightarrow> (nat \<times> nat \<times> budget_event) list \<Rightarrow> bool" where
  "well_used elapsed active [] \<longleftrightarrow> True"
| "well_used elapsed active ((dt, lag, ev) # evs) \<longleftrightarrow>
     lag \<le> elapsed + dt \<and> usable (elapsed + dt - lag) active ev \<and> well_used (elapsed + dt) (active_after active ev) evs"

section \<open>The time without requests\<close>

text \<open>Where the last credit ended, or the budget began, from when on no request has been in flight, and what both leave open.\<close>

definition credited_to :: "int \<Rightarrow> active_tracker \<Rightarrow> int" where
  "credited_to t0 tk = (case tk_last_credit_end tk of None \<Rightarrow> t0 | Some e \<Rightarrow> e)"

definition quiet_since :: "int \<Rightarrow> active_tracker \<Rightarrow> int" where
  "quiet_since t0 tk = (case tk_last_active_end tk of None \<Rightarrow> t0 | Some e \<Rightarrow> e)"

definition open_from :: "int \<Rightarrow> active_tracker \<Rightarrow> int" where
  "open_from t0 tk = max (credited_to t0 tk) (quiet_since t0 tk)"

definition overlap :: "int \<Rightarrow> active_tracker \<Rightarrow> int" where
  "overlap t0 tk = (case tk_idle_wait_since tk of None \<Rightarrow> 0 | Some since \<Rightarrow> max 0 (open_from t0 tk - since))"

text \<open>
  The first invariant: what was credited, together with what a pending wait may credit again, is within the time without requests up to
  there (\<open>done\<close>), a millisecond per report and the lag.
\<close>

definition within_budget :: "int \<Rightarrow> int \<Rightarrow> int \<Rightarrow> int \<Rightarrow> int \<Rightarrow> nat \<Rightarrow> int \<Rightarrow> active_tracker \<times> int \<Rightarrow> bool" where
  "within_budget d0 t0 done now inactive credits lag = (\<lambda>(tk, deadline).
     deadline + overlap t0 tk \<le> d0 + done + int credits * millisecond + lag
     \<and> open_from t0 tk \<le> now
     \<and> done \<le> inactive + lag
     \<and> (tk_active_count tk = 0 \<longrightarrow> done + (now - open_from t0 tk) \<le> inactive + lag)
     \<and> (\<forall>since. tk_idle_wait_since tk = Some since \<longrightarrow> tk_active_count tk = 0 \<and> tk_waiting_count tk > 0))"

lemmas tracker_defs = overlap_def open_from_def credited_to_def quiet_since_def wait_since_def

lemma flush_fields:
  assumes "flush_idle_wait_at now (tk, deadline) = (tk', deadline')"
  shows "tk_active_count tk' = tk_active_count tk" "tk_waiting_count tk' = tk_waiting_count tk"
    "tk_last_active_end tk' = tk_last_active_end tk" "(tk_idle_wait_since tk' = None) = (tk_idle_wait_since tk = None)"
    "tk_idle_wait_since tk' = Some since \<Longrightarrow> tk_active_count tk = 0 \<Longrightarrow> now - since < millisecond"
  using assms by (auto simp: flush_idle_wait_at_def millisecond_def split: option.splits if_splits)

lemma within_flush:
  assumes "within_budget d0 t0 done now inactive credits lag td" and "at \<le> now"
  shows "\<exists>done. within_budget d0 t0 done now inactive credits lag (flush_idle_wait_at at td)"
proof -
  obtain tk deadline where td: "td = (tk, deadline)" by (cases td)
  show ?thesis
  proof (cases "flush_idle_wait_at at td = td")
    case False
    then obtain since where since: "tk_idle_wait_since tk = Some since" "since < at" "tk_active_count tk = 0"
      and f: "flush_idle_wait_at at (tk, deadline)
        = (tk\<lparr>tk_last_credit_end := Some at, tk_idle_wait_since := Some at\<rparr>, deadline + (at - since))"
      by (auto simp: td flush_idle_wait_at_def split: option.splits if_splits)
    let ?M = "open_from t0 tk" and ?M' = "max at (quiet_since t0 tk)"
    let ?done = "done + (if ?M < since then at - since else ?M' - ?M)"
    have "quiet_since t0 tk \<le> ?M" by (simp add: open_from_def)
    then have "within_budget d0 t0 ?done now inactive credits lag (flush_idle_wait_at at td)"
      using assms since
      by (auto simp: f td within_budget_def overlap_def open_from_def credited_to_def quiet_since_def)
    then show ?thesis ..
  qed (use assms in auto)
qed

text \<open>Each operation flushes first, and reads the clock a little (\<open>late\<close>) before it has the locks.\<close>

lemma within_event:
  assumes "within_budget d0 t0 done now inactive credits lag (tk, deadline)"
    and "0 \<le> late" and "t0 \<le> now - late - int (case reported_sleep ev of None \<Rightarrow> 0 | Some slept \<Rightarrow> slept)"
    and "ev = Request_end \<Longrightarrow> 0 < tk_active_count tk"
  shows "\<exists>done. within_budget d0 t0 done now inactive (credits + (case reported_sleep ev of None \<Rightarrow> 0 | Some _ \<Rightarrow> 1))
    (lag + late) (apply_event ev (now - late) (tk, deadline))"
proof -
  obtain done1 where w: "within_budget d0 t0 done1 now inactive credits lag (flush_idle_wait_at (now - late) (tk, deadline))"
    using within_flush [OF assms(1), of "now - late"] assms(2) by auto
  obtain tk1 d1 where f: "flush_idle_wait_at (now - late) (tk, deadline) = (tk1, d1)" by fastforce
  note w = w [unfolded f]
  show ?thesis
  proof (cases ev)
    case Wait_start
    have "within_budget d0 t0 done1 now inactive credits (lag + late) (on_wait_start_at (now - late) (tk, deadline))"
      using w assms(2) by (auto simp: f on_wait_start_at_def within_budget_def tracker_defs Let_def split: option.splits)
    with Wait_start show ?thesis by auto
  next
    case Wait_end
    have "within_budget d0 t0 done1 now inactive credits (lag + late) (on_wait_end_at (now - late) (tk, deadline))"
      using w assms(2) by (auto simp: f on_wait_end_at_def within_budget_def tracker_defs Let_def split: option.splits)
    with Wait_end show ?thesis by auto
  next
    case Request_start
    have "within_budget d0 t0 done1 now inactive credits (lag + late) (on_request_start_at (now - late) (tk, deadline))"
      using w assms(2) by (auto simp: f on_request_start_at_def within_budget_def tracker_defs Let_def split: option.splits)
    with Request_start show ?thesis by auto
  next
    case Request_end
    have "within_budget d0 t0 done now inactive credits (lag + late) (on_request_end_at (now - late) (tk, deadline))"
      using assms(1,2) assms(4) [OF Request_end]
      by (auto simp: on_request_end_at_def within_budget_def tracker_defs Let_def split: option.splits)
    with Request_end show ?thesis by auto
  next
    case Ask
    have "within_budget d0 t0 done1 now inactive credits (lag + late) (tk1, d1)"
      using w assms(2) by (auto simp: within_budget_def)
    with Ask f show ?thesis by auto
  next
    case (Credit_wait slept)
    let ?at = "now - late" and ?start = "effective_start (now - late - int slept) tk1"
    have start: "open_from t0 tk1 \<le> ?start"
      using assms(3) Credit_wait by (auto simp: effective_start_def tracker_defs Let_def split: option.splits)
    show ?thesis
    proof (cases "slept = 0 \<or> tk_active_count tk1 > 0 \<or> \<not> (?at > ?start \<and> ?at - ?start \<ge> millisecond)")
      case True
      then have "credit_wait_at ?at slept (tk, deadline) = (tk1, d1)" by (auto simp: credit_wait_at_def f Let_def)
      moreover have "within_budget d0 t0 done1 now inactive (credits + 1) (lag + late) (tk1, d1)"
        using w assms(2) by (auto simp: within_budget_def millisecond_def algebra_simps)
      ultimately show ?thesis using Credit_wait by auto
    next
      case False
      then have c: "credit_wait_at ?at slept (tk, deadline) = (tk1\<lparr>tk_last_credit_end := Some ?at\<rparr>, d1 + (?at - ?start))"
        by (simp add: credit_wait_at_def f)
      have "?at - since < millisecond" if "tk_idle_wait_since tk1 = Some since" for since
        using flush_fields(1,5) [OF f] that w by (auto simp: within_budget_def)
      moreover have "quiet_since t0 tk1 \<le> open_from t0 tk1" by (simp add: open_from_def)
      ultimately have "within_budget d0 t0 (done1 + (?at - open_from t0 tk1)) now inactive (credits + 1) (lag + late)
          (tk1\<lparr>tk_last_credit_end := Some ?at\<rparr>, d1 + (?at - ?start))"
        using w start assms(2) False
        by (auto simp: within_budget_def overlap_def open_from_def credited_to_def quiet_since_def millisecond_def algebra_simps
            split: option.splits)
      then show ?thesis using Credit_wait c by auto
    qed
  qed
qed

section \<open>The time of waits\<close>

text \<open>
  The second invariant: the deadline and what a pending wait will still give are the time in which somebody waited while no request was in
  flight, but for the reported sleep, a millisecond per operation and the lag.
\<close>

definition pending :: "int \<Rightarrow> active_tracker \<Rightarrow> int" where
  "pending now tk = (case tk_idle_wait_since tk of Some since \<Rightarrow> now - since | None \<Rightarrow> 0)"

definition waits_counted :: "int \<Rightarrow> int \<Rightarrow> int \<Rightarrow> int \<Rightarrow> int \<Rightarrow> int \<Rightarrow> active_tracker \<times> int \<Rightarrow> bool" where
  "waits_counted d0 idle slept n lag now = (\<lambda>(tk, deadline).
     deadline + pending now tk \<le> d0 + idle + slept + lag
     \<and> d0 + idle \<le> deadline + pending now tk + n * millisecond + lag
     \<and> (tk_active_count tk = 0 \<and> tk_waiting_count tk > 0 \<longleftrightarrow> tk_idle_wait_since tk \<noteq> None)
     \<and> (\<forall>since. tk_idle_wait_since tk = Some since \<longrightarrow> since \<le> now)
     \<and> (\<forall>e. tk_last_credit_end tk = Some e \<longrightarrow> e \<le> now))"

lemma counted_flush:
  assumes "waits_counted d0 idle slept n lag now td" and "at \<le> now"
  shows "waits_counted d0 idle slept n lag now (flush_idle_wait_at at td)"
  using assms by (cases td) (auto simp: flush_idle_wait_at_def waits_counted_def pending_def split: option.splits)

lemma counted_event:
  assumes "waits_counted d0 idle slept n lag now (tk, deadline)" and "0 \<le> late"
    and "ev = Request_end \<Longrightarrow> 0 < tk_active_count tk"
  shows "waits_counted d0 idle (slept + (case reported_sleep ev of None \<Rightarrow> 0 | Some s \<Rightarrow> int s)) (n + 1) (lag + late) now
    (apply_event ev (now - late) (tk, deadline))"
proof -
  obtain tk1 d1 where f: "flush_idle_wait_at (now - late) (tk, deadline) = (tk1, d1)" by fastforce
  have u: "waits_counted d0 idle slept n lag now (tk1, d1)" using counted_flush [OF assms(1), of "now - late"] assms(2) by (simp add: f)
  have small: "now - since < millisecond + late" if "tk_idle_wait_since tk1 = Some since" for since
    using flush_fields(1,5) [OF f] that u by (fastforce simp: waits_counted_def)
  have more: "n * millisecond \<le> (n + 1) * millisecond" by (simp add: millisecond_def)
  show ?thesis
  proof (cases ev)
    case Wait_start
    with u assms(2) more show ?thesis
      by (auto simp: on_wait_start_at_def f waits_counted_def pending_def wait_since_def Let_def split: option.splits)
  next
    case Wait_end
    with u assms(2) small more show ?thesis
      by (auto simp: on_wait_end_at_def f waits_counted_def pending_def algebra_simps Let_def split: option.splits; fastforce)
  next
    case Request_start
    with u assms(2) small more show ?thesis
      by (auto simp: on_request_start_at_def f waits_counted_def pending_def algebra_simps Let_def split: option.splits; fastforce)
  next
    case Request_end
    with assms(1,2) assms(3) [OF Request_end] more show ?thesis
      by (auto simp: on_request_end_at_def waits_counted_def pending_def wait_since_def Let_def split: option.splits)
  next
    case (Credit_wait s)
    have "now - late - int s \<le> effective_start (now - late - int s) tk1"
      by (auto simp: effective_start_def Let_def split: option.split)
    with Credit_wait u assms(2) more show ?thesis
      by (auto simp: credit_wait_at_def f waits_counted_def pending_def millisecond_def Let_def split: option.splits)
  next
    case Ask
    with u assms(2) more show ?thesis by (auto simp: f waits_counted_def)
  qed
qed

section \<open>How far the deadline moves\<close>

lemma active_apply:
  assumes "apply_event ev now (tk, deadline) = (tk', deadline')"
  shows "tk_active_count tk' = active_after (tk_active_count tk) ev"
proof -
  obtain tk1 d1 where f: "flush_idle_wait_at now (tk, deadline) = (tk1, d1)" by (cases "flush_idle_wait_at now (tk, deadline)")
  from assms flush_fields(1) [OF f] show ?thesis
    by (cases ev) (auto simp: on_wait_start_at_def on_wait_end_at_def on_request_start_at_def on_request_end_at_def
      credit_wait_at_def Let_def f split: if_splits)
qed

definition run_within :: "int \<Rightarrow> int \<Rightarrow> budget_run \<Rightarrow> bool" where
  "run_within d0 t0 r \<longleftrightarrow> (\<exists>done. within_budget d0 t0 done (bu_now r) (bu_inactive r) (bu_credits r) (bu_lag r)
     (bu_tracker r, bu_deadline r))"

definition run_counted :: "int \<Rightarrow> nat \<Rightarrow> budget_run \<Rightarrow> bool" where
  "run_counted d0 n r \<longleftrightarrow>
     waits_counted d0 (bu_idle r) (bu_slept r) (int n) (bu_lag r) (bu_now r) (bu_tracker r, bu_deadline r)"

lemma run_pass:
  "run_within d0 t0 r \<Longrightarrow> run_within d0 t0 (let_pass dt r)"
  "run_counted d0 n r \<Longrightarrow> run_counted d0 n (let_pass dt r)"
proof -
  assume "run_within d0 t0 r"
  then obtain done' where w: "within_budget d0 t0 done' (bu_now r) (bu_inactive r) (bu_credits r) (bu_lag r)
      (bu_tracker r, bu_deadline r)" by (auto simp: run_within_def)
  have "within_budget d0 t0 done' (bu_now (let_pass dt r)) (bu_inactive (let_pass dt r)) (bu_credits r) (bu_lag r)
      (bu_tracker r, bu_deadline r)"
    using w by (auto simp: let_pass_def within_budget_def Let_def)
  then show "run_within d0 t0 (let_pass dt r)" by (auto simp: run_within_def let_pass_def Let_def)
next
  assume "run_counted d0 n r"
  then show "run_counted d0 n (let_pass dt r)"
    by (auto simp: run_counted_def waits_counted_def let_pass_def pending_def Let_def split: option.splits; fastforce)
qed

lemma run_step:
  assumes "run_within d0 t0 r" and "run_counted d0 n r" and "bu_now r = t0 + int elapsed"
    and "lag \<le> elapsed + dt" and "usable (elapsed + dt - lag) (tk_active_count (bu_tracker r)) ev"
  shows "run_within d0 t0 (budget_step (dt, lag, ev) r)" "run_counted d0 (Suc n) (budget_step (dt, lag, ev) r)"
    "bu_now (budget_step (dt, lag, ev) r) = t0 + int (elapsed + dt)"
    "tk_active_count (bu_tracker (budget_step (dt, lag, ev) r)) = active_after (tk_active_count (bu_tracker r)) ev"
proof -
  define r1 where "r1 = let_pass dt r"
  have same: "bu_tracker r1 = bu_tracker r" "bu_deadline r1 = bu_deadline r" "bu_now r1 = t0 + int (elapsed + dt)"
    using assms(3) by (simp_all add: r1_def let_pass_def Let_def)
  obtain tk deadline where a: "apply_event ev (bu_now r1 - int lag) (bu_tracker r1, bu_deadline r1) = (tk, deadline)" by fastforce
  let ?r = "budget_step (dt, lag, ev) r"
  have r: "?r = r1\<lparr>bu_tracker := tk, bu_deadline := deadline, bu_lag := bu_lag r1 + int lag,
      bu_credits := bu_credits r1 + (case reported_sleep ev of None \<Rightarrow> 0 | Some _ \<Rightarrow> 1),
      bu_slept := bu_slept r1 + (case reported_sleep ev of None \<Rightarrow> 0 | Some slept \<Rightarrow> int slept)\<rparr>"
    using a by (simp add: budget_step_def r1_def Let_def)
  have sleep: "t0 \<le> bu_now r1 - int lag - int (case reported_sleep ev of None \<Rightarrow> 0 | Some slept \<Rightarrow> slept)"
    using assms(4,5) same(3) by (cases ev) auto
  have ends: "ev = Request_end \<Longrightarrow> 0 < tk_active_count (bu_tracker r1)" using assms(5) same(1) by auto
  obtain done' where "within_budget d0 t0 done' (bu_now r1) (bu_inactive r1) (bu_credits r1) (bu_lag r1)
      (bu_tracker r1, bu_deadline r1)"
    using run_pass(1) [OF assms(1), of dt] by (auto simp: r1_def run_within_def)
  from within_event [OF this _ sleep ends] a show "run_within d0 t0 ?r" by (simp add: run_within_def r)
  have "waits_counted d0 (bu_idle r1) (bu_slept r1) (int n) (bu_lag r1) (bu_now r1) (bu_tracker r1, bu_deadline r1)"
    using run_pass(2) [OF assms(2), of dt] by (simp add: r1_def run_counted_def)
  from counted_event [where ev = ev and late = "int lag", OF this _ ends] a show "run_counted d0 (Suc n) ?r"
    by (simp add: run_counted_def r algebra_simps)
  show "bu_now ?r = t0 + int (elapsed + dt)" by (simp add: r same(3))
  show "tk_active_count (bu_tracker ?r) = active_after (tk_active_count (bu_tracker r)) ev"
    using active_apply [OF a] by (simp add: r same(1))
qed

lemma run_budget_invariant:
  assumes "well_used elapsed (tk_active_count (bu_tracker r)) evs" and "bu_now r = t0 + int elapsed" and "run_within d0 t0 r"
    and "run_counted d0 n r"
  shows "run_within d0 t0 (run_budget evs r) \<and> run_counted d0 (n + length evs) (run_budget evs r)"
  using assms
proof (induction evs arbitrary: r elapsed n)
  case (Cons e evs)
  obtain dt lag ev where e: "e = (dt, lag, ev)" by (cases e)
  have use: "lag \<le> elapsed + dt" "usable (elapsed + dt - lag) (tk_active_count (bu_tracker r)) ev"
    and rest: "well_used (elapsed + dt) (active_after (tk_active_count (bu_tracker r)) ev) evs"
    using Cons.prems(1) by (simp_all add: e)
  note step = run_step [OF Cons.prems(3,4,2) use]
  from Cons.IH [OF rest [folded step(4)] step(3,1,2)] show ?case by (simp add: run_budget_def e)
qed (simp add: run_budget_def)



end
