(* ===== verification/Guard.thy ===== *)
theory Guard
  imports Prompt
begin

text \<open>
  Names and paths of guides that a model chose (\<open>src/src/workflows/guard.rs\<close>, and the collection of the prompts of a stage in
  \<open>src/src/workflows/linux_patch_review.rs\<close>). They end up joined to the directory of the prompts.
\<close>

section \<open>Normal forms\<close>

definition bundle_prefixes :: "string list" where
  "bundle_prefixes = [''review-prompts/kernel/'', ''review-prompts/sashiko/'', ''review-prompts/'', ''third_party/prompts/kernel/'',
     ''projects/sashiko/prompts/'', ''kernel/'', ''sashiko/'']"

text \<open>The rest after the first of some prefixes that fits, or the text itself.\<close>

fun strip_first :: "string list \<Rightarrow> string \<Rightarrow> string" where
  "strip_first [] s = s"
| "strip_first (p # ps) s = (case strip_prefix p s of Some rest \<Rightarrow> rest | None \<Rightarrow> strip_first ps s)"

definition normalize_guide_name :: "string \<Rightarrow> string" where
  "normalize_guide_name name = strip_first [''subsystem/'', ''patterns/''] (strip_first bundle_prefixes (trim name))"

definition normalize_prompt_relpath :: "string \<Rightarrow> string" where
  "normalize_prompt_relpath p = strip_first bundle_prefixes (trim p)"

definition normalize_stage_name :: "string \<Rightarrow> string" where
  "normalize_stage_name name =
     (let lowered = map (\<lambda>c. if c = CHR ''_'' then CHR ''-'' else c) (to_ascii_lower (trim name))
      in case strip_prefix ''stage-'' lowered of Some stripped \<Rightarrow> stripped | None \<Rightarrow> lowered)"

section \<open>Checks\<close>

definition sanitize_guide_name :: "string \<Rightarrow> bool" where
  "sanitize_guide_name name \<longleftrightarrow>
     name \<noteq> [] \<and> \<not> contains name ''/'' \<and> \<not> contains name [CHR 0x5C] \<and> \<not> contains name ''..''"

definition sanitize_prompt_relpath :: "string \<Rightarrow> bool" where
  "sanitize_prompt_relpath p =
     (let trimmed = normalize_prompt_relpath p
      in if trimmed = [] \<or> prefix ''/'' trimmed \<or> contains trimmed [CHR 0x5C] \<or> contains trimmed ''..'' \<or> \<not> suffix ''.md'' trimmed
         then False
         else (case split_on (CHR ''/'') trimmed of
                 [file] \<Rightarrow> file \<noteq> []
               | [dir, file] \<Rightarrow> (dir = ''subsystem'' \<or> dir = ''patterns'') \<and> file \<noteq> []
               | _ \<Rightarrow> False))"

section \<open>The prompts of a stage\<close>

definition push_unique_prompt :: "string \<Rightarrow> string list \<Rightarrow> string list" where
  "push_unique_prompt candidate prompts =
     (let trimmed = normalize_prompt_relpath candidate
      in if sanitize_prompt_relpath trimmed \<and> trimmed \<notin> set prompts then prompts @ [trimmed] else prompts)"

definition collect_stage_prompts :: "string list \<Rightarrow> string list \<Rightarrow> string list" where
  "collect_stage_prompts selected_guides stage_guides = fold push_unique_prompt stage_guides (fold push_unique_prompt selected_guides [])"

section \<open>Confinement\<close>

text \<open>A relative path that stays in its directory: no component leads up, and nothing in it is taken for the root.\<close>

definition confined :: "path \<Rightarrow> bool" where
  "confined p \<longleftrightarrow> \<not> prefix ''/'' p \<and> ''..'' \<notin> set (split_on (CHR ''/'') p) \<and> \<not> contains p [CHR 0x5C]"

lemma strip_first_cases: "strip_first ps s = s \<or> (\<exists>p \<in> set ps. s = p @ strip_first ps s)"
  by (induction ps) (auto simp: strip_prefix_def prefix_def)

lemma contains_append1: "contains s q \<Longrightarrow> contains (p @ s) q"
  by (auto simp: contains_iff_sublist sublist_def) (metis append.assoc)

lemma sublist_join_mid: "sublist w (join sep (us @ w # vs))"
proof (induction us)
  case Nil
  show ?case by (cases vs) (auto simp: sublist_def intro: exI [of _ "[]"])
next
  case (Cons u us)
  then obtain a b where "join sep (us @ w # vs) = a @ w @ b" by (auto simp: sublist_def)
  then have "join sep ((u # us) @ w # vs) = (u @ sep @ a) @ w @ b" by (simp add: join_Cons_ne)
  then show ?case unfolding sublist_def by blast
qed

lemma component_contains: "w \<in> set (split_on c s) \<Longrightarrow> contains s w"
proof -
  assume "w \<in> set (split_on c s)"
  then obtain us vs where ws: "split_on c s = us @ w # vs" by (meson split_list)
  show ?thesis using sublist_join_mid [of w "[c]" us vs] join_split_on [of c s] by (simp add: ws contains_iff_sublist)
qed

lemma contains_strip_first: "contains (strip_first ps s) q \<Longrightarrow> contains s q"
  using strip_first_cases [of ps s] by (metis contains_append1)

lemma sanitized_confined: "sanitize_prompt_relpath p \<Longrightarrow> confined (normalize_prompt_relpath p)"
  by (auto simp: sanitize_prompt_relpath_def confined_def Let_def dest: component_contains split: if_splits)

text \<open>What was only looked at in its normal form is also confined as it stands: white space and the prefixes add no step up.\<close>

lemma dots_append:
  "contains (x @ y) ''..'' \<Longrightarrow>
     contains x ''..'' \<or> contains y ''..'' \<or> (x \<noteq> [] \<and> last x = CHR ''.'' \<and> y \<noteq> [] \<and> hd y = CHR ''.'')"
proof (induction x)
  case (Cons a x)
  then show ?case by (cases x; cases y) auto
qed simp

lemma dots_no_dot: "CHR ''.'' \<notin> set w \<Longrightarrow> \<not> contains w ''..''"
  by (induction w) auto

lemma ws_no_dot: "\<forall>c \<in> set w. is_ws c \<Longrightarrow> CHR ''.'' \<notin> set w"
  by (auto simp: is_ws_def)

lemma bundle_prefix_no_dot: "p \<in> set bundle_prefixes \<Longrightarrow> CHR ''.'' \<notin> set p \<and> CHR 0x5C \<notin> set p \<and> p \<noteq> [] \<and> hd p \<noteq> CHR ''/''"
  by (auto simp: bundle_prefixes_def)

lemma trim_decomp: "\<exists>v w. s = v @ trim s @ w \<and> (\<forall>c \<in> set v. is_ws c) \<and> (\<forall>c \<in> set w. is_ws c)"
proof -
  obtain w where w: "trim_start s = trim s @ w" "\<forall>c \<in> set w. is_ws c"
    using trim_end_append [of "trim_start s" "trim s"] by (auto simp: trim_def)
  have "takeWhile is_ws s @ trim_start s = s" by (simp add: trim_start_def)
  then have "s = takeWhile is_ws s @ trim s @ w" using w(1) by simp
  moreover have "\<forall>c \<in> set (takeWhile is_ws s). is_ws c" by (auto dest: set_takeWhileD)
  ultimately show ?thesis using w(2) by blast
qed

text \<open>A text is its normal form with something before it (white space and a prefix) and white space behind it.\<close>

lemma normalize_prompt_relpath_decomp:
  "\<exists>v w. s = v @ normalize_prompt_relpath s @ w \<and> CHR ''.'' \<notin> set v \<and> CHR ''.'' \<notin> set w
          \<and> CHR 0x5C \<notin> set v \<and> CHR 0x5C \<notin> set w \<and> (v @ normalize_prompt_relpath s = [] \<or> hd (v @ normalize_prompt_relpath s) \<noteq> CHR ''/''
             \<or> prefix ''/'' (normalize_prompt_relpath s))"
proof -
  obtain v w where d: "s = v @ trim s @ w" "\<forall>c \<in> set v. is_ws c" "\<forall>c \<in> set w. is_ws c" using trim_decomp by blast
  have bs: "\<not> is_ws (CHR 0x5C)" "\<not> is_ws (CHR ''/'')" by (simp_all add: is_ws_def)
  consider "trim s = normalize_prompt_relpath s" | p where "p \<in> set bundle_prefixes" "trim s = p @ normalize_prompt_relpath s"
    using strip_first_cases [of bundle_prefixes "trim s"] by (auto simp: normalize_prompt_relpath_def)
  then show ?thesis
  proof cases
    case 1
    have "v @ normalize_prompt_relpath s = [] \<or> hd (v @ normalize_prompt_relpath s) \<noteq> CHR ''/'' \<or> prefix ''/'' (normalize_prompt_relpath s)"
      using d(2) bs by (cases v; cases "normalize_prompt_relpath s") auto
    with d 1 bs ws_no_dot [of v] ws_no_dot [of w] show ?thesis by (intro exI [of _ v] exI [of _ w]) auto
  next
    case 2
    have "hd ((v @ p) @ normalize_prompt_relpath s) \<noteq> CHR ''/''"
      using d(2) bs bundle_prefix_no_dot [OF 2(1)] by (cases v; cases p) auto
    with d 2 bs ws_no_dot [of v] ws_no_dot [of w] bundle_prefix_no_dot [OF 2(1)] show ?thesis
      by (intro exI [of _ "v @ p"] exI [of _ w]) auto
  qed
qed

lemma contains_single: "contains s [c] \<longleftrightarrow> c \<in> set s"
  by (induction s) auto

lemma md_last: "suffix ''.md'' t \<Longrightarrow> t \<noteq> [] \<and> last t = CHR ''d''"
  by (auto simp: suffix_def)

lemma sanitized_whole:
  assumes "sanitize_prompt_relpath t"
  shows "\<not> prefix ''/'' t \<and> \<not> contains t ''..'' \<and> \<not> contains t [CHR 0x5C]"
proof -
  let ?n = "normalize_prompt_relpath t"
  obtain v w where d: "t = v @ ?n @ w" "CHR ''.'' \<notin> set v" "CHR ''.'' \<notin> set w" "CHR 0x5C \<notin> set v" "CHR 0x5C \<notin> set w"
      "v @ ?n = [] \<or> hd (v @ ?n) \<noteq> CHR ''/'' \<or> prefix ''/'' ?n"
    using normalize_prompt_relpath_decomp [of t] by blast
  have n: "?n \<noteq> []" "\<not> prefix ''/'' ?n" "\<not> contains ?n ''..''" "\<not> contains ?n [CHR 0x5C]" "last ?n = CHR ''d''"
    using assms md_last [of ?n] by (auto simp: sanitize_prompt_relpath_def Let_def split: if_splits)
  have "hd t = hd (v @ ?n)" using d(1) n(1) by (metis append.assoc append_is_Nil_conv hd_append2)
  then have "\<not> prefix ''/'' t" using d(6) n(1,2) by (cases t) auto
  moreover have "\<not> contains t ''..''"
  proof
    assume "contains t ''..''"
    then have "contains (?n @ w) ''..''" using dots_append [of v "?n @ w"] dots_no_dot [OF d(2)] d(1,2) last_in_set [of v] by metis
    then show False using dots_append [of ?n w] n(3,5) dots_no_dot [OF d(3)] by auto
  qed
  moreover have "\<not> contains t [CHR 0x5C]" using d n(4) by (metis Un_iff contains_single set_append)
  ultimately show ?thesis by blast
qed

section \<open>The list of prompts\<close>

lemma set_push_unique:
  "set (fold push_unique_prompt gs ps)
     = set ps \<union> {normalize_prompt_relpath g |g. g \<in> set gs \<and> sanitize_prompt_relpath (normalize_prompt_relpath g)}"
  by (induction gs arbitrary: ps) (auto simp: push_unique_prompt_def Let_def)

lemma distinct_push_unique: "distinct ps \<Longrightarrow> distinct (fold push_unique_prompt gs ps)"
  by (induction gs arbitrary: ps) (auto simp: push_unique_prompt_def Let_def)

lemma set_collect:
  "set (collect_stage_prompts sel guides)
     = {normalize_prompt_relpath g |g. g \<in> set sel \<union> set guides \<and> sanitize_prompt_relpath (normalize_prompt_relpath g)}"
  by (auto simp: collect_stage_prompts_def set_push_unique)

lemma distinct_collect: "distinct (collect_stage_prompts sel guides)"
  by (simp add: collect_stage_prompts_def distinct_push_unique)

text \<open>
  C38. The prompts of a stage are files below the directory of the prompts, whatever guides were named: none is absolute, none has a
  step up or a backslash anywhere, none is listed twice, and each is a named guide in its normal form that passes the check;
  no guide that passes is left out.
\<close>

theorem stage_prompts_confined:
  "distinct (collect_stage_prompts sel guides)
   \<and> set (collect_stage_prompts sel guides)
       = {normalize_prompt_relpath g |g. g \<in> set sel \<union> set guides \<and> sanitize_prompt_relpath (normalize_prompt_relpath g)}
   \<and> (\<forall>p \<in> set (collect_stage_prompts sel guides). \<not> prefix ''/'' p \<and> \<not> contains p ''..'' \<and> \<not> contains p [CHR 0x5C])"
  using sanitized_whole by (auto simp: set_collect distinct_collect)

theorem stage_prompts_confined_witness:
  "collect_stage_prompts [''../etc/x.md'', '' kernel/mm.md''] [''subsystem/net.md'', ''mm.md'', ''/abs.md''] = [''mm.md'', ''subsystem/net.md'']
   \<and> \<not> contains ''mm.md'' ''..''"
proof -
  let ?l = "collect_stage_prompts [''../etc/x.md'', '' kernel/mm.md''] [''subsystem/net.md'', ''mm.md'', ''/abs.md'']"
  have l: "?l = [''mm.md'', ''subsystem/net.md'']" by code_simp
  moreover have "\<not> contains ''mm.md'' ''..''"
    using stage_prompts_confined [of "[''../etc/x.md'', '' kernel/mm.md'']" "[''subsystem/net.md'', ''mm.md'', ''/abs.md'']"] l by simp
  ultimately show ?thesis by blast
qed

end
