(* ===== verification/ReviewTable.thy ===== *)
theory ReviewTable
  imports Prelude
begin

text \<open>
  The tables of the patch reviews and the transactions on them (\<open>src/src/db.rs\<close>): patchsets, their patches, the reviews with what they
  produced, the queues of outgoing mail, checks and comments, and the generations by which a patchset is handed to a worker. A table is
  the list of its rows; each operation is one statement or one transaction, which SQLite serialises. Statuses are the
  stored texts (the column may be null). Of a row the model has the columns that these operations test, set to a constant or
  clear; texts that they only store are one payload.
\<close>

section \<open>Statements\<close>

definition sql_update :: "('r \<Rightarrow> bool) \<Rightarrow> ('r \<Rightarrow> 'r) \<Rightarrow> 'r list \<Rightarrow> 'r list" where
  "sql_update p f rows = map (\<lambda>r. if p r then f r else r) rows"

text \<open>\<open>UPDATE \<dots> WHERE id = (SELECT id \<dots> ORDER BY id DESC LIMIT 1)\<close> on rows in the order of their ids.\<close>

fun sql_update_last :: "('r \<Rightarrow> bool) \<Rightarrow> ('r \<Rightarrow> 'r) \<Rightarrow> 'r list \<Rightarrow> 'r list" where
  "sql_update_last p f [] = []"
| "sql_update_last p f (r # rows) = (if p r \<and> \<not> list_ex p rows then f r # rows else r # sql_update_last p f rows)"

definition sql_delete :: "('r \<Rightarrow> bool) \<Rightarrow> 'r list \<Rightarrow> 'r list" where
  "sql_delete p rows = filter (\<lambda>r. \<not> p r) rows"

text \<open>\<open>ORDER BY key DESC LIMIT 1\<close> over a key without duplicates; \<open>ASC\<close> is \<^const>\<open>min_by_key\<close>.\<close>

fun sql_latest :: "('r \<Rightarrow> int) \<Rightarrow> 'r list \<Rightarrow> 'r option" where
  "sql_latest key [] = None"
| "sql_latest key (r # rows) =
     (case sql_latest key rows of None \<Rightarrow> Some r | Some best \<Rightarrow> if key r \<le> key best then Some best else Some r)"

text \<open>\<open>COALESCE(MAX(key), 0)\<close> of a table whose keys are positive, as those that SQLite gives are.\<close>

definition sql_max_id :: "('r \<Rightarrow> int) \<Rightarrow> 'r list \<Rightarrow> int" where
  "sql_max_id key rows = fold (\<lambda>r m. max m (key r)) rows 0"

section \<open>Rows\<close>

record patchset_row =
  ps_id :: int
  ps_status :: "string option"
  ps_failed_reason :: "string option"
  ps_target_review_count :: "int option"
  ps_cover_letter_message_id :: "string option"
  ps_mr_number :: "int option"
  ps_mr_url :: "string option"
  ps_baseline_info :: "string option"

record patch_row =
  pa_id :: int
  pa_patchset_id :: int
  pa_message_id :: string
  pa_part_index :: int
  pa_status :: "string option"
  pa_apply_error :: "string option"

record review_row =
  rv_id :: int
  rv_patchset_id :: int
  rv_patch_id :: "int option"
  rv_status :: "string option"
  rv_interaction_id :: "string option"
  rv_result :: "string option"

record email_row =
  em_id :: int
  em_patch_id :: "int option"
  em_kind :: string
  em_status :: "string option"
  em_to_addresses :: string
  em_subject :: string
  em_in_reply_to :: string
  em_body :: string
  em_created_at :: int
  em_locked_at :: "int option"
  em_error_log :: "string option"

record patchwork_row =
  pw_id :: int
  pw_patch_msg_id :: string
  pw_api_url :: string
  pw_context :: string
  pw_status :: "string option"
  pw_payload :: string
  pw_retry_count :: int
  pw_next_retry_at :: "int option"
  pw_locked_at :: "int option"
  pw_error_log :: "string option"

record forge_row =
  fo_id :: int
  fo_patchset_id :: int
  fo_repo :: string
  fo_pr_number :: int
  fo_body :: string
  fo_status :: string
  fo_retry_count :: int
  fo_next_retry_at :: "int option"
  fo_locked_at :: "int option"
  fo_error_log :: "string option"

record fetch_row =
  fq_id :: int
  fq_repo_url :: string
  fq_commit_range :: string
  fq_article_id :: string
  fq_status :: string
  fq_created_at :: int
  fq_retry_count :: int
  fq_next_retry_at :: "int option"
  fq_locked_at :: "int option"
  fq_error_log :: "string option"

text \<open>A reservation of pre-existing bugs for the mail of a patch.\<close>

record disclosure_row =
  dc_patch_message_id :: string
  dc_reserved_at :: int
  dc_disclosed_at :: "int option"

text \<open>A call of a tool during a review; its length is zero until the result is seen.\<close>

record tool_usage_row =
  tu_review_id :: int
  tu_tool_name :: string
  tu_arguments :: "string option"
  tu_output_length :: int
  tu_payload :: string

text \<open>
  The rows that hang on a review: tool usages, findings, resolutions of prior feedback (a payload each) and links to bugs. The
  interactions with a model (id and payload) stand for themselves. Of
  \<open>meta\<close> the model has the sequence of generations, the active generation of each patchset, and the highest id of a review so far.
\<close>

record review_db =
  db_patchsets :: "patchset_row list"
  db_patches :: "patch_row list"
  db_reviews :: "review_row list"
  db_tool_usages :: "tool_usage_row list"
  db_findings :: "(int \<times> string) list"
  db_resolutions :: "(int \<times> string) list"
  db_bug_reviews :: "(int \<times> int \<times> bool) list"
  db_ai_interactions :: "(string \<times> string) list"
  db_email_outbox :: "email_row list"
  db_patchwork_outbox :: "patchwork_row list"
  db_forge_outbox :: "forge_row list"
  db_fetch_queue :: "fetch_row list"
  db_disclosures :: "disclosure_row list"
  db_gen_seq :: "int option"
  db_active_gen :: "int \<Rightarrow> int option"
  db_reviews_max_id :: "int option"

record patchset_review_claim =
  cl_patchset_id :: int
  cl_generation :: int

section \<open>Who owns a patchset\<close>

definition patchset_has_status :: "string list \<Rightarrow> int \<Rightarrow> review_db \<Rightarrow> bool" where
  "patchset_has_status statuses pid db \<longleftrightarrow>
     list_ex (\<lambda>ps. ps_id ps = pid \<and> list_ex (\<lambda>s. ps_status ps = Some s) statuses) (db_patchsets db)"

definition patchset_cancelled :: "int \<Rightarrow> review_db \<Rightarrow> bool" where
  "patchset_cancelled pid db \<longleftrightarrow> patchset_has_status [''Cancelled''] pid db"

definition get_patchset_status :: "int \<Rightarrow> review_db \<Rightarrow> string option" where
  "get_patchset_status pid db = Option.bind (find (\<lambda>ps. ps_id ps = pid) (db_patchsets db)) ps_status"

text \<open>The claim is the active generation of its patchset, and the patchset has one of some statuses.\<close>

definition claim_current :: "string list \<Rightarrow> patchset_review_claim \<Rightarrow> review_db \<Rightarrow> bool" where
  "claim_current statuses c db \<longleftrightarrow>
     patchset_has_status statuses (cl_patchset_id c) db \<and> db_active_gen db (cl_patchset_id c) = Some (cl_generation c)"

definition is_patchset_claim_active :: "patchset_review_claim option \<Rightarrow> int \<Rightarrow> review_db \<Rightarrow> bool" where
  "is_patchset_claim_active claim pid db =
     (case claim of
        Some c \<Rightarrow> if cl_patchset_id c \<noteq> pid then False else claim_current [''In Review''] c db
      | None \<Rightarrow> (case get_patchset_status pid db of None \<Rightarrow> False | Some s \<Rightarrow> s \<noteq> ''Cancelled''))"

definition is_patchset_claim_active_for_outbox :: "patchset_review_claim option \<Rightarrow> int option \<Rightarrow> review_db \<Rightarrow> bool" where
  "is_patchset_claim_active_for_outbox claim expected db =
     (case claim of
        Some c \<Rightarrow> if (case expected of Some pid \<Rightarrow> pid \<noteq> cl_patchset_id c | None \<Rightarrow> False) then False
                  else claim_current [''In Review'', ''Reviewed'', ''Failed''] c db
      | None \<Rightarrow> True)"

text \<open>The condition \<open>(? IS NULL OR (\<dots> = ? AND EXISTS \<dots>))\<close> of the guarded statements.\<close>

definition claim_admits :: "patchset_review_claim option \<Rightarrow> int \<Rightarrow> review_db \<Rightarrow> bool" where
  "claim_admits claim pid db =
     (case claim of None \<Rightarrow> True | Some c \<Rightarrow> pid = cl_patchset_id c \<and> claim_current [''In Review''] c db)"

text \<open>The review may still be written: neither it nor its patchset is cancelled, and the claim holds.\<close>

definition review_open :: "patchset_review_claim option \<Rightarrow> review_db \<Rightarrow> review_row \<Rightarrow> bool" where
  "review_open claim db r \<longleftrightarrow> rv_status r \<noteq> Some ''Cancelled'' \<and> \<not> patchset_cancelled (rv_patchset_id r) db
     \<and> claim_admits claim (rv_patchset_id r) db"

definition set_active_gen :: "int \<Rightarrow> int option \<Rightarrow> review_db \<Rightarrow> review_db" where
  "set_active_gen pid g db = db\<lparr>db_active_gen := (db_active_gen db)(pid := g)\<rparr>"

definition update_patchsets :: "(patchset_row \<Rightarrow> bool) \<Rightarrow> (patchset_row \<Rightarrow> patchset_row) \<Rightarrow> review_db \<Rightarrow> review_db" where
  "update_patchsets p f db = db\<lparr>db_patchsets := sql_update p f (db_patchsets db)\<rparr>"

definition update_patches :: "(patch_row \<Rightarrow> bool) \<Rightarrow> (patch_row \<Rightarrow> patch_row) \<Rightarrow> review_db \<Rightarrow> review_db" where
  "update_patches p f db = db\<lparr>db_patches := sql_update p f (db_patches db)\<rparr>"

definition update_reviews :: "(review_row \<Rightarrow> bool) \<Rightarrow> (review_row \<Rightarrow> review_row) \<Rightarrow> review_db \<Rightarrow> review_db" where
  "update_reviews p f db = db\<lparr>db_reviews := sql_update p f (db_reviews db)\<rparr>"

section \<open>Claiming and finishing a patchset\<close>

definition release_patchset_claim :: "patchset_review_claim option \<Rightarrow> review_db \<Rightarrow> review_db" where
  "release_patchset_claim claim db =
     (case claim of
        None \<Rightarrow> db
      | Some c \<Rightarrow>
          if db_active_gen db (cl_patchset_id c) = Some (cl_generation c)
             \<and> \<not> patchset_has_status [''In Review''] (cl_patchset_id c) db
          then set_active_gen (cl_patchset_id c) None db else db)"

definition finish_patchset :: "string \<Rightarrow> string option \<Rightarrow> patchset_row \<Rightarrow> patchset_row" where
  "finish_patchset status reason ps = ps\<lparr>ps_status := Some status, ps_failed_reason := reason\<rparr>"

definition complete_patchset_review ::
  "patchset_review_claim option \<Rightarrow> int \<Rightarrow> string \<Rightarrow> string option \<Rightarrow> review_db \<Rightarrow> review_db \<times> bool" where
  "complete_patchset_review claim pid status reason db =
     (let write = (\<lambda>p. (update_patchsets p (finish_patchset status reason) db, list_ex p (db_patchsets db)))
      in if status = ''Cancelled'' then write (\<lambda>ps. ps_id ps = pid)
         else case claim of
           Some c \<Rightarrow>
             if cl_patchset_id c \<noteq> pid then (db, False)
             else write (\<lambda>ps. ps_id ps = pid \<and> ps_status ps = Some ''In Review'' \<and> db_active_gen db (ps_id ps) = Some (cl_generation c))
         | None \<Rightarrow> write (\<lambda>ps. ps_id ps = pid \<and> ps_status ps \<noteq> None \<and> ps_status ps \<noteq> Some ''Cancelled''))"

text \<open>The baseline, model and log of a run are one payload of the row.\<close>

definition update_patchset_baseline_info :: "patchset_review_claim option \<Rightarrow> int \<Rightarrow> string \<Rightarrow> review_db \<Rightarrow> review_db" where
  "update_patchset_baseline_info claim pid info db =
     update_patchsets
       (\<lambda>ps. ps_id ps = pid \<and> ps_status ps \<noteq> Some ''Cancelled''
          \<and> (case claim of
               None \<Rightarrow> True
             | Some c \<Rightarrow> ps_id ps = cl_patchset_id c \<and> ps_status ps = Some ''In Review''
                 \<and> db_active_gen db (ps_id ps) = Some (cl_generation c)))
       (\<lambda>ps. ps\<lparr>ps_baseline_info := Some info\<rparr>) db"

definition allocate_patchset_review_gen :: "int \<Rightarrow> review_db \<Rightarrow> review_db \<times> int" where
  "allocate_patchset_review_gen pid db =
     (let g = (case db_gen_seq db of None \<Rightarrow> 1 | Some n \<Rightarrow> n + 1)
      in (set_active_gen pid (Some g) (db\<lparr>db_gen_seq := Some g\<rparr>), g))"

definition claim_patchset_for_review_with_gen :: "int \<Rightarrow> review_db \<Rightarrow> review_db \<times> int option" where
  "claim_patchset_for_review_with_gen pid db =
     (let p = (\<lambda>ps. ps_id ps = pid \<and> ps_status ps = Some ''Pending'')
      in if \<not> list_ex p (db_patchsets db) then (db, None)
         else let (db', g) = allocate_patchset_review_gen pid (update_patchsets p (finish_patchset ''In Review'' None) db)
              in (db', Some g))"

definition enter_patchset_review_with_gen :: "int \<Rightarrow> review_db \<Rightarrow> review_db \<times> int option" where
  "enter_patchset_review_with_gen pid db =
     (let p = (\<lambda>ps. ps_id ps = pid \<and> ps_status ps \<noteq> Some ''Cancelled'')
      in if \<not> list_ex p (db_patchsets db) then (db, None)
         else let (db', g) = allocate_patchset_review_gen pid (update_patchsets p (\<lambda>ps. ps\<lparr>ps_status := Some ''In Review''\<rparr>) db)
              in (db', Some g))"

section \<open>What hangs on a review\<close>

definition unsent_email :: "string list" where
  "unsent_email = [''Pending'', ''Embargoed'', ''Skipped'', ''Muted'', ''Disabled'', ''Dry-Run'', ''Cancelled'']"

definition status_in :: "string option \<Rightarrow> string list \<Rightarrow> bool" where
  "status_in st statuses \<longleftrightarrow> list_ex (\<lambda>s. st = Some s) statuses"

text \<open>A completed review of a patch keeps what was queued for it.\<close>

definition patch_reviewed :: "int \<Rightarrow> review_db \<Rightarrow> bool" where
  "patch_reviewed patch db \<longleftrightarrow> list_ex (\<lambda>r. rv_patch_id r = Some patch \<and> rv_status r = Some ''Reviewed'') (db_reviews db)"

definition delete_review_rows :: "(int \<Rightarrow> bool) \<Rightarrow> review_db \<Rightarrow> review_db" where
  "delete_review_rows doomed db = db\<lparr>
     db_tool_usages := sql_delete (\<lambda>u. doomed (tu_review_id u)) (db_tool_usages db),
     db_findings := sql_delete (\<lambda>r. doomed (fst r)) (db_findings db),
     db_resolutions := sql_delete (\<lambda>r. doomed (fst r)) (db_resolutions db),
     db_bug_reviews := sql_delete (\<lambda>r. doomed (fst r)) (db_bug_reviews db)\<rparr>"

definition delete_emails :: "(email_row \<Rightarrow> bool) \<Rightarrow> review_db \<Rightarrow> review_db" where
  "delete_emails p db = db\<lparr>db_email_outbox := sql_delete p (db_email_outbox db)\<rparr>"

definition delete_checks :: "(patchwork_row \<Rightarrow> bool) \<Rightarrow> review_db \<Rightarrow> review_db" where
  "delete_checks p db = db\<lparr>db_patchwork_outbox := sql_delete p (db_patchwork_outbox db)\<rparr>"

definition delete_aborted_review_children :: "int \<Rightarrow> review_db \<Rightarrow> review_db" where
  "delete_aborted_review_children review db0 =
     (let db1 = delete_review_rows (\<lambda>rid. rid = review) db0;
          of_review = (\<lambda>patch. list_ex (\<lambda>r. rv_id r = review \<and> rv_patch_id r = Some patch) (db_reviews db1));
          db2 = delete_emails (\<lambda>e. status_in (em_status e) unsent_email
                  \<and> (case em_patch_id e of Some patch \<Rightarrow> of_review patch \<and> \<not> patch_reviewed patch db1 | None \<Rightarrow> False)) db1
      in delete_checks (\<lambda>w. status_in (pw_status w) [''Pending'', ''Cancelled'']
           \<and> list_ex (\<lambda>p. pa_message_id p = pw_patch_msg_id w \<and> of_review (pa_id p) \<and> \<not> patch_reviewed (pa_id p) db2)
                (db_patches db2)) db2)"

section \<open>Taking up a review\<close>

text \<open>A transaction that ends in an error is rolled back: the database stays as it was.\<close>

datatype review_error = Review_superseded | Patchset_superseded

definition clear_aborted_review_artifacts ::
  "patchset_review_claim option \<Rightarrow> int \<Rightarrow> review_db \<Rightarrow> review_error + review_db" where
  "clear_aborted_review_artifacts claim review db =
     (let p = (\<lambda>r. rv_id r = review \<and> review_open claim db r)
      in if \<not> list_ex p (db_reviews db) then Inl Review_superseded
         else Inr (delete_aborted_review_children review
                (update_reviews p (\<lambda>r. r\<lparr>rv_status := Some ''In Review'', rv_interaction_id := None\<rparr>) db)))"

definition claim_pending_review_id_in_tx ::
  "patchset_review_claim option \<Rightarrow> int \<Rightarrow> int option \<Rightarrow> review_db \<Rightarrow> review_error + (review_db \<times> int option)" where
  "claim_pending_review_id_in_tx claim pid patch db =
     (case min_by_key rv_id (filter (\<lambda>r. rv_patchset_id r = pid \<and> rv_patch_id r = patch \<and> rv_status r = Some ''Pending''
              \<and> \<not> patchset_cancelled pid db) (db_reviews db)) of
        None \<Rightarrow> Inr (db, None)
      | Some chosen \<Rightarrow>
          (case clear_aborted_review_artifacts claim (rv_id chosen)
                  (update_reviews (\<lambda>r. rv_id r = rv_id chosen) (\<lambda>r. r\<lparr>rv_status := Some ''In Review'', rv_interaction_id := None\<rparr>) db) of
             Inl e \<Rightarrow> Inl e
           | Inr db' \<Rightarrow> Inr (db', Some (rv_id chosen))))"

definition claim_pending_review_id ::
  "patchset_review_claim option \<Rightarrow> int \<Rightarrow> int option \<Rightarrow> review_db \<Rightarrow> review_error + (review_db \<times> int option)" where
  "claim_pending_review_id claim pid patch db =
     (if claim \<noteq> None \<and> \<not> is_patchset_claim_active claim pid db then Inr (db, None)
      else claim_pending_review_id_in_tx claim pid patch db)"

definition next_review_id :: "review_db \<Rightarrow> int" where
  "next_review_id db = max (sql_max_id rv_id (db_reviews db)) (case db_reviews_max_id db of None \<Rightarrow> 0 | Some n \<Rightarrow> n) + 1"

definition insert_review :: "int \<Rightarrow> int option \<Rightarrow> string \<Rightarrow> review_db \<Rightarrow> review_db \<times> int" where
  "insert_review pid patch status db =
     (db\<lparr>db_reviews := db_reviews db @ [\<lparr>rv_id = next_review_id db, rv_patchset_id = pid, rv_patch_id = patch,
         rv_status = Some status, rv_interaction_id = None, rv_result = None\<rparr>]\<rparr>, next_review_id db)"

definition claim_or_create_in_review ::
  "patchset_review_claim option \<Rightarrow> int \<Rightarrow> int option \<Rightarrow> review_db \<Rightarrow> review_error + (review_db \<times> int)" where
  "claim_or_create_in_review claim pid patch db =
     (if \<not> is_patchset_claim_active claim pid db then Inl Patchset_superseded
      else case claim_pending_review_id_in_tx claim pid patch db of
        Inl e \<Rightarrow> Inl e
      | Inr (db', Some review) \<Rightarrow> Inr (db', review)
      | Inr (db', None) \<Rightarrow> Inr (insert_review pid patch ''In Review'' db'))"

definition create_review :: "int \<Rightarrow> int option \<Rightarrow> review_db \<Rightarrow> review_db \<times> int" where
  "create_review pid patch db = insert_review pid patch ''Pending'' db"

definition count_successful_reviews :: "int \<Rightarrow> int \<Rightarrow> review_db \<Rightarrow> nat" where
  "count_successful_reviews pid patch db =
     length (filter (\<lambda>r. rv_patchset_id r = pid \<and> rv_patch_id r = Some patch \<and> rv_status r = Some ''Reviewed'') (db_reviews db))"

definition has_successful_review :: "int \<Rightarrow> int \<Rightarrow> review_db \<Rightarrow> bool" where
  "has_successful_review pid patch db \<longleftrightarrow> count_successful_reviews pid patch db > 0"

definition has_failed_review :: "int \<Rightarrow> int \<Rightarrow> review_db \<Rightarrow> bool" where
  "has_failed_review pid patch db \<longleftrightarrow>
     list_ex (\<lambda>r. rv_patchset_id r = pid \<and> rv_patch_id r = Some patch
       \<and> status_in (rv_status r) [''Failed'', ''FailedToApply''] \<and> rv_interaction_id r = None) (db_reviews db)"

section \<open>Writes of a review\<close>

text \<open>A write of \<open>Cancelled\<close> waits for the patchset to be cancelled and asks for no claim; every other write asks for an open review.\<close>

definition review_writable :: "patchset_review_claim option \<Rightarrow> string \<Rightarrow> review_db \<Rightarrow> review_row \<Rightarrow> bool" where
  "review_writable claim status db r \<longleftrightarrow>
     (if status = ''Cancelled'' then patchset_cancelled (rv_patchset_id r) db else review_open claim db r)"

definition update_review_status :: "patchset_review_claim option \<Rightarrow> int \<Rightarrow> string \<Rightarrow> review_db \<Rightarrow> review_db" where
  "update_review_status claim review status db =
     update_reviews (\<lambda>r. rv_id r = review \<and> review_writable claim status db r) (\<lambda>r. r\<lparr>rv_status := Some status\<rparr>) db"

definition mark_review_in_review_if_active :: "patchset_review_claim option \<Rightarrow> int \<Rightarrow> review_db \<Rightarrow> review_db \<times> bool" where
  "mark_review_in_review_if_active claim review db =
     (let p = (\<lambda>r. rv_id r = review \<and> review_open claim db r)
      in (update_reviews p (\<lambda>r. r\<lparr>rv_status := Some ''In Review''\<rparr>) db, list_ex p (db_reviews db)))"

definition complete_review ::
  "patchset_review_claim option \<Rightarrow> int \<Rightarrow> string \<Rightarrow> string \<Rightarrow> string option \<Rightarrow> review_db \<Rightarrow> review_error + review_db" where
  "complete_review claim review status result interaction db =
     (let p = (\<lambda>r. rv_id r = review \<and> review_writable claim status db r)
      in if \<not> list_ex p (db_reviews db) then Inl Review_superseded
         else Inr (update_reviews p
                (\<lambda>r. r\<lparr>rv_status := Some status, rv_result := Some result, rv_interaction_id := interaction\<rparr>) db))"

text \<open>\<open>INSERT \<dots> SELECT \<dots> FROM reviews WHERE id = ? AND \<dots>\<close>: one row for each review that admits it.\<close>

definition admitting_reviews :: "(review_row \<Rightarrow> bool) \<Rightarrow> int \<Rightarrow> review_db \<Rightarrow> review_row list" where
  "admitting_reviews p review db = filter (\<lambda>r. rv_id r = review \<and> p r) (db_reviews db)"

definition create_tool_usage :: "patchset_review_claim option \<Rightarrow> tool_usage_row \<Rightarrow> review_db \<Rightarrow> review_db" where
  "create_tool_usage claim usage db =
     db\<lparr>db_tool_usages := db_tool_usages db
          @ map (\<lambda>_. usage) (admitting_reviews (review_open claim db) (tu_review_id usage) db)\<rparr>"

text \<open>Two writes ask for no claim: the length of the result of a call, and the record of an interaction with a model, whose id is the key.\<close>

definition update_tool_usage_length :: "int \<Rightarrow> string \<Rightarrow> string \<Rightarrow> int \<Rightarrow> review_db \<Rightarrow> review_db" where
  "update_tool_usage_length review tool arguments len db =
     db\<lparr>db_tool_usages := sql_update_last
          (\<lambda>u. tu_review_id u = review \<and> tu_tool_name u = tool \<and> tu_arguments u = Some arguments \<and> tu_output_length u = 0)
          (\<lambda>u. u\<lparr>tu_output_length := len\<rparr>) (db_tool_usages db)\<rparr>"

definition create_ai_interaction :: "string \<Rightarrow> string \<Rightarrow> review_db \<Rightarrow> review_db \<times> bool" where
  "create_ai_interaction i payload db =
     (if list_ex (\<lambda>row. fst row = i) (db_ai_interactions db) then (db, False)
      else (db\<lparr>db_ai_interactions := db_ai_interactions db @ [(i, payload)]\<rparr>, True))"

definition create_finding_with_provenance ::
  "patchset_review_claim option \<Rightarrow> int \<Rightarrow> string \<Rightarrow> review_db \<Rightarrow> review_error + review_db" where
  "create_finding_with_provenance claim review payload db =
     (let rs = admitting_reviews (review_open claim db) review db
      in if rs = [] then Inl Review_superseded
         else Inr (db\<lparr>db_findings := db_findings db @ map (\<lambda>_. (review, payload)) rs\<rparr>))"

text \<open>The resolutions come with their \<open>prior_id\<close>; those whose trimmed id is empty are passed over.\<close>

fun insert_resolutions ::
  "patchset_review_claim option \<Rightarrow> int \<Rightarrow> (string \<times> string) list \<Rightarrow> review_db \<Rightarrow> review_error + review_db" where
  "insert_resolutions claim review [] db = Inr db"
| "insert_resolutions claim review ((prior_id, payload) # resolutions) db =
     (if trim prior_id = [] then insert_resolutions claim review resolutions db
      else let rs = admitting_reviews (review_open claim db) review db
           in if rs = [] then Inl Review_superseded
              else insert_resolutions claim review resolutions
                     (db\<lparr>db_resolutions := db_resolutions db @ map (\<lambda>_. (review, payload)) rs\<rparr>))"

definition insert_prior_feedback_resolutions ::
  "patchset_review_claim option \<Rightarrow> int \<Rightarrow> (string \<times> string) list \<Rightarrow> review_db \<Rightarrow> review_error + review_db" where
  "insert_prior_feedback_resolutions claim review resolutions db =
     (if resolutions = [] then Inr db
      else insert_resolutions claim review resolutions
             (if admitting_reviews (review_open claim db) review db = [] then db
              else db\<lparr>db_resolutions := sql_delete (\<lambda>r. fst r = review) (db_resolutions db)\<rparr>))"

definition insert_bug_review :: "patchset_review_claim option \<Rightarrow> int \<Rightarrow> int \<Rightarrow> bool \<Rightarrow> review_db \<Rightarrow> review_db" where
  "insert_bug_review claim review bug newly db =
     (if admitting_reviews (\<lambda>r. rv_status r \<noteq> Some ''Cancelled'' \<and> claim_admits claim (rv_patchset_id r) db) review db = [] then db
      else if list_ex (\<lambda>(rid, b, _). rid = review \<and> b = bug) (db_bug_reviews db)
      then db\<lparr>db_bug_reviews := map (\<lambda>(rid, b, old). if rid = review \<and> b = bug then (rid, b, old \<or> newly) else (rid, b, old))
                 (db_bug_reviews db)\<rparr>
      else db\<lparr>db_bug_reviews := db_bug_reviews db @ [(review, bug, newly)]\<rparr>)"

section \<open>Statuses of patches\<close>

definition update_patch_status :: "patchset_review_claim option \<Rightarrow> int \<Rightarrow> string \<Rightarrow> review_db \<Rightarrow> review_db" where
  "update_patch_status claim patch status db =
     update_patches
       (\<lambda>p. pa_id p = patch
          \<and> (if status = ''Cancelled''
             then \<not> status_in (pa_status p) [''Reviewed'', ''Skipped'', ''Failed''] \<and> patchset_cancelled (pa_patchset_id p) db
             else (status = ''Pending'' \<or> pa_status p \<noteq> Some ''Cancelled'')
                  \<and> \<not> patchset_cancelled (pa_patchset_id p) db \<and> claim_admits claim (pa_patchset_id p) db))
       (\<lambda>p. p\<lparr>pa_status := Some status\<rparr>) db"

definition update_patch_application_status ::
  "patchset_review_claim option \<Rightarrow> int \<Rightarrow> int \<Rightarrow> string \<Rightarrow> string option \<Rightarrow> review_db \<Rightarrow> review_db" where
  "update_patch_application_status claim pid part status error db =
     update_patches
       (\<lambda>p. pa_patchset_id p = pid \<and> pa_part_index p = part
          \<and> (pa_status p = None \<or> status_in (pa_status p) [''Pending'', ''In Review'', ''Reviewing'', ''applied'', ''error''])
          \<and> \<not> patchset_cancelled pid db \<and> claim_admits claim pid db)
       (\<lambda>p. p\<lparr>pa_status := Some status, pa_apply_error := error\<rparr>) db"

text \<open>What \<open>get_patch_statuses_for_patchset\<close> shows for a patch: its own status, corrected by its reviews.\<close>

definition effective_patch_status :: "review_db \<Rightarrow> patch_row \<Rightarrow> string" where
  "effective_patch_status db p =
     (let mine = filter (\<lambda>r. rv_patchset_id r = pa_patchset_id p \<and> rv_patch_id r = Some (pa_id p)) (db_reviews db);
          latest = Option.bind (sql_latest rv_id mine) rv_status;
          some_review = (\<lambda>s. list_ex (\<lambda>r. rv_status r = Some s) mine)
      in if status_in (pa_status p) [''Failed'', ''Failed To Apply'', ''FailedToApply'', ''error'', ''Cancelled'']
         then (case pa_status p of Some s \<Rightarrow> s | None \<Rightarrow> [])
         else if status_in latest [''Failed'', ''FailedToApply'', ''Cancelled'', ''In Review''] then ''Failed''
         else if pa_status p = Some ''Skipped'' \<or> some_review ''Skipped'' then ''Skipped''
         else if pa_status p = Some ''Reviewed'' \<or> some_review ''Reviewed'' then ''Reviewed''
         else (case pa_status p of Some s \<Rightarrow> s | None \<Rightarrow> []))"

definition get_patch_statuses_for_patchset :: "int \<Rightarrow> review_db \<Rightarrow> int \<Rightarrow> string option" where
  "get_patch_statuses_for_patchset pid db =
     fold (\<lambda>p m. m(pa_id p \<mapsto> effective_patch_status db p)) (filter (\<lambda>p. pa_patchset_id p = pid) (db_patches db)) Map.empty"

section \<open>Cancelling\<close>

text \<open>The names under which a request to fetch an article appears as the cover letter of a patchset.\<close>

definition article_names :: "string \<Rightarrow> string list" where
  "article_names a = [a, ''<'' @ a @ ''>'', a @ ''@sashiko.local'', ''<'' @ a @ ''@sashiko.local>'']"

definition covers_article :: "patchset_row \<Rightarrow> string \<Rightarrow> bool" where
  "covers_article ps a \<longleftrightarrow> status_in (ps_cover_letter_message_id ps) (article_names a)"

definition cancel_outbox_for_patchset :: "int \<Rightarrow> string \<Rightarrow> review_db \<Rightarrow> review_db" where
  "cancel_outbox_for_patchset pid reason db =
     (let mine = filter (\<lambda>p. pa_patchset_id p = pid) (db_patches db)
      in db\<lparr>
        db_forge_outbox := sql_update (\<lambda>f. fo_patchset_id f = pid \<and> status_in (Some (fo_status f)) [''Pending'', ''Embargoed''])
          (\<lambda>f. f\<lparr>fo_status := ''Cancelled'', fo_error_log := Some reason, fo_locked_at := None\<rparr>) (db_forge_outbox db),
        db_email_outbox := sql_update
          (\<lambda>e. status_in (em_status e) [''Pending'', ''Embargoed''] \<and> list_ex (\<lambda>p. em_patch_id e = Some (pa_id p)) mine)
          (\<lambda>e. e\<lparr>em_status := Some ''Cancelled'', em_error_log := Some reason, em_locked_at := None\<rparr>) (db_email_outbox db),
        db_patchwork_outbox := sql_update
          (\<lambda>w. pw_status w = Some ''Pending'' \<and> list_ex (\<lambda>p. pw_patch_msg_id w = pa_message_id p) mine)
          (\<lambda>w. w\<lparr>pw_status := Some ''Cancelled'', pw_error_log := Some reason, pw_locked_at := None\<rparr>) (db_patchwork_outbox db),
        db_fetch_queue := sql_update
          (\<lambda>q. status_in (Some (fq_status q)) [''Pending'', ''Fetching'']
             \<and> list_ex (\<lambda>ps. ps_id ps = pid \<and> covers_article ps (fq_article_id q)) (db_patchsets db)
             \<and> \<not> list_ex (\<lambda>ps. ps_id ps \<noteq> pid \<and> ps_status ps \<noteq> Some ''Cancelled'' \<and> covers_article ps (fq_article_id q)) (db_patchsets db))
          (\<lambda>q. q\<lparr>fq_status := ''Cancelled'', fq_error_log := Some reason, fq_locked_at := None\<rparr>) (db_fetch_queue db)\<rparr>)"

definition cancellable_statuses :: "bool \<Rightarrow> string list" where
  "cancellable_statuses force =
     [''Fetching'', ''Pending'', ''Awaiting Review'', ''Incomplete''] @ (if force then [''In Review''] else [])"

definition unfinished_review :: "int \<Rightarrow> review_row \<Rightarrow> bool" where
  "unfinished_review pid r \<longleftrightarrow> rv_patchset_id r = pid \<and> status_in (rv_status r) [''Pending'', ''In Review'']"

definition cancel_patchset :: "int \<Rightarrow> bool \<Rightarrow> review_db \<Rightarrow> review_db \<times> bool" where
  "cancel_patchset pid force db0 =
     (let p = (\<lambda>ps. ps_id ps = pid \<and> status_in (ps_status ps) (cancellable_statuses force))
      in if \<not> list_ex p (db_patchsets db0) then (db0, False)
         else let db1 = set_active_gen pid None (update_patchsets p (\<lambda>ps. ps\<lparr>ps_status := Some ''Cancelled''\<rparr>) db0);
                  db2 = delete_review_rows (\<lambda>rid. list_ex (\<lambda>r. rv_id r = rid \<and> unfinished_review pid r) (db_reviews db1)) db1;
                  db3 = update_reviews (unfinished_review pid)
                          (\<lambda>r. r\<lparr>rv_status := Some ''Cancelled'', rv_interaction_id := None\<rparr>) db2;
                  db4 = update_patches
                          (\<lambda>p. pa_patchset_id p = pid
                             \<and> (pa_status p = None \<or> status_in (pa_status p) [''Pending'', ''In Review'', ''Reviewing'']
                                \<or> (pa_status p = Some ''applied''
                                   \<and> \<not> list_ex (\<lambda>r. rv_patchset_id r = pid \<and> rv_patch_id r = Some (pa_id p) \<and> rv_status r = Some ''Reviewed'')
                                        (db_reviews db3))))
                          (\<lambda>p. p\<lparr>pa_status := Some ''Cancelled''\<rparr>) db3
              in (cancel_outbox_for_patchset pid ''Cancelled because patchset was cancelled'' db4, True))"

definition cancel_review :: "string \<Rightarrow> int \<Rightarrow> review_db \<Rightarrow> review_db" where
  "cancel_review reason review db =
     update_reviews (\<lambda>r. rv_id r = review)
       (\<lambda>r. r\<lparr>rv_status := Some ''Cancelled'', rv_result := Some reason, rv_interaction_id := None\<rparr>)
       (delete_aborted_review_children review db)"

definition cancel_aborted_review :: "int \<Rightarrow> string \<Rightarrow> review_db \<Rightarrow> review_db" where
  "cancel_aborted_review review reason db =
     (if list_ex (\<lambda>r. rv_id r = review \<and> status_in (rv_status r) [''Pending'', ''In Review'', ''Cancelled'']
                    \<and> patchset_cancelled (rv_patchset_id r) db) (db_reviews db)
      then cancel_review reason review db else db)"

definition cancel_pending_review_for_patch :: "int \<Rightarrow> int option \<Rightarrow> string \<Rightarrow> review_db \<Rightarrow> review_db" where
  "cancel_pending_review_for_patch pid patch reason db =
     (case min_by_key rv_id (filter (\<lambda>r. unfinished_review pid r \<and> rv_patch_id r = patch \<and> patchset_cancelled pid db) (db_reviews db)) of
        Some r \<Rightarrow> cancel_review reason (rv_id r) db
      | None \<Rightarrow> db)"

section \<open>Running again\<close>

text \<open>The reviews that a new run replaces: those that failed before a model answered, and those that were interrupted or cancelled.\<close>

definition replaced_review :: "review_row \<Rightarrow> bool" where
  "replaced_review r \<longleftrightarrow> (status_in (rv_status r) [''Failed'', ''FailedToApply''] \<and> rv_interaction_id r = None)
     \<or> status_in (rv_status r) [''In Review'', ''Cancelled'']"

definition replaced_in :: "int \<Rightarrow> review_db \<Rightarrow> int \<Rightarrow> bool" where
  "replaced_in pid db patch \<longleftrightarrow>
     list_ex (\<lambda>r. rv_patch_id r = Some patch \<and> rv_patchset_id r = pid \<and> replaced_review r) (db_reviews db)"

definition reviewed_in :: "int \<Rightarrow> review_db \<Rightarrow> int \<Rightarrow> bool" where
  "reviewed_in pid db patch \<longleftrightarrow>
     list_ex (\<lambda>r. rv_patchset_id r = pid \<and> rv_patch_id r = Some patch \<and> rv_status r = Some ''Reviewed'') (db_reviews db)"

definition replaced_email :: "int \<Rightarrow> review_db \<Rightarrow> email_row \<Rightarrow> bool" where
  "replaced_email pid db e \<longleftrightarrow> status_in (em_status e) unsent_email
     \<and> (case em_patch_id e of
          None \<Rightarrow> False
        | Some patch \<Rightarrow>
            list_ex (\<lambda>p. pa_id p = patch \<and> pa_patchset_id p = pid) (db_patches db)
            \<and> (replaced_in pid db patch \<or> em_status e = Some ''Cancelled'') \<and> \<not> reviewed_in pid db patch)"

definition replaced_check :: "int \<Rightarrow> review_db \<Rightarrow> patchwork_row \<Rightarrow> bool" where
  "replaced_check pid db w \<longleftrightarrow> status_in (pw_status w) [''Pending'', ''Cancelled'']
     \<and> list_ex (\<lambda>p. pa_message_id p = pw_patch_msg_id w \<and> pa_patchset_id p = pid
          \<and> (replaced_in pid db (pa_id p) \<or> pw_status w = Some ''Cancelled'') \<and> \<not> patch_reviewed (pa_id p) db) (db_patches db)"

definition reset_patchset_review_state :: "int \<Rightarrow> review_db \<Rightarrow> review_db" where
  "reset_patchset_review_state pid db0 =
     (let replaced = (\<lambda>r. rv_patchset_id r = pid \<and> replaced_review r);
          db1 = set_active_gen pid None db0;
          db2 = update_patches
                  (\<lambda>p. pa_patchset_id p = pid
                     \<and> (status_in (pa_status p) [''Failed'', ''Cancelled'', ''In Review'', ''error'']
                        \<or> (pa_status p = Some ''applied'' \<and> \<not> reviewed_in pid db1 (pa_id p))))
                  (\<lambda>p. p\<lparr>pa_status := Some ''Pending'', pa_apply_error := None\<rparr>) db1;
          db3 = delete_review_rows (\<lambda>rid. list_ex (\<lambda>r. rv_id r = rid \<and> replaced r) (db_reviews db2)) db2;
          db4 = delete_emails (replaced_email pid db3) db3;
          db5 = delete_checks (replaced_check pid db4) db4;
          db6 = db5\<lparr>db_forge_outbox := sql_delete
                  (\<lambda>f. fo_patchset_id f = pid
                     \<and> status_in (Some (fo_status f)) [''Pending'', ''Embargoed'', ''Failed'', ''Cancelled'', ''Disabled'', ''Dry-Run''])
                  (db_forge_outbox db5)\<rparr>;
          highest = sql_max_id rv_id (db_reviews db6)
      in db6\<lparr>db_reviews_max_id := Some (case db_reviews_max_id db6 of None \<Rightarrow> highest | Some n \<Rightarrow> max n highest),
             db_reviews := sql_delete replaced (db_reviews db6)\<rparr>)"

definition rerun_patchset :: "int \<Rightarrow> review_db \<Rightarrow> review_db" where
  "rerun_patchset pid db =
     (let again = get_patchset_status pid db = Some ''Reviewed'';
          fresh = (\<lambda>ps. ps\<lparr>ps_status := Some ''Pending'', ps_failed_reason := None\<rparr>);
          counted = (\<lambda>ps. ps\<lparr>ps_target_review_count := Some ((case ps_target_review_count ps of None \<Rightarrow> 1 | Some n \<Rightarrow> n) + 1)\<rparr>);
          mine = (\<lambda>ps. ps_id ps = pid);
          db' = update_patchsets mine fresh db;
          db'' = (if again then update_patchsets mine counted db' else db')
      in reset_patchset_review_state pid db'')"

definition rerun_patch :: "int \<Rightarrow> int \<Rightarrow> review_db \<Rightarrow> review_db" where
  "rerun_patch pid patch db = rerun_patchset pid db"

text \<open>What a start of the program does to the work that the previous process left.\<close>

definition reset_reviewing_status :: "review_db \<Rightarrow> review_db \<times> nat" where
  "reset_reviewing_status db =
     (let p = (\<lambda>ps. status_in (ps_status ps) [''In Review'', ''Reviewing'']); q = (\<lambda>r. rv_status r = Some ''In Review'');
          db1 = update_patchsets p (\<lambda>ps. ps\<lparr>ps_status := Some ''Pending''\<rparr>) db;
          db2 = db1\<lparr>db_active_gen := Map.empty\<rparr>
      in (update_reviews q (\<lambda>r. r\<lparr>rv_status := Some ''Pending''\<rparr>) db2,
          length (filter p (db_patchsets db)) + length (filter q (db_reviews db2))))"

section \<open>Reviews whose task ended abnormally\<close>

definition fail_review :: "string \<Rightarrow> int \<Rightarrow> review_db \<Rightarrow> review_db" where
  "fail_review reason review db =
     update_reviews (\<lambda>r. rv_id r = review \<and> rv_status r = Some ''In Review'')
       (\<lambda>r. r\<lparr>rv_status := Some ''Failed'', rv_result := Some reason, rv_interaction_id := None\<rparr>)
       (delete_aborted_review_children review db)"

definition fail_orphaned_in_review_rows :: "patchset_review_claim option \<Rightarrow> int \<Rightarrow> string \<Rightarrow> review_db \<Rightarrow> review_db" where
  "fail_orphaned_in_review_rows claim pid reason db =
     (if \<not> is_patchset_claim_active claim pid db then db
      else fold (fail_review reason)
             (map rv_id (filter (\<lambda>r. rv_patchset_id r = pid \<and> rv_status r = Some ''In Review'') (db_reviews db))) db)"

datatype panicked_patch_outcome = FailedInFlightReview | KeptCompletedReview | NoUsableReview | Superseded

definition settle_panicked_patch_review ::
  "patchset_review_claim option \<Rightarrow> int \<Rightarrow> int \<Rightarrow> string \<Rightarrow> review_db \<Rightarrow> review_db \<times> panicked_patch_outcome" where
  "settle_panicked_patch_review claim pid patch reason db =
     (if \<not> is_patchset_claim_active claim pid db then (db, Superseded)
      else let latest = sql_latest rv_id (filter (\<lambda>r. rv_patchset_id r = pid \<and> rv_patch_id r = Some patch) (db_reviews db));
               (db', outcome) =
                 (case latest of
                    None \<Rightarrow> (db, NoUsableReview)
                  | Some r \<Rightarrow>
                      if rv_status r = Some ''Reviewed'' then (db, KeptCompletedReview)
                      else if rv_status r = Some ''In Review'' then (fail_review reason (rv_id r) db, FailedInFlightReview)
                      else (db, NoUsableReview))
           in (update_patch_status claim patch (if outcome = KeptCompletedReview then ''Reviewed'' else ''Failed'') db', outcome))"

end
