(* ===== verification/ReviewClaim.thy ===== *)
theory ReviewClaim
  imports ReviewTable
begin

text \<open>
  How the workers of the patch reviews are fenced (\<open>src/src/db.rs\<close>, used by \<open>src/src/reviewer.rs\<close>): a claim carries a generation, a rerun,
  a cancellation or a restart takes the generation away, and every write of the holder asks for it. The users of the database are the steps of
  a relation: workers with any claim at all, operators, the ingestion of mail, and restarts.
\<close>

section \<open>The writes of a worker\<close>

datatype worker_write =
    Finish_patchset int string "string option"
  | Baseline_info int string
  | Patch_status int string
  | Patch_application int int string "string option"
  | Take_review int "int option"
  | Take_pending int "int option"
  | Clear_artifacts int
  | Review_status int string
  | Mark_in_review int
  | Finish_review int string string "string option"
  | Tool_usage tool_usage_row
  | Usage_length int string string int
  | Ai_interaction string string
  | New_finding int string
  | Resolutions int "(string \<times> string) list"
  | Link_bug int int bool
  | Fail_orphaned int string
  | Settle_panicked int int string

text \<open>A transaction that fails leaves the database alone.\<close>

definition committed :: "review_db \<Rightarrow> review_error + review_db \<Rightarrow> review_db" where
  "committed db res = (case res of Inl _ \<Rightarrow> db | Inr db' \<Rightarrow> db')"

fun apply_write :: "patchset_review_claim option \<Rightarrow> worker_write \<Rightarrow> review_db \<Rightarrow> review_db" where
  "apply_write cl (Finish_patchset pid status reason) db = fst (complete_patchset_review cl pid status reason db)"
| "apply_write cl (Baseline_info pid info) db = update_patchset_baseline_info cl pid info db"
| "apply_write cl (Patch_status patch status) db = update_patch_status cl patch status db"
| "apply_write cl (Patch_application pid part status err) db = update_patch_application_status cl pid part status err db"
| "apply_write cl (Take_review pid patch) db = committed db (map_sum (\<lambda>e. e) fst (claim_or_create_in_review cl pid patch db))"
| "apply_write cl (Take_pending pid patch) db = committed db (map_sum (\<lambda>e. e) fst (claim_pending_review_id cl pid patch db))"
| "apply_write cl (Clear_artifacts review) db = committed db (clear_aborted_review_artifacts cl review db)"
| "apply_write cl (Review_status review status) db = update_review_status cl review status db"
| "apply_write cl (Mark_in_review review) db = fst (mark_review_in_review_if_active cl review db)"
| "apply_write cl (Finish_review review status result interaction) db =
     committed db (complete_review cl review status result interaction db)"
| "apply_write cl (Tool_usage usage) db = create_tool_usage cl usage db"
| "apply_write cl (Usage_length review tool arguments len) db = update_tool_usage_length review tool arguments len db"
| "apply_write cl (Ai_interaction i payload) db = fst (create_ai_interaction i payload db)"
| "apply_write cl (New_finding review payload) db = committed db (create_finding_with_provenance cl review payload db)"
| "apply_write cl (Resolutions review resolutions) db = committed db (insert_prior_feedback_resolutions cl review resolutions db)"
| "apply_write cl (Link_bug review bug newly) db = insert_bug_review cl review bug newly db"
| "apply_write cl (Fail_orphaned pid reason) db = fail_orphaned_in_review_rows cl pid reason db"
| "apply_write cl (Settle_panicked pid patch reason) db = fst (settle_panicked_patch_review cl pid patch reason db)"

text \<open>Writing that something is cancelled is open to everyone.\<close>

fun writes_cancelled :: "worker_write \<Rightarrow> bool" where
  "writes_cancelled (Finish_patchset pid status reason) = (status = ''Cancelled'')"
| "writes_cancelled (Patch_status patch status) = (status = ''Cancelled'')"
| "writes_cancelled (Review_status review status) = (status = ''Cancelled'')"
| "writes_cancelled (Finish_review review status result interaction) = (status = ''Cancelled'')"
| "writes_cancelled w = False"

text \<open>The two writes that ask for no claim at all; every other one leaves the database alone.\<close>

definition records_only :: "worker_write \<Rightarrow> review_db \<Rightarrow> review_db" where
  "records_only w db =
     (case w of
        Ai_interaction i payload \<Rightarrow> fst (create_ai_interaction i payload db)
      | Usage_length review tool arguments len \<Rightarrow> update_tool_usage_length review tool arguments len db
      | _ \<Rightarrow> db)"

text \<open>
  All that a write of \<open>Cancelled\<close> does: it says so of reviews and unfinished patches of a patchset that is cancelled already, or, in the one
  function that asks for nothing, of the patchset itself.
\<close>

definition only_cancels :: "worker_write \<Rightarrow> review_db \<Rightarrow> review_db \<Rightarrow> bool" where
  "only_cancels w db db' \<longleftrightarrow>
     db' = db\<lparr>db_patchsets := db_patchsets db', db_patches := db_patches db', db_reviews := db_reviews db'\<rparr>
     \<and> list_all2 (\<lambda>r r'. r' = r \<or> patchset_cancelled (rv_patchset_id r) db \<and> rv_status r' = Some ''Cancelled''
          \<and> rv_id r' = rv_id r \<and> rv_patchset_id r' = rv_patchset_id r \<and> rv_patch_id r' = rv_patch_id r) (db_reviews db) (db_reviews db')
     \<and> list_all2 (\<lambda>p p'. p' = p \<or> patchset_cancelled (pa_patchset_id p) db \<and> p' = p\<lparr>pa_status := Some ''Cancelled''\<rparr>
          \<and> \<not> status_in (pa_status p) [''Reviewed'', ''Skipped'', ''Failed'']) (db_patches db) (db_patches db')
     \<and> list_all2 (\<lambda>ps ps'. ps' = ps \<or> (\<exists>reason. w = Finish_patchset (ps_id ps) ''Cancelled'' reason
          \<and> ps' = finish_patchset ''Cancelled'' reason ps)) (db_patchsets db) (db_patchsets db')"

section \<open>Updates that meet no row\<close>

lemma sql_update_none [simp]: "\<forall>r \<in> set rows. \<not> p r \<Longrightarrow> sql_update p f rows = rows"
  by (auto simp: sql_update_def intro: map_idI)

lemma set_sql_update: "r \<in> set (sql_update p f rows) \<longleftrightarrow> (\<exists>r0 \<in> set rows. r = (if p r0 then f r0 else r0))"
  by (auto simp: sql_update_def image_iff)

lemma map_sql_update: "(\<And>r. p r \<Longrightarrow> key (f r) = key r) \<Longrightarrow> map key (sql_update p f rows) = map key rows"
  by (simp add: sql_update_def)

lemma filter_sql_update:
  "(\<And>r. r \<in> set rows \<Longrightarrow> p r \<Longrightarrow> \<not> q r \<and> \<not> q (f r)) \<Longrightarrow> filter q (sql_update p f rows) = filter q rows"
  by (induction rows) (auto simp: sql_update_def)

lemma list_ex_sql_update: "(\<And>r. p r \<Longrightarrow> Q (f r) = Q r) \<Longrightarrow> list_ex Q (sql_update p f rows) = list_ex Q rows"
  by (induction rows) (auto simp: sql_update_def)

lemma update_patchsets_none: "\<forall>ps \<in> set (db_patchsets db). \<not> p ps \<Longrightarrow> update_patchsets p f db = db"
  by (simp add: update_patchsets_def)

lemma update_patches_none: "\<forall>r \<in> set (db_patches db). \<not> p r \<Longrightarrow> update_patches p f db = db"
  by (simp add: update_patches_def)

lemma update_reviews_none: "\<forall>r \<in> set (db_reviews db). \<not> p r \<Longrightarrow> update_reviews p f db = db"
  by (simp add: update_reviews_def)

section \<open>Fencing\<close>

lemma lapsed_admits: "\<not> claim_current [''In Review''] c db \<Longrightarrow> \<not> claim_admits (Some c) pid db"
  by (simp add: claim_admits_def)

lemma lapsed_open: "\<not> claim_current [''In Review''] c db \<Longrightarrow> \<not> review_open (Some c) db r"
  by (simp add: review_open_def lapsed_admits)

lemma lapsed_active: "\<not> claim_current [''In Review''] c db \<Longrightarrow> \<not> is_patchset_claim_active (Some c) pid db"
  by (simp add: is_patchset_claim_active_def)

lemma lapsed_admitting: "\<not> claim_current [''In Review''] c db \<Longrightarrow> admitting_reviews (review_open (Some c) db) review db = []"
  by (auto simp: admitting_reviews_def lapsed_open filter_empty_conv)

lemma lapsed_resolutions:
  "\<not> claim_current [''In Review''] c db \<Longrightarrow>
     insert_resolutions (Some c) review rs db = Inr db \<or> insert_resolutions (Some c) review rs db = Inl Review_superseded"
  by (induction rs) (auto simp: lapsed_admitting Let_def split: if_splits)

lemma list_all2_sql_update: "(\<And>r. r \<in> set rows \<Longrightarrow> P r (if p r then f r else r)) \<Longrightarrow> list_all2 P rows (sql_update p f rows)"
  by (auto simp: sql_update_def list_all2_map2 list.rel_refl_strong intro!: list_all2I)

lemma cancelled_writes:
  assumes "writes_cancelled w"
  shows "only_cancels w db (apply_write cl w db)"
proof (cases w)
  case (Finish_patchset pid status reason)
  with assms show ?thesis
    by (auto simp: only_cancels_def complete_patchset_review_def Let_def update_patchsets_def list.rel_refl
        intro!: list_all2_sql_update split: if_splits)
next
  case (Patch_status patch status)
  with assms show ?thesis
    by (auto simp: only_cancels_def update_patch_status_def update_patches_def list.rel_refl
        intro!: list_all2_sql_update split: if_split_asm)
next
  case (Review_status review status)
  with assms show ?thesis
    by (auto simp: only_cancels_def update_review_status_def review_writable_def update_reviews_def list.rel_refl
        intro!: list_all2_sql_update split: if_split_asm)
next
  case (Finish_review review status result interaction)
  with assms show ?thesis
    by (auto simp: only_cancels_def complete_review_def committed_def Let_def review_writable_def update_reviews_def list.rel_refl
        intro!: list_all2_sql_update split: if_split_asm)
qed (use assms in simp_all)

lemma lapsed_writes_nothing:
  assumes "\<not> claim_current [''In Review''] c db" and "\<not> writes_cancelled w"
  shows "apply_write (Some c) w db = records_only w db"
proof (cases w)
  case (Baseline_info pid info)
  have "\<forall>ps \<in> set (db_patchsets db). \<not> (ps_id ps = cl_patchset_id c \<and> ps_status ps = Some ''In Review''
          \<and> db_active_gen db (ps_id ps) = Some (cl_generation c))"
    using assms(1) by (auto simp: claim_current_def patchset_has_status_def list_ex_iff)
  with Baseline_info show ?thesis
    by (auto simp: update_patchset_baseline_info_def records_only_def intro: update_patchsets_none)
next
  case (Finish_patchset pid status reason)
  have "\<forall>ps \<in> set (db_patchsets db). \<not> (ps_id ps = cl_patchset_id c \<and> ps_status ps = Some ''In Review''
          \<and> db_active_gen db (ps_id ps) = Some (cl_generation c))"
    using assms(1) by (auto simp: claim_current_def patchset_has_status_def list_ex_iff)
  with assms(2) Finish_patchset show ?thesis
    by (auto simp: records_only_def complete_patchset_review_def Let_def update_patchsets_none)
next
  case (Patch_status patch status)
  with assms show ?thesis by (auto simp: records_only_def update_patch_status_def lapsed_admits intro: update_patches_none)
next
  case (Patch_application pid part status err)
  with assms show ?thesis by (auto simp: records_only_def update_patch_application_status_def lapsed_admits intro: update_patches_none)
next
  case (Review_status review status)
  with assms show ?thesis
    by (auto simp: records_only_def update_review_status_def review_writable_def lapsed_open intro: update_reviews_none)
next
  case (Mark_in_review review)
  with assms show ?thesis
    by (auto simp: records_only_def mark_review_in_review_if_active_def Let_def lapsed_open intro: update_reviews_none)
next
  case (Finish_review review status result interaction)
  with assms show ?thesis
    by (auto simp: records_only_def complete_review_def review_writable_def committed_def lapsed_open list_ex_iff)
next
  case (Resolutions review rs)
  with assms lapsed_resolutions [OF assms(1), of review rs] show ?thesis
    by (auto simp: records_only_def insert_prior_feedback_resolutions_def committed_def lapsed_admitting)
next
  case (Link_bug review bug newly)
  with assms show ?thesis by (simp add: records_only_def insert_bug_review_def admitting_reviews_def lapsed_admits)
qed (use assms in \<open>auto simp: records_only_def claim_or_create_in_review_def claim_pending_review_id_def clear_aborted_review_artifacts_def
       committed_def lapsed_active lapsed_open list_ex_iff create_tool_usage_def create_finding_with_provenance_def lapsed_admitting
       fail_orphaned_in_review_rows_def settle_panicked_patch_review_def\<close>)

section \<open>Runs\<close>

text \<open>
  Whoever works outside the reviews (ingestion of mail, fetching, lineage, the queues of outgoing mail) may change everything but three
  things: it puts no patchset \<open>In Review\<close>, gives out no generation, and neither inserts nor deletes a review.
\<close>

definition outside_change :: "review_db \<Rightarrow> review_db \<Rightarrow> bool" where
  "outside_change db db' \<longleftrightarrow>
     (\<forall>pid. patchset_has_status [''In Review''] pid db' \<longrightarrow> patchset_has_status [''In Review''] pid db)
     \<and> db_gen_seq db' = db_gen_seq db \<and> db_active_gen db' = db_active_gen db
     \<and> map rv_id (db_reviews db') = map rv_id (db_reviews db) \<and> db_reviews_max_id db' = db_reviews_max_id db"

text \<open>A patchset is put \<open>In Review\<close> by the two functions that give out a generation, never by a plain write.\<close>

definition plain_write :: "patchset_review_claim option \<Rightarrow> worker_write \<Rightarrow> bool" where
  "plain_write cl w \<longleftrightarrow> cl = None \<longrightarrow> (case w of Finish_patchset _ status _ \<Rightarrow> status \<noteq> ''In Review'' | _ \<Rightarrow> True)"

inductive review_step :: "review_db \<Rightarrow> review_db \<Rightarrow> bool" where
  worker: "plain_write cl w \<Longrightarrow> review_step db (apply_write cl w db)"
| release: "review_step db (release_patchset_claim cl db)"
| claim: "review_step db (fst (claim_patchset_for_review_with_gen pid db))"
| enter: "review_step db (fst (enter_patchset_review_with_gen pid db))"
| cancel: "review_step db (fst (cancel_patchset pid force db))"
| cancel_review: "review_step db (cancel_aborted_review review reason db)"
| cancel_pending: "review_step db (cancel_pending_review_for_patch pid patch reason db)"
| rerun: "review_step db (rerun_patchset pid db)"
| reset: "review_step db (reset_patchset_review_state pid db)"
| restart: "review_step db (fst (reset_reviewing_status db))"
| create: "review_step db (fst (create_review pid patch db))"
| outside: "outside_change db db' \<Longrightarrow> review_step db db'"

inductive review_run :: "review_db \<Rightarrow> review_db \<Rightarrow> bool" for db0 where
  start: "review_run db0 db0"
| step: "review_run db0 db \<Longrightarrow> review_step db db' \<Longrightarrow> review_run db0 db'"

section \<open>Ids of reviews\<close>

text \<open>The highest id that a review has or is remembered to have had.\<close>

definition review_mark :: "review_db \<Rightarrow> int" where
  "review_mark db = max (sql_max_id rv_id (db_reviews db)) (case db_reviews_max_id db of None \<Rightarrow> 0 | Some n \<Rightarrow> n)"

lemma sql_max_id_fold: "fold (\<lambda>r m. max m (key r)) rows a = max a (sql_max_id key rows)" if "0 \<le> a"
  using that
proof (induction rows arbitrary: a)
  case (Cons r rows)
  from Cons.IH [of "max a (key r)"] Cons.IH [of "max 0 (key r)"] Cons.prems show ?case by (simp add: sql_max_id_def)
qed (simp add: sql_max_id_def)

lemma sql_max_id_Nil [simp]: "sql_max_id key [] = 0"
  by (simp add: sql_max_id_def)

lemma sql_max_id_Cons [simp]: "sql_max_id key (r # rows) = max (max 0 (key r)) (sql_max_id key rows)"
  using sql_max_id_fold [of "max 0 (key r)" key rows] by (simp add: sql_max_id_def)

lemma sql_max_id_nonneg [simp]: "0 \<le> sql_max_id key rows"
  by (induction rows) auto

lemma sql_max_id_append [simp]: "sql_max_id key (xs @ ys) = max (sql_max_id key xs) (sql_max_id key ys)"
  by (induction xs) auto

lemma sql_max_id_ge: "r \<in> set rows \<Longrightarrow> key r \<le> sql_max_id key rows"
  by (induction rows) auto

lemma sql_max_id_map: "map key rows = map key' rows' \<Longrightarrow> sql_max_id key rows = sql_max_id key' rows'"
proof (induction rows arbitrary: rows')
  case (Cons r rows)
  then show ?case by (cases rows') auto
qed simp

lemma sql_max_id_filter: "sql_max_id key (filter p rows) \<le> sql_max_id key rows"
  by (induction rows) auto

lemma review_mark_same:
  "map rv_id (db_reviews db') = map rv_id (db_reviews db) \<Longrightarrow> db_reviews_max_id db' = db_reviews_max_id db \<Longrightarrow> review_mark db' = review_mark db"
  unfolding review_mark_def by (simp cong: sql_max_id_map)

section \<open>What an operation does to the generations\<close>

text \<open>
  An operation that leaves the generations alone, or takes some away, puts no patchset \<open>In Review\<close>, and forgets no id of a review.
\<close>

definition gens_shrink :: "review_db \<Rightarrow> review_db \<Rightarrow> bool" where
  "gens_shrink db db' \<longleftrightarrow>
     db_gen_seq db' = db_gen_seq db
     \<and> (\<forall>pid. db_active_gen db' pid = db_active_gen db pid \<or> db_active_gen db' pid = None)
     \<and> (\<forall>pid. patchset_has_status [''In Review''] pid db' \<longrightarrow> patchset_has_status [''In Review''] pid db)
     \<and> review_mark db \<le> review_mark db'"

named_theorems shrink_intros

lemma shrink_refl [shrink_intros, simp]: "gens_shrink db db"
  by (simp add: gens_shrink_def)

lemma shrink_trans [trans]: "gens_shrink a b \<Longrightarrow> gens_shrink b c \<Longrightarrow> gens_shrink a c"
proof -
  assume ab: "gens_shrink a b" and bc: "gens_shrink b c"
  then have "review_mark a \<le> review_mark c" by (simp add: gens_shrink_def)
  moreover have "db_active_gen c pid = db_active_gen a pid \<or> db_active_gen c pid = None" for pid
    using ab bc unfolding gens_shrink_def by metis
  ultimately show "gens_shrink a c" using ab bc by (simp add: gens_shrink_def)
qed

lemma shrink_same:
  assumes "db_patchsets db' = db_patchsets db" and "db_gen_seq db' = db_gen_seq db" and "db_active_gen db' = db_active_gen db"
    and "map rv_id (db_reviews db') = map rv_id (db_reviews db)" and "db_reviews_max_id db' = db_reviews_max_id db"
  shows "gens_shrink db db'"
  using assms review_mark_same [OF assms(4,5)] by (simp add: gens_shrink_def patchset_has_status_def)

lemma shrink_update_patchsets [shrink_intros]:
  assumes "\<And>ps. p ps \<Longrightarrow> ps_id (f ps) = ps_id ps" and "\<And>ps. p ps \<Longrightarrow> ps_status (f ps) = Some ''In Review'' \<Longrightarrow> ps_status ps = Some ''In Review''"
  shows "gens_shrink db (update_patchsets p f db)"
proof -
  have "list_ex (\<lambda>ps. ps_id ps = pid \<and> ps_status ps = Some ''In Review'') (sql_update p f rows) \<Longrightarrow>
      list_ex (\<lambda>ps. ps_id ps = pid \<and> ps_status ps = Some ''In Review'') rows" for pid rows
  proof (induction rows)
    case (Cons r rows)
    then show ?case using assms(1) [of r] assms(2) [of r] by (auto simp: sql_update_def split: if_split_asm)
  qed (simp add: sql_update_def)
  from this [of _ "db_patchsets db"] show ?thesis
    by (auto simp: gens_shrink_def update_patchsets_def patchset_has_status_def review_mark_def)
qed

lemma shrink_update_patches [shrink_intros]: "gens_shrink db (update_patches p f db)"
  by (simp add: shrink_same update_patches_def)

lemma shrink_update_reviews [shrink_intros]: "(\<And>r. p r \<Longrightarrow> rv_id (f r) = rv_id r) \<Longrightarrow> gens_shrink db (update_reviews p f db)"
  by (simp add: shrink_same update_reviews_def map_sql_update)

lemma shrink_retake: "gens_shrink db (update_reviews p (\<lambda>r. r\<lparr>rv_status := s, rv_interaction_id := i\<rparr>) db)"
  by (rule shrink_update_reviews) simp

lemma shrink_delete_review_rows [shrink_intros]: "gens_shrink db (delete_review_rows d db)"
  by (simp add: shrink_same delete_review_rows_def)

lemma shrink_delete_emails [shrink_intros]: "gens_shrink db (delete_emails p db)"
  by (simp add: shrink_same delete_emails_def)

lemma shrink_delete_checks [shrink_intros]: "gens_shrink db (delete_checks p db)"
  by (simp add: shrink_same delete_checks_def)

lemma shrink_children [shrink_intros]: "gens_shrink db (delete_aborted_review_children review db)"
  by (simp add: shrink_same delete_aborted_review_children_def delete_review_rows_def delete_emails_def delete_checks_def Let_def)

lemma shrink_no_gen [shrink_intros]: "gens_shrink db (set_active_gen pid None db)"
  by (simp add: gens_shrink_def set_active_gen_def patchset_has_status_def review_mark_def)

lemma shrink_cancel_outbox [shrink_intros]: "gens_shrink db (cancel_outbox_for_patchset pid reason db)"
  by (simp add: shrink_same cancel_outbox_for_patchset_def Let_def)

lemmas shrink_after = shrink_trans [OF _ shrink_delete_review_rows] shrink_trans [OF _ shrink_retake]
  shrink_trans [OF _ shrink_update_patches] shrink_trans [OF _ shrink_cancel_outbox]

lemma shrink_insert_review [shrink_intros]: "gens_shrink db (fst (insert_review pid patch st db))"
  by (simp add: gens_shrink_def patchset_has_status_def insert_review_def next_review_id_def review_mark_def max_def)

lemma shrink_fail_review [shrink_intros]: "gens_shrink db (fail_review reason review db)"
  unfolding fail_review_def by (rule shrink_trans [OF shrink_children shrink_update_reviews]) simp

lemma shrink_fail_reviews: "gens_shrink db (fold (fail_review reason) rids db)"
  by (induction rids arbitrary: db) (auto intro: shrink_trans [OF shrink_fail_review])

lemma shrink_clear_artifacts:
  "clear_aborted_review_artifacts cl review db = Inr db' \<Longrightarrow> gens_shrink db db'"
  by (auto simp: clear_aborted_review_artifacts_def Let_def split: if_splits intro: shrink_trans [OF shrink_retake shrink_children])

lemma shrink_claim_pending:
  "claim_pending_review_id_in_tx cl pid patch db = Inr (db', r) \<Longrightarrow> gens_shrink db db'"
  by (auto simp: claim_pending_review_id_in_tx_def split: option.splits sum.splits
      intro: shrink_trans [OF shrink_retake shrink_clear_artifacts])

lemma shrink_resolutions: "insert_resolutions cl review rs db = Inr db' \<Longrightarrow> gens_shrink db db'"
proof (induction cl review rs db rule: insert_resolutions.induct)
  case (2 cl review prior_id payload resolutions db)
  show ?case
  proof (cases "trim prior_id = []")
    case False
    let ?rs = "admitting_reviews (review_open cl db) review db"
    let ?db = "db\<lparr>db_resolutions := db_resolutions db @ map (\<lambda>_. (review, payload)) ?rs\<rparr>"
    from False 2 have "gens_shrink ?db db'" by (auto simp: Let_def split: if_splits)
    moreover have "gens_shrink db ?db" by (simp add: shrink_same)
    ultimately show ?thesis by (rule shrink_trans [rotated])
  qed (use 2 in simp)
qed simp

lemma shrink_committed: "(\<And>db'. res = Inr db' \<Longrightarrow> gens_shrink db db') \<Longrightarrow> gens_shrink db (committed db res)"
  by (cases res) (auto simp: committed_def)

lemma shrink_rows:
  "gens_shrink db (db\<lparr>db_tool_usages := t\<rparr>)" "gens_shrink db (db\<lparr>db_findings := f\<rparr>)"
  "gens_shrink db (db\<lparr>db_resolutions := x\<rparr>)" "gens_shrink db (db\<lparr>db_bug_reviews := b\<rparr>)"
  "gens_shrink db (db\<lparr>db_ai_interactions := a\<rparr>)"
  by (simp_all add: shrink_same)

lemma shrink_write: "plain_write cl w \<Longrightarrow> gens_shrink db (apply_write cl w db)"
proof (cases w)
  case (Finish_patchset pid status reason)
  assume "plain_write cl w"
  with Finish_patchset show ?thesis
    by (auto simp: complete_patchset_review_def Let_def plain_write_def finish_patchset_def split: option.split intro!: shrink_update_patchsets)
next
  case (Take_review pid patch)
  have "gens_shrink db (fst x)" if "claim_or_create_in_review cl pid patch db = Inr x" for x
    using that shrink_claim_pending [of cl pid patch db]
    by (auto simp: claim_or_create_in_review_def split: if_splits sum.splits option.splits intro: shrink_trans [OF _ shrink_insert_review])
  with Take_review show ?thesis by (cases "claim_or_create_in_review cl pid patch db") (simp_all add: committed_def)
next
  case (Take_pending pid patch)
  then show ?thesis
    by (cases "claim_pending_review_id_in_tx cl pid patch db")
      (auto simp: committed_def claim_pending_review_id_def dest!: shrink_claim_pending)
next
  case (Clear_artifacts review)
  then show ?thesis by (simp add: shrink_committed shrink_clear_artifacts)
next
  case (Resolutions review rs)
  have "gens_shrink db db'" if "insert_prior_feedback_resolutions cl review rs db = Inr db'" for db'
    using that by (auto simp: insert_prior_feedback_resolutions_def split: if_splits
        dest!: shrink_resolutions intro: shrink_trans [OF shrink_rows(3)])
  with Resolutions show ?thesis by (simp add: shrink_committed)
next
  case (Settle_panicked pid patch reason)
  have "gens_shrink db (update_patch_status cl patch st (fail_review reason rid db))" for st rid
    unfolding update_patch_status_def by (rule shrink_trans [OF shrink_fail_review shrink_update_patches])
  moreover have "gens_shrink db (update_patch_status cl patch st db)" for st
    unfolding update_patch_status_def by (rule shrink_update_patches)
  ultimately show ?thesis
    using Settle_panicked by (simp add: settle_panicked_patch_review_def Let_def split: option.split)
next
  case (Review_status review status)
  then show ?thesis by (simp add: update_review_status_def shrink_update_reviews)
next
  case (Mark_in_review review)
  then show ?thesis by (simp add: mark_review_in_review_if_active_def Let_def shrink_update_reviews)
next
  case (Finish_review review status result interaction)
  then show ?thesis by (auto simp: complete_review_def Let_def intro!: shrink_committed shrink_update_reviews split: if_splits)
next
  case (New_finding review payload)
  then show ?thesis by (auto simp: create_finding_with_provenance_def Let_def intro!: shrink_committed shrink_rows split: if_splits)
next
  case (Baseline_info pid info)
  then show ?thesis by (auto simp: update_patchset_baseline_info_def intro!: shrink_update_patchsets)
qed (simp_all add: update_patch_status_def update_patch_application_status_def create_tool_usage_def insert_bug_review_def
    update_tool_usage_length_def create_ai_interaction_def fail_orphaned_in_review_rows_def shrink_fail_reviews shrink_update_patches shrink_rows)

lemma shrink_cancel: "gens_shrink db (fst (cancel_patchset pid force db))"
proof -
  have "gens_shrink db (set_active_gen pid None (update_patchsets p (\<lambda>ps. ps\<lparr>ps_status := Some ''Cancelled''\<rparr>) db))" for p
    by (rule shrink_trans [OF shrink_update_patchsets shrink_no_gen]) auto
  then show ?thesis
    unfolding cancel_patchset_def Let_def
    by (simp add: shrink_after)
qed

lemma shrink_forget:
  "gens_shrink db (db\<lparr>db_reviews_max_id := Some (case db_reviews_max_id db of None \<Rightarrow> sql_max_id rv_id (db_reviews db)
       | Some n \<Rightarrow> max n (sql_max_id rv_id (db_reviews db))), db_reviews := rows\<rparr>)"
  by (simp add: gens_shrink_def patchset_has_status_def review_mark_def le_max_iff_disj split: option.split)

lemma shrink_forge: "gens_shrink db (db\<lparr>db_forge_outbox := rows\<rparr>)"
  by (simp add: shrink_same)

lemma shrink_reset: "gens_shrink db (reset_patchset_review_state pid db)"
  unfolding reset_patchset_review_state_def Let_def
  by (rule shrink_trans [OF _ shrink_forget] shrink_trans [OF _ shrink_forge] shrink_trans [OF _ shrink_delete_checks]
      shrink_trans [OF _ shrink_delete_emails] shrink_trans [OF _ shrink_delete_review_rows] shrink_trans [OF _ shrink_update_patches]
      shrink_no_gen)+

lemma shrink_rerun: "gens_shrink db (rerun_patchset pid db)"
proof -
  have 1: "gens_shrink db (update_patchsets p (\<lambda>ps. ps\<lparr>ps_status := Some ''Pending'', ps_failed_reason := None\<rparr>) db)" for p db
    by (rule shrink_update_patchsets) auto
  have 2: "gens_shrink db (update_patchsets p (\<lambda>ps. ps\<lparr>ps_target_review_count := t ps\<rparr>) db)" for p t db
    by (rule shrink_update_patchsets) auto
  show ?thesis
    unfolding rerun_patchset_def Let_def
    by (auto intro: shrink_trans [OF 1 shrink_reset] shrink_trans [OF 1 shrink_trans [OF 2 shrink_reset]])
qed

lemma shrink_restart: "gens_shrink db (fst (reset_reviewing_status db))"
proof -
  let ?p = "\<lambda>ps. status_in (ps_status ps) [''In Review'', ''Reviewing'']"
  have "gens_shrink db (update_patchsets ?p (\<lambda>ps. ps\<lparr>ps_status := Some ''Pending''\<rparr>) db)" (is "gens_shrink db ?db1")
    by (rule shrink_update_patchsets) auto
  also have "gens_shrink ?db1 (?db1\<lparr>db_active_gen := Map.empty\<rparr>)" (is "gens_shrink _ ?db2")
    by (simp add: gens_shrink_def patchset_has_status_def review_mark_def)
  also have "gens_shrink ?db2 (fst (reset_reviewing_status db))"
    unfolding reset_reviewing_status_def Let_def fst_conv by (rule shrink_update_reviews) simp
  finally show ?thesis .
qed

lemma shrink_cancel_review: "gens_shrink db (cancel_review reason review db)"
  unfolding cancel_review_def by (rule shrink_trans [OF shrink_children shrink_update_reviews]) simp

lemma shrink_outside: "outside_change db db' \<Longrightarrow> gens_shrink db db'"
  using review_mark_same [of db' db] by (simp add: outside_change_def gens_shrink_def)

lemma shrink_release: "gens_shrink db (release_patchset_claim cl db)"
  by (auto simp: release_patchset_claim_def split: option.split intro: shrink_intros)

section \<open>Generations are never given out twice\<close>

definition gen_issued :: "int \<Rightarrow> review_db \<Rightarrow> bool" where
  "gen_issued g db \<longleftrightarrow> (case db_gen_seq db of None \<Rightarrow> False | Some n \<Rightarrow> g \<le> n)"

text \<open>A generation that was given out and is not, or no longer, in force.\<close>

definition lapsed :: "patchset_review_claim \<Rightarrow> review_db \<Rightarrow> bool" where
  "lapsed c db \<longleftrightarrow> gen_issued (cl_generation c) db \<and> \<not> claim_current [''In Review''] c db"

lemma lapsed_shrink: "gens_shrink db db' \<Longrightarrow> lapsed c db \<Longrightarrow> lapsed c db'"
  by (auto simp: gens_shrink_def lapsed_def gen_issued_def claim_current_def) (metis option.distinct(1))

text \<open>Handing out a generation puts a new one in the place of any other.\<close>

lemma lapsed_allocate:
  assumes "lapsed c db" and that: "\<And>ps. ps_id (f ps) = ps_id ps"
  shows "lapsed c (fst (allocate_patchset_review_gen pid (update_patchsets (\<lambda>ps. ps_id ps = pid \<and> q ps) f db)))"
proof -
  obtain n where n: "db_gen_seq db = Some n" "cl_generation c \<le> n"
    using assms by (auto simp: lapsed_def gen_issued_def split: option.splits)
  have other: "cl_patchset_id c \<noteq> pid \<Longrightarrow>
      patchset_has_status [''In Review''] (cl_patchset_id c) (update_patchsets (\<lambda>ps. ps_id ps = pid \<and> q ps) f db)
      = patchset_has_status [''In Review''] (cl_patchset_id c) db"
    unfolding patchset_has_status_def update_patchsets_def by (simp, rule list_ex_sql_update) (auto simp: that)
  show ?thesis
    using assms n other
    by (cases "cl_patchset_id c = pid")
      (auto simp: lapsed_def gen_issued_def claim_current_def allocate_patchset_review_gen_def set_active_gen_def update_patchsets_def
        patchset_has_status_def Let_def)
qed

lemma lapsed_step: "review_step db db' \<Longrightarrow> lapsed c db \<Longrightarrow> lapsed c db'"
proof (induction rule: review_step.induct)
  case (claim db pid)
  then show ?case
    using lapsed_allocate [of c db "finish_patchset ''In Review'' None" pid "\<lambda>ps. ps_status ps = Some ''Pending''"]
    by (auto simp: claim_patchset_for_review_with_gen_def Let_def finish_patchset_def split: prod.split)
next
  case (enter db pid)
  then show ?case
    using lapsed_allocate [of c db "\<lambda>ps. ps\<lparr>ps_status := Some ''In Review''\<rparr>" pid "\<lambda>ps. ps_status ps \<noteq> Some ''Cancelled''"]
    by (auto simp: enter_patchset_review_with_gen_def Let_def split: prod.split)
next
  case (cancel_review db review reason)
  then show ?case
    by (auto simp: cancel_aborted_review_def intro: lapsed_shrink [OF shrink_cancel_review])
next
  case (cancel_pending db pid patch reason)
  then show ?case
    by (auto simp: cancel_pending_review_for_patch_def split: option.split intro: lapsed_shrink [OF shrink_cancel_review])
next
  case (create db pid patch)
  then show ?case unfolding create_review_def by (rule lapsed_shrink [OF shrink_insert_review])
qed (blast intro: lapsed_shrink shrink_write shrink_release shrink_cancel shrink_rerun shrink_reset shrink_restart shrink_outside)+


text \<open>A patchset of one patch, waiting to be reviewed, to try the statements on.\<close>

definition example_patchset :: patchset_row where
  "example_patchset = \<lparr>ps_id = 1, ps_status = Some ''Pending'', ps_failed_reason = None, ps_target_review_count = None,
     ps_cover_letter_message_id = None, ps_mr_number = None, ps_mr_url = None, ps_baseline_info = None\<rparr>"

definition example_db :: review_db where
  "example_db = \<lparr>db_patchsets = [example_patchset],
     db_patches = [\<lparr>pa_id = 10, pa_patchset_id = 1, pa_message_id = ''m'', pa_part_index = 1, pa_status = Some ''Pending'', pa_apply_error = None\<rparr>],
     db_reviews = [], db_tool_usages = [], db_findings = [], db_resolutions = [], db_bug_reviews = [], db_ai_interactions = [], db_email_outbox = [],
     db_patchwork_outbox = [], db_forge_outbox = [], db_fetch_queue = [], db_disclosures = [], db_gen_seq = None, db_active_gen = Map.empty,
     db_reviews_max_id = None\<rparr>"

text \<open>Claimed, rerun and claimed again.\<close>

definition example_rerun :: review_db where
  "example_rerun = rerun_patchset 1 (fst (claim_patchset_for_review_with_gen 1 example_db))"

definition example_second :: review_db where
  "example_second = fst (claim_patchset_for_review_with_gen 1 example_rerun)"


section \<open>Ids of reviews are never used twice\<close>

lemma step_cases:
  assumes "review_step db db'"
  shows "gens_shrink db db' \<or> (\<exists>pid q f. db' = fst (allocate_patchset_review_gen pid (update_patchsets q f db)))"
  using assms
proof (induction rule: review_step.induct)
  case (claim db pid)
  show ?case by (simp add: claim_patchset_for_review_with_gen_def Let_def case_prod_beta) blast
next
  case (enter db pid)
  show ?case by (simp add: enter_patchset_review_with_gen_def Let_def case_prod_beta) blast
next
  case (cancel_review db review reason)
  show ?case by (simp add: cancel_aborted_review_def shrink_cancel_review)
next
  case (cancel_pending db pid patch reason)
  show ?case by (simp add: cancel_pending_review_for_patch_def shrink_cancel_review split: option.split)
next
  case (create db pid patch)
  show ?case by (simp add: create_review_def shrink_insert_review)
qed (simp_all add: shrink_write shrink_release shrink_cancel shrink_rerun shrink_reset shrink_restart shrink_outside)

lemma mark_step: "review_step db db' \<Longrightarrow> review_mark db \<le> review_mark db'"
  by (drule step_cases)
    (auto simp: gens_shrink_def allocate_patchset_review_gen_def set_active_gen_def update_patchsets_def review_mark_def Let_def)

lemma mark_run: "review_run db0 db \<Longrightarrow> review_mark db0 \<le> review_mark db"
  by (induction rule: review_run.induct) (auto dest: mark_step)

lemma claim_pending_old:
  "claim_pending_review_id_in_tx cl pid patch db = Inr (db', Some rid) \<Longrightarrow> \<exists>r \<in> set (db_reviews db). rv_id r = rid"
  by (auto simp: claim_pending_review_id_in_tx_def split: option.splits sum.splits dest!: min_by_key_Some)

lemma claim_pending_none: "claim_pending_review_id_in_tx cl pid patch db = Inr (db', None) \<Longrightarrow> db' = db"
  by (auto simp: claim_pending_review_id_in_tx_def split: option.splits sum.splits)

text \<open>
  C34. The id of a review is never given to another one: an id given out for a new row is above the id of every review that was ever in the
  table, also of those that a rerun deleted, so that what still refers to a deleted review by its id cannot reach a later one. Taking up a
  review yields either a row that is in the table or such a new id.
\<close>

theorem review_ids_never_reused:
  assumes "review_run db0 db" and "r \<in> set (db_reviews db0)"
  shows "rv_id r < snd (create_review pid patch db)
    \<and> (\<forall>db' rid. claim_or_create_in_review cl pid patch db = Inr (db', rid) \<longrightarrow> rid \<in> rv_id ` set (db_reviews db) \<or> rv_id r < rid)"
proof -
  have "rv_id r \<le> review_mark db0" using sql_max_id_ge [OF assms(2), of rv_id] by (simp add: review_mark_def)
  then have "rv_id r \<le> review_mark db" using mark_run [OF assms(1)] by (rule order_trans)
  then have above: "rv_id r < next_review_id db" unfolding review_mark_def next_review_id_def by linarith
  then have "rid \<in> rv_id ` set (db_reviews db) \<or> rv_id r < rid" if "claim_or_create_in_review cl pid patch db = Inr (db', rid)" for db' rid
    using that claim_pending_old [of cl pid patch db] claim_pending_none [of cl pid patch db]
    by (fastforce simp: claim_or_create_in_review_def insert_review_def split: if_splits sum.splits option.splits)
  with above show ?thesis by (auto simp: create_review_def insert_review_def)
qed

text \<open>A review is taken up, interrupted and deleted by a rerun; the next one has another id.\<close>

definition example_reviewing :: review_db where
  "example_reviewing = fst (create_review 1 (Some 10) example_db)"

theorem review_ids_never_reused_witness:
  "db_reviews (rerun_patchset 1 (update_review_status None 1 ''Failed'' example_reviewing)) = []
   \<and> 1 < snd (create_review 1 (Some 10) (rerun_patchset 1 (update_review_status None 1 ''Failed'' example_reviewing)))"
proof -
  let ?failed = "apply_write None (Review_status 1 ''Failed'') example_reviewing"
  let ?r = "\<lparr>rv_id = 1, rv_patchset_id = 1, rv_patch_id = Some 10, rv_status = Some ''Pending'', rv_interaction_id = None, rv_result = None\<rparr>"
  have "review_run example_reviewing (rerun_patchset 1 ?failed)"
    by (intro review_run.step [OF review_run.step [OF review_run.start review_step.worker] review_step.rerun])
      (simp add: plain_write_def)
  moreover have "?r \<in> set (db_reviews example_reviewing)" by code_simp
  ultimately have "rv_id ?r < snd (create_review 1 (Some 10) (rerun_patchset 1 ?failed))"
    using review_ids_never_reused by blast
  moreover have "db_reviews (rerun_patchset 1 ?failed) = []" by code_simp
  ultimately show ?thesis by simp
qed

section \<open>A cancelled patchset\<close>

text \<open>
  What the database holds of a patchset: its row, its patches, its reviews and what they produced. Of a tool usage the length
  of the result is left out, which may be filled in at any time.
\<close>

definition rows_of_reviews :: "('r \<Rightarrow> int) \<Rightarrow> int \<Rightarrow> review_db \<Rightarrow> 'r list \<Rightarrow> 'r list" where
  "rows_of_reviews key pid db rows = filter (\<lambda>x. list_ex (\<lambda>r. rv_id r = key x \<and> rv_patchset_id r = pid) (db_reviews db)) rows"

record patchset_rows =
  vw_patchsets :: "patchset_row list"
  vw_patches :: "patch_row list"
  vw_reviews :: "review_row list"
  vw_usages :: "tool_usage_row list"
  vw_findings :: "(int \<times> string) list"
  vw_resolutions :: "(int \<times> string) list"

definition patchset_view :: "int \<Rightarrow> review_db \<Rightarrow> patchset_rows" where
  "patchset_view pid db =
     \<lparr>vw_patchsets = filter (\<lambda>ps. ps_id ps = pid) (db_patchsets db), vw_patches = filter (\<lambda>p. pa_patchset_id p = pid) (db_patches db),
      vw_reviews = filter (\<lambda>r. rv_patchset_id r = pid) (db_reviews db),
      vw_usages = map (\<lambda>u. u\<lparr>tu_output_length := 0\<rparr>) (rows_of_reviews tu_review_id pid db (db_tool_usages db)),
      vw_findings = rows_of_reviews fst pid db (db_findings db), vw_resolutions = rows_of_reviews fst pid db (db_resolutions db)\<rparr>"

definition keys_unique :: "review_db \<Rightarrow> bool" where
  "keys_unique db \<longleftrightarrow> distinct (map ps_id (db_patchsets db)) \<and> distinct (map rv_id (db_reviews db))"

lemma cancelled_status:
  assumes "patchset_cancelled pid db" and "keys_unique db"
  shows "ps \<in> set (db_patchsets db) \<Longrightarrow> ps_id ps = pid \<Longrightarrow> ps_status ps = Some ''Cancelled''"
    and "get_patchset_status pid db = Some ''Cancelled''"
proof -
  obtain ps0 where ps0: "ps0 \<in> set (db_patchsets db)" "ps_id ps0 = pid" "ps_status ps0 = Some ''Cancelled''"
    using assms(1) by (auto simp: patchset_cancelled_def patchset_has_status_def list_ex_iff)
  have one: "ps = ps0" if "ps \<in> set (db_patchsets db)" "ps_id ps = pid" for ps
    using assms(2) that ps0 by (auto simp: keys_unique_def distinct_map inj_on_def)
  then show "ps \<in> set (db_patchsets db) \<Longrightarrow> ps_id ps = pid \<Longrightarrow> ps_status ps = Some ''Cancelled''" using ps0(3) by blast
  show "get_patchset_status pid db = Some ''Cancelled''"
  proof (cases "find (\<lambda>ps. ps_id ps = pid) (db_patchsets db)")
    case None
    then show ?thesis using ps0 by (auto simp: find_None_iff)
  next
    case (Some ps)
    then have "ps \<in> set (db_patchsets db)" "ps_id ps = pid" by (auto simp: find_Some_iff)
    then show ?thesis using one ps0(3) Some by (simp add: get_patchset_status_def)
  qed
qed

lemma cancelled_inactive: "patchset_cancelled pid db \<Longrightarrow> keys_unique db \<Longrightarrow> \<not> is_patchset_claim_active cl pid db"
proof (cases cl)
  case (Some c)
  assume a: "patchset_cancelled pid db" "keys_unique db"
  then have "\<not> patchset_has_status [''In Review''] pid db"
    using cancelled_status(1) [OF a] by (auto simp: patchset_has_status_def list_ex_iff)
  with Some show ?thesis by (auto simp: is_patchset_claim_active_def claim_current_def)
qed (auto simp: is_patchset_claim_active_def dest: cancelled_status(2))

lemma open_elsewhere: "patchset_cancelled pid db \<Longrightarrow> review_open cl db r \<Longrightarrow> rv_patchset_id r \<noteq> pid"
  by (auto simp: review_open_def)

text \<open>What changes rows of other patchsets, in ways that keep their keys, leaves the view of this one.\<close>

lemma view_patches:
  assumes "\<And>p. q p \<Longrightarrow> pa_patchset_id p \<noteq> pid \<and> pa_patchset_id (f p) \<noteq> pid"
  shows "patchset_view pid (update_patches q f db) = patchset_view pid db"
  using assms by (simp add: patchset_view_def rows_of_reviews_def update_patches_def filter_sql_update)

lemma view_patchsets:
  assumes "\<And>ps. ps \<in> set (db_patchsets db) \<Longrightarrow> q ps \<Longrightarrow> ps_id ps \<noteq> pid \<and> ps_id (f ps) \<noteq> pid"
  shows "patchset_view pid (update_patchsets q f db) = patchset_view pid db"
  using assms by (simp add: patchset_view_def rows_of_reviews_def update_patchsets_def filter_sql_update)

lemma view_reviews:
  assumes "\<And>r. r \<in> set (db_reviews db) \<Longrightarrow> q r \<Longrightarrow> rv_patchset_id r \<noteq> pid"
    and "\<And>r. q r \<Longrightarrow> rv_patchset_id (f r) = rv_patchset_id r \<and> rv_id (f r) = rv_id r"
  shows "patchset_view pid (update_reviews q f db) = patchset_view pid db"
proof -
  have "list_ex (\<lambda>r. rv_id r = rid \<and> rv_patchset_id r = pid) (sql_update q f (db_reviews db))
      = list_ex (\<lambda>r. rv_id r = rid \<and> rv_patchset_id r = pid) (db_reviews db)" for rid
    using assms by (intro list_ex_sql_update) auto
  then show ?thesis
    using assms by (simp add: patchset_view_def rows_of_reviews_def update_reviews_def filter_sql_update)
qed

lemma rows_delete_rows:
  assumes "\<And>r. r \<in> set (db_reviews db) \<Longrightarrow> d (rv_id r) \<Longrightarrow> rv_patchset_id r \<noteq> pid"
  shows "rows_of_reviews key pid db (sql_delete (\<lambda>x. d (key x)) rows) = rows_of_reviews key pid db rows"
  using assms unfolding rows_of_reviews_def sql_delete_def filter_filter by (intro filter_cong) (fastforce simp: list_ex_iff)+

lemma view_delete_rows:
  assumes "\<And>r. r \<in> set (db_reviews db) \<Longrightarrow> d (rv_id r) \<Longrightarrow> rv_patchset_id r \<noteq> pid"
  shows "patchset_view pid (delete_review_rows d db) = patchset_view pid db"
proof -
  have "rows_of_reviews fst pid db (sql_delete (\<lambda>x. d (fst x)) rows) = rows_of_reviews fst pid db rows"
    "rows_of_reviews tu_review_id pid db (sql_delete (\<lambda>x. d (tu_review_id x)) us) = rows_of_reviews tu_review_id pid db us"
    for rows :: "(int \<times> string) list" and us :: "tool_usage_row list"
    by (rule rows_delete_rows, fact assms)+
  then show ?thesis by (simp add: patchset_view_def rows_of_reviews_def delete_review_rows_def)
qed

lemma view_children:
  assumes "keys_unique db" and "r \<in> set (db_reviews db)" and "rv_patchset_id r \<noteq> pid"
  shows "patchset_view pid (delete_aborted_review_children (rv_id r) db) = patchset_view pid db"
proof -
  have "patchset_view pid (delete_aborted_review_children (rv_id r) db) = patchset_view pid (delete_review_rows (\<lambda>rid. rid = rv_id r) db)"
    by (simp add: delete_aborted_review_children_def Let_def delete_emails_def delete_checks_def patchset_view_def rows_of_reviews_def)
  also have "\<dots> = patchset_view pid db"
    using assms by (intro view_delete_rows) (auto simp: keys_unique_def distinct_map dest: inj_onD)
  finally show ?thesis .
qed

lemma view_fail_review:
  assumes "keys_unique db" and "r \<in> set (db_reviews db)" and "rv_patchset_id r \<noteq> pid"
  shows "patchset_view pid (fail_review reason (rv_id r) db) = patchset_view pid db"
proof -
  have "db_reviews (delete_aborted_review_children review db) = db_reviews db" for review
    by (simp add: delete_aborted_review_children_def Let_def delete_emails_def delete_checks_def delete_review_rows_def)
  then have "patchset_view pid (fail_review reason (rv_id r) db) = patchset_view pid (delete_aborted_review_children (rv_id r) db)"
    unfolding fail_review_def using assms by (intro view_reviews) (auto simp: keys_unique_def distinct_map dest: inj_onD)
  then show ?thesis using view_children [OF assms] by simp
qed

definition review_keys :: "review_db \<Rightarrow> (int \<times> int) list" where
  "review_keys db = map (\<lambda>r. (rv_id r, rv_patchset_id r)) (db_reviews db)"

lemma fail_review_keys:
  "review_keys (fail_review reason rid db) = review_keys db"
  "db_patchsets (fail_review reason rid db) = db_patchsets db"
  by (simp_all add: fail_review_def update_reviews_def delete_aborted_review_children_def Let_def delete_emails_def delete_checks_def
      delete_review_rows_def map_sql_update review_keys_def)

lemma keys_unique_review_keys: "keys_unique db \<longleftrightarrow> distinct (map ps_id (db_patchsets db)) \<and> distinct (map fst (review_keys db))"
  by (simp add: keys_unique_def review_keys_def o_def)

lemma view_fail_reviews:
  assumes "keys_unique db" and "\<forall>rid \<in> set rids. \<exists>other. other \<noteq> pid \<and> (rid, other) \<in> set (review_keys db)"
  shows "patchset_view pid (fold (fail_review reason) rids db) = patchset_view pid db"
  using assms
proof (induction rids arbitrary: db)
  case (Cons rid rids)
  then obtain r where r: "r \<in> set (db_reviews db)" "rv_id r = rid" "rv_patchset_id r \<noteq> pid" by (auto simp: review_keys_def)
  have "patchset_view pid (fold (fail_review reason) rids (fail_review reason rid db)) = patchset_view pid (fail_review reason rid db)"
    using Cons by (simp add: keys_unique_review_keys fail_review_keys)
  also have "\<dots> = patchset_view pid db" using view_fail_review [OF Cons.prems(1) r(1,3)] r(2) by simp
  finally show ?case by simp
qed simp

lemma view_insert_review: "other \<noteq> pid \<Longrightarrow>
   patchset_view pid (fst (insert_review other patch st db)) = patchset_view pid db"
  by (simp add: patchset_view_def rows_of_reviews_def insert_review_def)

lemma view_append_rows:
  assumes "\<forall>r \<in> set rs. rv_id r = key x \<and> rv_patchset_id r \<noteq> pid" and "set rs \<subseteq> set (db_reviews db)" and "keys_unique db"
  shows "rows_of_reviews key pid db (rows @ map (\<lambda>_. x) rs) = rows_of_reviews key pid db rows"
proof -
  have "a = r" if "a \<in> set (db_reviews db)" "r \<in> set (db_reviews db)" "rv_id a = rv_id r" for a r
    using assms(3) that by (auto simp: keys_unique_def distinct_map dest: inj_onD)
  then have "rs = [] \<or> \<not> list_ex (\<lambda>r. rv_id r = key x \<and> rv_patchset_id r = pid) (db_reviews db)"
    using assms(1,2) by (cases rs) (fastforce simp: list_ex_iff)+
  then show ?thesis by (auto simp: rows_of_reviews_def filter_empty_conv)
qed

lemma view_admitting:
  assumes "\<And>r. q r \<Longrightarrow> rv_patchset_id r \<noteq> pid" and "keys_unique db"
  shows "rows_of_reviews key pid db (rows @ map (\<lambda>_. x) (admitting_reviews q (key x) db)) = rows_of_reviews key pid db rows"
  by (rule view_append_rows) (use assms in \<open>auto simp: admitting_reviews_def\<close>)

lemma view_admitting_fst:
  fixes rows :: "(int \<times> string) list"
  assumes "patchset_cancelled pid db" and "keys_unique db"
  shows "rows_of_reviews fst pid db (rows @ map (\<lambda>_. (review, payload)) (admitting_reviews (review_open cl db) review db))
    = rows_of_reviews fst pid db rows"
  using view_admitting [where key = fst and x = "(review, payload)", OF open_elsewhere [OF assms(1)] assms(2)] by simp

lemma update_last_filter:
  assumes "\<And>r. g (f r) = g r" and "\<And>r. q (f r) = q r"
  shows "map g (filter q (sql_update_last p f rows)) = map g (filter q rows)"
  using assms by (induction rows) auto

lemma view_usage_length: "patchset_view pid (update_tool_usage_length review tool args len db) = patchset_view pid db"
  by (simp add: patchset_view_def rows_of_reviews_def update_tool_usage_length_def update_last_filter)

lemma view_resolutions:
  assumes "insert_resolutions cl review rs db = Inr db'" and "keys_unique db" and "patchset_cancelled pid db"
  shows "patchset_view pid db' = patchset_view pid db"
  using assms
proof (induction cl review rs db rule: insert_resolutions.induct)
  case (2 cl review prior_id payload resolutions db)
  let ?rs = "admitting_reviews (review_open cl db) review db"
  let ?db = "db\<lparr>db_resolutions := db_resolutions db @ map (\<lambda>_. (review, payload)) ?rs\<rparr>"
  show ?case
  proof (cases "trim prior_id = []")
    case False
    have "patchset_view pid db' = patchset_view pid ?db"
      using False 2 by (auto simp: Let_def keys_unique_def patchset_cancelled_def patchset_has_status_def split: if_splits)
    moreover have "rows_of_reviews fst pid db (db_resolutions ?db) = rows_of_reviews fst pid db (db_resolutions db)"
      using view_admitting_fst [OF 2(5,4)] by simp
    ultimately show ?thesis by (simp add: patchset_view_def rows_of_reviews_def)
  qed (use 2 in simp)
qed simp

lemma view_clear:
  assumes "clear_aborted_review_artifacts cl review db = Inr db'" and "keys_unique db" and "patchset_cancelled pid db"
  shows "patchset_view pid db' = patchset_view pid db"
proof -
  let ?p = "\<lambda>r. rv_id r = review \<and> review_open cl db r"
  let ?db = "update_reviews ?p (\<lambda>r. r\<lparr>rv_status := Some ''In Review'', rv_interaction_id := None\<rparr>) db"
  obtain r where r: "r \<in> set (db_reviews db)" "rv_id r = review" "review_open cl db r" and db': "db' = delete_aborted_review_children review ?db"
    using assms(1) by (auto simp: clear_aborted_review_artifacts_def Let_def list_ex_iff split: if_splits)
  have keys: "review_keys ?db = review_keys db" by (simp add: review_keys_def update_reviews_def map_sql_update)
  let ?r = "r\<lparr>rv_status := Some ''In Review'', rv_interaction_id := None\<rparr>"
  have r': "?r \<in> set (db_reviews ?db)" "rv_id ?r = review" "rv_patchset_id ?r \<noteq> pid"
    using r open_elsewhere [OF assms(3) r(3)] by (auto simp: update_reviews_def set_sql_update intro!: bexI [of _ r])
  have "keys_unique ?db" using assms(2) keys by (simp add: keys_unique_review_keys update_reviews_def)
  from view_children [OF this r'(1,3)] r'(2) have "patchset_view pid db' = patchset_view pid ?db" by (simp add: db')
  also have "\<dots> = patchset_view pid db" using open_elsewhere [OF assms(3)] by (intro view_reviews) auto
  finally show ?thesis .
qed

lemma view_claim_pending:
  assumes "claim_pending_review_id_in_tx cl other patch db = Inr (db', res)" and "keys_unique db" and "patchset_cancelled pid db"
  shows "patchset_view pid db' = patchset_view pid db"
proof (cases res)
  case (Some rid)
  then obtain r where r: "r \<in> set (db_reviews db)" "rv_id r = rid" "rv_patchset_id r = other" "\<not> patchset_cancelled other db"
    and c: "clear_aborted_review_artifacts cl rid
        (update_reviews (\<lambda>r. rv_id r = rid) (\<lambda>r. r\<lparr>rv_status := Some ''In Review'', rv_interaction_id := None\<rparr>) db) = Inr db'"
    using assms(1) by (auto simp: claim_pending_review_id_in_tx_def split: option.splits sum.splits dest!: min_by_key_Some)
  let ?db = "update_reviews (\<lambda>r. rv_id r = rid) (\<lambda>r. r\<lparr>rv_status := Some ''In Review'', rv_interaction_id := None\<rparr>) db"
  have "keys_unique ?db" using assms(2) by (simp add: keys_unique_def update_reviews_def map_sql_update)
  moreover have "patchset_cancelled pid ?db" using assms(3) by (simp add: patchset_cancelled_def patchset_has_status_def update_reviews_def)
  ultimately have "patchset_view pid db' = patchset_view pid ?db" using view_clear [OF c] by blast
  moreover have "patchset_view pid ?db = patchset_view pid db"
    using assms(2,3) r by (intro view_reviews) (auto simp: keys_unique_def distinct_map dest: inj_onD)
  ultimately show ?thesis by simp
qed (use assms(1) claim_pending_none in blast)

lemma view_orphaned:
  "keys_unique db \<Longrightarrow> patchset_cancelled pid db \<Longrightarrow> patchset_view pid (fail_orphaned_in_review_rows cl other reason db) = patchset_view pid db"
proof (cases "is_patchset_claim_active cl other db")
  case True
  assume a: "keys_unique db" "patchset_cancelled pid db"
  with True have "other \<noteq> pid" using cancelled_inactive by blast
  then show ?thesis
    unfolding fail_orphaned_in_review_rows_def using True
    by (simp, intro view_fail_reviews [OF a(1)]) (auto simp: review_keys_def)
qed (simp add: fail_orphaned_in_review_rows_def)

lemma view_patch_status:
  "patchset_cancelled pid db \<Longrightarrow> status \<noteq> ''Cancelled'' \<Longrightarrow> patchset_view pid (update_patch_status cl patch status db) = patchset_view pid db"
  unfolding update_patch_status_def by (rule view_patches) auto

lemma sql_latest_in: "sql_latest key rows = Some r \<Longrightarrow> r \<in> set rows"
  by (induction rows arbitrary: r) (auto split: option.splits if_splits)

lemma view_settle:
  "keys_unique db \<Longrightarrow> patchset_cancelled pid db \<Longrightarrow>
     patchset_view pid (fst (settle_panicked_patch_review cl other patch reason db)) = patchset_view pid db"
proof (cases "is_patchset_claim_active cl other db")
  case True
  assume a: "keys_unique db" "patchset_cancelled pid db"
  with True have o: "other \<noteq> pid" using cancelled_inactive by blast
  have c: "patchset_cancelled pid (fail_review reason rid db)" for rid
    using a(2) by (simp add: patchset_cancelled_def patchset_has_status_def fail_review_keys)
  have "patchset_view pid (fail_review reason (rv_id r) db) = patchset_view pid db"
    if "sql_latest rv_id (filter (\<lambda>r. rv_patchset_id r = other \<and> rv_patch_id r = Some patch) (db_reviews db)) = Some r" for r
    using sql_latest_in [OF that] o by (auto intro: view_fail_review [OF a(1)])
  then show ?thesis
    using True a(2) c by (auto simp: settle_panicked_patch_review_def Let_def view_patch_status split: option.split)
qed (simp add: settle_panicked_patch_review_def)

lemma cancelled_view:
  assumes "patchset_cancelled pid db" and "keys_unique db" and "\<not> writes_cancelled w"
  shows "patchset_view pid (apply_write cl w db) = patchset_view pid db"
proof (cases w)
  case (Finish_patchset other status reason)
  have "other = pid \<Longrightarrow> ps \<in> set (db_patchsets db) \<Longrightarrow> ps_id ps = other \<Longrightarrow> ps_status ps = Some ''Cancelled''" for ps
    using cancelled_status(1) [OF assms(1,2)] by blast
  then show ?thesis
    using Finish_patchset assms(3)
    by (auto simp: complete_patchset_review_def Let_def finish_patchset_def split: option.split intro!: view_patchsets)
next
  case (Take_review other patch)
  show ?thesis
  proof (cases "is_patchset_claim_active cl other db")
    case True
    then have "other \<noteq> pid" using cancelled_inactive [OF assms(1,2)] by blast
    then show ?thesis
      using Take_review True view_claim_pending [OF _ assms(2,1)] view_insert_review [of other pid]
      by (cases "claim_pending_review_id_in_tx cl other patch db")
        (auto simp: claim_or_create_in_review_def committed_def split: option.split)
  qed (simp add: Take_review claim_or_create_in_review_def committed_def)
next
  case (Take_pending other patch)
  then show ?thesis
    using view_claim_pending [OF _ assms(2,1)]
    by (cases "claim_pending_review_id_in_tx cl other patch db") (auto simp: claim_pending_review_id_def committed_def)
next
  case (Clear_artifacts review)
  then show ?thesis
    using view_clear [OF _ assms(2,1)]
    by (cases "clear_aborted_review_artifacts cl review db") (auto simp: committed_def)
next
  case (Resolutions review rs)
  let ?db = "db\<lparr>db_resolutions := sql_delete (\<lambda>r. fst r = review) (db_resolutions db)\<rparr>"
  have "patchset_view pid ?db = patchset_view pid db" if ne: "admitting_reviews (review_open cl db) review db \<noteq> []"
  proof -
    obtain x where x: "x \<in> set (db_reviews db)" "review_open cl db x" "rv_id x = review"
      using hd_in_set [OF ne] by (auto simp: admitting_reviews_def)
    have "\<not> list_ex (\<lambda>r. rv_id r = review \<and> rv_patchset_id r = pid) (db_reviews db)"
      using x open_elsewhere [OF assms(1) x(2)] assms(2) by (auto simp: list_ex_iff keys_unique_def distinct_map dest: inj_onD)
    then show ?thesis
      by (auto simp: patchset_view_def rows_of_reviews_def sql_delete_def filter_filter intro!: filter_cong)
  qed
  moreover have "insert_resolutions cl review rs ?db = Inr db' \<Longrightarrow> patchset_view pid db' = patchset_view pid ?db" for db'
    using view_resolutions [of cl review rs ?db db' pid] assms(1,2) by (simp add: keys_unique_def patchset_cancelled_def patchset_has_status_def)
  ultimately show ?thesis
    using Resolutions view_resolutions [OF _ assms(2,1)]
    by (auto simp: committed_def insert_prior_feedback_resolutions_def split: sum.splits)
next
  case (Tool_usage usage)
  then show ?thesis
    using view_admitting [OF open_elsewhere [OF assms(1)] assms(2), where key = tu_review_id]
    by (simp add: create_tool_usage_def patchset_view_def rows_of_reviews_def)
next
  case (Usage_length review tool args len)
  then show ?thesis by (simp add: view_usage_length)
next
  case (Ai_interaction i payload)
  then show ?thesis by (simp add: create_ai_interaction_def patchset_view_def rows_of_reviews_def)
next
  case (Baseline_info other info)
  then show ?thesis
    using cancelled_status(1) [OF assms(1,2)] by (auto simp: update_patchset_baseline_info_def intro!: view_patchsets)
next
  case (New_finding review payload)
  then show ?thesis
    using view_admitting_fst [OF assms(1,2)]
    by (simp add: create_finding_with_provenance_def committed_def patchset_view_def rows_of_reviews_def Let_def)
next
  case (Link_bug review bug newly)
  then show ?thesis by (simp add: insert_bug_review_def patchset_view_def rows_of_reviews_def)
next
  case (Patch_application other part status err)
  then show ?thesis using assms(1) by (auto simp: update_patch_application_status_def intro!: view_patches)
next
  case (Review_status review status)
  then show ?thesis
    using assms(3) open_elsewhere [OF assms(1)] by (auto simp: update_review_status_def review_writable_def intro!: view_reviews)
next
  case (Mark_in_review review)
  then show ?thesis
    using open_elsewhere [OF assms(1)] by (auto simp: mark_review_in_review_if_active_def Let_def intro!: view_reviews)
next
  case (Finish_review review status result interaction)
  then show ?thesis
    using assms(3) open_elsewhere [OF assms(1)]
    by (auto simp: complete_review_def review_writable_def committed_def Let_def intro!: view_reviews)
next
  case (Patch_status patch status)
  then show ?thesis using assms(1,3) by (simp add: view_patch_status)
next
  case (Fail_orphaned other reason)
  then show ?thesis using assms(1,2) by (simp add: view_orphaned)
next
  case (Settle_panicked other patch reason)
  then show ?thesis using assms(1,2) by (simp add: view_settle)
qed

text \<open>A write neither changes the key of a patchset or of a review nor uses one twice.\<close>

definition ids_kept :: "review_db \<Rightarrow> review_db \<Rightarrow> bool" where
  "ids_kept db db' \<longleftrightarrow> map ps_id (db_patchsets db') = map ps_id (db_patchsets db) \<and> map rv_id (db_reviews db') = map rv_id (db_reviews db)"

lemma ids_kept_refl [simp]: "ids_kept db db"
  by (simp add: ids_kept_def)

lemma ids_kept_trans: "ids_kept a b \<Longrightarrow> ids_kept b c \<Longrightarrow> ids_kept a c"
  by (simp add: ids_kept_def)

lemma ids_kept_children: "ids_kept db (delete_aborted_review_children review db)"
  by (simp add: ids_kept_def delete_aborted_review_children_def Let_def delete_emails_def delete_checks_def delete_review_rows_def)

lemma ids_kept_fail: "ids_kept db (fail_review reason review db)"
  unfolding fail_review_def by (rule ids_kept_trans [OF ids_kept_children]) (simp add: ids_kept_def update_reviews_def map_sql_update)

lemma ids_kept_fails: "ids_kept db (fold (fail_review reason) rids db)"
  by (induction rids arbitrary: db) (auto intro: ids_kept_trans [OF ids_kept_fail])

lemma ids_kept_clear: "clear_aborted_review_artifacts cl review db = Inr db' \<Longrightarrow> ids_kept db db'"
  by (auto simp: clear_aborted_review_artifacts_def Let_def ids_kept_def update_reviews_def map_sql_update split: if_splits
      intro!: ids_kept_trans [OF _ ids_kept_children, unfolded ids_kept_def])

lemma ids_kept_pending:
  assumes "claim_pending_review_id_in_tx cl pid patch db = Inr (db', r)"
  shows "ids_kept db db'"
proof (cases r)
  case (Some rid)
  then have c: "clear_aborted_review_artifacts cl rid
      (update_reviews (\<lambda>r. rv_id r = rid) (\<lambda>r. r\<lparr>rv_status := Some ''In Review'', rv_interaction_id := None\<rparr>) db) = Inr db'"
    using assms by (auto simp: claim_pending_review_id_in_tx_def split: option.splits sum.splits)
  show ?thesis
    by (rule ids_kept_trans [OF _ ids_kept_clear [OF c]]) (simp add: ids_kept_def update_reviews_def map_sql_update)
qed (use assms claim_pending_none in fastforce)

lemma ids_kept_resolutions: "insert_resolutions cl review rs db = Inr db' \<Longrightarrow> ids_kept db db'"
proof (induction cl review rs db rule: insert_resolutions.induct)
  case (2 cl review prior_id payload resolutions db)
  then show ?case by (cases "trim prior_id = []") (auto simp: Let_def ids_kept_def split: if_splits)
qed simp

lemma keys_same: "ids_kept db db' \<Longrightarrow> keys_unique db \<Longrightarrow> keys_unique db'"
  by (simp add: ids_kept_def keys_unique_def)

lemma keys_insert: "keys_unique db \<Longrightarrow> keys_unique (fst (insert_review pid patch st db))"
proof -
  assume "keys_unique db"
  moreover have "next_review_id db \<notin> rv_id ` set (db_reviews db)"
    using sql_max_id_ge [of _ "db_reviews db" rv_id] by (force simp: next_review_id_def)
  ultimately show ?thesis by (auto simp: keys_unique_def insert_review_def)
qed

lemma ids_committed: "(\<And>db'. res = Inr db' \<Longrightarrow> ids_kept db db') \<Longrightarrow> ids_kept db (committed db res)"
  by (cases res) (auto simp: committed_def)

lemma keys_write: "keys_unique db \<Longrightarrow> keys_unique (apply_write cl w db)"
proof (cases "\<exists>pid patch. w = Take_review pid patch")
  case True
  then obtain pid patch where w: "w = Take_review pid patch" by blast
  assume k: "keys_unique db"
  have "keys_unique (fst x)" if "claim_or_create_in_review cl pid patch db = Inr x" for x
    using that k claim_pending_none [of cl pid patch db] ids_kept_pending [of cl pid patch db]
    by (fastforce simp: claim_or_create_in_review_def split: if_splits sum.splits option.splits intro: keys_same keys_insert)
  with w k show ?thesis by (cases "claim_or_create_in_review cl pid patch db") (simp_all add: committed_def)
next
  case False
  have settle: "ids_kept db (update_patch_status cl patch st (fail_review reason rid db))" for patch st reason rid
    by (rule ids_kept_trans [OF ids_kept_fail]) (simp add: update_patch_status_def update_patches_def ids_kept_def)
  have "ids_kept db (apply_write cl w db)"
  proof (cases w)
    case (Take_pending pid patch)
    then show ?thesis
      by (cases "claim_pending_review_id_in_tx cl pid patch db")
        (auto simp: committed_def claim_pending_review_id_def dest: ids_kept_pending)
  next
    case (Clear_artifacts review)
    then show ?thesis by (simp add: ids_committed ids_kept_clear)
  next
    case (Resolutions review rs)
    have "ids_kept db db'" if "insert_prior_feedback_resolutions cl review rs db = Inr db'" for db'
      using that by (auto simp: insert_prior_feedback_resolutions_def ids_kept_def split: if_splits
          dest!: ids_kept_resolutions)
    with Resolutions show ?thesis by (simp add: ids_committed)
  next
    case (Settle_panicked pid patch reason)
    with settle show ?thesis
      by (simp add: settle_panicked_patch_review_def Let_def update_patch_status_def update_patches_def ids_kept_def
          split: option.split)
  next
    case (Finish_patchset pid status reason)
    then show ?thesis
      by (auto simp: complete_patchset_review_def Let_def finish_patchset_def update_patchsets_def ids_kept_def map_sql_update split: option.split)
  next
    case (Finish_review review status result interaction)
    then show ?thesis
      by (auto simp: complete_review_def Let_def committed_def update_reviews_def ids_kept_def map_sql_update)
  next
    case (New_finding review payload)
    then show ?thesis by (auto simp: create_finding_with_provenance_def Let_def committed_def ids_kept_def)
  next
    case (Fail_orphaned pid reason)
    then show ?thesis by (simp add: fail_orphaned_in_review_rows_def ids_kept_fails)
  qed (use False in \<open>auto simp: update_patch_status_def update_patch_application_status_def create_tool_usage_def insert_bug_review_def
        update_tool_usage_length_def create_ai_interaction_def update_patchset_baseline_info_def
        update_review_status_def mark_review_in_review_if_active_def Let_def update_patchsets_def update_patches_def update_reviews_def
        ids_kept_def map_sql_update\<close>)
  then show "keys_unique db \<Longrightarrow> keys_unique (apply_write cl w db)" by (rule keys_same)
qed

text \<open>
  What may become of the rows of a cancelled patchset: more of them say so, and nothing else changes.
\<close>

definition view_kept :: "patchset_rows \<Rightarrow> patchset_rows \<Rightarrow> bool" where
  "view_kept v v' \<longleftrightarrow>
     list_all2 (\<lambda>ps ps'. ps' = ps \<or> (\<exists>reason. ps' = finish_patchset ''Cancelled'' reason ps)) (vw_patchsets v) (vw_patchsets v')
     \<and> list_all2 (\<lambda>p p'. p' = p \<or> p' = p\<lparr>pa_status := Some ''Cancelled''\<rparr>
          \<and> \<not> status_in (pa_status p) [''Reviewed'', ''Skipped'', ''Failed'']) (vw_patches v) (vw_patches v')
     \<and> list_all2 (\<lambda>r r'. r' = r \<or> rv_status r' = Some ''Cancelled'' \<and> rv_id r' = rv_id r
          \<and> rv_patchset_id r' = rv_patchset_id r \<and> rv_patch_id r' = rv_patch_id r) (vw_reviews v) (vw_reviews v')
     \<and> vw_usages v' = vw_usages v \<and> vw_findings v' = vw_findings v \<and> vw_resolutions v' = vw_resolutions v"

lemma view_kept_refl [simp]: "view_kept v v"
  by (simp add: view_kept_def list.rel_refl)

lemma view_kept_trans: "view_kept a b \<Longrightarrow> view_kept b c \<Longrightarrow> view_kept a c"
  unfolding view_kept_def
  by (intro conjI; elim conjE; (erule (1) list_all2_trans [rotated])?) (auto simp: finish_patchset_def status_in_def)

lemma list_all2_filter:
  "list_all2 P xs ys \<Longrightarrow> (\<And>x y. P x y \<Longrightarrow> q y = q x) \<Longrightarrow> (\<And>x y. P x y \<Longrightarrow> R x y) \<Longrightarrow> list_all2 R (filter q xs) (filter q ys)"
  by (induction rule: list_all2_induct) auto

lemma list_ex_rel: "list_all2 P xs ys \<Longrightarrow> (\<And>x y. P x y \<Longrightarrow> q y = q x) \<Longrightarrow> list_ex q ys = list_ex q xs"
  by (induction rule: list_all2_induct) auto

lemma list_all2_partner: "list_all2 P xs ys \<Longrightarrow> x \<in> set xs \<Longrightarrow> \<exists>y \<in> set ys. P x y"
  by (induction rule: list_all2_induct) auto

lemma only_cancels_view:
  assumes "only_cancels w db db'"
  shows "view_kept (patchset_view pid db) (patchset_view pid db')"
proof -
  note oc = assms [unfolded only_cancels_def]
  have "rows_of_reviews key pid db' rows = rows_of_reviews key pid db rows" for key :: "tool_usage_row \<Rightarrow> int" and rows
    using oc by (auto simp: rows_of_reviews_def intro!: filter_cong list_ex_rel)
  moreover have "rows_of_reviews key pid db' rows = rows_of_reviews key pid db rows" for key :: "int \<times> string \<Rightarrow> int" and rows
    using oc by (auto simp: rows_of_reviews_def intro!: filter_cong list_ex_rel)
  moreover have "db_tool_usages db' = db_tool_usages db" "db_findings db' = db_findings db" "db_resolutions db' = db_resolutions db"
    using arg_cong [OF conjunct1 [OF oc], of db_tool_usages] arg_cong [OF conjunct1 [OF oc], of db_findings]
      arg_cong [OF conjunct1 [OF oc], of db_resolutions] by simp_all
  ultimately show ?thesis
    using oc unfolding view_kept_def patchset_view_def patchset_rows.simps
    by (intro conjI) (auto simp: finish_patchset_def elim!: list_all2_filter)
qed

lemma kept_cancelled:
  assumes "view_kept (patchset_view pid db) (patchset_view pid db')" and "patchset_cancelled pid db"
  shows "patchset_cancelled pid db'"
proof -
  obtain ps where "ps \<in> set (vw_patchsets (patchset_view pid db))" "ps_status ps = Some ''Cancelled''"
    using assms(2) by (auto simp: patchset_cancelled_def patchset_has_status_def list_ex_iff patchset_view_def)
  then obtain ps' where "ps' \<in> set (vw_patchsets (patchset_view pid db'))" "ps_status ps' = Some ''Cancelled''"
    using assms(1) unfolding view_kept_def by (fastforce simp: finish_patchset_def dest: list_all2_partner)
  then show ?thesis by (auto simp: patchset_cancelled_def patchset_has_status_def list_ex_iff patchset_view_def)
qed

definition apply_writes :: "(patchset_review_claim option \<times> worker_write) list \<Rightarrow> review_db \<Rightarrow> review_db" where
  "apply_writes ws db = fold (\<lambda>(cl, w). apply_write cl w) ws db"

lemma cancelled_writes_view:
  assumes "patchset_cancelled pid db" and "keys_unique db"
  shows "patchset_cancelled pid (apply_writes ws db) \<and> view_kept (patchset_view pid db) (patchset_view pid (apply_writes ws db))
    \<and> (list_ex (\<lambda>(cl, w). writes_cancelled w) ws \<or> patchset_view pid (apply_writes ws db) = patchset_view pid db)"
  using assms
proof (induction ws arbitrary: db)
  case (Cons x ws)
  obtain cl w where x: "x = (cl, w)" by fastforce
  let ?db = "apply_write cl w db"
  have step: "view_kept (patchset_view pid db) (patchset_view pid ?db)"
    using only_cancels_view [OF cancelled_writes] cancelled_view [OF Cons.prems] by (cases "writes_cancelled w") simp_all
  note IH = Cons.IH [OF kept_cancelled [OF step Cons.prems(1)] keys_write [OF Cons.prems(2)]]
  then show ?case
    using view_kept_trans [OF step] cancelled_view [OF Cons.prems, of w cl] by (auto simp: x apply_writes_def)
qed (simp add: apply_writes_def)

text \<open>
  No work is left on a patchset: no review of it waits or runs; each of its patches has ended, or was applied and has a completed
  review; no mail or check of a patch and no comment on its request waits to be sent; no request to fetch its article waits or runs, unless
  another patchset that is not cancelled needs it too.
\<close>

definition nothing_waits :: "int \<Rightarrow> review_db \<Rightarrow> bool" where
  "nothing_waits pid db \<longleftrightarrow>
     (\<forall>r \<in> set (db_reviews db). \<not> unfinished_review pid r)
     \<and> (\<forall>p \<in> set (db_patches db). pa_patchset_id p = pid \<longrightarrow>
          pa_status p \<noteq> None \<and> \<not> status_in (pa_status p) [''Pending'', ''In Review'', ''Reviewing'']
          \<and> (pa_status p = Some ''applied'' \<longrightarrow> reviewed_in pid db (pa_id p))
          \<and> (\<forall>e \<in> set (db_email_outbox db). em_patch_id e = Some (pa_id p) \<longrightarrow> \<not> status_in (em_status e) [''Pending'', ''Embargoed''])
          \<and> (\<forall>w \<in> set (db_patchwork_outbox db). pw_patch_msg_id w = pa_message_id p \<longrightarrow> pw_status w \<noteq> Some ''Pending''))
     \<and> (\<forall>f \<in> set (db_forge_outbox db). fo_patchset_id f = pid \<longrightarrow> \<not> status_in (Some (fo_status f)) [''Pending'', ''Embargoed''])
     \<and> (\<forall>q \<in> set (db_fetch_queue db). \<forall>ps \<in> set (db_patchsets db). ps_id ps = pid \<longrightarrow> covers_article ps (fq_article_id q) \<longrightarrow>
          status_in (Some (fq_status q)) [''Pending'', ''Fetching''] \<longrightarrow>
          (\<exists>other \<in> set (db_patchsets db). ps_id other \<noteq> pid \<and> ps_status other \<noteq> Some ''Cancelled'' \<and> covers_article other (fq_article_id q)))"

text \<open>What the four updates of \<open>cancel_outbox_for_patchset\<close> leave, each as seen on one row.\<close>

lemma updated_row: "x \<in> set (sql_update p f rows) \<Longrightarrow> (\<And>r. p r \<Longrightarrow> \<not> p (f r)) \<Longrightarrow> \<not> p x"
  by (metis set_sql_update)

lemma cancel_outbox_spec:
  assumes "db' = cancel_outbox_for_patchset pid reason db"
  shows "db_patchsets db' = db_patchsets db" "db_patches db' = db_patches db" "db_reviews db' = db_reviews db"
    and "e \<in> set (db_email_outbox db') \<Longrightarrow> p \<in> set (db_patches db) \<Longrightarrow> pa_patchset_id p = pid \<Longrightarrow> em_patch_id e = Some (pa_id p) \<Longrightarrow>
      \<not> status_in (em_status e) [''Pending'', ''Embargoed'']"
    and "w \<in> set (db_patchwork_outbox db') \<Longrightarrow> p \<in> set (db_patches db) \<Longrightarrow> pa_patchset_id p = pid \<Longrightarrow>
      pw_patch_msg_id w = pa_message_id p \<Longrightarrow> pw_status w \<noteq> Some ''Pending''"
    and "f \<in> set (db_forge_outbox db') \<Longrightarrow> fo_patchset_id f = pid \<Longrightarrow> \<not> status_in (Some (fo_status f)) [''Pending'', ''Embargoed'']"
    and "q \<in> set (db_fetch_queue db') \<Longrightarrow> ps \<in> set (db_patchsets db) \<Longrightarrow> ps_id ps = pid \<Longrightarrow> covers_article ps (fq_article_id q) \<Longrightarrow>
      status_in (Some (fq_status q)) [''Pending'', ''Fetching''] \<Longrightarrow>
      \<exists>other \<in> set (db_patchsets db). ps_id other \<noteq> pid \<and> ps_status other \<noteq> Some ''Cancelled'' \<and> covers_article other (fq_article_id q)"
proof -
  show "db_patchsets db' = db_patchsets db" "db_patches db' = db_patches db" "db_reviews db' = db_reviews db"
    by (simp_all add: assms cancel_outbox_for_patchset_def Let_def)
  note outs = assms [unfolded cancel_outbox_for_patchset_def Let_def]
  show "\<not> status_in (em_status e) [''Pending'', ''Embargoed'']"
    if "e \<in> set (db_email_outbox db')" "p \<in> set (db_patches db)" "pa_patchset_id p = pid" "em_patch_id e = Some (pa_id p)"
    using that unfolding outs by (auto dest!: updated_row simp: list_ex_iff status_in_def)
  show "pw_status w \<noteq> Some ''Pending''"
    if "w \<in> set (db_patchwork_outbox db')" "p \<in> set (db_patches db)" "pa_patchset_id p = pid" "pw_patch_msg_id w = pa_message_id p"
    using that unfolding outs by (auto dest!: updated_row simp: list_ex_iff)
  show "\<not> status_in (Some (fo_status f)) [''Pending'', ''Embargoed'']" if "f \<in> set (db_forge_outbox db')" "fo_patchset_id f = pid"
    using that unfolding outs by (auto dest!: updated_row simp: status_in_def)
  show "\<exists>other \<in> set (db_patchsets db). ps_id other \<noteq> pid \<and> ps_status other \<noteq> Some ''Cancelled'' \<and> covers_article other (fq_article_id q)"
    if "q \<in> set (db_fetch_queue db')" "ps \<in> set (db_patchsets db)" "ps_id ps = pid" "covers_article ps (fq_article_id q)"
      "status_in (Some (fq_status q)) [''Pending'', ''Fetching'']"
    using that unfolding outs by (auto dest!: updated_row simp: status_in_def list_ex_iff)
qed

lemma cancel_spec:
  assumes "cancel_patchset pid force db = (db', True)"
  shows "patchset_cancelled pid db'" "db_active_gen db' pid = None" "nothing_waits pid db'" "keys_unique db \<Longrightarrow> keys_unique db'"
proof -
  let ?p = "\<lambda>ps. ps_id ps = pid \<and> status_in (ps_status ps) (cancellable_statuses force)"
  obtain ps where ps: "ps \<in> set (db_patchsets db)" "?p ps"
    using assms by (auto simp: cancel_patchset_def Let_def list_ex_iff split: if_splits)
  then have ex: "list_ex ?p (db_patchsets db)" by (auto simp: list_ex_iff)
  obtain db3 where db': "db' = cancel_outbox_for_patchset pid ''Cancelled because patchset was cancelled''
      (update_patches (\<lambda>p. pa_patchset_id p = pid
         \<and> (pa_status p = None \<or> status_in (pa_status p) [''Pending'', ''In Review'', ''Reviewing'']
            \<or> (pa_status p = Some ''applied'' \<and> \<not> reviewed_in pid db3 (pa_id p)))) (\<lambda>p. p\<lparr>pa_status := Some ''Cancelled''\<rparr>) db3)"
    and patchsets: "db_patchsets db3 = sql_update ?p (\<lambda>ps. ps\<lparr>ps_status := Some ''Cancelled''\<rparr>) (db_patchsets db)"
    and reviews: "db_reviews db3 = sql_update (unfinished_review pid) (\<lambda>r. r\<lparr>rv_status := Some ''Cancelled'', rv_interaction_id := None\<rparr>) (db_reviews db)"
    and gen: "db_active_gen db3 pid = None"
    using assms ex by (auto simp: cancel_patchset_def Let_def reviewed_in_def update_reviews_def delete_review_rows_def set_active_gen_def
        update_patchsets_def)
  note out = cancel_outbox_spec [OF db']
  have sets: "db_patchsets db' = db_patchsets db3" "db_reviews db' = db_reviews db3"
    by (simp_all add: out(1,3) update_patches_def)
  have "ps\<lparr>ps_status := Some ''Cancelled''\<rparr> \<in> set (db_patchsets db')"
    using ps by (auto simp: sets patchsets set_sql_update intro!: bexI [of _ ps])
  then show "patchset_cancelled pid db'"
    using ps(2) unfolding patchset_cancelled_def patchset_has_status_def list_ex_iff
    by (intro bexI [of _ "ps\<lparr>ps_status := Some ''Cancelled''\<rparr>"]) auto
  show "db_active_gen db' pid = None"
    using gen by (simp add: db' cancel_outbox_for_patchset_def Let_def update_patches_def)
  show "keys_unique db \<Longrightarrow> keys_unique db'" by (simp add: keys_unique_def sets patchsets reviews map_sql_update)
  have "\<not> unfinished_review pid r" if "r \<in> set (db_reviews db')" for r
    using that unfolding sets reviews by (rule updated_row) (simp add: unfinished_review_def status_in_def)
  moreover have "pa_status p \<noteq> None \<and> \<not> status_in (pa_status p) [''Pending'', ''In Review'', ''Reviewing'']
      \<and> (pa_status p = Some ''applied'' \<longrightarrow> reviewed_in pid db' (pa_id p))" if "p \<in> set (db_patches db')" "pa_patchset_id p = pid" for p
  proof -
    have same: "reviewed_in pid db' = reviewed_in pid db3" by (simp add: fun_eq_iff reviewed_in_def sets)
    show ?thesis
      using that unfolding same out(2) update_patches_def by (auto dest!: updated_row simp: status_in_def)
  qed
  ultimately show "nothing_waits pid db'"
    using out(4-7) unfolding nothing_waits_def by (auto simp: out(1,2) sets)
qed



section \<open>A rerun\<close>

lemmas db_op_defs = update_patches_def set_active_gen_def delete_review_rows_def delete_emails_def delete_checks_def

definition replaced_row :: "int \<Rightarrow> review_db \<Rightarrow> int \<Rightarrow> bool" where
  "replaced_row pid db rid \<longleftrightarrow> list_ex (\<lambda>r. rv_id r = rid \<and> rv_patchset_id r = pid \<and> replaced_review r) (db_reviews db)"

lemma reset_fields:
  "db_reviews (reset_patchset_review_state pid db) = sql_delete (\<lambda>r. rv_patchset_id r = pid \<and> replaced_review r) (db_reviews db)"
  "db_findings (reset_patchset_review_state pid db) = sql_delete (\<lambda>f. replaced_row pid db (fst f)) (db_findings db)"
  "db_resolutions (reset_patchset_review_state pid db) = sql_delete (\<lambda>f. replaced_row pid db (fst f)) (db_resolutions db)"
  "db_bug_reviews (reset_patchset_review_state pid db) = sql_delete (\<lambda>f. replaced_row pid db (fst f)) (db_bug_reviews db)"
  "db_tool_usages (reset_patchset_review_state pid db) = sql_delete (\<lambda>u. replaced_row pid db (tu_review_id u)) (db_tool_usages db)"
  "db_active_gen (reset_patchset_review_state pid db) = (db_active_gen db)(pid := None)"
  "db_patchsets (reset_patchset_review_state pid db) = db_patchsets db"
  by (simp_all add: reset_patchset_review_state_def db_op_defs Let_def replaced_row_def)

lemma reset_emails:
  assumes "e \<in> set (db_email_outbox db)"
    and "status_in (em_status e) unsent_email \<Longrightarrow>
      \<exists>r \<in> set (db_reviews db). rv_patchset_id r = pid \<and> rv_status r = Some ''Reviewed'' \<and> em_patch_id e = rv_patch_id r"
  shows "e \<in> set (db_email_outbox (reset_patchset_review_state pid db))"
proof -
  have "\<not> replaced_email pid db' e" if "db_reviews db' = db_reviews db" for db'
    using assms(2) that by (auto simp: replaced_email_def reviewed_in_def list_ex_iff split: option.splits)
  then show ?thesis using assms(1) by (simp add: reset_patchset_review_state_def db_op_defs Let_def sql_delete_def)
qed

text \<open>What a rerun leaves of the rows that hang on a review: all of them, or none if it replaces the review.\<close>

lemma kept_rows:
  assumes "keys_unique db" and "r \<in> set (db_reviews db)"
  shows "filter (\<lambda>x. key x = rv_id r) (sql_delete (\<lambda>x. replaced_row pid db (key x)) rows)
    = (if rv_patchset_id r = pid \<and> replaced_review r then [] else filter (\<lambda>x. key x = rv_id r) rows)"
proof -
  have "replaced_row pid db (rv_id r) \<longleftrightarrow> rv_patchset_id r = pid \<and> replaced_review r"
    using assms by (auto simp: replaced_row_def list_ex_iff keys_unique_def distinct_map dest: inj_onD)
  then show ?thesis by (auto simp: sql_delete_def filter_filter filter_empty_conv intro!: filter_cong)
qed

definition restarted :: "int \<Rightarrow> review_db \<Rightarrow> review_db \<Rightarrow> bool" where
  "restarted pid db db1 \<longleftrightarrow> (\<exists>ps. db1 = db\<lparr>db_patchsets := ps\<rparr> \<and> map ps_id ps = map ps_id (db_patchsets db)
     \<and> (\<forall>p \<in> set ps. ps_id p = pid \<longrightarrow> ps_status p = Some ''Pending'' \<and> ps_failed_reason p = None))"

lemma restartedI:
  assumes "\<And>ps. ps_id (g ps) = ps_id ps" and "\<And>ps. ps_id ps = pid \<Longrightarrow> ps_status (g ps) = Some ''Pending'' \<and> ps_failed_reason (g ps) = None"
  shows "restarted pid db (db\<lparr>db_patchsets := map g (db_patchsets db)\<rparr>)"
  unfolding restarted_def by (rule exI [of _ "map g (db_patchsets db)"]) (use assms in \<open>auto simp: o_def\<close>)

lemma rerun_restarted: "\<exists>db1. rerun_patchset pid db = reset_patchset_review_state pid db1 \<and> restarted pid db db1"
proof -
  let ?db1 = "update_patchsets (\<lambda>ps. ps_id ps = pid) (\<lambda>ps. ps\<lparr>ps_status := Some ''Pending'', ps_failed_reason := None\<rparr>) db"
  let ?db2 = "update_patchsets (\<lambda>ps. ps_id ps = pid)
    (\<lambda>ps. ps\<lparr>ps_target_review_count := Some ((case ps_target_review_count ps of None \<Rightarrow> 1 | Some n \<Rightarrow> n) + 1)\<rparr>) ?db1"
  have 1: "restarted pid db ?db1"
    unfolding update_patchsets_def sql_update_def by (rule restartedI) auto
  have 2: "restarted pid db ?db2"
    unfolding update_patchsets_def sql_update_def by (simp, rule restartedI) auto
  show ?thesis
    using 1 2 unfolding rerun_patchset_def Let_def by (cases "get_patchset_status pid db = Some ''Reviewed''") auto
qed

text \<open>
  C11. A rerun starts over and loses no result: the patchset waits to be claimed again and nobody holds it. It deletes exactly the reviews that it
  replaces (those of the patchset that were interrupted, cancelled, or failed before a model answered), with all their tool calls, findings,
  resolutions and links to bugs, and keeps every other review with all of these. A completed review is kept, and
  so is the mail queued for its patch. Mail that is being sent, was sent, or failed is never taken out of the queue.
\<close>

theorem rerun_keeps_results:
  assumes "keys_unique db"
  shows "let db' = rerun_patchset pid db in
    (\<forall>ps \<in> set (db_patchsets db'). ps_id ps = pid \<longrightarrow> ps_status ps = Some ''Pending'') \<and> db_active_gen db' pid = None
    \<and> db_reviews db' = filter (\<lambda>r. \<not> (rv_patchset_id r = pid \<and> replaced_review r)) (db_reviews db)
    \<and> (\<forall>r \<in> set (db_reviews db).
         let gone = (rv_patchset_id r = pid \<and> replaced_review r) in
         filter (\<lambda>u. tu_review_id u = rv_id r) (db_tool_usages db') = (if gone then [] else filter (\<lambda>u. tu_review_id u = rv_id r) (db_tool_usages db))
         \<and> filter (\<lambda>f. fst f = rv_id r) (db_findings db') = (if gone then [] else filter (\<lambda>f. fst f = rv_id r) (db_findings db))
         \<and> filter (\<lambda>f. fst f = rv_id r) (db_resolutions db') = (if gone then [] else filter (\<lambda>f. fst f = rv_id r) (db_resolutions db))
         \<and> filter (\<lambda>f. fst f = rv_id r) (db_bug_reviews db') = (if gone then [] else filter (\<lambda>f. fst f = rv_id r) (db_bug_reviews db)))
    \<and> (\<forall>r \<in> set (db_reviews db). rv_status r = Some ''Reviewed'' \<longrightarrow>
         r \<in> set (db_reviews db')
         \<and> (\<forall>e \<in> set (db_email_outbox db). rv_patchset_id r = pid \<longrightarrow> em_patch_id e = rv_patch_id r \<longrightarrow> e \<in> set (db_email_outbox db')))
    \<and> (\<forall>e \<in> set (db_email_outbox db). \<not> status_in (em_status e) unsent_email \<longrightarrow> e \<in> set (db_email_outbox db'))"
proof -
  obtain db1 where db': "rerun_patchset pid db = reset_patchset_review_state pid db1" and "restarted pid db db1"
    using rerun_restarted by blast
  then obtain ps where db1: "db1 = db\<lparr>db_patchsets := ps\<rparr>"
    and fresh: "\<forall>p \<in> set ps. ps_id p = pid \<longrightarrow> ps_status p = Some ''Pending'' \<and> ps_failed_reason p = None"
    by (auto simp: restarted_def)
  have same: "replaced_row pid db1 = replaced_row pid db" by (simp add: fun_eq_iff replaced_row_def db1)
  have "e \<in> set (db_email_outbox (rerun_patchset pid db))"
    if "e \<in> set (db_email_outbox db)" "r \<in> set (db_reviews db)" "rv_status r = Some ''Reviewed''" "rv_patchset_id r = pid" "em_patch_id e = rv_patch_id r" for e r
    unfolding db' by (rule reset_emails) (use that in \<open>auto simp: db1\<close>)
  moreover have "e \<in> set (db_email_outbox (rerun_patchset pid db))" if "e \<in> set (db_email_outbox db)" "\<not> status_in (em_status e) unsent_email" for e
    unfolding db' by (rule reset_emails) (use that in \<open>auto simp: db1\<close>)
  moreover have "db_reviews (rerun_patchset pid db) = filter (\<lambda>r. \<not> (rv_patchset_id r = pid \<and> replaced_review r)) (db_reviews db)"
    by (simp add: db' reset_fields db1 sql_delete_def)
  moreover have "rv_status r = Some ''Reviewed'' \<Longrightarrow> \<not> replaced_review r" for r :: review_row
    by (simp add: replaced_review_def status_in_def)
  moreover have "db_active_gen (rerun_patchset pid db) pid = None" by (simp add: db' reset_fields)
  moreover have "ps_status p = Some ''Pending''" if "p \<in> set (db_patchsets (rerun_patchset pid db))" "ps_id p = pid" for p
    using that fresh by (simp add: db' reset_fields db1)
  moreover have "filter (\<lambda>u. tu_review_id u = rv_id r) (db_tool_usages (rerun_patchset pid db))
      = (if rv_patchset_id r = pid \<and> replaced_review r then [] else filter (\<lambda>u. tu_review_id u = rv_id r) (db_tool_usages db))"
    "filter (\<lambda>f. fst f = rv_id r) (db_findings (rerun_patchset pid db))
      = (if rv_patchset_id r = pid \<and> replaced_review r then [] else filter (\<lambda>f. fst f = rv_id r) (db_findings db))"
    "filter (\<lambda>f. fst f = rv_id r) (db_resolutions (rerun_patchset pid db))
      = (if rv_patchset_id r = pid \<and> replaced_review r then [] else filter (\<lambda>f. fst f = rv_id r) (db_resolutions db))"
    "filter (\<lambda>f. fst f = rv_id r) (db_bug_reviews (rerun_patchset pid db))
      = (if rv_patchset_id r = pid \<and> replaced_review r then [] else filter (\<lambda>f. fst f = rv_id r) (db_bug_reviews db))"
    if "r \<in> set (db_reviews db)" for r
    unfolding db' reset_fields same by (simp_all only: kept_rows [OF assms that], simp_all add: db1)
  ultimately show ?thesis unfolding Let_def by (intro conjI ballI impI) (blast | simp)+
qed

theorem rerun_keeps_results_witness:
  "let db = apply_write None (New_finding 1 ''f'') (apply_write None (Review_status 1 ''Reviewed'') example_reviewing) in
     map rv_status (db_reviews db) = [Some ''Reviewed''] \<and> db_findings (rerun_patchset 1 db) = [(1, ''f'')]
     \<and> db_active_gen (rerun_patchset 1 db) 1 = None"
proof -
  let ?db = "apply_write None (New_finding 1 ''f'') (apply_write None (Review_status 1 ''Reviewed'') example_reviewing)"
  have "keys_unique ?db" by code_simp
  from rerun_keeps_results [OF this, of 1] have "db_active_gen (rerun_patchset 1 ?db) 1 = None" by (simp only: Let_def)
  moreover have "map rv_status (db_reviews ?db) = [Some ''Reviewed'']" "db_findings (rerun_patchset 1 ?db) = [(1, ''f'')]" by code_simp+
  ultimately show ?thesis by (simp add: Let_def)
qed

end
