(* ===== verification/Outbox.thy ===== *)
theory Outbox
  imports ReviewClaim
begin

text \<open>
  The queues through which results leave the program (\<open>src/src/db.rs\<close>): mail, Patchwork checks and comments on a forge. A row is \<open>Pending\<close>, handed out as \<open>Sending\<close>, and ends as \<open>Sent\<close> or
  \<open>Failed\<close>; rows left \<open>Sending\<close> by a process that died are swept back after ten minutes. Clocks are in whole seconds.
\<close>

section \<open>Mail\<close>

definition sign_in_link_lifetime_seconds :: int where "sign_in_link_lifetime_seconds = 1800"

definition reservation_ttl_secs :: int where "reservation_ttl_secs = 14 * 24 * 3600"

definition ghost_age :: int where "ghost_age = 600"

datatype email_kind = ReviewNotification | SignInLink | BugAssignment | Unrecognized

fun email_kind_as_str :: "email_kind \<Rightarrow> string" where
  "email_kind_as_str ReviewNotification = ''review_notification''"
| "email_kind_as_str SignInLink = ''sign_in_link''"
| "email_kind_as_str BugAssignment = ''bug_assignment''"
| "email_kind_as_str Unrecognized = ''unrecognized''"

definition email_kind_from_stored :: "string \<Rightarrow> email_kind" where
  "email_kind_from_stored s =
     (if s = ''sign_in_link'' then SignInLink else if s = ''bug_assignment'' then BugAssignment
      else if s = ''review_notification'' then ReviewNotification else Unrecognized)"

fun transactional_list_label :: "email_kind \<Rightarrow> string option" where
  "transactional_list_label ReviewNotification = None"
| "transactional_list_label Unrecognized = None"
| "transactional_list_label SignInLink = Some ''sashiko-auth''"
| "transactional_list_label BugAssignment = Some ''sashiko-bugs''"

definition update_emails :: "(email_row \<Rightarrow> bool) \<Rightarrow> (email_row \<Rightarrow> email_row) \<Rightarrow> review_db \<Rightarrow> review_db" where
  "update_emails p f db = db\<lparr>db_email_outbox := sql_update p f (db_email_outbox db)\<rparr>"

text \<open>SQLite numbers a row inserted without an id one above the highest id in the table.\<close>

definition next_email_id :: "review_db \<Rightarrow> int" where
  "next_email_id db = sql_max_id em_id (db_email_outbox db) + 1"

definition stamp_disclosures_in :: "int \<Rightarrow> string \<Rightarrow> string option \<Rightarrow> review_db \<Rightarrow> review_db" where
  "stamp_disclosures_in now status disclose_for db =
     (case disclose_for of
        Some msg \<Rightarrow>
          if status = ''Pending''
          then db\<lparr>db_disclosures := sql_update
                 (\<lambda>d. dc_patch_message_id d = msg \<and> dc_disclosed_at d = None \<and> dc_reserved_at d > now - reservation_ttl_secs)
                 (\<lambda>d. d\<lparr>dc_disclosed_at := Some now\<rparr>) (db_disclosures db)\<rparr>
          else db
      | None \<Rightarrow> db)"

record email_text =
  et_to :: string
  et_subject :: string
  et_in_reply_to :: string
  et_body :: string

definition patch_of_cancelled :: "int \<Rightarrow> review_db \<Rightarrow> bool" where
  "patch_of_cancelled patch db \<longleftrightarrow> list_ex (\<lambda>p. pa_id p = patch \<and> patchset_cancelled (pa_patchset_id p) db) (db_patches db)"

definition insert_review_email_outbox ::
  "patchset_review_claim option \<Rightarrow> int \<Rightarrow> int \<Rightarrow> string \<Rightarrow> email_text \<Rightarrow> string option \<Rightarrow> review_db \<Rightarrow> review_db \<times> bool" where
  "insert_review_email_outbox claim now patch status txt disclose_for db =
     (if \<not> is_patchset_claim_active_for_outbox claim None db then (db, False)
      else if patch_of_cancelled patch db then (db, False)
      else case sql_latest em_id (filter (\<lambda>e. em_patch_id e = Some patch) (db_email_outbox db)) of
        Some old \<Rightarrow>
          if status_in (em_status old) unsent_email
          then (stamp_disclosures_in now status disclose_for
                  (update_emails (\<lambda>e. em_id e = em_id old)
                     (\<lambda>e. e\<lparr>em_status := Some status, em_to_addresses := et_to txt, em_subject := et_subject txt,
                        em_in_reply_to := et_in_reply_to txt, em_body := et_body txt, em_error_log := None\<rparr>) db), True)
          else (db, False)
      | None \<Rightarrow>
          (stamp_disclosures_in now status disclose_for
             (db\<lparr>db_email_outbox := db_email_outbox db @
                [\<lparr>em_id = next_email_id db, em_patch_id = Some patch, em_kind = ''review_notification'', em_status = Some status,
                  em_to_addresses = et_to txt, em_subject = et_subject txt, em_in_reply_to = et_in_reply_to txt, em_body = et_body txt,
                  em_created_at = now, em_locked_at = None, em_error_log = None\<rparr>]\<rparr>), True))"

definition insert_email_outbox ::
  "patchset_review_claim option \<Rightarrow> int \<Rightarrow> int \<Rightarrow> string \<Rightarrow> email_text \<Rightarrow> review_db \<Rightarrow> review_db \<times> bool" where
  "insert_email_outbox claim now patch status txt db = insert_review_email_outbox claim now patch status txt None db"

text \<open>Mail that hangs on no patch: the notices for Patchwork, once per recipient, subject and thread, and mail to a person.\<close>

definition append_plain_email :: "int \<Rightarrow> email_kind \<Rightarrow> string \<Rightarrow> email_text \<Rightarrow> review_db \<Rightarrow> review_db" where
  "append_plain_email now kind status txt db =
     db\<lparr>db_email_outbox := db_email_outbox db @
       [\<lparr>em_id = next_email_id db, em_patch_id = None, em_kind = email_kind_as_str kind, em_status = Some status,
         em_to_addresses = et_to txt, em_subject = et_subject txt, em_in_reply_to = et_in_reply_to txt, em_body = et_body txt,
         em_created_at = now, em_locked_at = None, em_error_log = None\<rparr>]\<rparr>"

definition insert_patchwork_notification :: "int \<Rightarrow> string \<Rightarrow> email_text \<Rightarrow> review_db \<Rightarrow> review_db" where
  "insert_patchwork_notification now status txt db =
     (if list_ex (\<lambda>e. em_patch_id e = None \<and> em_to_addresses e = et_to txt \<and> em_subject e = et_subject txt
                    \<and> em_in_reply_to e = et_in_reply_to txt) (db_email_outbox db)
      then db else append_plain_email now ReviewNotification status txt db)"

definition insert_transactional_email :: "int \<Rightarrow> email_kind \<Rightarrow> string \<Rightarrow> email_text \<Rightarrow> review_db \<Rightarrow> review_db" where
  "insert_transactional_email now kind status txt db = append_plain_email now kind status (txt\<lparr>et_in_reply_to := []\<rparr>) db"

definition lock_pending_email :: "int \<Rightarrow> review_db \<Rightarrow> review_db \<times> email_row option" where
  "lock_pending_email now db0 =
     (let db1 = update_emails
                  (\<lambda>e. status_in (em_status e) [''Pending'', ''Embargoed'']
                     \<and> (case em_patch_id e of Some patch \<Rightarrow> patch_of_cancelled patch db0 | None \<Rightarrow> False))
                  (\<lambda>e. e\<lparr>em_status := Some ''Cancelled'', em_error_log := Some ''Cancelled because patchset was cancelled'',
                     em_locked_at := None\<rparr>) db0;
          db2 = update_emails
                  (\<lambda>e. em_status e = Some ''Pending'' \<and> em_kind e = ''sign_in_link'' \<and> em_created_at e < now - sign_in_link_lifetime_seconds)
                  (\<lambda>e. e\<lparr>em_status := Some ''Cancelled'',
                     em_error_log := Some ''Cancelled because sign-in link expired before delivery'', em_locked_at := None\<rparr>) db1
      in case find (\<lambda>e. em_status e = Some ''Pending'') (db_email_outbox db2) of
           None \<Rightarrow> (db2, None)
         | Some chosen \<Rightarrow>
             let take = (\<lambda>e. e\<lparr>em_status := Some ''Sending'', em_locked_at := Some now\<rparr>)
             in (update_emails (\<lambda>e. em_id e = em_id chosen) take db2, Some (take chosen)))"

definition mark_email_sent :: "int \<Rightarrow> review_db \<Rightarrow> review_db" where
  "mark_email_sent eid = update_emails (\<lambda>e. em_id e = eid) (\<lambda>e. e\<lparr>em_status := Some ''Sent'', em_locked_at := None\<rparr>)"

definition mark_email_failed :: "int \<Rightarrow> string \<Rightarrow> review_db \<Rightarrow> review_db" where
  "mark_email_failed eid err = update_emails (\<lambda>e. em_id e = eid)
     (\<lambda>e. e\<lparr>em_status := Some ''Failed'', em_error_log := Some err, em_locked_at := None\<rparr>)"

definition older_than :: "int \<Rightarrow> int option \<Rightarrow> bool" where
  "older_than limit locked_at = (case locked_at of None \<Rightarrow> False | Some t \<Rightarrow> t < limit)"

definition sweep_ghost_emails :: "int \<Rightarrow> review_db \<Rightarrow> review_db" where
  "sweep_ghost_emails now = update_emails (\<lambda>e. em_status e = Some ''Sending'' \<and> older_than (now - ghost_age) (em_locked_at e))
     (\<lambda>e. e\<lparr>em_status := Some ''Pending'', em_locked_at := None\<rparr>)"

section \<open>Patchwork checks\<close>

definition update_checks :: "(patchwork_row \<Rightarrow> bool) \<Rightarrow> (patchwork_row \<Rightarrow> patchwork_row) \<Rightarrow> review_db \<Rightarrow> review_db" where
  "update_checks p f db = db\<lparr>db_patchwork_outbox := sql_update p f (db_patchwork_outbox db)\<rparr>"

text \<open>Every series that holds the message is cancelled, and there is one.\<close>

definition message_cancelled :: "string \<Rightarrow> review_db \<Rightarrow> bool" where
  "message_cancelled msg db \<longleftrightarrow>
     list_ex (\<lambda>p. pa_message_id p = msg \<and> patchset_cancelled (pa_patchset_id p) db) (db_patches db)
     \<and> \<not> list_ex (\<lambda>p. pa_message_id p = msg
            \<and> list_ex (\<lambda>ps. ps_id ps = pa_patchset_id p \<and> ps_status ps \<noteq> Some ''Cancelled'') (db_patchsets db)) (db_patches db)"

definition insert_patchwork_outbox ::
  "patchset_review_claim option \<Rightarrow> string \<Rightarrow> string \<Rightarrow> string \<Rightarrow> string \<Rightarrow> review_db \<Rightarrow> review_db" where
  "insert_patchwork_outbox claim msg api_url ctxt payload db =
     (if \<not> is_patchset_claim_active_for_outbox claim None db then db
      else if message_cancelled msg db then db
      else case sql_latest pw_id (filter (\<lambda>w. pw_patch_msg_id w = msg \<and> pw_api_url w = api_url \<and> pw_context w = ctxt) (db_patchwork_outbox db)) of
        Some old \<Rightarrow>
          if status_in (pw_status old) [''Pending'', ''Cancelled'']
          then update_checks (\<lambda>w. pw_id w = pw_id old)
                 (\<lambda>w. w\<lparr>pw_status := Some ''Pending'', pw_payload := payload, pw_retry_count := 0, pw_next_retry_at := None,
                    pw_locked_at := None, pw_error_log := None\<rparr>) db
          else db
      | None \<Rightarrow>
          db\<lparr>db_patchwork_outbox := db_patchwork_outbox db @
            [\<lparr>pw_id = sql_max_id pw_id (db_patchwork_outbox db) + 1, pw_patch_msg_id = msg, pw_api_url = api_url, pw_context = ctxt,
              pw_status = Some ''Pending'', pw_payload = payload, pw_retry_count = 0, pw_next_retry_at = None, pw_locked_at = None,
              pw_error_log = None\<rparr>]\<rparr>)"

definition due :: "int \<Rightarrow> int option \<Rightarrow> bool" where
  "due now next_retry_at = (case next_retry_at of None \<Rightarrow> True | Some t \<Rightarrow> t \<le> now)"

definition lock_pending_patchwork :: "int \<Rightarrow> review_db \<Rightarrow> review_db \<times> patchwork_row option" where
  "lock_pending_patchwork now db0 =
     (let db1 = update_checks
                  (\<lambda>w. pw_status w = Some ''Pending''
                     \<and> list_ex (\<lambda>p. pa_message_id p = pw_patch_msg_id w \<and> patchset_cancelled (pa_patchset_id p) db0) (db_patches db0))
                  (\<lambda>w. w\<lparr>pw_status := Some ''Cancelled'', pw_error_log := Some ''Cancelled because patchset was cancelled'',
                     pw_locked_at := None\<rparr>) db0
      in case find (\<lambda>w. pw_status w = Some ''Pending'' \<and> due now (pw_next_retry_at w)) (db_patchwork_outbox db1) of
           None \<Rightarrow> (db1, None)
         | Some chosen \<Rightarrow>
             let take = (\<lambda>w. w\<lparr>pw_status := Some ''Sending'', pw_locked_at := Some now\<rparr>)
             in (update_checks (\<lambda>w. pw_id w = pw_id chosen) take db1, Some (take chosen)))"

definition mark_patchwork_sent :: "int \<Rightarrow> review_db \<Rightarrow> review_db" where
  "mark_patchwork_sent wid = update_checks (\<lambda>w. pw_id w = wid) (\<lambda>w. w\<lparr>pw_status := Some ''Sent'', pw_locked_at := None\<rparr>)"

definition mark_patchwork_failed :: "int \<Rightarrow> string \<Rightarrow> review_db \<Rightarrow> review_db" where
  "mark_patchwork_failed wid err = update_checks (\<lambda>w. pw_id w = wid)
     (\<lambda>w. w\<lparr>pw_status := Some ''Failed'', pw_error_log := Some err, pw_locked_at := None\<rparr>)"

definition set_patchwork_retry_at :: "int \<Rightarrow> int \<Rightarrow> review_db \<Rightarrow> review_db" where
  "set_patchwork_retry_at wid next_at = update_checks (\<lambda>w. pw_id w = wid)
     (\<lambda>w. w\<lparr>pw_status := Some ''Pending'', pw_retry_count := pw_retry_count w + 1, pw_next_retry_at := Some next_at, pw_locked_at := None\<rparr>)"

definition sweep_ghost_patchwork :: "int \<Rightarrow> review_db \<Rightarrow> review_db" where
  "sweep_ghost_patchwork now = update_checks (\<lambda>w. pw_status w = Some ''Sending'' \<and> older_than (now - ghost_age) (pw_locked_at w))
     (\<lambda>w. w\<lparr>pw_status := Some ''Pending'', pw_locked_at := None\<rparr>)"

section \<open>Comments on a forge\<close>

definition update_comments :: "(forge_row \<Rightarrow> bool) \<Rightarrow> (forge_row \<Rightarrow> forge_row) \<Rightarrow> review_db \<Rightarrow> review_db" where
  "update_comments p f db = db\<lparr>db_forge_outbox := sql_update p f (db_forge_outbox db)\<rparr>"

text \<open>\<open>LIKE\<close> of SQLite: \<open>%\<close> for any text, \<open>_\<close> for any character, ASCII letters without regard to case.\<close>

fun sql_like :: "string \<Rightarrow> string \<Rightarrow> bool" where
  "sql_like [] s \<longleftrightarrow> s = []"
| "sql_like (p # ps) [] \<longleftrightarrow> p = CHR ''%'' \<and> sql_like ps []"
| "sql_like (p # ps) (c # s) \<longleftrightarrow>
     (if p = CHR ''%'' then sql_like ps (c # s) \<or> sql_like (p # ps) s
      else (p = CHR ''_'' \<or> ascii_lower p = ascii_lower c) \<and> sql_like ps s)"

definition newer_revision :: "int \<Rightarrow> int \<Rightarrow> string \<Rightarrow> review_db \<Rightarrow> bool" where
  "newer_revision pid pr_number repo db \<longleftrightarrow>
     list_ex (\<lambda>ps. ps_mr_number ps = Some pr_number \<and> ps_id ps > pid
       \<and> (case ps_mr_url ps of None \<Rightarrow> False
           | Some url \<Rightarrow> sql_like (''%/'' @ repo @ ''/pull/%'') url \<or> sql_like (''%/'' @ repo @ ''/-/merge_requests/%'') url
                \<or> sql_like (''%/'' @ repo @ ''/merge_requests/%'') url)) (db_patchsets db)"

text \<open>Whether a comment was composed for an incomplete review: the banner (a constant of the forge module) follows the heading.\<close>

fun split_blank_line :: "string \<Rightarrow> (string \<times> string) option" where
  "split_blank_line [] = None"
| "split_blank_line (c # s) =
     (case strip_prefix [CHR 0x0A, CHR 0x0A] (c # s) of
        Some rest \<Rightarrow> Some ([], rest)
      | None \<Rightarrow> map_option (\<lambda>(a, b). (c # a, b)) (split_blank_line s))"

definition is_incomplete_pr_review_comment :: "string \<Rightarrow> string \<Rightarrow> bool" where
  "is_incomplete_pr_review_comment marker body =
     (case split_blank_line body of
        Some (header, rest) \<Rightarrow> prefix ''### Sashiko review'' header \<and> prefix marker rest
      | None \<Rightarrow> False)"

definition insert_forge_outbox ::
  "string \<Rightarrow> patchset_review_claim option \<Rightarrow> int \<Rightarrow> string \<Rightarrow> int \<Rightarrow> string \<Rightarrow> string \<Rightarrow> review_db \<Rightarrow> review_db" where
  "insert_forge_outbox marker claim pid repo pr_number body status db =
     (let fresh = (\<lambda>fid. \<lparr>fo_id = fid, fo_patchset_id = pid, fo_repo = repo, fo_pr_number = pr_number, fo_body = body, fo_status = status,
            fo_retry_count = 0, fo_next_retry_at = None, fo_locked_at = None, fo_error_log = None\<rparr>);
          next = sql_max_id fo_id (db_forge_outbox db) + 1
      in if \<not> is_patchset_claim_active_for_outbox claim (Some pid) db then db
         else if get_patchset_status pid db = Some ''Cancelled'' then db
         else if newer_revision pid pr_number repo db then db
         else case find (\<lambda>f. fo_patchset_id f = pid) (db_forge_outbox db) of
           Some old \<Rightarrow>
             let old_incomplete = is_incomplete_pr_review_comment marker (fo_body old);
                 new_incomplete = is_incomplete_pr_review_comment marker body;
                 unsent = \<not> status_in (Some (fo_status old)) [''Sent'', ''Sending'', ''Cancelled'']
             in if fo_status old = ''Cancelled''
                   \<or> (old_incomplete \<and> (\<not> new_incomplete \<or> (unsent \<and> fo_body old \<noteq> body)))
                then db\<lparr>db_forge_outbox := sql_delete (\<lambda>f. fo_id f = fo_id old) (db_forge_outbox db) @ [fresh (max next (fo_id old + 1))]\<rparr>
                else db
         | None \<Rightarrow> db\<lparr>db_forge_outbox := db_forge_outbox db @ [fresh next]\<rparr>)"

definition lock_pending_forge_outbox :: "int \<Rightarrow> review_db \<Rightarrow> review_db \<times> forge_row option" where
  "lock_pending_forge_outbox now db0 =
     (let db1 = update_comments
                  (\<lambda>f. status_in (Some (fo_status f)) [''Pending'', ''Embargoed'']
                     \<and> (patchset_cancelled (fo_patchset_id f) db0 \<or> newer_revision (fo_patchset_id f) (fo_pr_number f) (fo_repo f) db0))
                  (\<lambda>f. f\<lparr>fo_status := ''Cancelled'',
                     fo_error_log := Some ''Cancelled: patchset was cancelled or superseded by a newer PR version'', fo_locked_at := None\<rparr>) db0
      in case find (\<lambda>f. fo_status f = ''Pending'' \<and> due now (fo_next_retry_at f)) (db_forge_outbox db1) of
           None \<Rightarrow> (db1, None)
         | Some chosen \<Rightarrow>
             let take = (\<lambda>f. f\<lparr>fo_status := ''Sending'', fo_locked_at := Some now\<rparr>)
             in (update_comments (\<lambda>f. fo_id f = fo_id chosen) take db1, Some (take chosen)))"

definition mark_forge_outbox_sent :: "int \<Rightarrow> review_db \<Rightarrow> review_db" where
  "mark_forge_outbox_sent fid = update_comments (\<lambda>f. fo_id f = fid) (\<lambda>f. f\<lparr>fo_status := ''Sent'', fo_locked_at := None\<rparr>)"

definition mark_forge_outbox_failed :: "int \<Rightarrow> string \<Rightarrow> review_db \<Rightarrow> review_db" where
  "mark_forge_outbox_failed fid err = update_comments (\<lambda>f. fo_id f = fid)
     (\<lambda>f. f\<lparr>fo_status := ''Failed'', fo_error_log := Some err, fo_locked_at := None\<rparr>)"

definition set_forge_outbox_retry_at :: "int \<Rightarrow> int \<Rightarrow> string \<Rightarrow> review_db \<Rightarrow> review_db" where
  "set_forge_outbox_retry_at fid next_at err = update_comments (\<lambda>f. fo_id f = fid)
     (\<lambda>f. f\<lparr>fo_status := ''Pending'', fo_retry_count := fo_retry_count f + 1, fo_next_retry_at := Some next_at,
        fo_error_log := Some err, fo_locked_at := None\<rparr>)"

definition sweep_ghost_forge_outbox :: "int \<Rightarrow> review_db \<Rightarrow> review_db" where
  "sweep_ghost_forge_outbox now = update_comments (\<lambda>f. fo_status f = ''Sending'' \<and> older_than (now - ghost_age) (fo_locked_at f))
     (\<lambda>f. f\<lparr>fo_status := ''Pending'', fo_locked_at := None\<rparr>)"

definition release_embargoed_forge_outbox :: "int \<Rightarrow> review_db \<Rightarrow> review_db" where
  "release_embargoed_forge_outbox pid = update_comments (\<lambda>f. fo_patchset_id f = pid \<and> fo_status f = ''Embargoed'')
     (\<lambda>f. f\<lparr>fo_status := ''Pending''\<rparr>)"

end
