(* ===== verification/Delivery.thy ===== *)
theory Delivery
  imports Outbox
begin

text \<open>
  The workers that empty the queues of mail (\<open>src/src/worker/email.rs\<close>) and of Patchwork checks (\<open>src/src/worker/patchwork.rs\<close>): how often
  a message is tried, and that no row is delivered twice unless the note of its delivery was lost, whatever the reviews do to the queue
  meanwhile. The transports are parameters.
\<close>

section \<open>Trying a message\<close>

definition smtp_send_timeout :: int where "smtp_send_timeout = 60"

definition smtp_max_attempts :: int where "smtp_max_attempts = 3"

definition smtp_retry_base_delay :: int where "smtp_retry_base_delay = 2"

text \<open>What is asked of an error of the mail library: its text, and whether it is a temporary answer of a server or comes from sendmail.\<close>

record send_error =
  se_smtp_transient :: bool
  se_sendmail :: bool
  se_text :: string

definition is_transient_smtp_error :: "send_error \<Rightarrow> bool" where
  "is_transient_smtp_error e \<longleftrightarrow> se_smtp_transient e \<or> se_sendmail e
     \<or> prefix ''transient error (4'' (se_text e) \<or> prefix ''Connection error'' (se_text e)"

definition plain_send_error :: "string \<Rightarrow> send_error" where
  "plain_send_error t = \<lparr>se_smtp_transient = False, se_sendmail = False, se_text = t\<rparr>"

datatype send_outcome = Accepted | Refused send_error | Panicked_send string

text \<open>One attempt, which would take some seconds: the time limit ends it.\<close>

definition attempt_result :: "int \<times> send_outcome \<Rightarrow> send_error option \<times> int" where
  "attempt_result a =
     (if fst a \<ge> smtp_send_timeout then (Some (plain_send_error ''SMTP delivery timed out after 60s''), smtp_send_timeout)
      else (case snd a of
              Accepted \<Rightarrow> None
            | Refused e \<Rightarrow> Some e
            | Panicked_send t \<Rightarrow> Some (plain_send_error (''panicked while building or sending: '' @ t)), fst a))"

text \<open>The loop over the attempts, with what the attempts would come to; the result has the last error and the seconds that went by.\<close>

function send_attempts :: "(int \<Rightarrow> int \<times> send_outcome) \<Rightarrow> int \<Rightarrow> send_error option \<times> int" where
  "send_attempts send attempt =
     (case attempt_result (send attempt) of
        (None, t) \<Rightarrow> (None, t)
      | (Some e, t) \<Rightarrow>
          if attempt < smtp_max_attempts \<and> is_transient_smtp_error e
          then (let (r, t') = send_attempts send (attempt + 1) in (r, t + smtp_retry_base_delay * attempt + t'))
          else (Some e, t))"
  by pat_completeness auto
termination by (relation "measure (\<lambda>(_, attempt). nat (smtp_max_attempts - attempt))") auto

declare send_attempts.simps [simp del]

definition settle_email :: "email_row \<Rightarrow> send_error option \<Rightarrow> review_db \<Rightarrow> review_db" where
  "settle_email e r db = (case r of None \<Rightarrow> mark_email_sent (em_id e) db | Some err \<Rightarrow> mark_email_failed (em_id e) (se_text err) db)"

definition backoff_seconds :: "int \<Rightarrow> int" where
  "backoff_seconds retry_count = (if retry_count = 0 then 5 else if retry_count = 1 then 30 else 180)"

definition settle_check :: "int \<Rightarrow> int \<Rightarrow> patchwork_row \<Rightarrow> string option \<Rightarrow> review_db \<Rightarrow> review_db" where
  "settle_check max_retries now w r db =
     (case r of
        None \<Rightarrow> mark_patchwork_sent (pw_id w) db
      | Some err \<Rightarrow>
          if pw_retry_count w + 1 \<ge> max_retries then mark_patchwork_failed (pw_id w) err db
          else set_patchwork_retry_at (pw_id w) (now + backoff_seconds (pw_retry_count w)) db)"

lemma attempt_time: "0 \<le> fst a \<Longrightarrow> attempt_result a = (r, t) \<Longrightarrow> 0 \<le> t \<and> t \<le> 60"
  by (auto simp: attempt_result_def smtp_send_timeout_def split: if_splits)

lemma send_time:
  assumes "\<And>n. 0 \<le> fst (send n)"
  shows "snd (send_attempts send 1) \<le> 186"
proof -
  have 3: "snd (send_attempts send 3) \<le> 60"
    using attempt_time [OF assms, of 3] by (subst send_attempts.simps) (auto simp: smtp_max_attempts_def split: prod.split option.split)
  have 2: "snd (send_attempts send 2) \<le> 124"
    using attempt_time [OF assms, of 2] 3
    by (subst send_attempts.simps) (fastforce simp: smtp_max_attempts_def smtp_retry_base_delay_def split: prod.split option.split)
  show ?thesis
    using attempt_time [OF assms, of 1] 2
    by (subst send_attempts.simps) (fastforce simp: smtp_max_attempts_def smtp_retry_base_delay_def split: prod.split option.split)
qed

section \<open>Delivering a queue\<close>

text \<open>
  A worker sweeps, takes a row, hands it to the transport, and marks it by the outcome; between any two of its steps others work on
  the database, and each of its statements may fail. When the transport has accepted a message and the mark that says so fails, the worker only
  logs an error and goes on, with the row left as it was; a process that dies between the two leaves the same. The log lists what the
  transport accepted and the list of lost notes what was accepted without being marked, the latest first. The steps have the statements
  on the queue as parameters.
\<close>

datatype delivery_task = Free | Sends int | Sent_out int

record delivery =
  dv_db :: review_db
  dv_task :: delivery_task
  dv_log :: "int list"
  dv_lost :: "int list"

definition delivery_start :: "review_db \<Rightarrow> delivery" where
  "delivery_start db = \<lparr>dv_db = db, dv_task = Free, dv_log = [], dv_lost = []\<rparr>"

inductive deliver_step ::
  "(int \<Rightarrow> review_db \<Rightarrow> review_db) \<Rightarrow> (int \<Rightarrow> review_db \<Rightarrow> review_db \<times> int option) \<Rightarrow> (int \<Rightarrow> review_db \<Rightarrow> review_db)
   \<Rightarrow> (int \<Rightarrow> review_db \<Rightarrow> review_db \<Rightarrow> bool) \<Rightarrow> (review_db \<Rightarrow> review_db \<Rightarrow> bool) \<Rightarrow> delivery \<Rightarrow> delivery \<Rightarrow> bool"
  for sweep lock sent give_up others where
  sweeps: "dv_task s = Free \<Longrightarrow> deliver_step sweep lock sent give_up others s (s\<lparr>dv_db := sweep now (dv_db s)\<rparr>)"
| takes: "dv_task s = Free \<Longrightarrow> lock now (dv_db s) = (db', r) \<Longrightarrow>
     deliver_step sweep lock sent give_up others s (s\<lparr>dv_db := db', dv_task := (case r of None \<Rightarrow> Free | Some i \<Rightarrow> Sends i)\<rparr>)"
| accepted: "dv_task s = Sends i \<Longrightarrow>
     deliver_step sweep lock sent give_up others s (s\<lparr>dv_task := Sent_out i, dv_log := i # dv_log s\<rparr>)"
| marked: "dv_task s = Sent_out i \<Longrightarrow>
     deliver_step sweep lock sent give_up others s (s\<lparr>dv_db := sent i (dv_db s), dv_task := Free\<rparr>)"
| mark_lost: "dv_task s = Sent_out i \<Longrightarrow>
     deliver_step sweep lock sent give_up others s (s\<lparr>dv_task := Free, dv_lost := i # dv_lost s\<rparr>)"
| gives_up: "dv_task s = Sends i \<Longrightarrow> give_up i (dv_db s) db' \<Longrightarrow>
     deliver_step sweep lock sent give_up others s (s\<lparr>dv_db := db', dv_task := Free\<rparr>)"
| interrupted: "dv_task s = Sends i \<Longrightarrow> deliver_step sweep lock sent give_up others s (s\<lparr>dv_task := Free\<rparr>)"
| others_work: "others (dv_db s) db' \<Longrightarrow> deliver_step sweep lock sent give_up others s (s\<lparr>dv_db := db'\<rparr>)"

inductive deliver_run for sweep lock sent give_up others s0 where
  start: "deliver_run sweep lock sent give_up others s0 s0"
| step: "deliver_run sweep lock sent give_up others s0 s \<Longrightarrow> deliver_step sweep lock sent give_up others s s' \<Longrightarrow>
     deliver_run sweep lock sent give_up others s0 s'"

text \<open>Which rows of a table, by their ids, are being sent and which were: what the others leave alone.\<close>

definition row_status :: "('r \<Rightarrow> int) \<Rightarrow> ('r \<Rightarrow> string option) \<Rightarrow> 'r list \<Rightarrow> int \<Rightarrow> string option" where
  "row_status key status rows i = Option.bind (find (\<lambda>r. key r = i) rows) status"

definition handed_out :: "string option \<Rightarrow> bool" where
  "handed_out st \<longleftrightarrow> st = Some ''Sending'' \<or> st = Some ''Sent''"

definition same_handed_out :: "string option \<Rightarrow> string option \<Rightarrow> bool" where
  "same_handed_out a b \<longleftrightarrow> a = b \<or> \<not> handed_out a \<and> \<not> handed_out b"

text \<open>What the worker of a queue relies on: the rows of the queue, and the laws of the statements on it.\<close>

locale delivery_queue =
  fixes key :: "'r \<Rightarrow> int" and status :: "'r \<Rightarrow> string option" and rows :: "review_db \<Rightarrow> 'r list"
    and sweep :: "int \<Rightarrow> review_db \<Rightarrow> review_db"
    and lock :: "int \<Rightarrow> review_db \<Rightarrow> review_db \<times> int option"
    and sent :: "int \<Rightarrow> review_db \<Rightarrow> review_db"
    and give_up :: "int \<Rightarrow> review_db \<Rightarrow> review_db \<Rightarrow> bool"
    and others :: "review_db \<Rightarrow> review_db \<Rightarrow> bool"
  assumes sweep_law: "map key (rows (sweep now db)) = map key (rows db)
      \<and> (row_status key status (rows (sweep now db)) j = Some ''Sent'' \<longleftrightarrow> row_status key status (rows db) j = Some ''Sent'')"
    and lock_law: "distinct (map key (rows db)) \<Longrightarrow> lock now db = (db', r) \<Longrightarrow> map key (rows db') = map key (rows db)
      \<and> (\<forall>j. r \<noteq> Some j \<longrightarrow> same_handed_out (row_status key status (rows db) j) (row_status key status (rows db') j))
      \<and> (\<forall>i. r = Some i \<longrightarrow> row_status key status (rows db) i \<noteq> Some ''Sent'' \<and> row_status key status (rows db') i = Some ''Sending'')"
    and sent_law: "row_status key status (rows db) i = Some ''Sending'' \<Longrightarrow> map key (rows (sent i db)) = map key (rows db)
      \<and> row_status key status (rows (sent i db)) i = Some ''Sent''
      \<and> (\<forall>j. j \<noteq> i \<longrightarrow> row_status key status (rows (sent i db)) j = row_status key status (rows db) j)"
    and give_up_law: "give_up i db db' \<Longrightarrow> map key (rows db') = map key (rows db)
      \<and> (\<forall>j. j \<noteq> i \<longrightarrow> row_status key status (rows db') j = row_status key status (rows db) j)"
    and others_law: "distinct (map key (rows db)) \<Longrightarrow> others db db' \<Longrightarrow> distinct (map key (rows db'))
      \<and> same_handed_out (row_status key status (rows db) j) (row_status key status (rows db') j)"
begin

definition st :: "review_db \<Rightarrow> int \<Rightarrow> string option" where
  "st db = row_status key status (rows db)"

text \<open>A delivery is noted when its row says so, or is about to be when the worker has just made it.\<close>

definition noted :: "delivery \<Rightarrow> int \<Rightarrow> bool" where
  "noted s i \<longleftrightarrow> st (dv_db s) i = Some ''Sent'' \<or> dv_task s = Sent_out i"

definition well_delivered :: "delivery \<Rightarrow> bool" where
  "well_delivered s \<longleftrightarrow> distinct (map key (rows (dv_db s)))
     \<and> (\<forall>i. count_list (dv_log s) i \<le> count_list (dv_lost s) i + (if noted s i then 1 else 0))
     \<and> (\<forall>i. dv_task s = Sends i \<or> dv_task s = Sent_out i \<longrightarrow> st (dv_db s) i = Some ''Sending'')"

lemma well_deliveredD:
  assumes "well_delivered s"
  shows "distinct (map key (rows (dv_db s)))"
    and "count_list (dv_log s) i \<le> count_list (dv_lost s) i + (if noted s i then 1 else 0)"
    and "dv_task s = Sends i \<Longrightarrow> st (dv_db s) i = Some ''Sending''"
    and "dv_task s = Sent_out i \<Longrightarrow> st (dv_db s) i = Some ''Sending''"
  using assms by (auto simp: well_delivered_def)

lemma well_delivered_takes:
  assumes "well_delivered s" and "dv_task s = Free" and l: "lock now (dv_db s) = (db', r)"
  shows "well_delivered (s\<lparr>dv_db := db', dv_task := (case r of None \<Rightarrow> Free | Some i \<Rightarrow> Sends i)\<rparr>)"
proof -
  note l = lock_law [OF well_deliveredD(1) [OF assms(1)] l]
  have sent: "st db' j = Some ''Sent'' \<longleftrightarrow> st (dv_db s) j = Some ''Sent''" for j
  proof (cases "r = Some j")
    case True
    with l show ?thesis by (auto simp: st_def)
  next
    case False
    then have "same_handed_out (st (dv_db s) j) (st db' j)" using l by (simp add: st_def)
    then show ?thesis by (auto simp: same_handed_out_def handed_out_def)
  qed
  let ?s = "s\<lparr>dv_db := db', dv_task := (case r of None \<Rightarrow> Free | Some i \<Rightarrow> Sends i)\<rparr>"
  have "noted ?s = noted s" using assms(2) sent by (simp add: fun_eq_iff noted_def split: option.split)
  with assms(1,2) l show ?thesis by (auto simp: well_delivered_def st_def split: option.split)
qed

lemma well_delivered_step: "deliver_step sweep lock sent give_up others s s' \<Longrightarrow> well_delivered s \<Longrightarrow> well_delivered s'"
proof (induction rule: deliver_step.induct)
  case (sweeps s now)
  then show ?case using sweep_law [of now "dv_db s"] by (simp add: well_delivered_def noted_def st_def)
next
  case (takes s now db' r)
  then show ?case by (intro well_delivered_takes)
next
  case (accepted s i)
  then show ?case using well_deliveredD(2,3) [OF accepted.prems, of i] by (auto simp: well_delivered_def noted_def)
next
  case (marked s i)
  then have busy: "row_status key status (rows (dv_db s)) i = Some ''Sending''" by (auto simp: well_delivered_def st_def)
  note m = sent_law [OF this]
  then have same: "st (sent i (dv_db s)) j = Some ''Sent'' \<longleftrightarrow> noted s j" for j
    using marked.hyps by (cases "j = i") (auto simp: st_def noted_def)
  from m marked.prems show ?case by (simp add: well_delivered_def noted_def [of "s\<lparr>dv_db := _, dv_task := _\<rparr>"] same)
next
  case (mark_lost s i)
  have "count_list (dv_log s) j \<le> count_list (i # dv_lost s) j + (if st (dv_db s) j = Some ''Sent'' then 1 else 0)" for j
    using well_deliveredD(2) [OF mark_lost.prems, of j] mark_lost.hyps by (cases "j = i") (auto simp: noted_def split: if_splits)
  with mark_lost.prems show ?case by (simp add: well_delivered_def noted_def)
next
  case (gives_up s i db')
  note g = give_up_law [OF gives_up.hyps(2)]
  have "count_list (dv_log s) j \<le> count_list (dv_lost s) j + (if st db' j = Some ''Sent'' then 1 else 0)" for j
    using well_deliveredD(2) [OF gives_up.prems, of j] well_deliveredD(3) [OF gives_up.prems gives_up.hyps(1)] gives_up.hyps(1) g
    by (cases "j = i") (auto simp: noted_def st_def)
  with gives_up.prems g show ?case by (simp add: well_delivered_def noted_def)
next
  case (interrupted s i)
  then show ?case by (auto simp: well_delivered_def noted_def)
next
  case (others_work s db')
  note o = others_law [OF well_deliveredD(1) [OF others_work.prems] others_work.hyps]
  have "st db' j = Some x \<longleftrightarrow> st (dv_db s) j = Some x" if "handed_out (Some x)" for j x
    using that o [of j] by (auto simp: st_def same_handed_out_def)
  with o others_work.prems show ?case by (simp add: well_delivered_def noted_def handed_out_def)
qed

lemma deliver_start: "distinct (map key (rows db)) \<Longrightarrow> well_delivered (delivery_start db)"
  by (simp add: well_delivered_def delivery_start_def)

lemma well_delivered_run:
  "deliver_run sweep lock sent give_up others s0 s \<Longrightarrow> well_delivered s0 \<Longrightarrow> well_delivered s"
  by (induction rule: deliver_run.induct) (auto intro: well_delivered_step)

lemma count_distinct: "(\<And>i. count_list xs i \<le> Suc 0) \<Longrightarrow> distinct xs"
proof (induction xs)
  case (Cons x xs)
  have "count_list xs x = 0" using Cons.prems [of x] by simp
  moreover have "count_list xs i \<le> Suc 0" for i using Cons.prems [of i] by (simp split: if_splits)
  ultimately show ?case using Cons.IH by (simp add: count_list_0_iff)
qed simp

lemma delivered_once:
  assumes "deliver_run sweep lock sent give_up others (delivery_start db) s" and "distinct (map key (rows db))"
  shows "count_list (dv_log s) i
      \<le> count_list (dv_lost s) i + (if row_status key status (rows (dv_db s)) i = Some ''Sent'' \<or> dv_task s = Sent_out i then 1 else 0)"
    and "dv_lost s = [] \<Longrightarrow> distinct (dv_log s)"
proof -
  have w: "well_delivered s" by (rule well_delivered_run [OF assms(1) deliver_start [OF assms(2)]])
  show "count_list (dv_log s) i
      \<le> count_list (dv_lost s) i + (if row_status key status (rows (dv_db s)) i = Some ''Sent'' \<or> dv_task s = Sent_out i then 1 else 0)"
    using well_deliveredD(2) [OF w, of i] by (simp add: noted_def st_def)
  show "distinct (dv_log s)" if "dv_lost s = []"
  proof (rule count_distinct)
    show "count_list (dv_log s) i \<le> Suc 0" for i
      using well_deliveredD(2) [OF w, of i] that by (simp split: if_splits)
  qed
qed

end

section \<open>What the reviews do to the queues\<close>

definition rows_kept :: "('r \<Rightarrow> int) \<Rightarrow> ('r \<Rightarrow> string option) \<Rightarrow> 'r list \<Rightarrow> 'r list \<Rightarrow> bool" where
  "rows_kept key status rows rows' \<longleftrightarrow> distinct (map key rows) \<longrightarrow>
     distinct (map key rows') \<and> (\<forall>j. same_handed_out (row_status key status rows j) (row_status key status rows' j))"

lemma same_handed_out_refl [simp]: "same_handed_out a a"
  by (simp add: same_handed_out_def)

lemma same_handed_out_trans: "same_handed_out a b \<Longrightarrow> same_handed_out b c \<Longrightarrow> same_handed_out a c"
  by (auto simp: same_handed_out_def)

lemma kept_refl [simp]: "rows_kept key status rows rows"
  by (simp add: rows_kept_def)

lemma kept_trans: "rows_kept key status a b \<Longrightarrow> rows_kept key status b c \<Longrightarrow> rows_kept key status a c"
  unfolding rows_kept_def by (blast intro: same_handed_out_trans)

lemma find_sql_update:
  assumes "\<And>r. p r \<Longrightarrow> key (f r) = key r"
  shows "find (\<lambda>r. key r = i) (sql_update p f rows) = map_option (\<lambda>r. if p r then f r else r) (find (\<lambda>r. key r = i) rows)"
  using assms by (induction rows) (auto simp: sql_update_def)

lemma find_key_none: "i \<notin> set (map key rows) \<Longrightarrow> find (\<lambda>r. key r = i) rows = None"
  by (induction rows) auto

lemma find_sql_delete:
  assumes "distinct (map key rows)"
  shows "find (\<lambda>r. key r = i) (sql_delete p rows) = Option.bind (find (\<lambda>r. key r = i) rows) (\<lambda>r. if p r then None else Some r)"
  using assms
proof (induction rows)
  case (Cons r rows)
  then have "find (\<lambda>x. key x = key r) rows = None" by (simp add: find_key_none)
  with Cons show ?case by (auto simp: sql_delete_def)
qed (simp add: sql_delete_def)

lemma find_append_key:
  "find (\<lambda>r. key r = i) (rows @ [x]) = (case find (\<lambda>r. key r = i) rows of None \<Rightarrow> if key x = i then Some x else None | Some r \<Rightarrow> Some r)"
  by (induction rows) auto

lemma kept_update:
  assumes "\<And>r. p r \<Longrightarrow> key (f r) = key r" and "\<And>r. p r \<Longrightarrow> \<not> handed_out (status r) \<and> \<not> handed_out (status (f r))"
  shows "rows_kept key status rows (sql_update p f rows)"
proof -
  have "map key (sql_update p f rows) = map key rows" using assms(1) by (rule map_sql_update)
  moreover have "same_handed_out (row_status key status rows j) (row_status key status (sql_update p f rows) j)" for j
    using assms(2) find_sql_update [of p key f j rows] assms(1)
    by (cases "find (\<lambda>r. key r = j) rows") (auto simp: row_status_def same_handed_out_def)
  ultimately show ?thesis by (simp add: rows_kept_def)
qed

lemma kept_delete:
  assumes "\<And>r. p r \<Longrightarrow> \<not> handed_out (status r)"
  shows "rows_kept key status rows (sql_delete p rows)"
proof -
  have "same_handed_out (row_status key status rows j) (row_status key status (sql_delete p rows) j)" if "distinct (map key rows)" for j
    using find_sql_delete [OF that, of j p] assms
    by (cases "find (\<lambda>r. key r = j) rows") (auto simp: row_status_def same_handed_out_def handed_out_def)
  then show ?thesis by (simp add: rows_kept_def sql_delete_def distinct_map_filter)
qed

lemma row_id_fresh: "sql_max_id key rows + 1 \<notin> set (map key rows)"
  using sql_max_id_ge [of _ rows key] by fastforce

lemma kept_append:
  assumes "key x = sql_max_id key rows + 1" and "\<not> handed_out (status x)"
  shows "rows_kept key status rows (rows @ [x])"
proof -
  have x: "key x \<notin> set (map key rows)" using assms(1) row_id_fresh [of key rows] by simp
  have "same_handed_out (row_status key status rows j) (row_status key status (rows @ [x]) j)" for j
    using assms(2) by (auto simp: row_status_def find_append_key same_handed_out_def handed_out_def split: option.split)
  with x show ?thesis by (simp add: rows_kept_def)
qed

definition queues_kept :: "review_db \<Rightarrow> review_db \<Rightarrow> bool" where
  "queues_kept db db' \<longleftrightarrow> rows_kept em_id em_status (db_email_outbox db) (db_email_outbox db')
     \<and> rows_kept pw_id pw_status (db_patchwork_outbox db) (db_patchwork_outbox db')"

lemma queues_refl [simp]: "queues_kept db db"
  by (simp add: queues_kept_def)

lemma queues_trans [trans]: "queues_kept a b \<Longrightarrow> queues_kept b c \<Longrightarrow> queues_kept a c"
  unfolding queues_kept_def by (blast intro: kept_trans)

lemma queues_same:
  "db_email_outbox db' = db_email_outbox db \<Longrightarrow> db_patchwork_outbox db' = db_patchwork_outbox db \<Longrightarrow> queues_kept db db'"
  by (simp add: queues_kept_def)

text \<open>Most statements of the reviews do not touch the queues.\<close>

lemma same_queues [simp]:
  "db_email_outbox (update_patchsets p1 f1 db) = db_email_outbox db" "db_patchwork_outbox (update_patchsets p1 f1 db) = db_patchwork_outbox db"
  "db_email_outbox (update_patches p2 f2 db) = db_email_outbox db" "db_patchwork_outbox (update_patches p2 f2 db) = db_patchwork_outbox db"
  "db_email_outbox (update_reviews p3 f3 db) = db_email_outbox db" "db_patchwork_outbox (update_reviews p3 f3 db) = db_patchwork_outbox db"
  "db_email_outbox (set_active_gen pid g db) = db_email_outbox db" "db_patchwork_outbox (set_active_gen pid g db) = db_patchwork_outbox db"
  "db_email_outbox (delete_review_rows d db) = db_email_outbox db" "db_patchwork_outbox (delete_review_rows d db) = db_patchwork_outbox db"
  by (simp_all add: update_patchsets_def update_patches_def update_reviews_def set_active_gen_def delete_review_rows_def)

lemma unsent_not_handed_out: "status_in s unsent_email \<Longrightarrow> \<not> handed_out s"
  by (auto simp: status_in_def unsent_email_def handed_out_def)

lemma waiting_not_handed_out: "status_in s [''Pending'', ''Cancelled''] \<Longrightarrow> \<not> handed_out s"
  by (auto simp: status_in_def handed_out_def)

lemma queues_delete_emails: "(\<And>e. p e \<Longrightarrow> status_in (em_status e) unsent_email) \<Longrightarrow> queues_kept db (delete_emails p db)"
  by (simp add: queues_kept_def delete_emails_def kept_delete unsent_not_handed_out)

lemma queues_delete_checks: "(\<And>w. p w \<Longrightarrow> status_in (pw_status w) [''Pending'', ''Cancelled'']) \<Longrightarrow> queues_kept db (delete_checks p db)"
  by (simp add: queues_kept_def delete_checks_def kept_delete waiting_not_handed_out)

lemma queues_children: "queues_kept db (delete_aborted_review_children review db)"
proof -
  have "queues_kept db (delete_review_rows d db)" for d by (simp add: queues_same)
  then show ?thesis
    unfolding delete_aborted_review_children_def Let_def
    by (rule queues_trans [OF queues_trans [OF _ queues_delete_emails] queues_delete_checks]) simp_all
qed

lemma queues_fail_review: "queues_kept db (fail_review reason review db)"
  unfolding fail_review_def by (rule queues_trans [OF queues_children queues_same]) simp_all

lemma queues_fail_reviews: "queues_kept db (fold (fail_review reason) rids db)"
  by (induction rids arbitrary: db) (auto intro: queues_trans [OF queues_fail_review])

lemma queues_cancel_review: "queues_kept db (cancel_review reason review db)"
  unfolding cancel_review_def by (rule queues_trans [OF queues_children queues_same]) simp_all

lemma queues_update_reviews: "queues_kept db (update_reviews p f db)"
  by (simp add: queues_same)

lemma queues_clear: "clear_aborted_review_artifacts cl review db = Inr db' \<Longrightarrow> queues_kept db db'"
  by (auto simp: clear_aborted_review_artifacts_def Let_def split: if_splits intro: queues_trans [OF queues_update_reviews queues_children])

lemma queues_claim_pending: "claim_pending_review_id_in_tx cl pid patch db = Inr (db', r) \<Longrightarrow> queues_kept db db'"
  by (auto simp: claim_pending_review_id_in_tx_def split: option.splits sum.splits intro: queues_trans [OF queues_update_reviews queues_clear])

lemma queues_insert_review: "queues_kept db (fst (insert_review pid patch status db))"
  by (simp add: queues_same insert_review_def)

lemma same_queues_resolutions:
  "insert_resolutions cl review rs db = Inr db' \<Longrightarrow>
   db_email_outbox db' = db_email_outbox db \<and> db_patchwork_outbox db' = db_patchwork_outbox db"
  by (induction cl review rs db rule: insert_resolutions.induct) (auto simp: Let_def split: if_splits)

lemma queues_patch_status: "queues_kept db (update_patch_status cl patch status db)"
  by (simp add: update_patch_status_def queues_same)

lemma queues_write: "queues_kept db (apply_write cl w db)"
proof (cases w)
  case (Take_review pid patch)
  have "queues_kept db (fst x)" if "claim_or_create_in_review cl pid patch db = Inr x" for x
    using that queues_claim_pending [of cl pid patch db]
    by (auto simp: claim_or_create_in_review_def split: if_splits sum.splits option.splits intro: queues_trans [OF _ queues_insert_review])
  with Take_review show ?thesis by (cases "claim_or_create_in_review cl pid patch db") (simp_all add: committed_def)
next
  case (Take_pending pid patch)
  then show ?thesis
    by (cases "claim_pending_review_id_in_tx cl pid patch db")
      (auto simp: committed_def claim_pending_review_id_def dest!: queues_claim_pending)
next
  case (Clear_artifacts review)
  then show ?thesis by (cases "clear_aborted_review_artifacts cl review db") (simp_all add: committed_def queues_clear)
next
  case (Resolutions review rs)
  then show ?thesis
    by (cases "insert_prior_feedback_resolutions cl review rs db")
      (auto simp: committed_def insert_prior_feedback_resolutions_def split: if_splits dest!: same_queues_resolutions intro!: queues_same)
next
  case (Settle_panicked pid patch reason)
  note settled = queues_patch_status queues_trans [OF queues_fail_review queues_patch_status]
  show ?thesis using Settle_panicked by (simp add: settle_panicked_patch_review_def Let_def settled split: option.split)
next
  case (Fail_orphaned pid reason)
  then show ?thesis by (simp add: fail_orphaned_in_review_rows_def queues_fail_reviews)
qed (auto intro!: queues_same simp: complete_patchset_review_def Let_def update_patch_status_def update_patch_application_status_def
    update_review_status_def mark_review_in_review_if_active_def complete_review_def committed_def create_tool_usage_def
    update_tool_usage_length_def create_ai_interaction_def update_patchset_baseline_info_def
    create_finding_with_provenance_def insert_bug_review_def split: option.split)

lemma queues_cancel_outbox: "queues_kept db (cancel_outbox_for_patchset pid reason db)"
  unfolding queues_kept_def cancel_outbox_for_patchset_def Let_def
  by (auto simp: status_in_def handed_out_def intro!: kept_update)

lemma queues_cancel: "queues_kept db (fst (cancel_patchset pid force db))"
proof -
  have "queues_kept a (cancel_outbox_for_patchset pid reason b)"
    if "db_email_outbox b = db_email_outbox a" and "db_patchwork_outbox b = db_patchwork_outbox a" for a b reason
    by (rule queues_trans [OF queues_same queues_cancel_outbox]) (use that in simp_all)
  then show ?thesis unfolding cancel_patchset_def Let_def by simp
qed

lemma queues_reset: "queues_kept db (reset_patchset_review_state pid db)"
proof -
  have forge: "queues_kept a b \<Longrightarrow> queues_kept a (b\<lparr>db_forge_outbox := f\<rparr>)" for a b f
    by (simp add: queues_kept_def)
  have forget: "queues_kept a b \<Longrightarrow> queues_kept a (b\<lparr>db_reviews_max_id := m, db_reviews := r\<rparr>)" for a b m r
    by (simp add: queues_kept_def)
  show ?thesis
    unfolding reset_patchset_review_state_def Let_def
    by (rule forget forge queues_trans [OF _ queues_delete_checks] queues_trans [OF _ queues_delete_emails])+
      (auto simp: replaced_email_def replaced_check_def intro!: queues_same)
qed

lemma queues_rerun: "queues_kept db (rerun_patchset pid db)"
proof -
  have "queues_kept db (reset_patchset_review_state pid db1)"
    if "db_email_outbox db1 = db_email_outbox db" and "db_patchwork_outbox db1 = db_patchwork_outbox db" for db1
    by (rule queues_trans [OF queues_same queues_reset]) (use that in simp_all)
  then show ?thesis unfolding rerun_patchset_def Let_def by simp
qed

section \<open>Who else works on the queues\<close>

text \<open>
  The reviews, and whoever queues something: mail is queued with any status but those of the worker. Merging two copies of a series, which
  rewrites the rows of their mail, is not a step.
\<close>

inductive queue_step :: "review_db \<Rightarrow> review_db \<Rightarrow> bool" where
  review_write: "queue_step db (apply_write cl w db)"
| patchset_cancel: "queue_step db (fst (cancel_patchset pid force db))"
| review_cancel: "queue_step db (cancel_aborted_review review reason db)"
| pending_cancel: "queue_step db (cancel_pending_review_for_patch pid patch reason db)"
| patchset_rerun: "queue_step db (rerun_patchset pid db)"
| patchset_reset: "queue_step db (reset_patchset_review_state pid db)"
| review_mail: "\<not> handed_out (Some status) \<Longrightarrow>
    queue_step db (fst (insert_review_email_outbox claim now patch status txt disclose_for db))"
| patchwork_mail: "\<not> handed_out (Some status) \<Longrightarrow> queue_step db (insert_patchwork_notification now status txt db)"
| personal_mail: "\<not> handed_out (Some status) \<Longrightarrow> queue_step db (insert_transactional_email now kind status txt db)"
| check: "queue_step db (insert_patchwork_outbox claim msg api_url ctxt payload db)"

lemma same_queues_stamp [simp]:
  "db_email_outbox (stamp_disclosures_in now status d db) = db_email_outbox db"
  "db_patchwork_outbox (stamp_disclosures_in now status d db) = db_patchwork_outbox db"
  by (simp_all add: stamp_disclosures_in_def split: option.split)

lemma kept_set_one:
  assumes "distinct (map key rows)" and "r \<in> set rows" and "\<not> handed_out (status r)" and "\<And>x. key (f x) = key x" and "\<And>x. \<not> handed_out (status (f x))"
  shows "rows_kept key status rows (sql_update (\<lambda>x. key x = key r) f rows)"
proof -
  have "x = r" if "x \<in> set rows" and "key x = key r" for x
    using assms(1,2) that by (simp add: distinct_map inj_on_def)
  then have "sql_update (\<lambda>x. key x = key r) f rows = sql_update (\<lambda>x. key x = key r \<and> x = r) f rows"
    unfolding sql_update_def by (intro map_cong) auto
  with kept_update [of "\<lambda>x. key x = key r \<and> x = r" key f status rows] assms(3-5) show ?thesis by simp
qed

lemma kept_when: "(distinct (map key rows) \<Longrightarrow> rows_kept key status rows rows') \<Longrightarrow> rows_kept key status rows rows'"
  by (simp add: rows_kept_def)

lemma queues_append_plain: "\<not> handed_out (Some status) \<Longrightarrow> queues_kept db (append_plain_email now kind status txt db)"
  by (simp add: queues_kept_def append_plain_email_def kept_append next_email_id_def)

lemma queues_review_mail:
  assumes "\<not> handed_out (Some status)"
  shows "queues_kept db (fst (insert_review_email_outbox claim now patch status txt disclose_for db))"
proof (cases "\<not> is_patchset_claim_active_for_outbox claim None db \<or> patch_of_cancelled patch db")
  case False
  let ?mine = "filter (\<lambda>e. em_patch_id e = Some patch) (db_email_outbox db)"
  show ?thesis
  proof (cases "sql_latest em_id ?mine")
    case None
    with False assms show ?thesis
      by (simp add: insert_review_email_outbox_def queues_kept_def next_email_id_def kept_append)
  next
    case (Some old)
    have "rows_kept em_id em_status (db_email_outbox db) (sql_update (\<lambda>e. em_id e = em_id old)
        (\<lambda>e. e\<lparr>em_status := Some status, em_to_addresses := et_to txt, em_subject := et_subject txt,
           em_in_reply_to := et_in_reply_to txt, em_body := et_body txt, em_error_log := None\<rparr>) (db_email_outbox db))"
      if "status_in (em_status old) unsent_email"
      by (rule kept_when, rule kept_set_one)
        (use sql_latest_in [OF Some] unsent_not_handed_out [OF that] assms in simp_all)
    with False Some show ?thesis by (simp add: insert_review_email_outbox_def queues_kept_def update_emails_def)
  qed
qed (auto simp: insert_review_email_outbox_def)

lemma queues_check: "queues_kept db (insert_patchwork_outbox claim msg api_url ctxt payload db)"
proof (cases "\<not> is_patchset_claim_active_for_outbox claim None db \<or> message_cancelled msg db")
  case False
  let ?same = "filter (\<lambda>w. pw_patch_msg_id w = msg \<and> pw_api_url w = api_url \<and> pw_context w = ctxt) (db_patchwork_outbox db)"
  show ?thesis
  proof (cases "sql_latest pw_id ?same")
    case None
    with False show ?thesis by (simp add: insert_patchwork_outbox_def queues_kept_def kept_append handed_out_def)
  next
    case (Some old)
    have "rows_kept pw_id pw_status (db_patchwork_outbox db) (sql_update (\<lambda>w. pw_id w = pw_id old)
        (\<lambda>w. w\<lparr>pw_status := Some ''Pending'', pw_payload := payload, pw_retry_count := 0, pw_next_retry_at := None,
           pw_locked_at := None, pw_error_log := None\<rparr>) (db_patchwork_outbox db))"
      if "status_in (pw_status old) [''Pending'', ''Cancelled'']"
      by (rule kept_when, rule kept_set_one)
        (use sql_latest_in [OF Some] waiting_not_handed_out [OF that] in \<open>simp_all add: handed_out_def\<close>)
    with False Some show ?thesis by (simp add: insert_patchwork_outbox_def queues_kept_def update_checks_def)
  qed
qed (auto simp: insert_patchwork_outbox_def)

lemma queues_step: "queue_step db db' \<Longrightarrow> queues_kept db db'"
proof (induction rule: queue_step.induct)
  case (pending_cancel pid patch reason db)
  show ?case by (simp add: cancel_pending_review_for_patch_def queues_cancel_review split: option.split)
qed (simp_all add: queues_write queues_cancel cancel_aborted_review_def queues_cancel_review queues_rerun queues_reset queues_review_mail
    insert_patchwork_notification_def insert_transactional_email_def queues_append_plain queues_check)

section \<open>The two queues\<close>

lemma row_status_set_one:
  assumes "\<And>r. key (f r) = key r"
  shows "row_status key status (sql_update (\<lambda>r. key r = k) f rows) i =
     (if i = k then Option.bind (find (\<lambda>r. key r = k) rows) (\<lambda>r. status (f r)) else row_status key status rows i)"
proof (cases "find (\<lambda>r. key r = i) rows")
  case (Some r)
  then have "key r = i" by (auto simp: find_Some_iff)
  with Some assms find_sql_update [of "\<lambda>r. key r = k" key f i rows] show ?thesis by (auto simp: row_status_def)
qed (use assms find_sql_update [of "\<lambda>r. key r = k" key f i rows] in \<open>auto simp: row_status_def\<close>)

lemma find_the_row: "distinct (map key rows) \<Longrightarrow> r \<in> set rows \<Longrightarrow> find (\<lambda>x. key x = key r) rows = Some r"
  by (induction rows) (auto simp: find_key_none rev_image_eqI)

definition mail_lock :: "int \<Rightarrow> review_db \<Rightarrow> review_db \<times> int option" where
  "mail_lock now db = map_prod (\<lambda>d. d) (map_option em_id) (lock_pending_email now db)"

definition mail_give_up :: "int \<Rightarrow> review_db \<Rightarrow> review_db \<Rightarrow> bool" where
  "mail_give_up i db db' \<longleftrightarrow> (\<exists>e err. em_id e = i \<and> db' = settle_email e (Some err) db)"

definition mail_others :: "review_db \<Rightarrow> review_db \<Rightarrow> bool" where
  "mail_others db db' \<longleftrightarrow> queue_step db db' \<or> db_email_outbox db' = db_email_outbox db"

definition check_lock :: "int \<Rightarrow> review_db \<Rightarrow> review_db \<times> int option" where
  "check_lock now db = map_prod (\<lambda>d. d) (map_option pw_id) (lock_pending_patchwork now db)"

definition check_give_up :: "int \<Rightarrow> review_db \<Rightarrow> review_db \<Rightarrow> bool" where
  "check_give_up i db db' \<longleftrightarrow> (\<exists>max_retries now w err. pw_id w = i \<and> db' = settle_check max_retries now w (Some err) db)"

definition check_others :: "review_db \<Rightarrow> review_db \<Rightarrow> bool" where
  "check_others db db' \<longleftrightarrow> queue_step db db' \<or> db_patchwork_outbox db' = db_patchwork_outbox db"

text \<open>Marking a row changes its own status only; handing out a pending row makes it \<open>Sending\<close>.\<close>

lemma mark_row:
  assumes "\<And>r. key (f r) = key r"
  shows "map key (sql_update (\<lambda>r. key r = i) f rows) = map key rows"
    and "j \<noteq> i \<Longrightarrow> row_status key status (sql_update (\<lambda>r. key r = i) f rows) j = row_status key status rows j"
  using assms by (simp_all add: map_sql_update row_status_set_one)

lemma row_status_Some: "row_status key status rows i = Some s \<Longrightarrow> \<exists>r. find (\<lambda>r. key r = i) rows = Some r \<and> status r = Some s"
  by (cases "find (\<lambda>r. key r = i) rows") (auto simp: row_status_def)

lemma hand_out_row:
  assumes "distinct (map key rows0)" and keys: "map key rows = map key rows0" and kept: "rows_kept key status rows0 rows"
    and "find q rows = Some r" and "status r = Some ''Pending''" and f: "\<And>x. key (f x) = key x" "\<And>x. status (f x) = Some ''Sending''"
  defines "rows' \<equiv> sql_update (\<lambda>x. key x = key r) f rows"
  shows "map key rows' = map key rows0
      \<and> (\<forall>j. j \<noteq> key r \<longrightarrow> same_handed_out (row_status key status rows0 j) (row_status key status rows' j))
      \<and> row_status key status rows0 (key r) \<noteq> Some ''Sent'' \<and> row_status key status rows' (key r) = Some ''Sending''"
proof -
  have "r \<in> set rows" using assms(4) by (auto simp: find_Some_iff)
  with assms(1) keys have here: "find (\<lambda>x. key x = key r) rows = Some r" by (metis find_the_row)
  have "same_handed_out (row_status key status rows0 (key r)) (Some ''Pending'')"
    using kept assms(1,5) here by (auto simp: rows_kept_def row_status_def dest: spec [of _ "key r"])
  then have "row_status key status rows0 (key r) \<noteq> Some ''Sent''" by (auto simp: same_handed_out_def handed_out_def)
  with keys kept assms(1) f here show ?thesis
    by (simp add: rows'_def mark_row row_status_set_one rows_kept_def)
qed

lemma sweep_rows:
  assumes "\<And>r. p r \<Longrightarrow> key (f r) = key r \<and> status r = Some ''Sending'' \<and> status (f r) = Some ''Pending''"
  shows "map key (sql_update p f rows) = map key rows
    \<and> (row_status key status (sql_update p f rows) j = Some ''Sent'' \<longleftrightarrow> row_status key status rows j = Some ''Sent'')"
  using assms find_sql_update [of p key f j rows]
  by (cases "find (\<lambda>r. key r = j) rows") (auto simp: row_status_def map_sql_update)

lemma mail_lock_law:
  assumes "distinct (map em_id (db_email_outbox db))" and "mail_lock now db = (db', r)"
  shows "map em_id (db_email_outbox db') = map em_id (db_email_outbox db)
      \<and> (\<forall>j. r \<noteq> Some j \<longrightarrow> same_handed_out (row_status em_id em_status (db_email_outbox db) j) (row_status em_id em_status (db_email_outbox db') j))
      \<and> (\<forall>i. r = Some i \<longrightarrow> row_status em_id em_status (db_email_outbox db) i \<noteq> Some ''Sent''
           \<and> row_status em_id em_status (db_email_outbox db') i = Some ''Sending'')"
proof -
  define drop1 where "drop1 = (\<lambda>e::email_row. status_in (em_status e) [''Pending'', ''Embargoed'']
     \<and> (case em_patch_id e of Some patch \<Rightarrow> patch_of_cancelled patch db | None \<Rightarrow> False))"
  define drop2 where "drop2 = (\<lambda>e::email_row. em_status e = Some ''Pending'' \<and> em_kind e = ''sign_in_link'' \<and> em_created_at e < now - sign_in_link_lifetime_seconds)"
  define f1 where "f1 = (\<lambda>e::email_row. e\<lparr>em_status := Some ''Cancelled'', em_error_log := Some ''Cancelled because patchset was cancelled'', em_locked_at := None\<rparr>)"
  define f2 where "f2 = (\<lambda>e::email_row. e\<lparr>em_status := Some ''Cancelled'',
     em_error_log := Some ''Cancelled because sign-in link expired before delivery'', em_locked_at := None\<rparr>)"
  define hand where "hand = (\<lambda>e::email_row. e\<lparr>em_status := Some ''Sending'', em_locked_at := Some now\<rparr>)"
  let ?mid = "sql_update drop1 f1 (db_email_outbox db)"
  let ?rows = "sql_update drop2 f2 ?mid"
  have 1: "rows_kept em_id em_status (db_email_outbox db) ?mid"
    by (rule kept_update) (auto simp: drop1_def f1_def status_in_def handed_out_def)
  have 2: "rows_kept em_id em_status ?mid ?rows"
    by (rule kept_update) (auto simp: drop2_def f2_def handed_out_def)
  note kept = kept_trans [OF 1 2]
  have keys: "map em_id ?rows = map em_id (db_email_outbox db)" by (simp add: map_sql_update f1_def f2_def)
  have lock: "mail_lock now db = (case find (\<lambda>e. em_status e = Some ''Pending'') ?rows of
      None \<Rightarrow> (db\<lparr>db_email_outbox := ?rows\<rparr>, None)
    | Some e \<Rightarrow> (db\<lparr>db_email_outbox := sql_update (\<lambda>x. em_id x = em_id e) hand ?rows\<rparr>, Some (em_id e)))"
    unfolding mail_lock_def lock_pending_email_def update_emails_def drop1_def drop2_def f1_def f2_def hand_def
    by (simp add: Let_def split: option.split)
  show ?thesis
  proof (cases "find (\<lambda>e. em_status e = Some ''Pending'') ?rows")
    case None
    with lock assms kept keys show ?thesis by (auto simp: rows_kept_def)
  next
    case (Some e)
    then have "em_status e = Some ''Pending''" by (auto simp: find_Some_iff)
    from hand_out_row [OF assms(1) keys kept Some this, of hand] Some lock assms(2)
    show ?thesis by (auto simp: hand_def)
  qed
qed

lemma check_lock_law:
  assumes "distinct (map pw_id (db_patchwork_outbox db))" and "check_lock now db = (db', r)"
  shows "map pw_id (db_patchwork_outbox db') = map pw_id (db_patchwork_outbox db)
      \<and> (\<forall>j. r \<noteq> Some j \<longrightarrow> same_handed_out (row_status pw_id pw_status (db_patchwork_outbox db) j) (row_status pw_id pw_status (db_patchwork_outbox db') j))
      \<and> (\<forall>i. r = Some i \<longrightarrow> row_status pw_id pw_status (db_patchwork_outbox db) i \<noteq> Some ''Sent''
           \<and> row_status pw_id pw_status (db_patchwork_outbox db') i = Some ''Sending'')"
proof -
  define dropped where "dropped = (\<lambda>w::patchwork_row. pw_status w = Some ''Pending''
     \<and> list_ex (\<lambda>p. pa_message_id p = pw_patch_msg_id w \<and> patchset_cancelled (pa_patchset_id p) db) (db_patches db))"
  define f where "f = (\<lambda>w::patchwork_row. w\<lparr>pw_status := Some ''Cancelled'', pw_error_log := Some ''Cancelled because patchset was cancelled'', pw_locked_at := None\<rparr>)"
  define hand where "hand = (\<lambda>w::patchwork_row. w\<lparr>pw_status := Some ''Sending'', pw_locked_at := Some now\<rparr>)"
  let ?rows = "sql_update dropped f (db_patchwork_outbox db)"
  let ?q = "\<lambda>w. pw_status w = Some ''Pending'' \<and> due now (pw_next_retry_at w)"
  have kept: "rows_kept pw_id pw_status (db_patchwork_outbox db) ?rows"
    by (rule kept_update) (auto simp: dropped_def f_def handed_out_def)
  have keys: "map pw_id ?rows = map pw_id (db_patchwork_outbox db)" by (simp add: map_sql_update f_def)
  have lock: "check_lock now db = (case find ?q ?rows of
      None \<Rightarrow> (db\<lparr>db_patchwork_outbox := ?rows\<rparr>, None)
    | Some w \<Rightarrow> (db\<lparr>db_patchwork_outbox := sql_update (\<lambda>x. pw_id x = pw_id w) hand ?rows\<rparr>, Some (pw_id w)))"
    unfolding check_lock_def lock_pending_patchwork_def update_checks_def dropped_def f_def hand_def
    by (simp add: Let_def split: option.split)
  show ?thesis
  proof (cases "find ?q ?rows")
    case None
    with lock assms kept keys show ?thesis by (auto simp: rows_kept_def)
  next
    case (Some w)
    then have "pw_status w = Some ''Pending''" by (auto simp: find_Some_iff)
    from hand_out_row [OF assms(1) keys kept Some this, of hand] Some lock assms(2)
    show ?thesis by (auto simp: hand_def)
  qed
qed

lemma marked_sent:
  assumes "row_status key status rows i = Some s" and "\<And>r. key (f r) = key r" and "\<And>r. status (f r) = Some ''Sent''"
  shows "row_status key status (sql_update (\<lambda>r. key r = i) f rows) i = Some ''Sent''"
  using row_status_Some [OF assms(1)] assms(2,3) by (auto simp: row_status_set_one)


interpretation mail_queue: delivery_queue em_id em_status db_email_outbox sweep_ghost_emails mail_lock mark_email_sent mail_give_up mail_others
proof
  fix db db' j now i r
  show "map em_id (db_email_outbox (sweep_ghost_emails now db)) = map em_id (db_email_outbox db)
      \<and> (row_status em_id em_status (db_email_outbox (sweep_ghost_emails now db)) j = Some ''Sent''
         \<longleftrightarrow> row_status em_id em_status (db_email_outbox db) j = Some ''Sent'')"
    unfolding sweep_ghost_emails_def update_emails_def by (simp, rule sweep_rows) simp
  show "row_status em_id em_status (db_email_outbox db) i = Some ''Sending'' \<Longrightarrow>
      map em_id (db_email_outbox (mark_email_sent i db)) = map em_id (db_email_outbox db)
      \<and> row_status em_id em_status (db_email_outbox (mark_email_sent i db)) i = Some ''Sent''
      \<and> (\<forall>j. j \<noteq> i \<longrightarrow> row_status em_id em_status (db_email_outbox (mark_email_sent i db)) j = row_status em_id em_status (db_email_outbox db) j)"
    by (simp add: mark_email_sent_def update_emails_def mark_row marked_sent)
  show "mail_give_up i db db' \<Longrightarrow> map em_id (db_email_outbox db') = map em_id (db_email_outbox db)
      \<and> (\<forall>j. j \<noteq> i \<longrightarrow> row_status em_id em_status (db_email_outbox db') j = row_status em_id em_status (db_email_outbox db) j)"
    by (auto simp: mail_give_up_def settle_email_def mark_email_failed_def update_emails_def mark_row)
  show "distinct (map em_id (db_email_outbox db)) \<Longrightarrow> mail_others db db' \<Longrightarrow> distinct (map em_id (db_email_outbox db'))
      \<and> same_handed_out (row_status em_id em_status (db_email_outbox db) j) (row_status em_id em_status (db_email_outbox db') j)"
    using queues_step [of db db'] by (auto simp: mail_others_def queues_kept_def rows_kept_def)
qed (rule mail_lock_law)

interpretation check_queue:
  delivery_queue pw_id pw_status db_patchwork_outbox sweep_ghost_patchwork check_lock mark_patchwork_sent check_give_up check_others
proof
  fix db db' j now i r
  show "map pw_id (db_patchwork_outbox (sweep_ghost_patchwork now db)) = map pw_id (db_patchwork_outbox db)
      \<and> (row_status pw_id pw_status (db_patchwork_outbox (sweep_ghost_patchwork now db)) j = Some ''Sent''
         \<longleftrightarrow> row_status pw_id pw_status (db_patchwork_outbox db) j = Some ''Sent'')"
    unfolding sweep_ghost_patchwork_def update_checks_def by (simp, rule sweep_rows) simp
  show "row_status pw_id pw_status (db_patchwork_outbox db) i = Some ''Sending'' \<Longrightarrow>
      map pw_id (db_patchwork_outbox (mark_patchwork_sent i db)) = map pw_id (db_patchwork_outbox db)
      \<and> row_status pw_id pw_status (db_patchwork_outbox (mark_patchwork_sent i db)) i = Some ''Sent''
      \<and> (\<forall>j. j \<noteq> i \<longrightarrow> row_status pw_id pw_status (db_patchwork_outbox (mark_patchwork_sent i db)) j = row_status pw_id pw_status (db_patchwork_outbox db) j)"
    by (simp add: mark_patchwork_sent_def update_checks_def mark_row marked_sent)
  show "check_give_up i db db' \<Longrightarrow> map pw_id (db_patchwork_outbox db') = map pw_id (db_patchwork_outbox db)
      \<and> (\<forall>j. j \<noteq> i \<longrightarrow> row_status pw_id pw_status (db_patchwork_outbox db') j = row_status pw_id pw_status (db_patchwork_outbox db) j)"
    by (auto simp: check_give_up_def settle_check_def mark_patchwork_failed_def set_patchwork_retry_at_def update_checks_def mark_row)
  show "distinct (map pw_id (db_patchwork_outbox db)) \<Longrightarrow> check_others db db' \<Longrightarrow> distinct (map pw_id (db_patchwork_outbox db'))
      \<and> same_handed_out (row_status pw_id pw_status (db_patchwork_outbox db) j) (row_status pw_id pw_status (db_patchwork_outbox db') j)"
    using queues_step [of db db'] by (auto simp: check_others_def queues_kept_def rows_kept_def)
qed (rule check_lock_law)

text \<open>
  C3. The transport accepts a mail once, and once more for each time that the note of its delivery was lost. Whatever is queued, cancelled and run
  again between the steps of the worker: every accepted delivery of a row is one whose mark failed (or whose worker died before
  it), but for at most one, and then the row says \<open>Sent\<close> or the worker is about to say so. So as long as no mark is lost, no mail is
  accepted twice.
\<close>

theorem mail_delivered_once:
  assumes "deliver_run sweep_ghost_emails mail_lock mark_email_sent mail_give_up mail_others (delivery_start db) s"
    and "distinct (map em_id (db_email_outbox db))"
  shows "(\<forall>i. count_list (dv_log s) i \<le> count_list (dv_lost s) i
        + (if row_status em_id em_status (db_email_outbox (dv_db s)) i = Some ''Sent'' \<or> dv_task s = Sent_out i then 1 else 0))
    \<and> (dv_lost s \<noteq> [] \<or> distinct (dv_log s))"
  using mail_queue.delivered_once [OF assms] by blast

definition example_mail :: email_row where
  "example_mail = \<lparr>em_id = 1, em_patch_id = Some 10, em_kind = ''review_notification'', em_status = Some ''Pending'', em_to_addresses = ''a@b'',
     em_subject = ''s'', em_in_reply_to = [], em_body = ''b'', em_created_at = 0, em_locked_at = None, em_error_log = None\<rparr>"

definition example_queue :: review_db where
  "example_queue = example_db\<lparr>db_email_outbox := [example_mail]\<rparr>"

definition example_taken :: delivery where
  "example_taken = \<lparr>dv_db = example_queue\<lparr>db_email_outbox := [example_mail\<lparr>em_status := Some ''Sending'', em_locked_at := Some 5\<rparr>]\<rparr>,
     dv_task = Sends 1, dv_log = [], dv_lost = []\<rparr>"

lemma example_takes:
  "deliver_run sweep_ghost_emails mail_lock mark_email_sent mail_give_up mail_others (delivery_start example_queue) example_taken"
proof -
  let ?s = "delivery_start example_queue"
  have "mail_lock 5 (dv_db ?s) = (dv_db example_taken, Some 1)"
    by (simp add: mail_lock_def lock_pending_email_def update_emails_def sql_update_def example_queue_def delivery_start_def
        example_mail_def example_taken_def example_db_def example_patchset_def patch_of_cancelled_def patchset_cancelled_def
        patchset_has_status_def status_in_def Let_def)
  from deliver_run.step [OF deliver_run.start
      deliver_step.takes [where s = ?s and lock = mail_lock and now = 5, OF _ this]]
  show ?thesis by (simp add: example_taken_def delivery_start_def)
qed

theorem mail_delivered_once_witness:
  "\<exists>s. deliver_run sweep_ghost_emails mail_lock mark_email_sent mail_give_up mail_others (delivery_start example_queue) s
     \<and> dv_log s = [1] \<and> row_status em_id em_status (db_email_outbox (dv_db s)) 1 = Some ''Sent''"
proof -
  let ?s1 = "example_taken\<lparr>dv_task := Sent_out 1, dv_log := [1]\<rparr>"
  let ?s = "?s1\<lparr>dv_db := mark_email_sent 1 (dv_db ?s1), dv_task := Free\<rparr>"
  have "deliver_run sweep_ghost_emails mail_lock mark_email_sent mail_give_up mail_others (delivery_start example_queue) ?s1"
    using deliver_run.step [OF example_takes deliver_step.accepted [of example_taken 1]] by (simp add: example_taken_def)
  then have run: "deliver_run sweep_ghost_emails mail_lock mark_email_sent mail_give_up mail_others (delivery_start example_queue) ?s"
    by (rule deliver_run.step) (use deliver_step.marked [of ?s1 1] in simp)
  moreover have "distinct (map em_id (db_email_outbox example_queue))" by (simp add: example_queue_def)
  ultimately have "row_status em_id em_status (db_email_outbox (dv_db ?s)) 1 = Some ''Sent''"
    using mail_delivered_once [of example_queue ?s] by (auto simp: example_taken_def dest: spec [of _ 1] split: if_splits)
  with run show ?thesis by fastforce
qed

text \<open>
  The same holds of the Patchwork checks: a check is posted once, and once more for each time that the note of it was lost.
\<close>

theorem check_posted_once:
  assumes "deliver_run sweep_ghost_patchwork check_lock mark_patchwork_sent check_give_up check_others (delivery_start db) s"
    and "distinct (map pw_id (db_patchwork_outbox db))"
  shows "(\<forall>i. count_list (dv_log s) i \<le> count_list (dv_lost s) i
        + (if row_status pw_id pw_status (db_patchwork_outbox (dv_db s)) i = Some ''Sent'' \<or> dv_task s = Sent_out i then 1 else 0))
    \<and> (dv_lost s \<noteq> [] \<or> distinct (dv_log s))"
  using check_queue.delivered_once [OF assms] by blast

theorem check_posted_once_witness:
  "\<exists>s. deliver_run sweep_ghost_patchwork check_lock mark_patchwork_sent check_give_up check_others (delivery_start example_db) s
     \<and> distinct (dv_log s)"
  using check_posted_once [OF deliver_run.start, of example_db] deliver_run.start
  by (fastforce simp: example_db_def delivery_start_def)

section \<open>The time a mail is in the hands of the worker\<close>

lemma in_update: "r \<in> set rows \<Longrightarrow> \<not> p r \<Longrightarrow> r \<in> set (sql_update p f rows)"
  by (force simp: set_sql_update)

lemma in_updated: "r \<in> set rows \<Longrightarrow> p r \<Longrightarrow> f r \<in> set (sql_update p f rows)"
  by (force simp: set_sql_update)

lemma locked_row:
  assumes "lock_pending_email now db = (db', Some e)"
  shows "e \<in> set (db_email_outbox db')" "em_status e = Some ''Sending''" "em_locked_at e = Some now"
proof -
  show "e \<in> set (db_email_outbox db')"
    using assms by (auto simp: lock_pending_email_def Let_def update_emails_def find_Some_iff split: option.splits intro!: in_updated)
  show "em_status e = Some ''Sending''" "em_locked_at e = Some now"
    using assms by (auto simp: lock_pending_email_def Let_def split: option.splits)
qed

text \<open>
  C36. The time a mail is in the hands of the worker. All its attempts end within 186 seconds, and up to 600 seconds after the row was taken
  no sweep touches it. Settled in that time, the row says \<open>Sent\<close> or \<open>Failed\<close> by the outcome of the last attempt, and no later sweep takes it up
  again. If the outcome was not recorded, every sweep after more than 600 seconds puts the row back in the queue.
\<close>

theorem sending_beats_sweep:
  assumes "lock_pending_email now db = (db', Some e)" and "\<And>n. 0 \<le> fst (send n)" and "send_attempts send 1 = (r, seconds)"
  shows "seconds \<le> 186 \<and> seconds < ghost_age
    \<and> (if t \<le> now + ghost_age then e \<in> set (db_email_outbox (sweep_ghost_emails t db'))
       else e\<lparr>em_status := Some ''Pending'', em_locked_at := None\<rparr> \<in> set (db_email_outbox (sweep_ghost_emails t db')))
    \<and> (let e' = (case r of None \<Rightarrow> e\<lparr>em_status := Some ''Sent'', em_locked_at := None\<rparr>
                 | Some err \<Rightarrow> e\<lparr>em_status := Some ''Failed'', em_error_log := Some (se_text err), em_locked_at := None\<rparr>)
       in e' \<in> set (db_email_outbox (settle_email e r db')) \<and> e' \<in> set (db_email_outbox (sweep_ghost_emails t (settle_email e r db'))))"
proof -
  note row = locked_row [OF assms(1)]
  have "seconds \<le> 186" using send_time [of send, OF assms(2)] assms(3) by simp
  moreover have "if t \<le> now + ghost_age then e \<in> set (db_email_outbox (sweep_ghost_emails t db'))
       else e\<lparr>em_status := Some ''Pending'', em_locked_at := None\<rparr> \<in> set (db_email_outbox (sweep_ghost_emails t db'))"
    using row by (auto simp: sweep_ghost_emails_def update_emails_def older_than_def intro: in_update in_updated)
  moreover have settled: "(case r of None \<Rightarrow> e\<lparr>em_status := Some ''Sent'', em_locked_at := None\<rparr>
      | Some err \<Rightarrow> e\<lparr>em_status := Some ''Failed'', em_error_log := Some (se_text err), em_locked_at := None\<rparr>)
      \<in> set (db_email_outbox (settle_email e r db'))"
    using row(1) by (auto simp: settle_email_def mark_email_sent_def mark_email_failed_def update_emails_def split: option.split
        intro: in_updated [of e _ "\<lambda>x. em_id x = em_id e", OF _ refl])
  moreover have "(case r of None \<Rightarrow> e\<lparr>em_status := Some ''Sent'', em_locked_at := None\<rparr>
      | Some err \<Rightarrow> e\<lparr>em_status := Some ''Failed'', em_error_log := Some (se_text err), em_locked_at := None\<rparr>)
      \<in> set (db_email_outbox (sweep_ghost_emails t (settle_email e r db')))"
    unfolding sweep_ghost_emails_def update_emails_def
    using settled by (simp, intro in_update) (simp_all split: option.split)
  ultimately show ?thesis by (simp add: Let_def ghost_age_def)
qed

theorem sending_beats_sweep_witness:
  "snd (send_attempts (\<lambda>n. (59, Refused (plain_send_error ''Connection error''))) 1) \<le> 186
   \<and> example_mail\<lparr>em_status := Some ''Sending'', em_locked_at := Some 5\<rparr>
       \<in> set (db_email_outbox (sweep_ghost_emails 605 (fst (lock_pending_email 5 example_queue))))"
proof -
  let ?e = "example_mail\<lparr>em_status := Some ''Sending'', em_locked_at := Some 5\<rparr>"
  let ?send = "\<lambda>n. (59, Refused (plain_send_error ''Connection error''))"
  have lock: "lock_pending_email 5 example_queue = (fst (lock_pending_email 5 example_queue), Some ?e)"
    by (simp add: lock_pending_email_def update_emails_def sql_update_def example_queue_def
        example_mail_def example_db_def example_patchset_def patch_of_cancelled_def patchset_cancelled_def
        patchset_has_status_def status_in_def Let_def)
  have "send_attempts ?send 1 = (fst (send_attempts ?send 1), snd (send_attempts ?send 1))" by simp
  from sending_beats_sweep [OF lock _ this, of 605] show ?thesis by (simp add: ghost_age_def)
qed

lemma survivor: "x \<in> set (sql_update p f rows) \<Longrightarrow> Q x \<Longrightarrow> (\<And>r. \<not> Q (f r)) \<Longrightarrow> x \<in> set rows \<and> \<not> p x"
  by (simp add: set_sql_update) metis

lemma find_found: "find q rows = Some x \<Longrightarrow> x \<in> set rows \<and> q x"
  by (auto simp: find_Some_iff)

text \<open>What the worker is handed is a mail that waited unchanged, of no cancelled series, and no sign-in link that has run out.\<close>

theorem handed_out_mail_fit:
  assumes "lock_pending_email now db = (db', Some e)"
  shows "\<exists>old \<in> set (db_email_outbox db). em_status old = Some ''Pending'' \<and> e = old\<lparr>em_status := Some ''Sending'', em_locked_at := Some now\<rparr>
     \<and> (case em_patch_id old of Some patch \<Rightarrow> \<not> patch_of_cancelled patch db | None \<Rightarrow> True)
     \<and> \<not> (em_kind old = ''sign_in_link'' \<and> em_created_at old < now - sign_in_link_lifetime_seconds)"
proof -
  obtain old where found: "find (\<lambda>e. em_status e = Some ''Pending'') (db_email_outbox (update_emails
        (\<lambda>e. em_status e = Some ''Pending'' \<and> em_kind e = ''sign_in_link'' \<and> em_created_at e < now - sign_in_link_lifetime_seconds)
        (\<lambda>e. e\<lparr>em_status := Some ''Cancelled'', em_error_log := Some ''Cancelled because sign-in link expired before delivery'', em_locked_at := None\<rparr>)
        (update_emails (\<lambda>e. status_in (em_status e) [''Pending'', ''Embargoed'']
             \<and> (case em_patch_id e of Some patch \<Rightarrow> patch_of_cancelled patch db | None \<Rightarrow> False))
           (\<lambda>e. e\<lparr>em_status := Some ''Cancelled'', em_error_log := Some ''Cancelled because patchset was cancelled'', em_locked_at := None\<rparr>) db))) = Some old"
    and e: "e = old\<lparr>em_status := Some ''Sending'', em_locked_at := Some now\<rparr>"
    using assms by (auto simp: lock_pending_email_def Let_def split: option.splits)
  note pending = find_found [OF found, unfolded update_emails_def, simplified]
  note fresh = survivor [OF pending [THEN conjunct1], where Q = "\<lambda>e. em_status e = Some ''Pending''", OF pending [THEN conjunct2], simplified]
  note kept = survivor [OF fresh [THEN conjunct1], where Q = "\<lambda>e. em_status e = Some ''Pending''", OF pending [THEN conjunct2], simplified]
  have "\<not> (case em_patch_id old of Some patch \<Rightarrow> patch_of_cancelled patch db | None \<Rightarrow> False)"
    using kept pending by (simp add: status_in_def)
  with kept fresh pending e show ?thesis by (auto split: option.splits intro!: bexI [of _ old])
qed

theorem handed_out_mail_fit_witness:
  "\<exists>old \<in> set (db_email_outbox example_queue). em_status old = Some ''Pending''
     \<and> snd (lock_pending_email 5 example_queue) = Some (old\<lparr>em_status := Some ''Sending'', em_locked_at := Some 5\<rparr>)"
proof -
  have "lock_pending_email 5 example_queue
      = (fst (lock_pending_email 5 example_queue), Some (example_mail\<lparr>em_status := Some ''Sending'', em_locked_at := Some 5\<rparr>))"
    by (simp add: lock_pending_email_def update_emails_def sql_update_def example_queue_def
        example_mail_def example_db_def example_patchset_def patch_of_cancelled_def patchset_cancelled_def
        patchset_has_status_def status_in_def Let_def)
  from handed_out_mail_fit [OF this] this show ?thesis by (metis snd_conv)
qed

end
