(* ===== verification/PatchReview.thy ===== *)
theory PatchReview
  imports Outbox Truncator
begin

text \<open>
  The review of one patch by a worker, and of the patches of a series (\<open>src/src/reviewer.rs\<close>): which patches are left out, the attempts at
  a review with what each writes to the database, the containment of a panic, the worker loop over the queue of patches, and the
  status the series gets. The database is that of \<open>ReviewTable\<close>; between any two statements of the worker others may change it, and
  any statement may fail in the engine: a script says what happens before each. Parameters are the review tool (one result for each
  run), what the policy makes of a review (the mails and checks to be queued, and the comment on a merge request), and the regular expression engine. Whether a review is embargoed is
  decided once for each patch. Candidates for bugs, the ledger of interactions, the reservation of related bugs, and the immediate release of the
  results of a clean series under embargo, none of which changes what happens to the review, are left out; so are the further workers that
  share the queue when permits are free, whose writes are among those of others.
\<close>

section \<open>Statements in a shared database\<close>

datatype disturbance = Quiet | Others "review_db \<Rightarrow> review_db" | Faulty

record world =
  w_db :: review_db
  w_script :: "disturbance list"
  w_runs :: nat

datatype failure = Db_fault | Superseded_error review_error | Panicked string

type_synonym 'a op = "world \<Rightarrow> world \<times> (failure + 'a)"

definition guarded :: "(review_db \<Rightarrow> review_error + (review_db \<times> 'a)) \<Rightarrow> 'a op" where
  "guarded f w =
     (let run = (\<lambda>db ds. case f db of
                   Inl e \<Rightarrow> (w\<lparr>w_db := db, w_script := ds\<rparr>, Inl (Superseded_error e))
                 | Inr (db', a) \<Rightarrow> (w\<lparr>w_db := db', w_script := ds\<rparr>, Inr a))
      in case w_script w of
           [] \<Rightarrow> run (w_db w) []
         | Quiet # ds \<Rightarrow> run (w_db w) ds
         | Others g # ds \<Rightarrow> run (g (w_db w)) ds
         | Faulty # ds \<Rightarrow> (w\<lparr>w_script := ds\<rparr>, Inl Db_fault))"

definition access :: "(review_db \<Rightarrow> review_db \<times> 'a) \<Rightarrow> 'a op" where
  "access f = guarded (\<lambda>db. Inr (f db))"

definition change :: "(review_db \<Rightarrow> review_db) \<Rightarrow> unit op" where
  "change f = access (\<lambda>db. (f db, ()))"

definition look :: "(review_db \<Rightarrow> 'a) \<Rightarrow> 'a op" where
  "look f = access (\<lambda>db. (db, f db))"

text \<open>\<open>?\<close>: an error ends the function.\<close>

definition seq :: "'a op \<Rightarrow> ('a \<Rightarrow> 'b op) \<Rightarrow> 'b op" where
  "seq m k w = (case m w of (w', Inl e) \<Rightarrow> (w', Inl e) | (w', Inr a) \<Rightarrow> k a w')"

definition give :: "'a \<Rightarrow> 'a op" where
  "give a w = (w, Inr a)"

text \<open>An error that is only logged.\<close>

definition logged :: "'a op \<Rightarrow> unit op" where
  "logged m w = (case m w of (w', Inl (Panicked t)) \<Rightarrow> (w', Inl (Panicked t)) | (w', _) \<Rightarrow> (w', Inr ()))"

text \<open>The writes that are tried three times; an error that says that the row or the claim is gone is final.\<close>

definition db_write_attempts :: nat where "db_write_attempts = 3"

fun retried :: "nat \<Rightarrow> 'a op \<Rightarrow> 'a op" where
  "retried 0 m w = (w, Inl Db_fault)"
| "retried (Suc n) m w = (case m w of (w', Inl Db_fault) \<Rightarrow> if n = 0 then (w', Inl Db_fault) else retried n m w' | r \<Rightarrow> r)"

datatype patch_result = Success | Review_failed | Cancelled_review

text \<open>\<open>is_deleted_review_error\<close>: the review was cancelled or replaced, and the worker stops without a word.\<close>

definition or_cancelled :: "'a op \<Rightarrow> ('a \<Rightarrow> patch_result op) \<Rightarrow> patch_result op" where
  "or_cancelled m k w =
     (case m w of (w', Inl (Superseded_error e)) \<Rightarrow> (w', Inr Cancelled_review) | (w', Inl e) \<Rightarrow> (w', Inl e) | (w', Inr a) \<Rightarrow> k a w')"

section \<open>What the review tool returns\<close>

text \<open>Of the output: whether the patch applied, its error, and the content of the review, which may be missing or null.\<close>

record finding_json =
  fj_payload :: string
  fj_preexisting :: "bool option"

record review_content =
  rc_findings :: "finding_json list"
  rc_resolutions :: "(string \<times> string) list"

record tool_output =
  to_target_applied :: bool
  to_error :: "string option"
  to_review :: "review_content option option"
  to_inline_review :: "string option"
  to_interaction_id :: "string option"

datatype tool_result = Output tool_output | Tool_cancelled | Tool_budget_exceeded string | Tool_failed string | Tool_panicked string

text \<open>What is queued for a review, as the policy and the recipients have it.\<close>

datatype outgoing =
    Out_mail int string email_text "string option"
  | Out_notice int string email_text
  | Out_check string string string string

record review_ctx =
  cx_claim :: "patchset_review_claim option"
  cx_patchset_id :: int
  cx_patch_id :: int
  cx_target_review_count :: nat
  cx_max_retries :: nat
  cx_no_ai :: bool
  cx_linux_bug_enabled :: bool
  cx_only_ignored_files :: bool
  cx_embargoed :: bool
  cx_stored_inline :: "review_row \<Rightarrow> bool"
  cx_notify :: "outgoing list"
  cx_comment :: "review_db \<Rightarrow> (string \<times> int \<times> string \<times> string) option"
  cx_incomplete_marker :: string

section \<open>One patch\<close>

definition check_patchset_claim_active :: "review_ctx \<Rightarrow> bool op" where
  "check_patchset_claim_active cx =
     retried db_write_attempts (look (is_patchset_claim_active (cx_claim cx) (cx_patchset_id cx)))"

definition cancel_reason :: string where "cancel_reason = ''Cancelled because patchset was superseded or cancelled''"

definition set_patch_status :: "review_ctx \<Rightarrow> string \<Rightarrow> unit op" where
  "set_patch_status cx status = change (update_patch_status (cx_claim cx) (cx_patch_id cx) status)"

fun queue_outgoing :: "review_ctx \<Rightarrow> outgoing \<Rightarrow> review_db \<Rightarrow> review_db" where
  "queue_outgoing cx (Out_mail now status txt disclose_for) db =
     fst (insert_review_email_outbox (cx_claim cx) now (cx_patch_id cx) status txt disclose_for db)"
| "queue_outgoing cx (Out_notice now status txt) db = insert_patchwork_notification now status txt db"
| "queue_outgoing cx (Out_check msg api_url ctxt payload) db = insert_patchwork_outbox (cx_claim cx) msg api_url ctxt payload db"

fun queue_notifications :: "review_ctx \<Rightarrow> outgoing list \<Rightarrow> unit op" where
  "queue_notifications cx [] = give ()"
| "queue_notifications cx (x # xs) = seq (change (queue_outgoing cx x)) (\<lambda>_. queue_notifications cx xs)"

definition queue_notifications_with_retry :: "review_ctx \<Rightarrow> unit op" where
  "queue_notifications_with_retry cx = retried db_write_attempts (queue_notifications cx (cx_notify cx))"

definition complete_review_with_retry :: "review_ctx \<Rightarrow> int \<Rightarrow> string \<Rightarrow> string \<Rightarrow> string option \<Rightarrow> unit op" where
  "complete_review_with_retry cx review status result interaction =
     retried db_write_attempts
       (guarded (\<lambda>db. map_sum (\<lambda>e. e) (\<lambda>db'. (db', ())) (complete_review (cx_claim cx) review status result interaction db)))"

definition stop_cancelled :: "review_ctx \<Rightarrow> int option \<Rightarrow> patch_result op" where
  "stop_cancelled cx review =
     seq (logged (case review of
            Some rid \<Rightarrow> change (cancel_aborted_review rid cancel_reason)
          | None \<Rightarrow> change (cancel_pending_review_for_patch (cx_patchset_id cx) (Some (cx_patch_id cx)) cancel_reason)))
       (\<lambda>_. seq (logged (set_patch_status cx ''Cancelled'')) (\<lambda>_. give Cancelled_review))"

text \<open>The row that the attempt writes to: the one of the attempt before, cleared, or one taken up or created.\<close>

definition take_review :: "review_ctx \<Rightarrow> int option \<Rightarrow> int op" where
  "take_review cx existing =
     (case existing of
        Some rid \<Rightarrow> guarded (\<lambda>db. map_sum (\<lambda>e. e) (\<lambda>db'. (db', rid)) (clear_aborted_review_artifacts (cx_claim cx) rid db))
      | None \<Rightarrow> guarded (claim_or_create_in_review (cx_claim cx) (cx_patchset_id cx) (Some (cx_patch_id cx))))"

fun save_findings :: "review_ctx \<Rightarrow> int \<Rightarrow> finding_json list \<Rightarrow> unit op" where
  "save_findings cx review [] = give ()"
| "save_findings cx review (f # fs) =
     (if fj_preexisting f = Some True \<and> \<not> cx_linux_bug_enabled cx then save_findings cx review fs
      else seq (guarded (\<lambda>db. map_sum (\<lambda>e. e) (\<lambda>db'. (db', ())) (create_finding_with_provenance (cx_claim cx) review (fj_payload f) db)))
             (\<lambda>_. save_findings cx review fs))"

definition save_resolutions :: "review_ctx \<Rightarrow> int \<Rightarrow> (string \<times> string) list \<Rightarrow> unit op" where
  "save_resolutions cx review rs =
     (if rs = [] then give ()
      else guarded (\<lambda>db. map_sum (\<lambda>e. e) (\<lambda>db'. (db', ())) (insert_prior_feedback_resolutions (cx_claim cx) review rs db)))"

text \<open>
  An attempt ends the review, or was unsuccessful with a reason: such an attempt is repeated while repeats are left, unless
  the budget was exceeded, and otherwise the review is failed.
\<close>

datatype attempt_end = Finished patch_result | Unsuccessful int string "string option" bool

definition lift_end :: "patch_result op \<Rightarrow> attempt_end op" where
  "lift_end m w = (case m w of (w', Inl e) \<Rightarrow> (w', Inl e) | (w', Inr r) \<Rightarrow> (w', Inr (Finished r)))"

definition finish_reviewed :: "review_ctx \<Rightarrow> int \<Rightarrow> tool_output \<Rightarrow> review_content \<Rightarrow> patch_result op" where
  "finish_reviewed cx review out content =
     or_cancelled (save_findings cx review (rc_findings content)) (\<lambda>_.
     or_cancelled (save_resolutions cx review (rc_resolutions content)) (\<lambda>_.
     or_cancelled (complete_review_with_retry cx review ''Reviewed'' ''Review completed successfully.'' (to_interaction_id out)) (\<lambda>_.
     seq (if to_inline_review out \<noteq> None \<and> \<not> cx_embargoed cx then queue_notifications_with_retry cx else give ()) (\<lambda>_.
     seq (set_patch_status cx ''Reviewed'') (\<lambda>_. give Success)))))"

definition finish_skipped :: "review_ctx \<Rightarrow> int \<Rightarrow> string \<Rightarrow> string option \<Rightarrow> patch_result op" where
  "finish_skipped cx review result interaction =
     or_cancelled (complete_review_with_retry cx review ''Skipped'' result interaction)
       (\<lambda>_. seq (set_patch_status cx ''Skipped'') (\<lambda>_. give Success))"

definition finish_failed :: "review_ctx \<Rightarrow> int \<Rightarrow> string \<Rightarrow> string option \<Rightarrow> patch_result op" where
  "finish_failed cx review result interaction =
     or_cancelled (complete_review_with_retry cx review ''Failed'' result interaction)
       (\<lambda>_. seq (set_patch_status cx ''Failed'') (\<lambda>_. give Review_failed))"

definition or_text :: "string option \<Rightarrow> string \<Rightarrow> string" where
  "or_text t other = (case t of Some s \<Rightarrow> s | None \<Rightarrow> other)"

definition settle_output :: "review_ctx \<Rightarrow> int \<Rightarrow> tool_output \<Rightarrow> attempt_end op" where
  "settle_output cx review out =
     (let again = (\<lambda>text. give (Unsuccessful review text (to_interaction_id out) True))
      in if \<not> to_target_applied out then again (or_text (to_error out) ''Tool failed to return patch status'')
         else case to_error out of
           Some e \<Rightarrow> again e
         | None \<Rightarrow>
             (case to_review out of
                None \<Rightarrow> again ''Missing review content''
              | Some (Some content) \<Rightarrow> lift_end (finish_reviewed cx review out content)
              | Some None \<Rightarrow>
                  if cx_no_ai cx then lift_end (finish_skipped cx review ''Skipped AI review via --no-ai'' (to_interaction_id out))
                  else again ''AI returned null response''))"

definition settle_result :: "review_ctx \<Rightarrow> int \<Rightarrow> tool_result \<Rightarrow> attempt_end op" where
  "settle_result cx review result =
     (case result of
        Output out \<Rightarrow> settle_output cx review out
      | Tool_cancelled \<Rightarrow> lift_end (stop_cancelled cx (Some review))
      | Tool_budget_exceeded text \<Rightarrow> give (Unsuccessful review (''Tool error: '' @ text) None False)
      | Tool_failed text \<Rightarrow> give (Unsuccessful review (''Tool error: '' @ text) None True)
      | Tool_panicked text \<Rightarrow> (\<lambda>w. (w, Inl (Panicked text))))"

text \<open>After the run the claim is looked at again; when that fails, the writes, which are fenced themselves, go on.\<close>

definition after_run :: "review_ctx \<Rightarrow> int \<Rightarrow> tool_result \<Rightarrow> attempt_end op" where
  "after_run cx review result w =
     (case result of
        Tool_panicked text \<Rightarrow> (w, Inl (Panicked text))
      | _ \<Rightarrow>
          (case check_patchset_claim_active cx w of
             (w', Inr False) \<Rightarrow> lift_end (stop_cancelled cx (Some review)) w'
           | (w', _) \<Rightarrow> settle_result cx review result w'))"

definition run_review_tool :: "tool_result \<Rightarrow> tool_result op" where
  "run_review_tool result w = (w\<lparr>w_runs := w_runs w + 1\<rparr>, Inr result)"

definition review_attempt :: "review_ctx \<Rightarrow> tool_result \<Rightarrow> int option \<Rightarrow> attempt_end op" where
  "review_attempt cx result existing w =
     (case check_patchset_claim_active cx w of
        (w', Inl e) \<Rightarrow> (w', Inl e)
      | (w', Inr False) \<Rightarrow> lift_end (stop_cancelled cx existing) w'
      | (w', Inr True) \<Rightarrow>
          (case take_review cx existing w' of
             (w'', Inl (Superseded_error e)) \<Rightarrow> (w'', Inr (Finished Cancelled_review))
           | (w'', Inl e) \<Rightarrow> (w'', Inl e)
           | (w'', Inr review) \<Rightarrow> seq (run_review_tool result) (after_run cx review) w''))"

function review_attempts :: "review_ctx \<Rightarrow> (nat \<Rightarrow> tool_result) \<Rightarrow> nat \<Rightarrow> int option \<Rightarrow> patch_result op" where
  "review_attempts cx tool retries existing w =
     (case review_attempt cx (tool retries) existing w of
        (w', Inl e) \<Rightarrow> (w', Inl e)
      | (w', Inr (Finished r)) \<Rightarrow> (w', Inr r)
      | (w', Inr (Unsuccessful review text interaction retryable)) \<Rightarrow>
          if retryable \<and> retries < cx_max_retries cx then review_attempts cx tool (retries + 1) (Some review) w'
          else finish_failed cx review text interaction w')"
  by pat_completeness auto
termination by (relation "measure (\<lambda>(cx, _, retries, _, _). cx_max_retries cx - retries)") auto

declare review_attempts.simps [simp del]

definition latest_completed_review :: "int \<Rightarrow> int \<Rightarrow> review_db \<Rightarrow> review_row option" where
  "latest_completed_review pid patch db =
     sql_latest rv_id (filter (\<lambda>r. rv_patchset_id r = pid \<and> rv_patch_id r = Some patch \<and> rv_status r = Some ''Reviewed'') (db_reviews db))"

definition process_patch_review :: "review_ctx \<Rightarrow> (nat \<Rightarrow> tool_result) \<Rightarrow> patch_result op" where
  "process_patch_review cx tool =
     (let pid = cx_patchset_id cx; patch = cx_patch_id cx
      in seq (look (count_successful_reviews pid patch)) (\<lambda>n.
         if n \<ge> cx_target_review_count cx
         then seq (if cx_embargoed cx then give None else look (latest_completed_review pid patch)) (\<lambda>latest.
              seq (case latest of Some r \<Rightarrow> if cx_stored_inline cx r then queue_notifications_with_retry cx else give () | None \<Rightarrow> give ()) (\<lambda>_.
              seq (set_patch_status cx ''Reviewed'') (\<lambda>_. give Success)))
         else seq (look (has_failed_review pid patch)) (\<lambda>failed.
         if failed then seq (set_patch_status cx ''Failed'') (\<lambda>_. give Review_failed)
         else if cx_only_ignored_files cx
         then or_cancelled (take_review cx None)
                (\<lambda>review. finish_skipped cx review ''Skipped: touches only ignored files'' None)
         else review_attempts cx tool 0 None)))"

section \<open>Containing a panic\<close>

definition max_failed_reason_len :: nat where "max_failed_reason_len = 2000"

definition truncate_failed_reason :: "string \<Rightarrow> string" where
  "truncate_failed_reason reason =
     (if str_len reason \<le> max_failed_reason_len then reason else kept_chars (max_failed_reason_len - 3) 0 reason @ ''...'')"

definition process_patch_review_contained :: "review_ctx \<Rightarrow> (nat \<Rightarrow> tool_result) \<Rightarrow> patch_result op" where
  "process_patch_review_contained cx tool w =
     (case process_patch_review cx tool w of
        (w', Inl (Panicked text)) \<Rightarrow>
          (case access (settle_panicked_patch_review (cx_claim cx) (cx_patchset_id cx) (cx_patch_id cx)
                          (truncate_failed_reason (''Review task panicked: '' @ text))) w' of
             (w'', Inr Superseded) \<Rightarrow> (w'', Inr Cancelled_review)
           | (w'', _) \<Rightarrow> (w'', Inl (Panicked text)))
      | r \<Rightarrow> r)"

section \<open>The patches of a series\<close>

record patch_diff =
  pd_patch_id :: int
  pd_index :: int
  pd_diff :: string
  pd_subject :: string

definition extract_files_from_diff :: "string \<Rightarrow> string list" where
  "extract_files_from_diff diff =
     List.map_filter (\<lambda>line. Option.bind (strip_prefix ''diff --git a/'' line)
        (\<lambda>path. map_option fst (split_once (CHR '' '') path))) (lines diff)"

definition touches_only_ignored_files :: "string \<Rightarrow> string list \<Rightarrow> bool" where
  "touches_only_ignored_files diff ignore_files =
     (let files = extract_files_from_diff diff
      in files \<noteq> [] \<and> list_all (\<lambda>f. list_ex (\<lambda>ignored. prefix ignored f) ignore_files) files)"

definition patch_lines_changed :: "string \<Rightarrow> nat" where
  "patch_lines_changed diff = length (filter
     (\<lambda>line. (prefix ''+'' line \<and> \<not> prefix ''+++'' line) \<or> (prefix ''-'' line \<and> \<not> prefix ''---'' line)) (lines diff))"

definition glob_special :: "char \<Rightarrow> bool" where
  "glob_special c \<longleftrightarrow> c \<in> set ''.+()|^$[]{}'' \<or> c = CHR 0x5C"

definition subject_glob_regex :: "string \<Rightarrow> string" where
  "subject_glob_regex pattern = ''^'' @ concat (map (\<lambda>c.
     if c = CHR ''*'' then ''.*'' else if c = CHR ''?'' then ''.'' else if glob_special c then [CHR 0x5C, c] else [c]) pattern) @ ''$''"

definition compile_glob :: "(string \<Rightarrow> bool) \<Rightarrow> string \<Rightarrow> string" where
  "compile_glob re_ok pattern = (let re = subject_glob_regex pattern in if re_ok re then re else ''a^'')"

record series_settings =
  ss_skip_filters :: "string list"
  ss_only_filters :: "string list"
  ss_max_lines_changed :: nat
  ss_max_files_touched :: nat
  ss_skip_patch_ids :: "int list"

definition left_out :: "(string \<Rightarrow> bool) \<Rightarrow> (string \<Rightarrow> string \<Rightarrow> bool) \<Rightarrow> series_settings \<Rightarrow> patch_diff \<Rightarrow> bool" where
  "left_out re_ok re_match ss p \<longleftrightarrow>
     list_ex (\<lambda>f. re_match (compile_glob re_ok f) (pd_subject p)) (ss_skip_filters ss)
     \<or> (ss_only_filters ss \<noteq> [] \<and> \<not> list_ex (\<lambda>f. re_match (compile_glob re_ok f) (pd_subject p)) (ss_only_filters ss))
     \<or> patch_lines_changed (pd_diff p) > ss_max_lines_changed ss
     \<or> length (remdups (extract_files_from_diff (pd_diff p))) > ss_max_files_touched ss"

fun select_jobs ::
  "(string \<Rightarrow> bool) \<Rightarrow> (string \<Rightarrow> string \<Rightarrow> bool) \<Rightarrow> patchset_review_claim option \<Rightarrow> series_settings \<Rightarrow> patch_diff list \<Rightarrow> patch_diff list op" where
  "select_jobs re_ok re_match cl ss [] = give []"
| "select_jobs re_ok re_match cl ss (p # ps) =
     (if List.member (ss_skip_patch_ids ss) (pd_patch_id p) then select_jobs re_ok re_match cl ss ps
      else if left_out re_ok re_match ss p
      then seq (logged (change (update_patch_status cl (pd_patch_id p) ''Skipped''))) (\<lambda>_. select_jobs re_ok re_match cl ss ps)
      else seq (select_jobs re_ok re_match cl ss ps) (\<lambda>jobs. give (p # jobs)))"

text \<open>The loop of a worker: the reasons of the patches without a review, and whether the run was aborted. \<open>show_failure\<close> prints an error.\<close>

definition int_str :: "int \<Rightarrow> string" where
  "int_str i = (if i < 0 then ''-'' @ nat_str (nat (- i)) else nat_str (nat i))"

definition failure_line :: "patch_diff \<Rightarrow> string \<Rightarrow> string" where
  "failure_line job text = ''patch '' @ int_str (pd_index job) @ '': '' @ text"

definition job_ctx :: "review_ctx \<Rightarrow> string list \<Rightarrow> patch_diff \<Rightarrow> review_ctx" where
  "job_ctx cx ignore_files job = cx\<lparr>cx_patch_id := pd_patch_id job, cx_only_ignored_files := touches_only_ignored_files (pd_diff job) ignore_files\<rparr>"

fun drain_review_queue ::
  "(failure \<Rightarrow> string) \<Rightarrow> (patch_diff \<Rightarrow> review_ctx) \<Rightarrow> (patch_diff \<Rightarrow> nat \<Rightarrow> tool_result) \<Rightarrow> patch_diff list \<Rightarrow> world \<Rightarrow> world \<times> string list \<times> bool" where
  "drain_review_queue show_failure ctx tool [] w = (w, [], False)"
| "drain_review_queue show_failure ctx tool (job # jobs) w =
     (case check_patchset_claim_active (ctx job) w of
        (w', Inr False) \<Rightarrow> (w', [], True)
      | (w', Inl e) \<Rightarrow> (w', failure_line job (''claim check failed: '' @ show_failure e)
                              # map (\<lambda>j. failure_line j ''not reviewed after a failed claim check'') jobs, False)
      | (w', Inr True) \<Rightarrow>
          (case process_patch_review_contained (ctx job) (tool job) w' of
             (w'', Inr Cancelled_review) \<Rightarrow> (w'', [], True)
           | (w'', r) \<Rightarrow>
               (let (w3, failures, aborted) = drain_review_queue show_failure ctx tool jobs w''
                in (w3, (case r of Inr Success \<Rightarrow> [] | Inr _ \<Rightarrow> [failure_line job ''review failed, see its review log'']
                         | Inl e \<Rightarrow> [failure_line job (show_failure e)]) @ failures, aborted))))"

definition summarize_patch_failures :: "string list \<Rightarrow> nat \<Rightarrow> string" where
  "summarize_patch_failures failures queued =
     truncate_failed_reason (nat_str (length failures) @ '' of '' @ nat_str (max queued (length failures)) @ '' patch reviews failed: ''
       @ join ''; '' failures)"

text \<open>
  The comment on a merge request is composed from the reviews and statuses of the series, which are read at once here; a series that is not of a
  forge has none. The end of a series is announced only if its status was written.
\<close>

definition queue_forge_pr_comment :: "review_ctx \<Rightarrow> unit op" where
  "queue_forge_pr_comment cx =
     seq (look (cx_comment cx)) (\<lambda>comment.
       case comment of
         None \<Rightarrow> give ()
       | Some (repo, pr_number, body, status) \<Rightarrow>
           change (insert_forge_outbox (cx_incomplete_marker cx) (cx_claim cx) (cx_patchset_id cx) repo pr_number body status))"

definition finish_series :: "review_ctx \<Rightarrow> nat \<Rightarrow> string list \<Rightarrow> bool \<Rightarrow> unit op" where
  "finish_series cx queued failures aborted =
     (let pid = cx_patchset_id cx; cl = cx_claim cx
      in seq (if aborted then give ()
              else seq (if failures = [] then give ()
                        else logged (retried db_write_attempts (change (fail_orphaned_in_review_rows cl pid ''Review failed before completion''))))
                     (\<lambda>_. logged (seq (retried db_write_attempts (access (complete_patchset_review cl pid
                             (if failures = [] then ''Reviewed'' else ''Failed'')
                             (if failures = [] then None else Some (summarize_patch_failures failures queued)))))
                        (\<lambda>updated. if updated then queue_forge_pr_comment cx else give ()))))
           (\<lambda>_. logged (change (release_patchset_claim cl))))"

definition review_series ::
  "(string \<Rightarrow> bool) \<Rightarrow> (string \<Rightarrow> string \<Rightarrow> bool) \<Rightarrow> (failure \<Rightarrow> string) \<Rightarrow> series_settings \<Rightarrow> string list \<Rightarrow> review_ctx
   \<Rightarrow> (patch_diff \<Rightarrow> nat \<Rightarrow> tool_result) \<Rightarrow> patch_diff list \<Rightarrow> unit op" where
  "review_series re_ok re_match show_failure ss ignore_files cx tool ps =
     seq (select_jobs re_ok re_match (cx_claim cx) ss ps)
       (\<lambda>jobs w. let (w', failures, aborted) = drain_review_queue show_failure (job_ctx cx ignore_files) tool jobs w
                 in finish_series cx (length jobs) failures aborted w')"

end
