(* ===== verification/SeriesReview.thy ===== *)
theory SeriesReview
  imports PatchReview
begin

text \<open>
  What a worker leaves behind when nobody disturbs it (\<open>src/src/reviewer.rs\<close>): with its claim in force, the review of a patch comes to an
  end, leaves no review unfinished, and gives the patch its status; a series is reviewed exactly if none of its patches failed.
\<close>

section \<open>Running a statement undisturbed\<close>

definition yields :: "'a op \<Rightarrow> world \<Rightarrow> ('a \<Rightarrow> world \<Rightarrow> bool) \<Rightarrow> bool" where
  "yields m w Q \<longleftrightarrow> (\<exists>w' a. m w = (w', Inr a) \<and> w_script w' = [] \<and> Q a w')"

lemma guarded_quiet:
  "w_script w = [] \<Longrightarrow> guarded f w = (case f (w_db w) of Inl e \<Rightarrow> (w, Inl (Superseded_error e)) | Inr (db', a) \<Rightarrow> (w\<lparr>w_db := db'\<rparr>, Inr a))"
  by (cases w) (auto simp: guarded_def split: sum.split)

named_theorems yields_intros

lemma yields_guarded:
  "w_script w = [] \<Longrightarrow> f (w_db w) = Inr (db', a) \<Longrightarrow> Q a (w\<lparr>w_db := db'\<rparr>) \<Longrightarrow> yields (guarded f) w Q"
  by (auto simp: yields_def guarded_quiet)

lemma yields_change [yields_intros]: "w_script w = [] \<Longrightarrow> Q () (w\<lparr>w_db := f (w_db w)\<rparr>) \<Longrightarrow> yields (change f) w Q"
  unfolding change_def access_def by (rule yields_guarded) auto

lemma yields_look [yields_intros]: "w_script w = [] \<Longrightarrow> Q (f (w_db w)) w \<Longrightarrow> yields (look f) w Q"
  unfolding look_def access_def by (rule yields_guarded) auto

lemma yields_access: "w_script w = [] \<Longrightarrow> Q (snd (f (w_db w))) (w\<lparr>w_db := fst (f (w_db w))\<rparr>) \<Longrightarrow> yields (access f) w Q"
  unfolding access_def by (rule yields_guarded) auto

lemma yields_give [yields_intros]: "w_script w = [] \<Longrightarrow> Q a w \<Longrightarrow> yields (give a) w Q"
  by (simp add: yields_def give_def)

lemma yields_seq [yields_intros]: "yields m w (\<lambda>a w'. yields (k a) w' Q) \<Longrightarrow> yields (seq m k) w Q"
  by (auto simp: yields_def seq_def)

lemma yields_or_cancelled [yields_intros]: "yields m w (\<lambda>a w'. yields (k a) w' Q) \<Longrightarrow> yields (or_cancelled m k) w Q"
  by (auto simp: yields_def or_cancelled_def)

lemma yields_logged [yields_intros]: "yields m w (\<lambda>_ w'. Q () w') \<Longrightarrow> yields (logged m) w Q"
  by (auto simp: yields_def logged_def)

lemma yields_retried: "yields m w Q \<Longrightarrow> 0 < n \<Longrightarrow> yields (retried n m) w Q"
  by (cases n) (auto simp: yields_def)

lemma yields_lift_end [yields_intros]: "yields m w (\<lambda>r w'. Q (Finished r) w') \<Longrightarrow> yields (lift_end m) w Q"
  by (auto simp: yields_def lift_end_def)

lemma yields_mono: "yields m w Q \<Longrightarrow> (\<And>a w'. w_script w' = [] \<Longrightarrow> Q a w' \<Longrightarrow> R a w') \<Longrightarrow> yields m w R"
  by (auto simp: yields_def)

section \<open>The rows of the worker\<close>

definition owned :: "patchset_review_claim \<Rightarrow> review_db \<Rightarrow> bool" where
  "owned c db \<longleftrightarrow> keys_unique db \<and> claim_current [''In Review''] c db"

definition in_review :: "review_db \<Rightarrow> int set" where
  "in_review db = rv_id ` {r \<in> set (db_reviews db). rv_status r = Some ''In Review''}"

text \<open>What the statements of a review leave alone.\<close>

definition same_series :: "review_db \<Rightarrow> review_db \<Rightarrow> bool" where
  "same_series db db' \<longleftrightarrow> db_patchsets db' = db_patchsets db \<and> db_active_gen db' = db_active_gen db"

lemma same_series_refl [simp]: "same_series db db"
  by (simp add: same_series_def)

lemma same_series_trans: "same_series a b \<Longrightarrow> same_series b d \<Longrightarrow> same_series a d"
  by (simp add: same_series_def)

lemma same_series_current: "same_series db db' \<Longrightarrow> claim_current st c db' = claim_current st c db"
  by (simp add: same_series_def claim_current_def patchset_has_status_def)

lemma owned_not_cancelled: "owned c db \<Longrightarrow> \<not> patchset_cancelled (cl_patchset_id c) db"
  using cancelled_inactive [of "cl_patchset_id c" db "Some c"] by (auto simp: owned_def is_patchset_claim_active_def)

lemma owned_active: "owned c db \<Longrightarrow> is_patchset_claim_active (Some c) (cl_patchset_id c) db"
  by (simp add: owned_def is_patchset_claim_active_def)

lemma owned_open:
  "owned c db \<Longrightarrow> review_open (Some c) db r \<longleftrightarrow> rv_status r \<noteq> Some ''Cancelled'' \<and> rv_patchset_id r = cl_patchset_id c"
  using owned_not_cancelled [of c db] by (auto simp: review_open_def claim_admits_def owned_def)

lemma owned_patch_status:
  "owned c db \<Longrightarrow> status \<noteq> ''Cancelled'' \<Longrightarrow> status \<noteq> ''Pending'' \<Longrightarrow>
   update_patch_status (Some c) patch status db =
     update_patches (\<lambda>p. pa_id p = patch \<and> pa_patchset_id p = cl_patchset_id c \<and> pa_status p \<noteq> Some ''Cancelled'') (\<lambda>p. p\<lparr>pa_status := Some status\<rparr>) db"
  using owned_not_cancelled [of c db]
  by (auto simp: update_patch_status_def update_patches_def sql_update_def claim_admits_def owned_def)

definition working :: "patchset_review_claim \<Rightarrow> int \<Rightarrow> int \<Rightarrow> review_db \<Rightarrow> review_db \<Rightarrow> bool" where
  "working c patch rid db0 db \<longleftrightarrow> same_series db0 db \<and> db_patches db = db_patches db0 \<and> keys_unique db
     \<and> in_review db \<subseteq> insert rid (in_review db0)
     \<and> (\<exists>r \<in> set (db_reviews db). rv_id r = rid \<and> rv_patchset_id r = cl_patchset_id c \<and> rv_patch_id r = Some patch
          \<and> rv_status r = Some ''In Review'')"

lemma working_owned: "owned c db0 \<Longrightarrow> working c patch rid db0 db \<Longrightarrow> owned c db"
  using same_series_current [of db0 db] by (auto simp: working_def owned_def)

lemma children_rows:
  "db_reviews (delete_aborted_review_children rid db) = db_reviews db"
  "db_patches (delete_aborted_review_children rid db) = db_patches db"
  "db_patchsets (delete_aborted_review_children rid db) = db_patchsets db"
  "db_active_gen (delete_aborted_review_children rid db) = db_active_gen db"
  by (simp_all add: delete_aborted_review_children_def Let_def delete_review_rows_def delete_emails_def delete_checks_def)

lemma reviews_rows:
  "db_reviews (update_reviews p f db) = sql_update p f (db_reviews db)"
  "db_patches (update_reviews p f db) = db_patches db"
  "db_patchsets (update_reviews p f db) = db_patchsets db"
  "db_active_gen (update_reviews p f db) = db_active_gen db"
  by (simp_all add: update_reviews_def)

abbreviation take_row :: "review_row \<Rightarrow> review_row" where
  "take_row r \<equiv> r\<lparr>rv_status := Some ''In Review'', rv_interaction_id := None\<rparr>"

lemma working_retaken:
  assumes "keys_unique db0" and "working c patch rid db0 db \<or> db = db0"
    and "r0 \<in> set (db_reviews db)" and "rv_id r0 = rid" and "rv_patchset_id r0 = cl_patchset_id c" and "rv_patch_id r0 = Some patch"
    and "\<And>r. q r \<Longrightarrow> rv_id r = rid" and "q r0"
  shows "working c patch rid db0 (update_reviews q take_row db)"
proof -
  have keys: "keys_unique db" and series: "same_series db0 db" "db_patches db = db_patches db0" "in_review db \<subseteq> insert rid (in_review db0)"
    using assms(1,2) by (auto simp: working_def)
  have "in_review (update_reviews q take_row db) \<subseteq> insert rid (in_review db)"
    using assms(7) by (auto simp: in_review_def reviews_rows set_sql_update)
  moreover have "take_row r0 \<in> set (sql_update q take_row (db_reviews db))"
    unfolding set_sql_update using assms(3,8) by (auto intro!: bexI [of _ r0])
  moreover have "map rv_id (sql_update q take_row (db_reviews db)) = map rv_id (db_reviews db)" by (simp add: map_sql_update)
  ultimately show ?thesis
    using keys series assms(4-6)
    by (auto simp: working_def keys_unique_def reviews_rows same_series_def intro!: bexI [of _ "take_row r0"])
qed

lemma working_children: "working c patch rid db0 db \<Longrightarrow> working c patch rid db0 (delete_aborted_review_children x db)"
  unfolding working_def same_series_def keys_unique_def in_review_def children_rows .

lemma clear_working:
  assumes "owned c db0" and "working c patch rid db0 db"
  shows "\<exists>db'. clear_aborted_review_artifacts (Some c) rid db = Inr db' \<and> working c patch rid db0 db'"
proof -
  have own: "owned c db" using working_owned assms .
  obtain r where r: "r \<in> set (db_reviews db)" "rv_id r = rid" "rv_patchset_id r = cl_patchset_id c" "rv_patch_id r = Some patch"
    and "rv_status r = Some ''In Review''" using assms(2) by (auto simp: working_def)
  then have open_row: "review_open (Some c) db r" using owned_open [OF own] by simp
  let ?q = "\<lambda>r. rv_id r = rid \<and> review_open (Some c) db r"
  have "working c patch rid db0 (update_reviews ?q take_row db)"
    by (rule working_retaken [OF _ _ r]) (use assms open_row r in \<open>auto simp: owned_def\<close>)
  then show ?thesis
    using r open_row by (auto simp: clear_aborted_review_artifacts_def Let_def list_ex_iff intro: working_children)
qed

lemma min_by_key_in: "min_by_key k xs = Some x \<Longrightarrow> x \<in> set xs"
  using min_by_key_Some by fastforce

lemma take_new:
  assumes "owned c db"
  shows "\<exists>db' rid. claim_or_create_in_review (Some c) (cl_patchset_id c) (Some patch) db = Inr (db', rid) \<and> working c patch rid db db'"
proof -
  let ?pid = "cl_patchset_id c"
  let ?waiting = "filter (\<lambda>r. rv_patchset_id r = ?pid \<and> rv_patch_id r = Some patch \<and> rv_status r = Some ''Pending'' \<and> \<not> patchset_cancelled ?pid db) (db_reviews db)"
  note act = owned_active [OF assms]
  show ?thesis
  proof (cases "min_by_key rv_id ?waiting")
    case None
    have "next_review_id db \<notin> set (map rv_id (db_reviews db))"
      using sql_max_id_ge [of _ "db_reviews db" rv_id] by (fastforce simp: next_review_id_def)
    then have "working c patch (next_review_id db) db (fst (insert_review ?pid (Some patch) ''In Review'' db))"
      using assms by (auto simp: working_def same_series_def insert_review_def keys_unique_def owned_def in_review_def)
    with None act show ?thesis by (auto simp: claim_or_create_in_review_def claim_pending_review_id_in_tx_def insert_review_def)
  next
    case (Some r)
    from min_by_key_in [OF this] have r: "r \<in> set (db_reviews db)" "rv_patchset_id r = ?pid" "rv_patch_id r = Some patch" by simp_all
    let ?db = "update_reviews (\<lambda>x. rv_id x = rv_id r) take_row db"
    have "working c patch (rv_id r) db ?db"
      by (rule working_retaken [OF _ _ r(1) refl r(2,3)]) (use assms in \<open>auto simp: owned_def\<close>)
    from clear_working [OF assms this] obtain db' where
      "clear_aborted_review_artifacts (Some c) (rv_id r) ?db = Inr db'" "working c patch (rv_id r) db db'" by blast
    with Some act show ?thesis by (auto simp: claim_or_create_in_review_def claim_pending_review_id_in_tx_def)
  qed
qed

section \<open>An attempt\<close>

definition in_force :: "review_ctx \<Rightarrow> patchset_review_claim \<Rightarrow> bool" where
  "in_force cx c \<longleftrightarrow> cx_claim cx = Some c \<and> cx_patchset_id cx = cl_patchset_id c"

text \<open>The patch has its status, and no review is unfinished that was not before.\<close>

definition patch_marked :: "patchset_review_claim \<Rightarrow> int \<Rightarrow> string \<Rightarrow> review_db \<Rightarrow> review_db" where
  "patch_marked c patch status db =
     update_patches (\<lambda>p. pa_id p = patch \<and> pa_patchset_id p = cl_patchset_id c \<and> pa_status p \<noteq> Some ''Cancelled'') (\<lambda>p. p\<lparr>pa_status := Some status\<rparr>) db"

definition settled :: "patchset_review_claim \<Rightarrow> int \<Rightarrow> string \<Rightarrow> review_db \<Rightarrow> review_db \<Rightarrow> bool" where
  "settled c patch status db0 db \<longleftrightarrow> same_series db0 db \<and> keys_unique db \<and> in_review db \<subseteq> in_review db0
     \<and> db_patches db = db_patches (patch_marked c patch status db0)"

text \<open>The review is complete: what remains is to queue its results and to mark the patch.\<close>

definition completed :: "review_db \<Rightarrow> review_db \<Rightarrow> bool" where
  "completed db0 db \<longleftrightarrow> same_series db0 db \<and> db_patches db = db_patches db0 \<and> keys_unique db \<and> in_review db \<subseteq> in_review db0"

lemma completed_refl: "owned c db \<Longrightarrow> completed db db"
  by (simp add: completed_def owned_def)

lemma completed_owned: "owned c db0 \<Longrightarrow> completed db0 db \<Longrightarrow> owned c db"
  using same_series_current [of db0 db] by (auto simp: completed_def owned_def)

lemma settled_owned: "owned c db0 \<Longrightarrow> settled c patch status db0 db \<Longrightarrow> owned c db"
  using same_series_current [of db0 db] by (auto simp: settled_def owned_def)

lemma yields_check_claim [yields_intros]:
  assumes "in_force cx c" and "w_script w = []" and "owned c (w_db w)" and "Q True w"
  shows "yields (check_patchset_claim_active cx) w Q"
  unfolding check_patchset_claim_active_def db_write_attempts_def
  by (rule yields_retried, rule yields_look) (use assms owned_active in \<open>auto simp: in_force_def\<close>)

lemma yields_set_status:
  assumes "in_force cx c" and "w_script w = []" and "owned c db0" and "completed db0 (w_db w)" and "cx_patch_id cx = patch"
    and "status \<noteq> ''Cancelled''" and "status \<noteq> ''Pending''" and "\<And>w'. w_script w' = [] \<Longrightarrow> settled c patch status db0 (w_db w') \<Longrightarrow> Q () w'"
  shows "yields (set_patch_status cx status) w Q"
  unfolding set_patch_status_def
proof (rule yields_change)
  let ?db = "update_patch_status (cx_claim cx) (cx_patch_id cx) status (w_db w)"
  have own: "owned c (w_db w)" using completed_owned assms(3,4) .
  have "?db = patch_marked c patch status (w_db w)"
    using owned_patch_status [OF own assms(6,7)] assms(1,5) by (simp add: in_force_def patch_marked_def)
  then have "settled c patch status db0 ?db"
    using assms(4) by (auto simp: settled_def completed_def patch_marked_def update_patches_def same_series_def keys_unique_def in_review_def)
  with assms(2,8) show "Q () (w\<lparr>w_db := ?db\<rparr>)" by simp
qed (rule assms(2))

lemma outgoing_rows:
  "db_reviews (queue_outgoing cx x db) = db_reviews db \<and> db_patches (queue_outgoing cx x db) = db_patches db
   \<and> db_patchsets (queue_outgoing cx x db) = db_patchsets db \<and> db_active_gen (queue_outgoing cx x db) = db_active_gen db"
  by (cases x) (auto simp: insert_review_email_outbox_def stamp_disclosures_in_def update_emails_def insert_patchwork_notification_def
      append_plain_email_def insert_patchwork_outbox_def update_checks_def split: option.split)

lemma completed_outgoing: "completed db0 db \<Longrightarrow> completed db0 (queue_outgoing cx x db)"
  using outgoing_rows [of cx x db] by (auto simp: completed_def same_series_def keys_unique_def in_review_def)

lemma yields_notify:
  assumes "w_script w = []" and "completed db0 (w_db w)" and "\<And>w'. w_script w' = [] \<Longrightarrow> completed db0 (w_db w') \<Longrightarrow> Q () w'"
  shows "yields (queue_notifications_with_retry cx) w Q"
proof -
  have "yields (queue_notifications cx xs) w Q" for xs
    using assms
  proof (induction xs arbitrary: w)
    case (Cons x xs)
    show ?case
      unfolding queue_notifications.simps
      by (rule yields_seq, rule yields_change) (use Cons in \<open>auto simp: completed_outgoing\<close>)
  qed (auto intro: yields_give)
  then show ?thesis unfolding queue_notifications_with_retry_def db_write_attempts_def by (rule yields_retried) simp
qed

lemma yields_complete:
  assumes "in_force cx c" and "w_script w = []" and "owned c db0" and "working c patch rid db0 (w_db w)"
    and "status \<noteq> ''Cancelled''" and "status \<noteq> ''In Review''" and "\<And>w'. w_script w' = [] \<Longrightarrow> completed db0 (w_db w') \<Longrightarrow> Q () w'"
  shows "yields (complete_review_with_retry cx rid status result interaction) w Q"
proof -
  let ?db = "w_db w"
  let ?q = "\<lambda>r. rv_id r = rid \<and> review_writable (Some c) status ?db r"
  let ?f = "\<lambda>r. r\<lparr>rv_status := Some status, rv_result := Some result, rv_interaction_id := interaction\<rparr>"
  have own: "owned c ?db" using working_owned assms(3,4) .
  obtain r where r: "r \<in> set (db_reviews ?db)" "rv_id r = rid" "rv_patchset_id r = cl_patchset_id c" "rv_status r = Some ''In Review''"
    using assms(4) by (auto simp: working_def)
  have q: "?q r" using r owned_open [OF own] assms(5) by (simp add: review_writable_def)
  have only: "x = r" if "x \<in> set (db_reviews ?db)" "rv_id x = rid" for x
    using own r that by (auto simp: owned_def keys_unique_def distinct_map inj_on_def)
  have "complete_review (Some c) rid status result interaction ?db = Inr (update_reviews ?q ?f ?db)"
    using r(1) q by (auto simp: complete_review_def Let_def list_ex_iff)
  moreover have "in_review (update_reviews ?q ?f ?db) \<subseteq> in_review ?db - {rid}"
  proof
    fix x
    assume "x \<in> in_review (update_reviews ?q ?f ?db)"
    then obtain r0 where r0: "r0 \<in> set (db_reviews ?db)" "x = rv_id (if ?q r0 then ?f r0 else r0)"
        "rv_status (if ?q r0 then ?f r0 else r0) = Some ''In Review''"
      by (auto simp only: in_review_def reviews_rows set_sql_update)
    then have "\<not> ?q r0" using assms(6) by auto
    with r0 only [of r0] q show "x \<in> in_review ?db - {rid}" by (auto simp: in_review_def)
  qed
  moreover have "map rv_id (sql_update ?q ?f (db_reviews ?db)) = map rv_id (db_reviews ?db)" by (rule map_sql_update) simp
  ultimately have "completed db0 (update_reviews ?q ?f ?db)"
    using assms(4) by (auto simp: working_def completed_def same_series_def keys_unique_def reviews_rows)
  then show ?thesis
    unfolding complete_review_with_retry_def db_write_attempts_def
    using \<open>complete_review _ _ _ _ _ _ = _\<close> assms(1,2,7)
    by (intro yields_retried yields_guarded) (auto simp: in_force_def)
qed

lemma working_rows:
  assumes "working c patch rid db0 db" and "db_reviews db' = db_reviews db" and "db_patches db' = db_patches db"
    and "db_patchsets db' = db_patchsets db" and "db_active_gen db' = db_active_gen db"
  shows "working c patch rid db0 db'"
  using assms by (auto simp: working_def same_series_def keys_unique_def in_review_def)

lemma admitted:
  assumes "owned c db0" and "working c patch rid db0 db"
  shows "admitting_reviews (review_open (Some c) db) rid db \<noteq> []"
  using assms(2) owned_open [OF working_owned [OF assms]]
  by (auto simp: working_def admitting_reviews_def filter_empty_conv)

lemma yields_findings:
  assumes "in_force cx c" and "owned c db0" and "w_script w = []" and "working c patch rid db0 (w_db w)"
    and "\<And>w'. w_script w' = [] \<Longrightarrow> working c patch rid db0 (w_db w') \<Longrightarrow> Q () w'"
  shows "yields (save_findings cx rid fs) w Q"
  using assms(3-5)
proof (induction fs arbitrary: w)
  case (Cons f fs)
  let ?db = "w_db w"
  let ?db' = "?db\<lparr>db_findings := db_findings ?db @ map (\<lambda>_. (rid, fj_payload f)) (admitting_reviews (review_open (Some c) ?db) rid ?db)\<rparr>"
  have "create_finding_with_provenance (Some c) rid (fj_payload f) ?db = Inr ?db'"
    using admitted [OF assms(2) Cons.prems(2)] by (simp add: create_finding_with_provenance_def)
  moreover have "working c patch rid db0 ?db'" by (rule working_rows [OF Cons.prems(2)]) simp_all
  ultimately show ?case
    using Cons assms(1) by (auto simp: in_force_def intro!: yields_seq yields_guarded)
qed (auto intro: yields_give)

lemma insert_resolutions_working:
  assumes "owned c db0" and "working c patch rid db0 db"
  shows "\<exists>db'. insert_resolutions (Some c) rid rs db = Inr db' \<and> working c patch rid db0 db'"
  using assms(2)
proof (induction rs arbitrary: db)
  case (Cons x rs)
  obtain prior_id payload where x: "x = (prior_id, payload)" by (cases x)
  let ?db = "db\<lparr>db_resolutions := db_resolutions db @ map (\<lambda>_. (rid, payload)) (admitting_reviews (review_open (Some c) db) rid db)\<rparr>"
  have "working c patch rid db0 ?db" by (rule working_rows [OF Cons.prems]) simp_all
  from Cons.IH [OF this] Cons.IH [OF Cons.prems] admitted [OF assms(1) Cons.prems] x show ?case by (simp add: Let_def)
qed simp

lemma yields_resolutions:
  assumes "in_force cx c" and "owned c db0" and "w_script w = []" and "working c patch rid db0 (w_db w)"
    and "\<And>w'. w_script w' = [] \<Longrightarrow> working c patch rid db0 (w_db w') \<Longrightarrow> Q () w'"
  shows "yields (save_resolutions cx rid rs) w Q"
proof (cases "rs = []")
  case False
  have clean: "working c patch rid db0 ((w_db w)\<lparr>db_resolutions := sql_delete (\<lambda>r. fst r = rid) (db_resolutions (w_db w))\<rparr>)"
    by (rule working_rows [OF assms(4)]) simp_all
  obtain db' where "insert_prior_feedback_resolutions (Some c) rid rs (w_db w) = Inr db'" "working c patch rid db0 db'"
    using insert_resolutions_working [OF assms(2) clean, of rs] admitted [OF assms(2,4)] False
    by (auto simp: insert_prior_feedback_resolutions_def)
  with False assms(1,3,5) show ?thesis by (auto simp: save_resolutions_def in_force_def intro!: yields_guarded)
qed (use assms in \<open>simp add: save_resolutions_def yields_give\<close>)

lemma yields_take:
  assumes "in_force cx c" and "owned c db0" and "w_script w = []" and "cx_patch_id cx = patch"
    and "case existing of None \<Rightarrow> w_db w = db0 | Some rid \<Rightarrow> working c patch rid db0 (w_db w)"
    and "\<And>rid w'. w_script w' = [] \<Longrightarrow> working c patch rid db0 (w_db w') \<Longrightarrow> Q rid w'"
  shows "yields (take_review cx existing) w Q"
proof (cases existing)
  case None
  then obtain db' rid where "claim_or_create_in_review (Some c) (cl_patchset_id c) (Some patch) (w_db w) = Inr (db', rid)"
    "working c patch rid db0 db'" using take_new [OF assms(2)] assms(5) by fastforce
  with None assms show ?thesis by (auto simp: take_review_def in_force_def intro!: yields_guarded)
next
  case (Some rid)
  then obtain db' where "clear_aborted_review_artifacts (Some c) rid (w_db w) = Inr db'" "working c patch rid db0 db'"
    using clear_working [OF assms(2)] assms(5) by fastforce
  with Some assms show ?thesis by (auto simp: take_review_def in_force_def intro!: yields_guarded)
qed

text \<open>The end of the review of a patch.\<close>

definition patch_verdict :: "patch_result \<Rightarrow> string \<Rightarrow> bool" where
  "patch_verdict r status \<longleftrightarrow> (r = Success \<and> (status = ''Reviewed'' \<or> status = ''Skipped'')) \<or> (r = Review_failed \<and> status = ''Failed'')"

definition patch_done :: "patchset_review_claim \<Rightarrow> int \<Rightarrow> review_db \<Rightarrow> patch_result \<Rightarrow> world \<Rightarrow> bool" where
  "patch_done c patch db0 r w \<longleftrightarrow> (\<exists>status. patch_verdict r status \<and> settled c patch status db0 (w_db w))"

lemma yields_mark:
  assumes "in_force cx c" and "w_script w = []" and "owned c db0" and "completed db0 (w_db w)" and "cx_patch_id cx = patch"
    and "patch_verdict r status"
  shows "yields (seq (set_patch_status cx status) (\<lambda>_. give r)) w (patch_done c patch db0)"
  by (rule yields_seq, rule yields_set_status [OF assms(1-5)])
    (use assms(6) in \<open>auto simp: patch_verdict_def patch_done_def intro!: yields_give\<close>)

lemma yields_finish:
  assumes "in_force cx c" and "w_script w = []" and "owned c db0" and "working c patch rid db0 (w_db w)" and "cx_patch_id cx = patch"
  shows "yields (finish_failed cx rid text interaction) w (patch_done c patch db0)"
    and "yields (finish_skipped cx rid text interaction) w (patch_done c patch db0)"
    and "yields (finish_reviewed cx rid out content) w (patch_done c patch db0)"
proof -
  show "yields (finish_failed cx rid text interaction) w (patch_done c patch db0)"
    unfolding finish_failed_def
    by (rule yields_or_cancelled, rule yields_complete [OF assms(1-4)])
      (auto intro!: yields_mark [OF assms(1) _ assms(3) _ assms(5)] simp: patch_verdict_def)
  show "yields (finish_skipped cx rid text interaction) w (patch_done c patch db0)"
    unfolding finish_skipped_def
    by (rule yields_or_cancelled, rule yields_complete [OF assms(1-4)])
      (auto intro!: yields_mark [OF assms(1) _ assms(3) _ assms(5)] simp: patch_verdict_def)
  have mark: "yields (seq (set_patch_status cx ''Reviewed'') (\<lambda>_. give Success)) w' (patch_done c patch db0)"
    if "w_script w' = []" "completed db0 (w_db w')" for w'
    by (rule yields_mark [OF assms(1) that(1) assms(3) that(2) assms(5)]) (simp add: patch_verdict_def)
  have queue: "yields (seq (if b then queue_notifications_with_retry cx else give ())
      (\<lambda>_. seq (set_patch_status cx ''Reviewed'') (\<lambda>_. give Success))) w' (patch_done c patch db0)"
    if "w_script w' = []" "completed db0 (w_db w')" for w' b
    by (rule yields_seq) (use that in \<open>auto intro: yields_notify mark yields_give\<close>)
  show "yields (finish_reviewed cx rid out content) w (patch_done c patch db0)"
    unfolding finish_reviewed_def
    by (intro yields_or_cancelled yields_findings [OF assms(1,3)] yields_resolutions [OF assms(1,3)] yields_complete [OF assms(1) _ assms(3)] queue)
      (use assms in auto)
qed

definition returns_normally :: "tool_result \<Rightarrow> bool" where
  "returns_normally result \<longleftrightarrow> (case result of Tool_cancelled \<Rightarrow> False | Tool_panicked _ \<Rightarrow> False | _ \<Rightarrow> True)"

definition attempted :: "patchset_review_claim \<Rightarrow> int \<Rightarrow> review_db \<Rightarrow> attempt_end \<Rightarrow> world \<Rightarrow> bool" where
  "attempted c patch db0 e w \<longleftrightarrow>
     (case e of Finished r \<Rightarrow> patch_done c patch db0 r w | Unsuccessful rid _ _ _ \<Rightarrow> working c patch rid db0 (w_db w))"

lemma yields_settle:
  assumes "in_force cx c" and "w_script w = []" and "owned c db0" and "working c patch rid db0 (w_db w)" and "cx_patch_id cx = patch"
    and "returns_normally result"
  shows "yields (settle_result cx rid result) w (attempted c patch db0)"
proof -
  note ends = yields_finish [OF assms(1-5), THEN yields_mono]
  have again: "yields (give (Unsuccessful rid t i b)) w (attempted c patch db0)" for t i b
    using assms by (auto simp: attempted_def intro: yields_give)
  have "yields (settle_output cx rid out) w (attempted c patch db0)" for out
    unfolding settle_output_def Let_def
    by (auto simp: again attempted_def split: option.split intro!: yields_lift_end ends)
  with again assms(6) show ?thesis by (auto simp: settle_result_def returns_normally_def split: tool_result.splits)
qed

lemma yields_attempt:
  assumes "in_force cx c" and "w_script w = []" and "owned c db0" and "cx_patch_id cx = patch" and "returns_normally result"
    and "case existing of None \<Rightarrow> w_db w = db0 | Some rid \<Rightarrow> working c patch rid db0 (w_db w)"
  shows "yields (review_attempt cx result existing) w (attempted c patch db0)"
proof -
  have own: "owned c (w_db w)" using assms(3,6) working_owned by (cases existing) auto
  obtain w1 where w1: "check_patchset_claim_active cx w = (w1, Inr True)" "w_script w1 = []" "w_db w1 = w_db w"
    using yields_check_claim [OF assms(1,2) own, of "\<lambda>b w'. b \<and> w_db w' = w_db w"] by (auto simp: yields_def)
  have "yields (take_review cx existing) w1 (\<lambda>rid w'. working c patch rid db0 (w_db w'))"
    by (rule yields_take [OF assms(1,3) w1(2) assms(4)]) (use assms(6) w1(3) in \<open>simp_all split: option.splits\<close>)
  then obtain w2 rid where w2: "take_review cx existing w1 = (w2, Inr rid)" "w_script w2 = []" "working c patch rid db0 (w_db w2)"
    by (auto simp: yields_def)
  let ?w = "w2\<lparr>w_runs := w_runs w2 + 1\<rparr>"
  have "owned c (w_db ?w)" using working_owned [OF assms(3) w2(3)] by simp
  then obtain w3 where w3: "check_patchset_claim_active cx ?w = (w3, Inr True)" "w_script w3 = []" "w_db w3 = w_db w2"
    using yields_check_claim [OF assms(1), of ?w "\<lambda>b w'. b \<and> w_db w' = w_db ?w"] w2(2) by (auto simp: yields_def)
  have "yields (settle_result cx rid result) w3 (attempted c patch db0)"
    by (rule yields_settle [OF assms(1) w3(2) assms(3) _ assms(4,5)]) (use w2 w3 in simp)
  moreover have "after_run cx rid result ?w = settle_result cx rid result w3"
    using w3(1) assms(5) by (auto simp: after_run_def returns_normally_def split: tool_result.split)
  ultimately show ?thesis
    using w1 w2 by (simp add: yields_def review_attempt_def seq_def run_review_tool_def)
qed

lemma yields_attempts:
  assumes "in_force cx c" and "w_script w = []" and "owned c db0" and "cx_patch_id cx = patch" and "\<And>k. returns_normally (tool k)"
    and "case existing of None \<Rightarrow> w_db w = db0 | Some rid \<Rightarrow> working c patch rid db0 (w_db w)"
  shows "yields (review_attempts cx tool retries existing) w (patch_done c patch db0)"
  using assms(1-2,4-6)
proof (induction cx tool retries existing w rule: review_attempts.induct)
  case (1 cx tool retries existing w)
  obtain w1 e where w1: "review_attempt cx (tool retries) existing w = (w1, Inr e)" "w_script w1 = []" "attempted c patch db0 e w1"
    using yields_attempt [OF 1(2,3) assms(3) 1(4) 1(5) [of retries] 1(6)] by (auto simp: yields_def)
  show ?case
  proof (cases e)
    case (Finished r)
    with w1 show ?thesis by (simp add: yields_def attempted_def review_attempts.simps [of cx tool retries existing w])
  next
    case (Unsuccessful rid why interaction retryable)
    with w1 have work: "working c patch rid db0 (w_db w1)" by (simp add: attempted_def)
    show ?thesis
    proof (cases "retryable \<and> retries < cx_max_retries cx")
      case True
      have "yields (review_attempts cx tool (retries + 1) (Some rid)) w1 (patch_done c patch db0)"
        by (rule 1(1) [OF w1(1) [symmetric] refl Unsuccessful True 1(2) w1(2) 1(4,5)]) (simp add: work)
      with w1 Unsuccessful True show ?thesis by (simp add: yields_def review_attempts.simps [of cx tool retries existing w])
    next
      case False
      from yields_finish(1) [OF 1(2) w1(2) assms(3) work 1(4)] w1 Unsuccessful False
      show ?thesis by (auto simp: yields_def review_attempts.simps [of cx tool retries existing w])
    qed
  qed
qed

lemma yields_process:
  assumes "in_force cx c" and "w_script w = []" and "owned c (w_db w)" and "cx_patch_id cx = patch" and "\<And>k. returns_normally (tool k)"
  shows "yields (process_patch_review cx tool) w (patch_done c patch (w_db w))"
proof -
  have mark: "yields (seq (set_patch_status cx status) (\<lambda>_. give r)) w' (patch_done c patch (w_db w))"
    if "patch_verdict r status" "w_script w' = []" "completed (w_db w) (w_db w')" for r status w'
    by (rule yields_mark [OF assms(1) that(2) assms(3) that(3) assms(4) that(1)])
  have skip: "yields (or_cancelled (take_review cx None) (\<lambda>rid. finish_skipped cx rid t None)) w (patch_done c patch (w_db w))" for t
    by (rule yields_or_cancelled, rule yields_take [OF assms(1,3,2,4)]) (auto intro: yields_finish(2) [OF assms(1) _ assms(3) _ assms(4)])
  have notify: "yields (seq (case latest of Some r \<Rightarrow> if cx_stored_inline cx r then queue_notifications_with_retry cx else give () | None \<Rightarrow> give ())
      (\<lambda>_. seq (set_patch_status cx ''Reviewed'') (\<lambda>_. give Success))) w (patch_done c patch (w_db w))" for latest
    by (rule yields_seq)
      (auto simp: assms(2) completed_refl [OF assms(3)] patch_verdict_def split: option.split intro!: yields_notify yields_give mark)
  have "yields (seq (if cx_embargoed cx then give None else look (latest_completed_review p q)) (\<lambda>latest.
         seq (case latest of Some r \<Rightarrow> if cx_stored_inline cx r then queue_notifications_with_retry cx else give () | None \<Rightarrow> give ())
           (\<lambda>_. seq (set_patch_status cx ''Reviewed'') (\<lambda>_. give Success)))) w (patch_done c patch (w_db w))" for p q
    by (rule yields_seq) (auto simp: assms(2) intro!: yields_give yields_look notify)
  moreover have "yields (review_attempts cx tool 0 None) w (patch_done c patch (w_db w))"
    by (rule yields_attempts [OF assms(1-5)]) simp
  ultimately show ?thesis
    unfolding process_patch_review_def Let_def
    by (intro yields_seq [of "look _"] yields_look [OF assms(2)])
      (auto intro!: yields_seq [of "look _"] yields_look skip mark simp: assms(2) completed_refl [OF assms(3)] patch_verdict_def)
qed

text \<open>C12. Undisturbed and with its claim in force, the review of a patch comes to an end with its verdict: the patch has the status that goes with it, no review is unfinished that was not before, and the claim is still in force.\<close>

theorem patch_review_settles:
  assumes "in_force cx c" and "owned c (w_db w)" and "w_script w = []" and "\<forall>k. returns_normally (tool k)"
  shows "\<exists>w' r status. process_patch_review cx tool w = (w', Inr r)
     \<and> (r = Success \<and> (status = ''Reviewed'' \<or> status = ''Skipped'') \<or> r = Review_failed \<and> status = ''Failed'')
     \<and> db_patches (w_db w') = map (\<lambda>p. if pa_id p = cx_patch_id cx \<and> pa_patchset_id p = cx_patchset_id cx \<and> pa_status p \<noteq> Some ''Cancelled''
                                       then p\<lparr>pa_status := Some status\<rparr> else p) (db_patches (w_db w))
     \<and> in_review (w_db w') \<subseteq> in_review (w_db w) \<and> owned c (w_db w')"
proof -
  obtain w' r where w': "process_patch_review cx tool w = (w', Inr r)" "patch_done c (cx_patch_id cx) (w_db w) r w'"
    using yields_process [OF assms(1,3,2) refl, of tool] assms(4) by (auto simp: yields_def)
  then obtain status where "patch_verdict r status" and s: "settled c (cx_patch_id cx) status (w_db w) (w_db w')"
    by (auto simp: patch_done_def)
  with w'(1) settled_owned [OF assms(2) s] assms(1) show ?thesis
    by (intro exI [of _ w'] exI [of _ r] exI [of _ status])
      (auto simp: patch_verdict_def settled_def patch_marked_def update_patches_def sql_update_def in_force_def)
qed

definition example_series_claimed :: review_db where
  "example_series_claimed = fst (claim_patchset_for_review_with_gen 1 example_db)"

definition example_ctx :: review_ctx where
  "example_ctx = \<lparr>cx_claim = Some \<lparr>cl_patchset_id = 1, cl_generation = 1\<rparr>, cx_patchset_id = 1, cx_patch_id = 10, cx_target_review_count = 1,
     cx_max_retries = 1, cx_no_ai = False, cx_linux_bug_enabled = False, cx_only_ignored_files = False, cx_embargoed = False,
     cx_stored_inline = (\<lambda>_. True), cx_notify = [Out_check ''m'' ''url'' ''ctx'' ''payload''],
     cx_comment = (\<lambda>_. None), cx_incomplete_marker = ''incomplete''\<rparr>"

text \<open>The first run fails, the second has a review with one finding.\<close>

definition example_tool :: "nat \<Rightarrow> tool_result" where
  "example_tool k = (if k = 0 then Tool_failed ''timeout''
     else Output \<lparr>to_target_applied = True, to_error = None,
       to_review = Some (Some \<lparr>rc_findings = [\<lparr>fj_payload = ''f'', fj_preexisting = None\<rparr>], rc_resolutions = []\<rparr>),
       to_inline_review = Some ''r'', to_interaction_id = None\<rparr>)"

theorem patch_review_settles_witness:
  "\<exists>w' r status. process_patch_review example_ctx example_tool \<lparr>w_db = example_series_claimed, w_script = [], w_runs = 0\<rparr> = (w', Inr r)
     \<and> (r = Success \<and> (status = ''Reviewed'' \<or> status = ''Skipped'') \<or> r = Review_failed \<and> status = ''Failed'')
     \<and> map pa_status (db_patches (w_db w')) = [Some status] \<and> in_review (w_db w') = {}"
proof -
  have "owned \<lparr>cl_patchset_id = 1, cl_generation = 1\<rparr> example_series_claimed" by code_simp
  moreover have "\<forall>k. returns_normally (example_tool k)" by (simp add: example_tool_def returns_normally_def)
  moreover have "map (\<lambda>p. (pa_id p, pa_patchset_id p, pa_status p)) (db_patches example_series_claimed) = [(10, 1, Some ''Pending'')]" by code_simp
  moreover have "in_review example_series_claimed = {}" by code_simp
  ultimately show ?thesis
    using patch_review_settles [of example_ctx "\<lparr>cl_patchset_id = 1, cl_generation = 1\<rparr>" "\<lparr>w_db = example_series_claimed, w_script = [], w_runs = 0\<rparr>" example_tool]
    by (fastforce simp: example_ctx_def in_force_def)
qed

text \<open>The same review, computed: the second attempt succeeds, and its check is queued.\<close>

lemma example_review_runs:
  "(case process_patch_review example_ctx example_tool \<lparr>w_db = example_series_claimed, w_script = [], w_runs = 0\<rparr> of (w', r) \<Rightarrow>
      (w_runs w', r, map rv_status (db_reviews (w_db w')), map pa_status (db_patches (w_db w')), length (db_findings (w_db w')),
       length (db_patchwork_outbox (w_db w'))))
   = (2, Inr Success, [Some ''Reviewed''], [Some ''Reviewed''], 1, 1)"
  by code_simp

section \<open>How often the tool runs\<close>

definition runs_at_most :: "nat \<Rightarrow> 'a op \<Rightarrow> bool" where
  "runs_at_most n m \<longleftrightarrow> (\<forall>w. w_runs (fst (m w)) \<le> w_runs w + n)"

named_theorems runs_intros

lemma runs_guarded [runs_intros]: "runs_at_most 0 (guarded f)"
  by (auto simp: runs_at_most_def guarded_def Let_def split: list.split disturbance.split sum.split)

lemma runs_access [runs_intros]: "runs_at_most 0 (access f)" "runs_at_most 0 (change g)" "runs_at_most 0 (look h)"
  by (simp_all add: access_def change_def look_def runs_guarded)

lemma runs_give [runs_intros]: "runs_at_most 0 (give a)"
  by (simp add: runs_at_most_def give_def)

lemma runs_le: "runs_at_most n m \<Longrightarrow> m w = (w', r) \<Longrightarrow> w_runs w' \<le> w_runs w + n"
  by (metis fst_conv runs_at_most_def)

lemma runsI: "(\<And>w w' r. m w = (w', r) \<Longrightarrow> w_runs w' \<le> w_runs w + n) \<Longrightarrow> runs_at_most n m"
  unfolding runs_at_most_def by (metis prod.collapse)

lemma runs_mono: "runs_at_most a m \<Longrightarrow> a \<le> n \<Longrightarrow> runs_at_most n m"
  by (metis add_left_mono le_trans runs_at_most_def)

lemma runs_seq:
  assumes "runs_at_most a m" and "\<And>x. runs_at_most b (k x)"
  shows "runs_at_most (a + b) (seq m k)"
proof (rule runsI)
  fix w w' r
  assume run: "seq m k w = (w', r)"
  obtain w1 x where m: "m w = (w1, x)" by fastforce
  show "w_runs w' \<le> w_runs w + (a + b)"
    using run m runs_le [OF assms(1) m] runs_le [OF assms(2), of _ w1 w' r] by (cases x) (fastforce simp: seq_def)+
qed

lemma runs_or_cancelled:
  assumes "runs_at_most a m" and "\<And>x. runs_at_most b (k x)"
  shows "runs_at_most (a + b) (or_cancelled m k)"
proof (rule runsI)
  fix w w' r
  assume run: "or_cancelled m k w = (w', r)"
  obtain w1 x where m: "m w = (w1, x)" by fastforce
  show "w_runs w' \<le> w_runs w + (a + b)"
    using run m runs_le [OF assms(1) m] runs_le [OF assms(2), of _ w1 w' r]
    by (cases x) (fastforce simp: or_cancelled_def split: failure.splits)+
qed

lemma runs_zero_seq [runs_intros]:
  "runs_at_most 0 m \<Longrightarrow> (\<And>x. runs_at_most 0 (k x)) \<Longrightarrow> runs_at_most 0 (seq m k)"
  "runs_at_most 0 m \<Longrightarrow> (\<And>x. runs_at_most 0 (l x)) \<Longrightarrow> runs_at_most 0 (or_cancelled m l)"
  using runs_seq [of 0 m 0 k] runs_or_cancelled [of 0 m 0 l] by simp_all

lemma runs_logged [runs_intros]: "runs_at_most 0 m \<Longrightarrow> runs_at_most 0 (logged m)"
proof -
  have "fst (logged m w) = fst (m w)" for w by (simp add: logged_def split: prod.split sum.split failure.split)
  then show "runs_at_most 0 m \<Longrightarrow> ?thesis" by (simp add: runs_at_most_def)
qed

lemma runs_lift_end [runs_intros]: "runs_at_most n m \<Longrightarrow> runs_at_most n (lift_end m)"
proof -
  have "fst (lift_end m w) = fst (m w)" for w by (simp add: lift_end_def split: prod.split sum.split)
  then show "runs_at_most n m \<Longrightarrow> ?thesis" by (simp add: runs_at_most_def)
qed

lemma runs_retried [runs_intros]: "runs_at_most 0 m \<Longrightarrow> runs_at_most 0 (retried n m)"
proof (induction n)
  case (Suc n)
  show ?case
  proof (rule runsI)
    fix w w' r
    assume run: "retried (Suc n) m w = (w', r)"
    obtain w1 x where m: "m w = (w1, x)" by fastforce
    show "w_runs w' \<le> w_runs w + 0"
      using run m runs_le [OF Suc.prems m] runs_le [OF Suc.IH [OF Suc.prems], of w1 w' r]
      by (auto split: sum.splits failure.splits if_splits)
  qed
qed (simp add: runs_at_most_def)

lemma runs_statements [runs_intros]:
  "runs_at_most 0 (check_patchset_claim_active cx)" "runs_at_most 0 (set_patch_status cx st)"
  "runs_at_most 0 (complete_review_with_retry cx rid st t i)" "runs_at_most 0 (take_review cx existing)"
  "runs_at_most 0 (save_resolutions cx rid rs)"
  by (auto simp: check_patchset_claim_active_def set_patch_status_def complete_review_with_retry_def take_review_def save_resolutions_def
      split: option.split intro!: runs_intros)

lemma runs_loops [runs_intros]: "runs_at_most 0 (save_findings cx rid fs)" "runs_at_most 0 (queue_notifications_with_retry cx)"
proof -
  show "runs_at_most 0 (save_findings cx rid fs)" by (induction fs) (auto intro!: runs_intros)
  have "runs_at_most 0 (queue_notifications cx xs)" for xs by (induction xs) (auto intro!: runs_intros)
  then show "runs_at_most 0 (queue_notifications_with_retry cx)" unfolding queue_notifications_with_retry_def by (intro runs_intros)
qed

lemma runs_ends [runs_intros]:
  "runs_at_most 0 (finish_failed cx rid t i)" "runs_at_most 0 (finish_skipped cx rid t i)" "runs_at_most 0 (finish_reviewed cx rid out content)"
  "runs_at_most 0 (stop_cancelled cx existing)"
  by (auto simp: finish_failed_def finish_skipped_def finish_reviewed_def stop_cancelled_def split: option.split intro!: runs_intros)

lemma runs_settle: "runs_at_most 0 (settle_result cx rid result)"
proof -
  have "runs_at_most 0 (settle_output cx rid out)" for out
    by (auto simp: settle_output_def Let_def split: option.split intro!: runs_intros)
  moreover have "runs_at_most 0 (\<lambda>w. (w, Inl e))" for e by (simp add: runs_at_most_def)
  ultimately show ?thesis by (auto simp: settle_result_def split: tool_result.split intro!: runs_intros)
qed

lemma runs_after: "runs_at_most 0 (after_run cx rid result)"
proof (rule runsI)
  fix w w' r
  assume run: "after_run cx rid result w = (w', r)"
  obtain w1 x where c: "check_patchset_claim_active cx w = (w1, x)" by fastforce
  have cancelled: "runs_at_most 0 (lift_end (stop_cancelled cx (Some rid)))" by (intro runs_intros)
  consider (panic) t where "result = Tool_panicked t" | (lost) "lift_end (stop_cancelled cx (Some rid)) w1 = (w', r)"
    | (kept) "settle_result cx rid result w1 = (w', r)"
    using run c by (auto simp: after_run_def split: tool_result.splits sum.splits bool.splits)
  then show "w_runs w' \<le> w_runs w + 0"
  proof cases
    case panic
    with run show ?thesis by (simp add: after_run_def)
  qed (use runs_le [OF runs_statements(1) c] runs_le [OF cancelled] runs_le [OF runs_settle] in \<open>fastforce intro: order_trans\<close>)+
qed

lemma runs_attempt: "runs_at_most 1 (review_attempt cx result existing)"
proof (rule runsI)
  fix w w' r
  assume run: "review_attempt cx result existing w = (w', r)"
  obtain w1 x where c: "check_patchset_claim_active cx w = (w1, x)" by fastforce
  obtain w2 y where t: "take_review cx existing w1 = (w2, y)" by fastforce
  have cancelled: "runs_at_most 0 (lift_end (stop_cancelled cx existing))" by (intro runs_intros)
  have tool: "runs_at_most (1 + 0) (seq (run_review_tool result) (after_run cx rid))" for rid
    by (rule runs_seq [OF _ runs_after]) (simp add: runs_at_most_def run_review_tool_def)
  note le = runs_le [OF runs_statements(1) c] runs_le [OF runs_statements(4) t]
  consider "w' = w1" | "lift_end (stop_cancelled cx existing) w1 = (w', r)" | "w' = w2"
    | rid where "seq (run_review_tool result) (after_run cx rid) w2 = (w', r)"
    using run c t by (auto simp: review_attempt_def split: sum.splits bool.splits failure.splits)
  then show "w_runs w' \<le> w_runs w + 1"
  proof cases
    case 2
    with le runs_le [OF cancelled] show ?thesis by fastforce
  next
    case 4
    with le runs_le [OF tool 4] show ?thesis by simp
  qed (use le in simp_all)
qed

lemma runs_attempts: "retries \<le> cx_max_retries cx \<Longrightarrow> review_attempts cx tool retries existing w = (w', r) \<Longrightarrow>
  w_runs w' \<le> w_runs w + (cx_max_retries cx - retries + 1)"
proof (induction cx tool retries existing w rule: review_attempts.induct)
  case (1 cx tool retries existing w)
  obtain w1 e where a: "review_attempt cx (tool retries) existing w = (w1, e)" by fastforce
  note le = runs_le [OF runs_attempt a]
  show ?case
  proof (cases e)
    case (Inl f)
    with a le 1(3) show ?thesis by (simp add: review_attempts.simps [of cx tool retries existing w])
  next
    case (Inr b)
    show ?thesis
    proof (cases b)
      case (Finished x)
      with a le Inr 1(3) show ?thesis by (simp add: review_attempts.simps [of cx tool retries existing w])
    next
      case (Unsuccessful rid why interaction retryable)
      show ?thesis
      proof (cases "retryable \<and> retries < cx_max_retries cx")
        case True
        with a Inr Unsuccessful 1(3) have "review_attempts cx tool (retries + 1) (Some rid) w1 = (w', r)"
          by (simp add: review_attempts.simps [of cx tool retries existing w])
        from 1(1) [OF a [symmetric] Inr Unsuccessful True _ this] True le show ?thesis by simp
      next
        case False
        with a Inr Unsuccessful 1(3) have "finish_failed cx rid why interaction w1 = (w', r)"
          by (simp add: review_attempts.simps [of cx tool retries existing w])
        from runs_le [OF runs_ends(1) this] le show ?thesis by simp
      qed
    qed
  qed
qed

lemma runs_if: "runs_at_most n a \<Longrightarrow> runs_at_most n b \<Longrightarrow> runs_at_most n (if cond then a else b)"
  by simp

lemma runs_look: "(\<And>x. runs_at_most n (k x)) \<Longrightarrow> runs_at_most n (seq (look f) k)"
  using runs_seq [OF runs_access(3), of n k f] by simp

lemma runs_process: "runs_at_most (cx_max_retries cx + 1) (process_patch_review cx tool)"
proof -
  have loop: "runs_at_most (cx_max_retries cx + 1) (review_attempts cx tool 0 None)"
    by (rule runsI) (use runs_attempts [of 0] in simp)
  have stored: "runs_at_most 0 (case latest of Some r \<Rightarrow> if cx_stored_inline cx r then queue_notifications_with_retry cx else give () | None \<Rightarrow> give ())" for latest
    by (auto split: option.split intro!: runs_intros)
  have reviewed: "runs_at_most 0 (seq (if cx_embargoed cx then give None else look (latest_completed_review p q)) (\<lambda>latest.
      seq (case latest of Some r \<Rightarrow> if cx_stored_inline cx r then queue_notifications_with_retry cx else give () | None \<Rightarrow> give ())
        (\<lambda>_. seq (set_patch_status cx ''Reviewed'') (\<lambda>_. give Success))))" for p q
    by (intro runs_intros runs_if stored)
  have others: "runs_at_most 0 (seq (set_patch_status cx ''Failed'') (\<lambda>_. give Review_failed))"
    "runs_at_most 0 (or_cancelled (take_review cx None) (\<lambda>rid. finish_skipped cx rid t None))" for t
    by (intro runs_intros)+
  show ?thesis
    unfolding process_patch_review_def Let_def
    by (intro runs_look runs_if loop runs_mono [OF reviewed] runs_mono [OF others(1)] runs_mono [OF others(2)]) simp_all
qed

lemma runs_contained: "runs_at_most (cx_max_retries cx + 1) (process_patch_review_contained cx tool)"
proof (rule runsI)
  fix w w' r
  assume run: "process_patch_review_contained cx tool w = (w', r)"
  obtain v x where v: "process_patch_review cx tool w = (v, x)" by fastforce
  have b: "w_runs v \<le> w_runs w + (cx_max_retries cx + 1)" using runs_le [OF runs_process v] .
  show "w_runs w' \<le> w_runs w + (cx_max_retries cx + 1)"
  proof (cases "\<exists>t. x = Inl (Panicked t)")
    case True
    then obtain t where t: "x = Inl (Panicked t)" by blast
    obtain u y where u: "access (settle_panicked_patch_review (cx_claim cx) (cx_patchset_id cx) (cx_patch_id cx)
       (truncate_failed_reason (''Review task panicked: '' @ t))) v = (u, y)" by fastforce
    have "w' = u"
      using run v u t by (auto simp: process_patch_review_contained_def split: sum.splits panicked_patch_outcome.splits)
    moreover have "w_runs u \<le> w_runs v" using runs_le [OF runs_access(1) u] by simp
    ultimately show ?thesis using b by simp
  next
    case False
    then have "w' = v" using run v by (auto simp: process_patch_review_contained_def split: sum.splits failure.splits)
    then show ?thesis using b by simp
  qed
qed

text \<open>C13. Whatever others do to the database and whatever fails, reviewing the patches of a queue runs the tool once for each patch and once more for each repeat that is allowed, at most.\<close>

theorem tool_runs_bounded:
  "w_runs (fst (drain_review_queue show_failure (job_ctx cx ignore_files) tool jobs w)) \<le> w_runs w + length jobs * (cx_max_retries cx + 1)"
proof (induction jobs arbitrary: w)
  case (Cons job jobs)
  let ?cx = "job_ctx cx ignore_files job"
  obtain w1 b where c: "check_patchset_claim_active ?cx w = (w1, b)" by fastforce
  obtain w2 r where p: "process_patch_review_contained ?cx (tool job) w1 = (w2, r)" by fastforce
  obtain w3 fs a where d: "drain_review_queue show_failure (job_ctx cx ignore_files) tool jobs w2 = (w3, fs, a)" by (metis prod_cases3)
  have "w_runs w1 \<le> w_runs w" using runs_le [OF runs_statements(1) c] by simp
  moreover have "w_runs w2 \<le> w_runs w1 + (cx_max_retries cx + 1)" using runs_le [OF runs_contained p] by (simp add: job_ctx_def)
  moreover have "w_runs w3 \<le> w_runs w2 + length jobs * (cx_max_retries cx + 1)" using Cons.IH [of w2] d by simp
  ultimately show ?case using c p d by (auto split: sum.split bool.split patch_result.split)
qed simp

end
