(* ===== verification/SeriesVerdict.thy ===== *)
theory SeriesVerdict
  imports SeriesReview
begin

text \<open>
  The verdict of a series (\<open>review_patchset_task\<close> in \<open>src/src/reviewer.rs\<close>): undisturbed, every patch that is not left to another worker gets a
  status, and the series is failed exactly if a patch was.
\<close>

section \<open>The patches of a series\<close>

definition marked_by :: "patchset_review_claim \<Rightarrow> (int \<rightharpoonup> string) \<Rightarrow> patch_row \<Rightarrow> patch_row" where
  "marked_by c verdict p =
     (if pa_patchset_id p = cl_patchset_id c \<and> pa_status p \<noteq> Some ''Cancelled''
      then (case verdict (pa_id p) of Some status \<Rightarrow> p\<lparr>pa_status := Some status\<rparr> | None \<Rightarrow> p) else p)"

definition verdicts :: "string set" where
  "verdicts = {''Reviewed'', ''Skipped'', ''Failed''}"

definition progressed :: "patchset_review_claim \<Rightarrow> (int \<rightharpoonup> string) \<Rightarrow> review_db \<Rightarrow> review_db \<Rightarrow> bool" where
  "progressed c verdict db0 db \<longleftrightarrow> same_series db0 db \<and> keys_unique db \<and> in_review db \<subseteq> in_review db0 \<and> ran verdict \<subseteq> verdicts
     \<and> db_patches db = map (marked_by c verdict) (db_patches db0)"

lemma progressed_refl: "owned c db \<Longrightarrow> progressed c Map.empty db db"
  by (auto simp: progressed_def owned_def marked_by_def intro!: map_idI [symmetric])

lemma progressed_owned: "owned c db0 \<Longrightarrow> progressed c verdict db0 db \<Longrightarrow> owned c db"
  using same_series_current [of db0 db] by (auto simp: progressed_def owned_def)

lemma marked_by_upd:
  assumes "ran verdict \<subseteq> verdicts"
  shows "(let q = marked_by c verdict p in if pa_id q = patch \<and> pa_patchset_id q = cl_patchset_id c \<and> pa_status q \<noteq> Some ''Cancelled''
            then q\<lparr>pa_status := Some status\<rparr> else q) = marked_by c (verdict(patch \<mapsto> status)) p"
proof -
  have "verdict i \<noteq> Some ''Cancelled''" for i using assms by (auto simp: verdicts_def dest: ranI)
  then show ?thesis by (auto simp: marked_by_def Let_def split: option.split)
qed

lemma progressed_settled:
  assumes "progressed c verdict db0 db1" and "settled c patch status db1 db2" and "status \<in> verdicts"
  shows "progressed c (verdict(patch \<mapsto> status)) db0 db2"
proof -
  have "db_patches db2 = map (\<lambda>p. let q = marked_by c verdict p in
      if pa_id q = patch \<and> pa_patchset_id q = cl_patchset_id c \<and> pa_status q \<noteq> Some ''Cancelled''
      then q\<lparr>pa_status := Some status\<rparr> else q) (db_patches db0)"
    using assms(1,2) by (simp add: progressed_def settled_def patch_marked_def update_patches_def sql_update_def Let_def)
  also have "\<dots> = map (marked_by c (verdict(patch \<mapsto> status))) (db_patches db0)"
    using marked_by_upd assms(1) by (simp add: progressed_def)
  finally have "db_patches db2 = map (marked_by c (verdict(patch \<mapsto> status))) (db_patches db0)" .
  moreover have "ran (verdict(patch \<mapsto> status)) \<subseteq> verdicts"
    using assms(1,3) by (auto simp: progressed_def ran_def split: if_splits)
  ultimately show ?thesis
    using assms(1,2) same_series_trans [of db0 db1 db2] by (auto simp: progressed_def settled_def)
qed

definition chosen :: "series_settings \<Rightarrow> patch_diff list \<Rightarrow> patch_diff list" where
  "chosen ss ps = filter (\<lambda>p. \<not> List.member (ss_skip_patch_ids ss) (pd_patch_id p)) ps"

definition skipping :: "(patch_diff \<Rightarrow> bool) \<Rightarrow> patch_diff list \<Rightarrow> (int \<rightharpoonup> string) \<Rightarrow> (int \<rightharpoonup> string)" where
  "skipping out ps verdict = (\<lambda>i. if i \<in> pd_patch_id ` {p \<in> set ps. out p} then Some ''Skipped'' else verdict i)"

lemma skipping_Nil: "skipping out [] verdict = verdict"
  by (simp add: skipping_def)

lemma skipping_Cons:
  "skipping out (p # ps) verdict = skipping out ps (if out p then verdict(pd_patch_id p \<mapsto> ''Skipped'') else verdict)"
  by (auto simp: skipping_def fun_eq_iff)

lemma yields_skip:
  assumes "owned c db0" and "w_script w = []" and "progressed c verdict db0 (w_db w)"
    and "\<And>w'. w_script w' = [] \<Longrightarrow> progressed c (verdict(patch \<mapsto> ''Skipped'')) db0 (w_db w') \<Longrightarrow> Q () w'"
  shows "yields (logged (change (update_patch_status (Some c) patch ''Skipped''))) w Q"
proof -
  let ?db = "update_patch_status (Some c) patch ''Skipped'' (w_db w)"
  have own: "owned c (w_db w)" using progressed_owned assms(1,3) .
  have "settled c patch ''Skipped'' (w_db w) ?db"
    using own owned_patch_status [OF own, of "''Skipped''" patch]
    by (auto simp: settled_def patch_marked_def update_patches_def same_series_def keys_unique_def in_review_def owned_def)
  then have "progressed c (verdict(patch \<mapsto> ''Skipped'')) db0 ?db"
    by (rule progressed_settled [OF assms(3)]) (simp add: verdicts_def)
  then show ?thesis by (intro yields_logged yields_change assms(2,4)) (simp_all add: assms(2))
qed

lemma yields_select:
  assumes "owned c db0" and "w_script w = []" and "progressed c verdict db0 (w_db w)"
  shows "yields (select_jobs re_ok re_match (Some c) ss ps) w
     (\<lambda>jobs w'. progressed c (skipping (left_out re_ok re_match ss) (chosen ss ps) verdict) db0 (w_db w')
        \<and> jobs = filter (\<lambda>p. \<not> left_out re_ok re_match ss p) (chosen ss ps))"
  using assms(2,3)
proof (induction ps arbitrary: w verdict)
  case Nil
  then show ?case by (simp add: chosen_def skipping_Nil yields_give)
next
  case (Cons p ps)
  let ?out = "left_out re_ok re_match ss"
  have "chosen ss (p # ps) = (if List.member (ss_skip_patch_ids ss) (pd_patch_id p) then chosen ss ps else p # chosen ss ps)"
    by (simp add: chosen_def)
  moreover have "yields (seq (logged (change (update_patch_status (Some c) (pd_patch_id p) ''Skipped'')))
       (\<lambda>_. select_jobs re_ok re_match (Some c) ss ps)) w (\<lambda>jobs w'. progressed c (skipping ?out (p # chosen ss ps) verdict) db0 (w_db w')
        \<and> jobs = filter (\<lambda>p. \<not> ?out p) (chosen ss ps))" if "?out p"
    by (rule yields_seq, rule yields_skip [OF assms(1) Cons.prems], simp only: skipping_Cons that if_True, rule Cons.IH)
  moreover have "yields (seq (select_jobs re_ok re_match (Some c) ss ps) (\<lambda>jobs. give (p # jobs))) w
       (\<lambda>jobs w'. progressed c (skipping ?out (p # chosen ss ps) verdict) db0 (w_db w') \<and> jobs = p # filter (\<lambda>p. \<not> ?out p) (chosen ss ps))"
    if "\<not> ?out p"
    by (rule yields_seq, rule yields_mono [OF Cons.IH [OF Cons.prems]]) (simp add: skipping_Cons that yields_give)
  ultimately show ?case using Cons.IH [OF Cons.prems] by simp
qed

lemma contained_done:
  assumes "process_patch_review cx tool w = (w', Inr r)"
  shows "process_patch_review_contained cx tool w = (w', Inr r)"
  using assms by (simp add: process_patch_review_contained_def)

lemma drain_verdicts:
  assumes "in_force cx c" and "owned c db0" and "\<And>job k. returns_normally (tool job k)"
    and "w_script w = []" and "progressed c verdict db0 (w_db w)"
  shows "\<exists>w' fs verdict'. drain_review_queue show_failure (job_ctx cx ignored) tool jobs w = (w', fs, False)
     \<and> w_script w' = [] \<and> progressed c verdict' db0 (w_db w')
     \<and> dom verdict' = dom verdict \<union> pd_patch_id ` set jobs
     \<and> (\<forall>i. i \<notin> pd_patch_id ` set jobs \<longrightarrow> verdict' i = verdict i)
     \<and> (distinct (map pd_patch_id jobs) \<longrightarrow> (fs = [] \<longleftrightarrow> (\<forall>j \<in> set jobs. verdict' (pd_patch_id j) \<noteq> Some ''Failed'')))"
  using assms(4,5)
proof (induction jobs arbitrary: w verdict)
  case Nil
  then show ?case by auto
next
  case (Cons job jobs)
  let ?cx = "job_ctx cx ignored job"
  have force: "in_force ?cx c" "cx_patch_id ?cx = pd_patch_id job" using assms(1) by (simp_all add: in_force_def job_ctx_def)
  have own: "owned c (w_db w)" using progressed_owned assms(2) Cons.prems(2) .
  obtain w1 where w1: "check_patchset_claim_active ?cx w = (w1, Inr True)" "w_script w1 = []" "w_db w1 = w_db w"
    using yields_check_claim [OF force(1) Cons.prems(1) own, of "\<lambda>b w'. b \<and> w_db w' = w_db w"] by (auto simp: yields_def)
  have "owned c (w_db w1)" using own w1(3) by simp
  from yields_process [OF force(1) w1(2) this force(2), of "tool job"] assms(3)
  obtain w2 r where w2: "process_patch_review ?cx (tool job) w1 = (w2, Inr r)" "w_script w2 = []"
      "patch_done c (pd_patch_id job) (w_db w1) r w2" by (auto simp: yields_def)
  then obtain status where st: "patch_verdict r status" "settled c (pd_patch_id job) status (w_db w) (w_db w2)"
    using w1(3) by (auto simp: patch_done_def)
  let ?v = "verdict(pd_patch_id job \<mapsto> status)"
  have "progressed c ?v db0 (w_db w2)"
    by (rule progressed_settled [OF Cons.prems(2) st(2)]) (use st(1) in \<open>auto simp: patch_verdict_def verdicts_def\<close>)
  from Cons.IH [OF w2(2) this] obtain w' fs verdict' where d: "drain_review_queue show_failure (job_ctx cx ignored) tool jobs w2 = (w', fs, False)"
      "w_script w' = []" "progressed c verdict' db0 (w_db w')" "dom verdict' = dom ?v \<union> pd_patch_id ` set jobs"
      "\<forall>i. i \<notin> pd_patch_id ` set jobs \<longrightarrow> verdict' i = ?v i"
      "distinct (map pd_patch_id jobs) \<longrightarrow> (fs = [] \<longleftrightarrow> (\<forall>j \<in> set jobs. verdict' (pd_patch_id j) \<noteq> Some ''Failed''))" by blast
  let ?line = "if status = ''Failed'' then [failure_line job ''review failed, see its review log''] else []"
  have "drain_review_queue show_failure (job_ctx cx ignored) tool (job # jobs) w = (w', ?line @ fs, False)"
    using w1(1) contained_done [OF w2(1)] d(1) st(1) by (auto simp: patch_verdict_def)
  moreover have "distinct (map pd_patch_id (job # jobs)) \<longrightarrow>
      (?line @ fs = [] \<longleftrightarrow> (\<forall>j \<in> set (job # jobs). verdict' (pd_patch_id j) \<noteq> Some ''Failed''))"
    using d(5,6) by auto
  moreover have "dom verdict' = dom verdict \<union> pd_patch_id ` set (job # jobs)" using d(4) by auto
  moreover have "\<forall>i. i \<notin> pd_patch_id ` set (job # jobs) \<longrightarrow> verdict' i = verdict i" using d(5) by simp
  ultimately show ?case using d(2,3) by blast
qed

section \<open>The end of a series\<close>

lemma progressed_fail_review: "progressed c verdict db0 db \<Longrightarrow> progressed c verdict db0 (fail_review reason rid db)"
  by (auto simp: progressed_def fail_review_def reviews_rows children_rows same_series_def keys_unique_def map_sql_update in_review_def set_sql_update)

lemma progressed_orphans: "progressed c verdict db0 db \<Longrightarrow> progressed c verdict db0 (fail_orphaned_in_review_rows cl pid reason db)"
proof -
  assume prog: "progressed c verdict db0 db"
  have "progressed c verdict db0 (fold (fail_review reason) ids db)" for ids
    using prog by (induction ids arbitrary: db) (simp_all add: progressed_fail_review)
  with prog show ?thesis by (simp add: fail_orphaned_in_review_rows_def)
qed

lemma find_Some_in: "find P xs = Some x \<Longrightarrow> x \<in> set xs \<and> P x"
  by (induction xs) (auto split: if_splits)

lemma find_succeeds: "x \<in> set xs \<Longrightarrow> P x \<Longrightarrow> \<exists>y. find P xs = Some y"
  by (induction xs) auto

lemma finish_statements:
  fixes c db status reason comments
  assumes "owned c db" and "status \<noteq> ''Cancelled''" and "status \<noteq> ''In Review''"
  defines "final \<equiv> release_patchset_claim (Some c)
     ((fst (complete_patchset_review (Some c) (cl_patchset_id c) status reason db))\<lparr>db_forge_outbox := comments\<rparr>)"
  shows "db_patches final = db_patches db" and "in_review final = in_review db"
    and "get_patchset_status (cl_patchset_id c) final = Some status" and "db_active_gen final (cl_patchset_id c) = None"
proof -
  let ?q = "\<lambda>ps. ps_id ps = cl_patchset_id c \<and> ps_status ps = Some ''In Review'' \<and> db_active_gen db (ps_id ps) = Some (cl_generation c)"
  let ?rows = "sql_update ?q (finish_patchset status reason) (db_patchsets db)"
  let ?after = "(update_patchsets ?q (finish_patchset status reason) db)\<lparr>db_forge_outbox := comments\<rparr>"
  have keys: "distinct (map ps_id (db_patchsets db))" using assms(1) by (simp add: owned_def keys_unique_def)
  obtain ps where ps: "ps \<in> set (db_patchsets db)" "?q ps"
    using assms(1) by (auto simp: owned_def claim_current_def patchset_has_status_def list_ex_iff)
  have only: "x = ps" if "x \<in> set (db_patchsets db)" "ps_id x = cl_patchset_id c" for x
    using keys ps that by (auto simp: distinct_map inj_on_def)
  have rows: "x \<in> set ?rows \<Longrightarrow> ps_id x = cl_patchset_id c \<Longrightarrow> x = finish_patchset status reason ps" for x
  proof -
    assume "x \<in> set ?rows" and x: "ps_id x = cl_patchset_id c"
    then obtain y where y: "y \<in> set (db_patchsets db)" "x = (if ?q y then finish_patchset status reason y else y)"
      by (auto simp only: set_sql_update)
    then have "ps_id y = cl_patchset_id c" using x by (auto simp: finish_patchset_def split: if_splits)
    with only y ps(2) show "x = finish_patchset status reason ps" by simp
  qed
  have mem: "finish_patchset status reason ps \<in> set ?rows" using ps by (auto simp: set_sql_update intro!: bexI [of _ ps])
  moreover have "ps_id (finish_patchset status reason ps) = cl_patchset_id c" using ps(2) by (simp add: finish_patchset_def)
  ultimately obtain x where x: "find (\<lambda>ps. ps_id ps = cl_patchset_id c) ?rows = Some x"
    using find_succeeds [of _ ?rows "\<lambda>ps. ps_id ps = cl_patchset_id c"] by blast
  have "x = finish_patchset status reason ps" using find_Some_in [OF x] by (intro rows) simp_all
  then have "ps_status x = Some status" by (simp add: finish_patchset_def)
  then have found: "Option.bind (find (\<lambda>ps. ps_id ps = cl_patchset_id c) ?rows) ps_status = Some status"
    unfolding x by simp
  have over: "\<not> patchset_has_status [''In Review''] (cl_patchset_id c) ?after"
  proof
    assume "patchset_has_status [''In Review''] (cl_patchset_id c) ?after"
    then obtain x where x: "x \<in> set ?rows" "ps_id x = cl_patchset_id c" "ps_status x = Some ''In Review''"
      by (auto simp: patchset_has_status_def list_ex_iff update_patchsets_def)
    show False using rows [OF x(1,2)] x(3) assms(3) by (simp add: finish_patchset_def)
  qed
  have gen: "db_active_gen db (cl_patchset_id c) = Some (cl_generation c)" using ps(2) by metis
  have final: "final = set_active_gen (cl_patchset_id c) None ?after"
    using over assms(2) gen
    by (simp add: final_def complete_patchset_review_def release_patchset_claim_def Let_def) (simp add: update_patchsets_def)
  show "db_patches final = db_patches db" "in_review final = in_review db" "db_active_gen final (cl_patchset_id c) = None"
    unfolding final by (simp_all add: set_active_gen_def update_patchsets_def in_review_def)
  show "get_patchset_status (cl_patchset_id c) final = Some status"
    unfolding final using found by (simp add: get_patchset_status_def set_active_gen_def update_patchsets_def)
qed

lemma comment_rows: "\<exists>comments. insert_forge_outbox marker claim pid repo pr_number body status db = db\<lparr>db_forge_outbox := comments\<rparr>"
proof -
  have "db = db\<lparr>db_forge_outbox := db_forge_outbox db\<rparr>" by simp
  then show ?thesis unfolding insert_forge_outbox_def Let_def by (cases "find (\<lambda>f. fo_patchset_id f = pid) (db_forge_outbox db)") (auto simp only: option.case split: if_split)
qed

lemma yields_comment:
  assumes "w_script w = []" and "\<And>comments w'. w_script w' = [] \<Longrightarrow> w_db w' = (w_db w)\<lparr>db_forge_outbox := comments\<rparr> \<Longrightarrow> Q () w'"
  shows "yields (queue_forge_pr_comment cx) w Q"
proof -
  have "Q () w" by (rule assms(2) [of _ "db_forge_outbox (w_db w)"]) (simp_all add: assms(1))
  moreover have "Q () (w\<lparr>w_db := insert_forge_outbox marker claim pid repo pr_number body status (w_db w)\<rparr>)"
    for marker claim pid repo pr_number body status
    using comment_rows [of marker claim pid repo pr_number body status "w_db w"] assms by auto
  ultimately show ?thesis
    unfolding queue_forge_pr_comment_def
    by (auto simp: assms(1) split: option.split intro!: yields_seq yields_look yields_give yields_change)
qed

lemma yields_finish_series:
  assumes "in_force cx c" and "w_script w = []" and "owned c db0" and "progressed c verdict db0 (w_db w)"
  shows "yields (finish_series cx queued fs False) w (\<lambda>_ w'. db_patches (w_db w') = map (marked_by c verdict) (db_patches db0)
     \<and> in_review (w_db w') \<subseteq> in_review db0
     \<and> get_patchset_status (cl_patchset_id c) (w_db w') = Some (if fs = [] then ''Reviewed'' else ''Failed'')
     \<and> db_active_gen (w_db w') (cl_patchset_id c) = None)"
proof -
  define closed :: "unit \<Rightarrow> world \<Rightarrow> bool" where
    "closed = (\<lambda>_ w'. db_patches (w_db w') = map (marked_by c verdict) (db_patches db0) \<and> in_review (w_db w') \<subseteq> in_review db0
     \<and> get_patchset_status (cl_patchset_id c) (w_db w') = Some (if fs = [] then ''Reviewed'' else ''Failed'')
     \<and> db_active_gen (w_db w') (cl_patchset_id c) = None)"
  have close: "yields (seq (logged (seq (retried db_write_attempts (access (complete_patchset_review (Some c) (cl_patchset_id c) st reason)))
          (\<lambda>updated. if updated then queue_forge_pr_comment cx else give ())))
        (\<lambda>_. logged (change (release_patchset_claim (Some c))))) v closed"
    if "w_script v = []" "progressed c verdict db0 (w_db v)" "st = (if fs = [] then ''Reviewed'' else ''Failed'')" for v st reason
  proof -
    let ?mid = "\<lambda>comments. (fst (complete_patchset_review (Some c) (cl_patchset_id c) st reason (w_db v)))\<lparr>db_forge_outbox := comments\<rparr>"
    have own: "owned c (w_db v)" using progressed_owned assms(3) that(2) .
    have release: "yields (logged (change (release_patchset_claim (Some c)))) v' closed" if "w_script v' = []" "w_db v' = ?mid comments" for v' comments
      using finish_statements [OF own, where status = st and reason = reason and comments = comments] that \<open>progressed c verdict db0 (w_db v)\<close> \<open>st = _\<close>
      by (intro yields_logged yields_change) (auto simp: progressed_def closed_def)
    have "yields (if updated then queue_forge_pr_comment cx else give ()) (v\<lparr>w_db := ?mid (db_forge_outbox (w_db (v\<lparr>w_db := ?mid x\<rparr>)))\<rparr>)
       (\<lambda>_ w'. yields (logged (change (release_patchset_claim (Some c)))) w' closed)" for updated x
      using that(1) by (auto intro!: yields_comment yields_give release)
    from this [of _ "db_forge_outbox (fst (complete_patchset_review (Some c) (cl_patchset_id c) st reason (w_db v)))"]
    show ?thesis
      by (intro yields_seq yields_logged yields_retried yields_access) (simp_all add: that(1) db_write_attempts_def)
  qed
  have orphans: "yields (if fs = [] then give () else logged (retried db_write_attempts
       (change (fail_orphaned_in_review_rows (Some c) (cl_patchset_id c) reason)))) w (\<lambda>_ v. progressed c verdict db0 (w_db v))" for reason
    using assms(2,4) progressed_orphans
    by (auto intro!: yields_give yields_logged yields_retried yields_change simp: db_write_attempts_def)
  have assoc: "seq (seq m k) l = seq m (\<lambda>a. seq (k a) l)" for m :: "unit op" and k :: "unit \<Rightarrow> unit op" and l :: "unit \<Rightarrow> unit op"
    by (auto simp: seq_def fun_eq_iff split: prod.split sum.split)
  show ?thesis
    unfolding finish_series_def Let_def closed_def [symmetric]
    using assms(1)
    by (auto simp only: in_force_def if_False assoc intro!: yields_seq [OF yields_mono [OF orphans]] close)
qed

text \<open>C2. Undisturbed and with its claim in force, the review of a series comes to an end with its verdict: every patch that it was given, less those left to another worker, is reviewed, skipped or failed; the series is failed exactly if one of its patches is, and reviewed otherwise; no review is unfinished that was not before; and the claim is given up.\<close>

theorem series_settles:
  assumes "in_force cx c" and "owned c (w_db w)" and "w_script w = []" and "\<forall>job k. returns_normally (tool job k)"
    and "distinct (map pd_patch_id ps)"
  shows "\<exists>w' verdict. review_series re_ok re_match show_failure ss ignored cx tool ps w = (w', Inr ())
     \<and> dom verdict = pd_patch_id ` set (chosen ss ps) \<and> ran verdict \<subseteq> {''Reviewed'', ''Skipped'', ''Failed''}
     \<and> db_patches (w_db w') = map (marked_by c verdict) (db_patches (w_db w))
     \<and> get_patchset_status (cl_patchset_id c) (w_db w') = Some (if ''Failed'' \<in> ran verdict then ''Failed'' else ''Reviewed'')
     \<and> in_review (w_db w') \<subseteq> in_review (w_db w) \<and> db_active_gen (w_db w') (cl_patchset_id c) = None"
proof -
  let ?out = "left_out re_ok re_match ss"
  let ?jobs = "filter (\<lambda>p. \<not> ?out p) (chosen ss ps)"
  let ?v = "skipping ?out (chosen ss ps) Map.empty"
  obtain w1 where w1: "select_jobs re_ok re_match (Some c) ss ps w = (w1, Inr ?jobs)" "w_script w1 = []" "progressed c ?v (w_db w) (w_db w1)"
    using yields_select [OF assms(2,3) progressed_refl [OF assms(2)], of re_ok re_match ss ps] by (auto simp: yields_def)
  obtain w2 fs verdict where w2: "drain_review_queue show_failure (job_ctx cx ignored) tool ?jobs w1 = (w2, fs, False)"
      "w_script w2 = []" "progressed c verdict (w_db w) (w_db w2)" "dom verdict = dom ?v \<union> pd_patch_id ` set ?jobs"
      "\<forall>i. i \<notin> pd_patch_id ` set ?jobs \<longrightarrow> verdict i = ?v i"
      "distinct (map pd_patch_id ?jobs) \<longrightarrow> (fs = [] \<longleftrightarrow> (\<forall>j \<in> set ?jobs. verdict (pd_patch_id j) \<noteq> Some ''Failed''))"
    using drain_verdicts [OF assms(1,2) _ w1(2,3), of tool show_failure ignored ?jobs] assms(4) by blast
  obtain w3 where w3: "finish_series cx (length ?jobs) fs False w2 = (w3, Inr ())"
      "db_patches (w_db w3) = map (marked_by c verdict) (db_patches (w_db w))" "in_review (w_db w3) \<subseteq> in_review (w_db w)"
      "get_patchset_status (cl_patchset_id c) (w_db w3) = Some (if fs = [] then ''Reviewed'' else ''Failed'')"
      "db_active_gen (w_db w3) (cl_patchset_id c) = None"
    using yields_finish_series [OF assms(1) w2(2) assms(2) w2(3), of "length ?jobs" fs] by (auto simp: yields_def)
  have "distinct (map pd_patch_id ?jobs)" using assms(5) by (simp add: chosen_def distinct_map_filter)
  moreover have "verdict i = Some ''Failed'' \<Longrightarrow> i \<in> pd_patch_id ` set ?jobs" for i
    using w2(5) by (auto simp: skipping_def split: if_splits)
  ultimately have "fs = [] \<longleftrightarrow> ''Failed'' \<notin> ran verdict" using w2(6) by (auto simp: ran_def)
  moreover have "dom verdict = pd_patch_id ` set (chosen ss ps)" using w2(4) by (auto simp: skipping_def dom_def split: if_splits)
  moreover have "ran verdict \<subseteq> {''Reviewed'', ''Skipped'', ''Failed''}" using w2(3) by (simp add: progressed_def verdicts_def)
  moreover have "review_series re_ok re_match show_failure ss ignored cx tool ps w = (w3, Inr ())"
    using w1(1) w2(1) w3(1) assms(1) by (simp add: review_series_def seq_def in_force_def)
  ultimately show ?thesis using w3 by (intro exI [of _ w3] exI [of _ verdict]) simp
qed

text \<open>Two patches: one touches too many lines, the other is reviewed at the second attempt.\<close>

definition example_settings :: series_settings where
  "example_settings = \<lparr>ss_skip_filters = [], ss_only_filters = [], ss_max_lines_changed = 1, ss_max_files_touched = 5, ss_skip_patch_ids = []\<rparr>"

definition example_diffs :: "patch_diff list" where
  "example_diffs = [\<lparr>pd_patch_id = 9, pd_index = 1, pd_diff = ''+a'' @ [CHR 0x0A] @ ''+b'', pd_subject = ''s''\<rparr>,
     \<lparr>pd_patch_id = 10, pd_index = 2, pd_diff = ''+a'', pd_subject = ''t''\<rparr>]"

theorem series_settles_witness:
  "\<exists>w' verdict. review_series (\<lambda>_. True) (\<lambda>_ _. False) (\<lambda>_. ''error'') example_settings [] example_ctx (\<lambda>_. example_tool) example_diffs
       \<lparr>w_db = example_series_claimed, w_script = [], w_runs = 0\<rparr> = (w', Inr ())
     \<and> dom verdict = {9, 10 :: int}
     \<and> get_patchset_status 1 (w_db w') = Some (if ''Failed'' \<in> ran verdict then ''Failed'' else ''Reviewed'')"
proof -
  let ?c = "\<lparr>cl_patchset_id = 1, cl_generation = 1\<rparr>" and ?w = "\<lparr>w_db = example_series_claimed, w_script = [], w_runs = 0\<rparr>"
  have force: "in_force example_ctx ?c" by (simp add: in_force_def example_ctx_def)
  have "owned ?c example_series_claimed" by code_simp
  then have own: "owned ?c (w_db ?w)" and script: "w_script ?w = []" by simp_all
  have normal: "\<forall>job k. returns_normally (example_tool k)" by (simp add: example_tool_def returns_normally_def)
  have dist: "distinct (map pd_patch_id example_diffs)" and ids: "pd_patch_id ` set (chosen example_settings example_diffs) = {9, 10}"
    by (auto simp: example_diffs_def chosen_def example_settings_def)
  obtain w' verdict where "review_series (\<lambda>_. True) (\<lambda>_ _. False) (\<lambda>_. ''error'') example_settings [] example_ctx (\<lambda>_. example_tool) example_diffs ?w = (w', Inr ())"
      "dom verdict = pd_patch_id ` set (chosen example_settings example_diffs)"
      "get_patchset_status (cl_patchset_id ?c) (w_db w') = Some (if ''Failed'' \<in> ran verdict then ''Failed'' else ''Reviewed'')"
    using series_settles [OF force own script normal dist, of "\<lambda>_. True" "\<lambda>_ _. False" "\<lambda>_. ''error''" example_settings "[]"] by blast
  then show ?thesis using ids by (intro exI [of _ w'] exI [of _ verdict]) simp
qed

text \<open>The same series, computed.\<close>

lemma example_series_runs:
  "(case review_series (\<lambda>_. True) (\<lambda>_ _. False) (\<lambda>_. ''error'') example_settings [] example_ctx (\<lambda>_. example_tool) example_diffs
       \<lparr>w_db = example_series_claimed, w_script = [], w_runs = 0\<rparr> of (w', r) \<Rightarrow>
      (w_runs w', r, map ps_status (db_patchsets (w_db w')), map pa_status (db_patches (w_db w'))))
   = (2, Inr (), [Some ''Reviewed''], [Some ''Reviewed''])"
  by code_simp

end
