(* ===== verification/Prereq.thy ===== *)
theory Prereq
  imports Prelude
begin

text \<open>
  What the body of a series says of the series it needs (\<open>src/src/prerequisites.rs\<close>): explicit patch IDs first, then whole series by message
  ID, then a single base; and the series of a thread of mails: its head, its patches, and nothing else of the thread. Parsing one mail
  and computing the patch ID of a diff are parameters; a mailbox is a list of bytes.
\<close>

section \<open>Metadata\<close>

datatype prereq_error =
    Unmatched_brackets | Empty_message_id | Long_message_id | Invalid_message_id | No_message_id
  | Several_bases | No_valid_patch_ids | Too_many_series_ids | Too_many_patch_ids | Invalid_patch_id string
  | Too_many_messages nat | Head_not_found | Head_duplicated | Not_a_series | Not_the_head | Empty_series | Too_many_parts
  | Invalid_part nat | Duplicate_part nat | Incomplete_series nat nat | No_stable_patch_id nat | Git_failed string
  | Stored_part_count | Stored_too_many_parts | Stored_without_part | Stored_invalid_part int | Stored_duplicate_part int
  | Stored_without_diff int | Column_null | Engine_failed | Remote_failed string
  | Too_many_operations | Too_many_series | Wrong_series string | Chain_too_deep | Dependency_cycle string
  | Patch_not_returned string | Too_many_patches

definition max_mbox_messages :: nat where "max_mbox_messages = 500"
definition max_prerequisite_patch_ids :: nat where "max_prerequisite_patch_ids = 128"
definition max_prerequisite_series :: nat where "max_prerequisite_series = 128"
definition max_lore_operations :: nat where "max_lore_operations = 8"
definition max_prerequisite_depth :: nat where "max_prerequisite_depth = 8"

datatype prerequisite_metadata = Patch_ids "string list" "string list" | Message_ids "string list" | Based_on string

definition metadata_values :: "string \<Rightarrow> string \<Rightarrow> string list" where
  "metadata_values body field = List.map_filter (\<lambda>line.
     Option.bind (split_once (CHR '':'') line) (\<lambda>(name, val). if eq_ascii_nocase name field then Some (trim val) else None)) (lines body)"

definition is_ascii_control :: "char \<Rightarrow> bool" where
  "is_ascii_control c \<longleftrightarrow> code_point c < 32 \<or> code_point c = 127"

definition message_id_char :: "char \<Rightarrow> bool" where
  "message_id_char c \<longleftrightarrow> code_point c < 128 \<and> \<not> is_ascii_ws c \<and> \<not> is_ascii_control c \<and> c \<noteq> CHR ''<'' \<and> c \<noteq> CHR ''>''"

definition parse_message_id :: "string \<Rightarrow> prereq_error + string" where
  "parse_message_id val =
     (let has_open = prefix ''<'' val;
          message_id = (if has_open then butlast (tl val) else val)
      in if has_open \<noteq> suffix ''>'' val then Inl Unmatched_brackets
         else if message_id = [] then Inl Empty_message_id
         else if str_len message_id > 998 then Inl Long_message_id
         else if \<not> list_all message_id_char message_id then Inl Invalid_message_id
         else case split_once (CHR ''@'') message_id of
           None \<Rightarrow> Inl No_message_id
         | Some (local, domain) \<Rightarrow> if local = [] \<or> domain = [] then Inl Invalid_message_id else Inr message_id)"

fun based_on_step :: "string option \<Rightarrow> string list \<Rightarrow> prereq_error + string option" where
  "based_on_step base [] = Inr base"
| "based_on_step base (val # vals) =
     (case parse_message_id val of
        Inl e \<Rightarrow> Inl e
      | Inr message_id \<Rightarrow>
          (case base of
             Some existing \<Rightarrow> if existing \<noteq> message_id then Inl Several_bases else based_on_step base vals
           | None \<Rightarrow> based_on_step (Some message_id) vals))"

definition parse_based_on_message_id :: "string \<Rightarrow> prereq_error + string option" where
  "parse_based_on_message_id body = based_on_step None (metadata_values body ''Based-on'')"

text \<open>The IDs that are collected are also the ones seen.\<close>

fun series_ids_step :: "string list \<Rightarrow> string list \<Rightarrow> prereq_error + string list" where
  "series_ids_step ids [] = Inr ids"
| "series_ids_step ids (val # vals) =
     (case parse_message_id val of
        Inl e \<Rightarrow> Inl e
      | Inr message_id \<Rightarrow>
          if List.member ids message_id then series_ids_step ids vals
          else if length ids = max_prerequisite_series then Inl Too_many_series_ids
          else series_ids_step (ids @ [message_id]) vals)"

definition parse_prerequisite_series_ids :: "string \<Rightarrow> prereq_error + string list" where
  "parse_prerequisite_series_ids body = series_ids_step [] (metadata_values body ''prerequisite-message-id'')"

definition ok_value :: "'e + 'a \<Rightarrow> 'a option" where
  "ok_value r = (case r of Inl _ \<Rightarrow> None | Inr a \<Rightarrow> Some a)"

definition parse_prerequisite_thread_hints :: "string \<Rightarrow> string list" where
  "parse_prerequisite_thread_hints body =
     take max_lore_operations
       (rev (remdups (rev (List.map_filter (\<lambda>val. ok_value (parse_message_id val)) (metadata_values body ''prerequisite-message-id'')))))"

definition is_patch_id :: "string \<Rightarrow> bool" where
  "is_patch_id s \<longleftrightarrow> str_len s = 40 \<and> list_all is_hexdigit s"

fun patch_ids_step :: "string list \<Rightarrow> string list \<Rightarrow> prereq_error + string list" where
  "patch_ids_step ids [] = Inr ids"
| "patch_ids_step ids (val # vals) =
     (if \<not> is_patch_id val then patch_ids_step ids vals
      else let i = to_ascii_lower val
           in if List.member ids i then patch_ids_step ids vals
              else if length ids = max_prerequisite_patch_ids then Inl Too_many_patch_ids
              else patch_ids_step (ids @ [i]) vals)"

definition parse_prerequisite_patch_ids :: "string \<Rightarrow> prereq_error + string list" where
  "parse_prerequisite_patch_ids body = patch_ids_step [] (metadata_values body ''prerequisite-patch-id'')"

definition parse_prerequisite_metadata :: "string \<Rightarrow> prereq_error + prerequisite_metadata option" where
  "parse_prerequisite_metadata body =
     (case parse_prerequisite_patch_ids body of
        Inl e \<Rightarrow> Inl e
      | Inr patch_ids \<Rightarrow>
          if patch_ids \<noteq> [] then Inr (Some (Patch_ids patch_ids (parse_prerequisite_thread_hints body)))
          else if metadata_values body ''prerequisite-patch-id'' \<noteq> [] then Inl No_valid_patch_ids
          else case parse_prerequisite_series_ids body of
            Inl e \<Rightarrow> Inl e
          | Inr message_ids \<Rightarrow>
              if message_ids \<noteq> [] then Inr (Some (Message_ids message_ids))
              else case parse_based_on_message_id body of
                Inl e \<Rightarrow> Inl e
              | Inr base \<Rightarrow> Inr (map_option Based_on base))"

definition normalize_patch_id :: "string \<Rightarrow> prereq_error + string" where
  "normalize_patch_id i = (if is_patch_id i then Inr (to_ascii_lower i) else Inl (Invalid_patch_id i))"

definition clean_message_id :: "string \<Rightarrow> string" where
  "clean_message_id s =
     (let angle = (\<lambda>c. c = CHR ''<'' \<or> c = CHR ''>'') in rev (dropWhile angle (rev (dropWhile angle (trim s)))))"

section \<open>Mailboxes\<close>

text \<open>\<open>split_inclusive\<close> at line feeds, and the separators of mails (\<open>src/src/mbox.rs\<close>); positions count from the end of the line.\<close>

fun split_inclusive :: "string \<Rightarrow> string list" where
  "split_inclusive [] = []"
| "split_inclusive (c # s) =
     (if c = CHR 0x0A then [c] # split_inclusive s
      else case split_inclusive s of [] \<Rightarrow> [[c]] | l # ls \<Rightarrow> (c # l) # ls)"

definition mbox_days :: "string list" where
  "mbox_days = [''Mon '', ''Tue '', ''Wed '', ''Thu '', ''Fri '', ''Sat '', ''Sun '']"

definition is_mbox_separator :: "string \<Rightarrow> bool" where
  "is_mbox_separator line0 =
     (if \<not> prefix ''From '' line0 then False
      else let line = rev (dropWhile (\<lambda>c. c = CHR 0x0D \<or> c = CHR 0x0A) (rev line0)); n = length line;
               slice = (\<lambda>a b. drop (n - a) (take (n - b) line))
           in if n < 30 then False
              else if line ! (n - 8) \<noteq> CHR '':'' \<or> line ! (n - 11) \<noteq> CHR '':'' \<or> line ! (n - 5) \<noteq> CHR '' '' then False
              else if n \<ge> 31 \<and> line ! (n - 25) = CHR '' '' \<and> List.member mbox_days (slice 24 20) then True
              else line ! (n - 24) = CHR '' '' \<and> List.member mbox_days (slice 23 19))"

fun split_mbox_lines :: "string \<Rightarrow> string list \<Rightarrow> string list" where
  "split_mbox_lines current [] = (if current = [] then [] else [current])"
| "split_mbox_lines current (line # ls) =
     (if is_mbox_separator line
      then (if current = [] then split_mbox_lines [] ls else current # split_mbox_lines [] ls)
      else split_mbox_lines (current @ line) ls)"

definition split_mbox :: "string \<Rightarrow> string list" where
  "split_mbox raw = split_mbox_lines [] (split_inclusive raw)"

end
