(* ===== verification/PrereqThread.thy ===== *)
theory PrereqThread
  imports Prereq
begin

text \<open>
  The series of a thread of mails (\<open>series_from_mbox\<close> in \<open>src/src/prerequisites.rs\<close>): the head that was asked for, the closure of the thread
  under replies to it, and the patches of the series in order. A series that is incomplete, ambiguous, or of another author is refused.
\<close>

section \<open>Authors\<close>

definition extract_email :: "string \<Rightarrow> string" where
  "extract_email author =
     (case split_once (CHR ''<'') author of
        None \<Rightarrow> trim author
      | Some (before, rest) \<Rightarrow>
          if CHR ''>'' \<in> set before then trim author
          else case split_once (CHR ''>'') rest of None \<Rightarrow> trim author | Some (email, _) \<Rightarrow> trim email)"

text \<open>\<open>rfind('@')\<close> with the parts before and after.\<close>

definition split_last :: "char \<Rightarrow> string \<Rightarrow> (string \<times> string) option" where
  "split_last c s = map_option (\<lambda>(a, b). (rev b, rev a)) (split_once c (rev s))"

definition is_b4_alias :: "string \<Rightarrow> string \<Rightarrow> bool" where
  "is_b4_alias alias_email real =
     (case strip_prefix ''devnull+'' (to_lower alias_email) of
        None \<Rightarrow> False
      | Some rest \<Rightarrow>
          (case split_last (CHR ''@'') rest of
             None \<Rightarrow> False
           | Some (encoded, domain) \<Rightarrow>
               encoded \<noteq> [] \<and> (domain = ''kernel.org'' \<or> domain = ''linux.dev'')
               \<and> encoded = map (\<lambda>c. if c = CHR ''@'' then CHR ''.'' else c) (to_lower real)))"

definition authors_match :: "string \<Rightarrow> string \<Rightarrow> bool" where
  "authors_match a b =
     (let ea = extract_email a; eb = extract_email b in ea = eb \<or> is_b4_alias ea eb \<or> is_b4_alias eb ea)"

section \<open>Mails\<close>

record mail_metadata =
  md_message_id :: string
  md_subject :: string
  md_author :: string
  md_date :: int
  md_in_reply_to :: "string option"
  md_references :: "string list"
  md_index :: nat
  md_total :: nat
  md_is_patch_or_cover :: bool
  md_version :: "nat option"
  md_body :: string

record mail_patch =
  mp_message_id :: string
  mp_diff :: string
  mp_part_index :: nat

type_synonym mail = "mail_metadata \<times> mail_patch option"

definition parse_mbox_messages :: "(string \<Rightarrow> mail option) \<Rightarrow> string \<Rightarrow> prereq_error + mail list" where
  "parse_mbox_messages parse_email raw =
     (let messages = split_mbox raw
      in if length messages > max_mbox_messages then Inl (Too_many_messages (length messages))
         else Inr (List.map_filter parse_email messages))"

definition mail_id :: "mail \<Rightarrow> string" where
  "mail_id m = clean_message_id (md_message_id (fst m))"

definition version_of :: "mail_metadata \<Rightarrow> nat" where
  "version_of md = (case md_version md of Some v \<Rightarrow> v | None \<Rightarrow> 1)"

definition metadata_descends_from :: "mail_metadata \<Rightarrow> string set \<Rightarrow> bool" where
  "metadata_descends_from md ancestors \<longleftrightarrow>
     (case md_in_reply_to md of Some parent \<Rightarrow> clean_message_id parent \<in> ancestors | None \<Rightarrow> False)
     \<or> list_ex (\<lambda>reference. clean_message_id reference \<in> ancestors) (md_references md)"

definition expand_mail :: "mail \<Rightarrow> string set \<Rightarrow> string set" where
  "expand_mail m descendants =
     (if mail_id m \<notin> descendants \<and> metadata_descends_from (fst m) descendants then insert (mail_id m) descendants else descendants)"

definition expand_pass :: "mail list \<Rightarrow> string set \<Rightarrow> string set" where
  "expand_pass parsed descendants = fold expand_mail parsed descendants"

lemma expand_mail_mono: "s \<subseteq> expand_mail m s"
  by (auto simp: expand_mail_def)

lemma expand_pass_mono: "s \<subseteq> expand_pass parsed s"
  unfolding expand_pass_def
  by (induction parsed arbitrary: s) (simp, metis expand_mail_mono fold_simps(2) order_trans)

lemma expand_pass_ids: "expand_pass parsed s \<subseteq> s \<union> mail_id ` set parsed"
proof -
  have "fold expand_mail ms s \<subseteq> s \<union> mail_id ` set ms" for ms
    by (induction ms arbitrary: s) (simp, fastforce simp: expand_mail_def split: if_splits)
  then show ?thesis by (simp add: expand_pass_def)
qed

function expand_descendants :: "mail list \<Rightarrow> string set \<Rightarrow> string set" where
  "expand_descendants parsed descendants =
     (let next_set = expand_pass parsed descendants
      in if next_set = descendants then descendants else expand_descendants parsed next_set)"
  by pat_completeness auto
termination
proof (relation "measure (\<lambda>(parsed, descendants). card (mail_id ` set parsed - descendants))", goal_cases)
  case (2 parsed descendants x)
  then have "descendants \<subset> x" "x \<subseteq> descendants \<union> mail_id ` set parsed"
    using expand_pass_mono expand_pass_ids by blast+
  then show ?case by (auto intro!: psubset_card_mono)
qed simp

declare expand_descendants.simps [simp del]

text \<open>What the loop computes: the mails that answer, directly or through others, one of the given ones.\<close>

inductive_set thread_closure :: "mail list \<Rightarrow> string set \<Rightarrow> string set" for parsed roots where
  root: "i \<in> roots \<Longrightarrow> i \<in> thread_closure parsed roots"
| reply: "m \<in> set parsed \<Longrightarrow> metadata_descends_from (fst m) {i} \<Longrightarrow> i \<in> thread_closure parsed roots \<Longrightarrow> mail_id m \<in> thread_closure parsed roots"

section \<open>Series\<close>

record series_head =
  sh_source_index :: nat
  sh_message_id :: string
  sh_author :: string
  sh_body :: string
  sh_total :: nat
  sh_version :: nat

definition metadata_matches_series :: "mail_metadata \<Rightarrow> series_head \<Rightarrow> bool" where
  "metadata_matches_series md head \<longleftrightarrow>
     md_total md = sh_total head \<and> version_of md = sh_version head \<and> authors_match (sh_author head) (md_author md)"

definition has_matching_cover_ancestor :: "mail list \<Rightarrow> mail_metadata \<Rightarrow> bool" where
  "has_matching_cover_ancestor parsed head =
     (let cover_ids = set (map mail_id (filter (\<lambda>(md, patch). md_is_patch_or_cover md \<and> md_index md = 0 \<and> patch = None
            \<and> md_total md = md_total head \<and> version_of md = version_of head \<and> authors_match (md_author head) (md_author md)) parsed))
      in cover_ids \<noteq> {} \<and> clean_message_id (md_message_id head) \<in> expand_descendants parsed cover_ids)"

definition select_series_head :: "mail list \<Rightarrow> string \<Rightarrow> prereq_error + series_head" where
  "select_series_head parsed requested =
     (case filter (\<lambda>i. mail_id (parsed ! i) = requested) [0..<length parsed] of
        [] \<Rightarrow> Inl Head_not_found
      | [i] \<Rightarrow>
          (let (head, head_patch) = parsed ! i
           in if \<not> md_is_patch_or_cover head then Inl Not_a_series
              else if \<not> (md_index head = 0 \<and> head_patch = None
                        \<or> md_index head = 1 \<and> head_patch \<noteq> None \<and> \<not> has_matching_cover_ancestor parsed head) then Inl Not_the_head
              else if md_total head = 0 then Inl Empty_series
              else if md_total head > max_prerequisite_patch_ids then Inl Too_many_parts
              else Inr \<lparr>sh_source_index = i, sh_message_id = md_message_id head, sh_author = md_author head, sh_body = md_body head,
                        sh_total = md_total head, sh_version = version_of head\<rparr>)
      | _ \<Rightarrow> Inl Head_duplicated)"

definition in_series :: "series_head \<Rightarrow> string set \<Rightarrow> nat \<Rightarrow> mail_metadata \<Rightarrow> bool" where
  "in_series head descendants i md \<longleftrightarrow>
     md_is_patch_or_cover md \<and> (i = sh_source_index head \<or> clean_message_id (md_message_id md) \<in> descendants) \<and> metadata_matches_series md head"

fun select_parts ::
  "series_head \<Rightarrow> string set \<Rightarrow> nat \<Rightarrow> (mail_metadata \<times> mail_patch) list \<Rightarrow> mail list \<Rightarrow> prereq_error + (mail_metadata \<times> mail_patch) list" where
  "select_parts head descendants i selected [] = Inr selected"
| "select_parts head descendants i selected ((md, None) # ms) = select_parts head descendants (Suc i) selected ms"
| "select_parts head descendants i selected ((md, Some patch) # ms) =
     (if \<not> in_series head descendants i md then select_parts head descendants (Suc i) selected ms
      else if md_index md = 0 \<or> md_index md > sh_total head \<or> md_index md \<noteq> mp_part_index patch then Inl (Invalid_part (md_index md))
      else if List.member (map (md_index \<circ> fst) selected) (md_index md) then Inl (Duplicate_part (md_index md))
      else select_parts head descendants (Suc i) (selected @ [(md, patch)]) ms)"

definition select_series_patches :: "mail list \<Rightarrow> series_head \<Rightarrow> string set \<Rightarrow> prereq_error + (mail_metadata \<times> mail_patch) list" where
  "select_series_patches parsed head descendants =
     (case select_parts head descendants 0 [] parsed of
        Inl e \<Rightarrow> Inl e
      | Inr selected \<Rightarrow>
          if length selected \<noteq> sh_total head then Inl (Incomplete_series (length selected) (sh_total head))
          else Inr (sort_key (md_index \<circ> fst) selected))"

record prereq_patch =
  pp_git_patch_id :: string
  pp_message_id :: string
  pp_subject :: string
  pp_author :: string
  pp_date :: int
  pp_diff :: string

record prereq_series =
  sr_local_patchset_id :: "int option"
  sr_message_id :: string
  sr_body :: string
  sr_patches :: "prereq_patch list"

text \<open>\<open>git patch-id --stable\<close> prints an ID, nothing, or fails.\<close>

definition patch_of_mail :: "mail_metadata \<Rightarrow> mail_patch \<Rightarrow> string \<Rightarrow> prereq_patch" where
  "patch_of_mail md patch i = \<lparr>pp_git_patch_id = i, pp_message_id = mp_message_id patch, pp_subject = md_subject md,
     pp_author = md_author md, pp_date = md_date md, pp_diff = mp_diff patch\<rparr>"

fun materialize_series_patches ::
  "(string \<Rightarrow> prereq_error + string option) \<Rightarrow> (mail_metadata \<times> mail_patch) list \<Rightarrow> prereq_error + prereq_patch list" where
  "materialize_series_patches git_patch_id [] = Inr []"
| "materialize_series_patches git_patch_id ((md, patch) # ms) =
     (case git_patch_id (mp_diff patch) of
        Inl e \<Rightarrow> Inl e
      | Inr None \<Rightarrow> Inl (No_stable_patch_id (mp_part_index patch))
      | Inr (Some i) \<Rightarrow>
          (case materialize_series_patches git_patch_id ms of Inl e \<Rightarrow> Inl e | Inr ps \<Rightarrow> Inr (patch_of_mail md patch i # ps)))"

definition series_from_mbox ::
  "(string \<Rightarrow> mail option) \<Rightarrow> (string \<Rightarrow> prereq_error + string option) \<Rightarrow> string \<Rightarrow> string \<Rightarrow> prereq_error + prereq_series" where
  "series_from_mbox parse_email git_patch_id raw requested =
     (case parse_mbox_messages parse_email raw of
        Inl e \<Rightarrow> Inl e
      | Inr parsed \<Rightarrow>
          (case select_series_head parsed (clean_message_id requested) of
             Inl e \<Rightarrow> Inl e
           | Inr head \<Rightarrow>
               (case select_series_patches parsed head (expand_descendants parsed {clean_message_id (sh_message_id head)}) of
                  Inl e \<Rightarrow> Inl e
                | Inr selected \<Rightarrow>
                    (case materialize_series_patches git_patch_id selected of
                       Inl e \<Rightarrow> Inl e
                     | Inr patches \<Rightarrow> Inr \<lparr>sr_local_patchset_id = None, sr_message_id = sh_message_id head, sr_body = sh_body head,
                                            sr_patches = patches\<rparr>))))"

text \<open>All patches of a thread, once for each patch ID, as patch IDs are looked up.\<close>

fun thread_patches :: "(string \<Rightarrow> prereq_error + string option) \<Rightarrow> string set \<Rightarrow> mail list \<Rightarrow> prereq_error + prereq_patch list" where
  "thread_patches git_patch_id seen [] = Inr []"
| "thread_patches git_patch_id seen ((md, None) # ms) = thread_patches git_patch_id seen ms"
| "thread_patches git_patch_id seen ((md, Some patch) # ms) =
     (if \<not> md_is_patch_or_cover md then thread_patches git_patch_id seen ms
      else case git_patch_id (mp_diff patch) of
        Inl e \<Rightarrow> Inl e
      | Inr None \<Rightarrow> thread_patches git_patch_id seen ms
      | Inr (Some i) \<Rightarrow>
          if i \<in> seen then thread_patches git_patch_id seen ms
          else case thread_patches git_patch_id (insert i seen) ms of Inl e \<Rightarrow> Inl e | Inr ps \<Rightarrow> Inr (patch_of_mail md patch i # ps))"

definition patches_from_mbox ::
  "(string \<Rightarrow> mail option) \<Rightarrow> (string \<Rightarrow> prereq_error + string option) \<Rightarrow> string \<Rightarrow> prereq_error + prereq_patch list" where
  "patches_from_mbox parse_email git_patch_id raw =
     (case parse_mbox_messages parse_email raw of Inl e \<Rightarrow> Inl e | Inr parsed \<Rightarrow> thread_patches git_patch_id {} parsed)"

section \<open>The closure of a thread\<close>

lemma descends_iff: "metadata_descends_from md s \<longleftrightarrow> (\<exists>i \<in> s. metadata_descends_from md {i})"
  by (auto simp: metadata_descends_from_def list_ex_iff split: option.splits)

lemma expand_pass_fixed:
  assumes "expand_pass parsed s = s" and "m \<in> set parsed" and "metadata_descends_from (fst m) s"
  shows "mail_id m \<in> s"
proof -
  have "fold expand_mail ms s = s \<Longrightarrow> m \<in> set ms \<Longrightarrow> mail_id m \<in> s" for ms
  proof (induction ms)
    case (Cons x xs)
    have "expand_mail x s \<subseteq> fold expand_mail xs (expand_mail x s)" using expand_pass_mono by (simp add: expand_pass_def)
    then have fixed: "expand_mail x s = s" using Cons.prems(1) expand_mail_mono [of s x] by simp
    then show ?case using Cons assms(3) by (cases "x = m") (auto simp: expand_mail_def split: if_splits)
  qed simp
  with assms show ?thesis by (simp add: expand_pass_def)
qed

lemma expand_pass_sound: "s \<subseteq> thread_closure parsed roots \<Longrightarrow> expand_pass parsed s \<subseteq> thread_closure parsed roots"
proof -
  have "set ms \<subseteq> set parsed \<Longrightarrow> s \<subseteq> thread_closure parsed roots \<Longrightarrow> fold expand_mail ms s \<subseteq> thread_closure parsed roots" for ms
  proof (induction ms arbitrary: s)
    case (Cons m ms)
    have "expand_mail m s \<subseteq> thread_closure parsed roots"
      using Cons.prems descends_iff [of "fst m" s] by (auto simp: expand_mail_def intro: thread_closure.reply)
    with Cons show ?case by simp
  qed simp
  then show "s \<subseteq> thread_closure parsed roots \<Longrightarrow> expand_pass parsed s \<subseteq> thread_closure parsed roots"
    by (simp add: expand_pass_def)
qed

lemma expand_descendants_bounds: "s \<subseteq> expand_descendants parsed s \<and> expand_pass parsed (expand_descendants parsed s) = expand_descendants parsed s
   \<and> (s \<subseteq> thread_closure parsed roots \<longrightarrow> expand_descendants parsed s \<subseteq> thread_closure parsed roots)"
proof (induction parsed s rule: expand_descendants.induct)
  case (1 parsed s)
  show ?case
  proof (cases "expand_pass parsed s = s")
    case True
    then show ?thesis by (simp add: expand_descendants.simps)
  next
    case False
    with 1 [OF refl] have "expand_descendants parsed s = expand_descendants parsed (expand_pass parsed s)"
      by (simp add: expand_descendants.simps [of parsed s] Let_def)
    with 1 [OF refl False] expand_pass_mono [of s parsed] expand_pass_sound [of s parsed roots] show ?thesis by auto
  qed
qed

lemma expand_descendants_is_closure: "expand_descendants parsed roots = thread_closure parsed roots"
proof
  have "roots \<subseteq> thread_closure parsed roots" by (auto intro: thread_closure.root)
  then show "expand_descendants parsed roots \<subseteq> thread_closure parsed roots" using expand_descendants_bounds by blast
  show "thread_closure parsed roots \<subseteq> expand_descendants parsed roots"
  proof
    fix i
    assume "i \<in> thread_closure parsed roots"
    then show "i \<in> expand_descendants parsed roots"
    proof induction
      case (reply m i)
      then have "metadata_descends_from (fst m) (expand_descendants parsed roots)" using descends_iff by blast
      with reply.hyps(1) show ?case using expand_descendants_bounds expand_pass_fixed by metis
    qed (use expand_descendants_bounds in blast)
  qed
qed

section \<open>The series of a thread\<close>

lemma select_head_facts:
  assumes "select_series_head parsed requested = Inr head"
  shows "sh_source_index head < length parsed" and "mail_id (parsed ! sh_source_index head) = requested"
    and "clean_message_id (sh_message_id head) = requested" and "0 < sh_total head" and "sh_total head \<le> max_prerequisite_patch_ids"
proof -
  obtain i where i: "filter (\<lambda>i. mail_id (parsed ! i) = requested) [0..<length parsed] = [i]"
    using assms by (auto simp: select_series_head_def split: list.splits)
  then have "i \<in> set (filter (\<lambda>i. mail_id (parsed ! i) = requested) [0..<length parsed])" by simp
  then have "i < length parsed" "mail_id (parsed ! i) = requested" by auto
  with i assms show "sh_source_index head < length parsed" "mail_id (parsed ! sh_source_index head) = requested"
    "clean_message_id (sh_message_id head) = requested" "0 < sh_total head" "sh_total head \<le> max_prerequisite_patch_ids"
    by (auto simp: select_series_head_def mail_id_def split: prod.splits if_splits)
qed

definition part_of :: "mail list \<Rightarrow> series_head \<Rightarrow> string set \<Rightarrow> mail_metadata \<times> mail_patch \<Rightarrow> bool" where
  "part_of parsed head descendants x \<longleftrightarrow> (\<exists>i < length parsed. parsed ! i = (fst x, Some (snd x)) \<and> in_series head descendants i (fst x))
     \<and> md_index (fst x) \<in> {1..sh_total head} \<and> mp_part_index (snd x) = md_index (fst x)"

lemma select_parts_sound:
  assumes "select_parts head descendants i selected ms = Inr result" and "\<forall>k < length ms. ms ! k = parsed ! (i + k)" and "i + length ms \<le> length parsed"
    and "\<forall>x \<in> set selected. part_of parsed head descendants x" and "distinct (map (md_index \<circ> fst) selected)"
  shows "(\<forall>x \<in> set result. part_of parsed head descendants x) \<and> distinct (map (md_index \<circ> fst) result)"
  using assms
proof (induction head descendants i selected ms rule: select_parts.induct)
  case (2 head descendants i selected md ms)
  have "\<forall>k < length ms. ms ! k = parsed ! (Suc i + k)" using 2(3) by fastforce
  with 2 show ?case by simp
next
  case (3 head descendants i selected md patch ms)
  have shifted: "\<forall>k < length ms. ms ! k = parsed ! (Suc i + k)" using 3(4) by fastforce
  have here: "parsed ! i = (md, Some patch)" "i < length parsed" using 3(4,5) by (fastforce, simp)
  show ?case
  proof (cases "in_series head descendants i md")
    case False
    with 3 shifted show ?thesis by simp
  next
    case True
    then have ok: "\<not> (md_index md = 0 \<or> md_index md > sh_total head \<or> md_index md \<noteq> mp_part_index patch)"
      "\<not> List.member (map (md_index \<circ> fst) selected) (md_index md)"
      and rest: "select_parts head descendants (Suc i) (selected @ [(md, patch)]) ms = Inr result"
      using 3(3) by (auto split: if_splits)
    have "part_of parsed head descendants (md, patch)" using True ok(1) here by (auto simp: part_of_def)
    then show ?thesis
      using 3(2) [OF _ ok rest shifted] True 3(5-7) ok(2) by auto
  qed
qed simp

lemma sorted_parts: "sorted xs \<Longrightarrow> distinct xs \<Longrightarrow> set xs \<subseteq> {1..n} \<Longrightarrow> length xs = n \<Longrightarrow> xs = [1..<Suc n]"
proof -
  assume xs: "sorted xs" "distinct xs" "set xs \<subseteq> {1..n}" "length xs = n"
  then have "card (set xs) = card {1..n}" by (simp add: distinct_card)
  then have "set xs = {1..n}" using xs(3) by (simp add: card_subset_eq)
  then show ?thesis using xs sorted_distinct_set_unique [of xs "[1..<Suc n]"] by (simp del: upt_Suc add: atLeastLessThanSuc_atLeastAtMost)
qed

lemma select_series_sound:
  assumes "select_series_patches parsed head descendants = Inr selected"
  shows "\<forall>x \<in> set selected. part_of parsed head descendants x" and "map (md_index \<circ> fst) selected = [1..<Suc (sh_total head)]"
proof -
  obtain parts where parts: "select_parts head descendants 0 [] parsed = Inr parts" "length parts = sh_total head" "selected = sort_key (md_index \<circ> fst) parts"
    using assms by (auto simp: select_series_patches_def split: sum.splits if_splits)
  from select_parts_sound [OF parts(1)] have sound: "\<forall>x \<in> set parts. part_of parsed head descendants x" "distinct (map (md_index \<circ> fst) parts)"
    by auto
  then show all: "\<forall>x \<in> set selected. part_of parsed head descendants x" using parts(3) by simp
  have "distinct (map (md_index \<circ> fst) selected)" using sound(2) unfolding parts(3) distinct_map by (simp add: distinct_map)
  moreover have "set (map (md_index \<circ> fst) selected) \<subseteq> {1..sh_total head}" using all by (auto simp: part_of_def)
  ultimately show "map (md_index \<circ> fst) selected = [1..<Suc (sh_total head)]"
    using parts(2,3) by (intro sorted_parts) simp_all
qed

lemma materialize_sound:
  "materialize_series_patches git_patch_id ms = Inr ps \<Longrightarrow>
   list_all2 (\<lambda>(md, patch) p. \<exists>i. git_patch_id (mp_diff patch) = Inr (Some i) \<and> p = patch_of_mail md patch i) ms ps"
  by (induction git_patch_id ms arbitrary: ps rule: materialize_series_patches.induct) (auto split: sum.splits option.splits)

lemma length_map_filter: "length (List.map_filter f xs) \<le> length xs"
  by (induction xs) (auto simp: List.map_filter_simps split: option.split)

text \<open>
  C23. A series that is taken from a thread is the one that was asked for, with exactly its patches 1 to n in order: each from a mail that answers
  the head or is it, of the same author, version and number of parts, and with the patch ID of its own diff; n is at least one and at most 128.
\<close>

theorem series_from_thread_complete:
  assumes "series_from_mbox parse_email git_patch_id raw requested = Inr series"
  shows "\<exists>parsed head parts. parse_mbox_messages parse_email raw = Inr parsed \<and> length parsed \<le> max_mbox_messages
     \<and> select_series_head parsed (clean_message_id requested) = Inr head
     \<and> map (md_index \<circ> fst) parts = [1..<Suc (sh_total head)] \<and> 0 < sh_total head \<and> sh_total head \<le> max_prerequisite_patch_ids
     \<and> (\<forall>(md, patch) \<in> set parts. (md, Some patch) \<in> set parsed \<and> metadata_matches_series md head \<and> md_is_patch_or_cover md
          \<and> clean_message_id (md_message_id md) \<in> thread_closure parsed {clean_message_id requested} \<and> mp_part_index patch = md_index md)
     \<and> list_all2 (\<lambda>(md, patch) p. \<exists>i. git_patch_id (mp_diff patch) = Inr (Some i) \<and> p = patch_of_mail md patch i) parts (sr_patches series)
     \<and> clean_message_id (sr_message_id series) = clean_message_id requested"
proof -
  obtain parsed head parts where parsed: "parse_mbox_messages parse_email raw = Inr parsed"
    and head: "select_series_head parsed (clean_message_id requested) = Inr head"
    and parts: "select_series_patches parsed head (expand_descendants parsed {clean_message_id (sh_message_id head)}) = Inr parts"
    and patches: "materialize_series_patches git_patch_id parts = Inr (sr_patches series)" and id: "sr_message_id series = sh_message_id head"
    using assms by (auto simp: series_from_mbox_def split: sum.splits)
  note head_facts = select_head_facts [OF head]
  have closure: "expand_descendants parsed {clean_message_id (sh_message_id head)} = thread_closure parsed {clean_message_id requested}"
    using head_facts(3) expand_descendants_is_closure by simp
  have "(md, Some patch) \<in> set parsed \<and> metadata_matches_series md head \<and> md_is_patch_or_cover md
      \<and> clean_message_id (md_message_id md) \<in> thread_closure parsed {clean_message_id requested} \<and> mp_part_index patch = md_index md"
    if "(md, patch) \<in> set parts" for md patch
  proof -
    have "part_of parsed head (thread_closure parsed {clean_message_id requested}) (md, patch)"
      using select_series_sound(1) [OF parts] that closure by simp
    then obtain i where i: "i < length parsed" "parsed ! i = (md, Some patch)" "in_series head (thread_closure parsed {clean_message_id requested}) i md"
      "mp_part_index patch = md_index md" by (auto simp: part_of_def)
    moreover have "clean_message_id (md_message_id md) = clean_message_id requested" if "i = sh_source_index head"
      using head_facts(2) i(2) that by (simp add: mail_id_def)
    ultimately show ?thesis by (auto simp: in_series_def intro: thread_closure.root dest: nth_mem)
  qed
  moreover have "length parsed \<le> max_mbox_messages"
    using parsed length_map_filter [of parse_email "split_mbox raw"] by (auto simp: parse_mbox_messages_def Let_def split: if_splits)
  ultimately show ?thesis
    using parsed head head_facts(3-5) select_series_sound(2) [OF parts] materialize_sound [OF patches] id
    by (intro exI [of _ parsed] exI [of _ head] exI [of _ parts]) auto
qed

text \<open>A cover letter and its only patch.\<close>

definition example_mbox :: string where
  "example_mbox = ''From x@y Thu Jan  1 00:00:00 1970'' @ [CHR 0x0A] @ ''cover'' @ [CHR 0x0A]
     @ ''From x@y Thu Jan 1 00:00:00 1970'' @ [CHR 0x0A] @ ''patch'' @ [CHR 0x0A]"

definition example_metadata :: "string \<Rightarrow> nat \<Rightarrow> string option \<Rightarrow> mail_metadata" where
  "example_metadata i index parent = \<lparr>md_message_id = i, md_subject = ''s'', md_author = ''A <a@b.c>'', md_date = 0, md_in_reply_to = parent,
     md_references = [], md_index = index, md_total = 1, md_is_patch_or_cover = True, md_version = None, md_body = ''''\<rparr>"

definition example_parse :: "string \<Rightarrow> mail option" where
  "example_parse m =
     (if prefix ''cover'' m then Some (example_metadata ''<c@b.c>'' 0 None, None)
      else Some (example_metadata ''<p@b.c>'' 1 (Some ''<c@b.c>''), Some \<lparr>mp_message_id = ''<p@b.c>'', mp_diff = ''d'', mp_part_index = 1\<rparr>))"

theorem series_from_thread_complete_witness:
  "\<exists>series. series_from_mbox example_parse (\<lambda>_. Inr (Some ''1'')) example_mbox ''c@b.c'' = Inr series
     \<and> clean_message_id (sr_message_id series) = ''c@b.c''"
proof -
  let ?r = "series_from_mbox example_parse (\<lambda>_. Inr (Some ''1'')) example_mbox ''c@b.c''"
  have "case ?r of Inl _ \<Rightarrow> False | Inr _ \<Rightarrow> True" by code_simp
  then obtain series where series: "?r = Inr series" by (auto split: sum.splits)
  have "clean_message_id ''c@b.c'' = ''c@b.c''" by code_simp
  with series_from_thread_complete [OF series] series show ?thesis by auto
qed

lemma example_series_from_mbox:
  "series_from_mbox example_parse (\<lambda>_. Inr (Some ''1'')) example_mbox ''c@b.c'' = Inr \<lparr>sr_local_patchset_id = None, sr_message_id = ''<c@b.c>'',
     sr_body = '''', sr_patches = [\<lparr>pp_git_patch_id = ''1'', pp_message_id = ''<p@b.c>'', pp_subject = ''s'', pp_author = ''A <a@b.c>'', pp_date = 0,
       pp_diff = ''d''\<rparr>]\<rparr>"
  by code_simp

end
