(* ===== verification/PrereqResolver.thy ===== *)
theory PrereqResolver
  imports PrereqThread
begin

text \<open>
  The resolution of prerequisites (\<open>PrerequisiteResolver\<close> in \<open>src/src/prerequisites.rs\<close>): a series needs other series, or patches, which are
  looked up in the database and then in an archive, depth first, with caches, limits, and detection of cycles. The answers of the database and of
  the archive are parameters that may change from one request to the next.
\<close>

section \<open>The database\<close>

record head_row =
  hr_patchset_id :: int
  hr_message_id :: string
  hr_total_parts :: "int option"
  hr_received_parts :: "int option"
  hr_body :: "string option"

record part_row =
  pr_id :: int
  pr_patchset_id :: int
  pr_git_patch_id :: "string option"
  pr_message_id :: string
  pr_part_index :: "int option"
  pr_diff :: "string option"
  pr_subject :: "string option"
  pr_author :: "string option"
  pr_date :: "int option"

record prereq_db =
  qd_heads :: "head_row list"
  qd_parts :: "part_row list"

record stored_patch =
  st_git_patch_id :: "string option"
  st_message_id :: string
  st_part_index :: int
  st_diff :: string
  st_subject :: string
  st_author :: string
  st_date :: int

record stored_series =
  ss_patchset_id :: int
  ss_message_id :: string
  ss_body :: string
  ss_patches :: "stored_patch list"

definition get_msgid_candidates :: "string \<Rightarrow> string list" where
  "get_msgid_candidates msg_id =
     (let trimmed = trim msg_id; clean = clean_message_id trimmed; bracket = (\<lambda>s. ''<'' @ s @ ''>'')
      in if trimmed = [] then []
         else rev (remdups (rev ([trimmed, if clean \<noteq> trimmed then clean else bracket clean]
           @ (case strip_suffix ''@sashiko.local'' clean of
                Some stripped \<Rightarrow> if stripped \<noteq> [] then [stripped, bracket stripped] else []
              | None \<Rightarrow> [clean @ ''@sashiko.local''])))))"

fun stored_patches :: "int \<Rightarrow> int list \<Rightarrow> part_row list \<Rightarrow> prereq_error + stored_patch list" where
  "stored_patches total_parts seen [] = Inr []"
| "stored_patches total_parts seen (r # rs) =
     (case pr_part_index r of
        None \<Rightarrow> Inl Stored_without_part
      | Some i \<Rightarrow>
          if i \<le> 0 \<or> i > total_parts then Inl (Stored_invalid_part i)
          else if List.member seen i then Inl (Stored_duplicate_part i)
          else case (pr_diff r, pr_subject r, pr_author r) of
            (None, _, _) \<Rightarrow> Inl (Stored_without_diff i)
          | (Some diff, Some subject, Some author) \<Rightarrow>
              (case stored_patches total_parts (i # seen) rs of
                 Inl e \<Rightarrow> Inl e
               | Inr ps \<Rightarrow> Inr (\<lparr>st_git_patch_id = pr_git_patch_id r, st_message_id = pr_message_id r, st_part_index = i, st_diff = diff,
                   st_subject = subject, st_author = author, st_date = (case pr_date r of Some d \<Rightarrow> d | None \<Rightarrow> 0)\<rparr> # ps))
          | _ \<Rightarrow> Inl Column_null)"

text \<open>\<open>ORDER BY part_index ASC, id ASC\<close>, where a missing number comes first.\<close>

definition ordered_parts :: "int \<Rightarrow> prereq_db \<Rightarrow> part_row list" where
  "ordered_parts pid db = sort_key (\<lambda>r. pr_part_index r \<noteq> None)
     (sort_key (\<lambda>r. case pr_part_index r of Some i \<Rightarrow> i | None \<Rightarrow> 0) (sort_key pr_id (filter (\<lambda>r. pr_patchset_id r = pid) (qd_parts db))))"

definition first_head :: "string list \<Rightarrow> prereq_db \<Rightarrow> head_row option" where
  "first_head candidates db =
     (case List.map_filter (\<lambda>c. min_by_key hr_patchset_id (filter (\<lambda>h. hr_message_id h = c) (qd_heads db))) candidates of
        [] \<Rightarrow> None | h # _ \<Rightarrow> Some h)"

definition get_stored_prerequisite_series :: "prereq_db \<Rightarrow> string \<Rightarrow> int \<Rightarrow> prereq_error + stored_series option" where
  "get_stored_prerequisite_series db message_id maximum_parts =
     (case first_head (get_msgid_candidates message_id) db of
        None \<Rightarrow> Inr None
      | Some h \<Rightarrow>
          (case (hr_total_parts h, hr_received_parts h, hr_body h) of
             (Some total_parts, Some received_parts, Some body) \<Rightarrow>
               if total_parts \<le> 0 \<or> total_parts > int u32_max then Inl Stored_part_count
               else if total_parts > maximum_parts then Inl Stored_too_many_parts
               else if received_parts < total_parts then Inr None
               else if received_parts > total_parts then Inl Stored_part_count
               else (case stored_patches total_parts [] (ordered_parts (hr_patchset_id h) db) of
                       Inl e \<Rightarrow> Inl e
                     | Inr ps \<Rightarrow>
                         if int (length ps) \<noteq> total_parts then Inr None
                         else Inr (Some \<lparr>ss_patchset_id = hr_patchset_id h, ss_message_id = hr_message_id h, ss_body = body, ss_patches = ps\<rparr>))
           | _ \<Rightarrow> Inr None))"

text \<open>\<open>ORDER BY date DESC LIMIT 1\<close>, where a missing date comes last; of mails of one date the engine takes any, here the first.\<close>

definition get_patch_by_git_patch_id :: "prereq_db \<Rightarrow> string \<Rightarrow> prereq_patch option" where
  "get_patch_by_git_patch_id db i =
     map_option (\<lambda>r. \<lparr>pp_git_patch_id = i, pp_message_id = pr_message_id r, pp_subject = (case pr_subject r of Some s \<Rightarrow> s | None \<Rightarrow> ''''),
         pp_author = (case pr_author r of Some s \<Rightarrow> s | None \<Rightarrow> ''''), pp_date = (case pr_date r of Some d \<Rightarrow> d | None \<Rightarrow> 0),
         pp_diff = (case pr_diff r of Some d \<Rightarrow> d | None \<Rightarrow> '''')\<rparr>)
       (let rows = filter (\<lambda>r. pr_git_patch_id r = Some i) (qd_parts db); dated = filter (\<lambda>r. pr_date r \<noteq> None) rows
        in if dated \<noteq> [] then min_by_key (\<lambda>r. - (case pr_date r of Some d \<Rightarrow> d | None \<Rightarrow> 0)) dated
           else (case rows of [] \<Rightarrow> None | r # _ \<Rightarrow> Some r))"

fun series_from_storage_patches :: "(string \<Rightarrow> prereq_error + string option) \<Rightarrow> stored_patch list \<Rightarrow> prereq_error + prereq_patch list" where
  "series_from_storage_patches git_patch_id [] = Inr []"
| "series_from_storage_patches git_patch_id (p # ps) =
     (case (case st_git_patch_id p of
              Some i \<Rightarrow> normalize_patch_id i
            | None \<Rightarrow> (case git_patch_id (st_diff p) of
                  Inl e \<Rightarrow> Inl e | Inr (Some i) \<Rightarrow> Inr i | Inr None \<Rightarrow> Inl (No_stable_patch_id (nat (st_part_index p))))) of
        Inl e \<Rightarrow> Inl e
      | Inr i \<Rightarrow>
          (case series_from_storage_patches git_patch_id ps of
             Inl e \<Rightarrow> Inl e
           | Inr qs \<Rightarrow> Inr (\<lparr>pp_git_patch_id = i, pp_message_id = st_message_id p, pp_subject = st_subject p, pp_author = st_author p,
                              pp_date = st_date p, pp_diff = st_diff p\<rparr> # qs)))"

definition series_from_storage :: "(string \<Rightarrow> prereq_error + string option) \<Rightarrow> stored_series \<Rightarrow> prereq_error + prereq_series" where
  "series_from_storage git_patch_id stored =
     (if length (ss_patches stored) > max_prerequisite_patch_ids then Inl Stored_too_many_parts
      else case series_from_storage_patches git_patch_id (ss_patches stored) of
        Inl e \<Rightarrow> Inl e
      | Inr ps \<Rightarrow> Inr \<lparr>sr_local_patchset_id = Some (ss_patchset_id stored), sr_message_id = ss_message_id stored, sr_body = ss_body stored,
                         sr_patches = ps\<rparr>)"

section \<open>The resolver\<close>

text \<open>
  What the resolver asks: the database at each of its reads (\<open>None\<close>: the read fails), \<open>git patch-id\<close>, and the archive (the trait
  \<open>PrerequisiteRemote\<close>) at each of its operations.
\<close>

record prereq_env =
  env_db :: "nat \<Rightarrow> prereq_db option"
  env_git_patch_id :: "string \<Rightarrow> prereq_error + string option"
  env_fetch_series :: "nat \<Rightarrow> string \<Rightarrow> prereq_error + prereq_series"
  env_fetch_thread_patches :: "nat \<Rightarrow> string \<Rightarrow> prereq_error + prereq_patch list"
  env_search_patch_id :: "nat \<Rightarrow> string \<Rightarrow> prereq_error + prereq_patch list"

text \<open>The caches of series and of patches are maps; \<open>rv_reads\<close> counts the reads of the database, for the parameter above.\<close>

record resolver =
  rv_reads :: nat
  rv_remote_operations :: nat
  rv_series_cache :: "(string \<times> prereq_series) list"
  rv_resolved_series :: "string set"
  rv_patch_cache :: "string \<rightharpoonup> prereq_patch"
  rv_active_message_ids :: "string set"
  rv_active_patchset_ids :: "int set"
  rv_seen_patch_ids :: "string set"
  rv_resolved :: "prereq_patch list"

type_synonym 'a resolving = "resolver \<Rightarrow> resolver \<times> (prereq_error + 'a)"

definition yield :: "'a \<Rightarrow> 'a resolving" where "yield a st = (st, Inr a)"
definition lift_error :: "prereq_error + 'a \<Rightarrow> 'a resolving" where "lift_error r st = (st, r)"

definition and_then :: "'a resolving \<Rightarrow> ('a \<Rightarrow> 'b resolving) \<Rightarrow> 'b resolving" where
  "and_then m k st = (case m st of (st', Inl e) \<Rightarrow> (st', Inl e) | (st', Inr a) \<Rightarrow> k a st')"

fun for_each :: "('a \<Rightarrow> unit resolving) \<Rightarrow> 'a list \<Rightarrow> unit resolving" where
  "for_each f [] = yield ()"
| "for_each f (x # xs) = and_then (f x) (\<lambda>_. for_each f xs)"

definition resolver_new :: resolver where
  "resolver_new = \<lparr>rv_reads = 0, rv_remote_operations = 0, rv_series_cache = [], rv_resolved_series = {}, rv_patch_cache = Map.empty,
     rv_active_message_ids = {}, rv_active_patchset_ids = {}, rv_seen_patch_ids = {}, rv_resolved = []\<rparr>"

definition read_db :: "prereq_env \<Rightarrow> (prereq_db \<Rightarrow> prereq_error + 'a) \<Rightarrow> 'a resolving" where
  "read_db env q st = (st\<lparr>rv_reads := rv_reads st + 1\<rparr>, case env_db env (rv_reads st) of None \<Rightarrow> Inl Engine_failed | Some db \<Rightarrow> q db)"

definition count_remote_operation :: "unit resolving" where
  "count_remote_operation st =
     (if rv_remote_operations st = max_lore_operations then (st, Inl Too_many_operations)
      else (st\<lparr>rv_remote_operations := rv_remote_operations st + 1\<rparr>, Inr ()))"

text \<open>An operation on the archive is counted before it is asked.\<close>

definition remote :: "(nat \<Rightarrow> prereq_error + 'a) \<Rightarrow> 'a resolving" where
  "remote ask = and_then count_remote_operation (\<lambda>_ st. (st, ask (rv_remote_operations st)))"

definition fetch_or_load :: "prereq_env \<Rightarrow> string \<Rightarrow> prereq_series resolving" where
  "fetch_or_load env message_id =
     and_then (read_db env (\<lambda>db. get_stored_prerequisite_series db message_id (int max_prerequisite_patch_ids))) (\<lambda>stored.
       case stored of
         Some s \<Rightarrow> lift_error (series_from_storage (env_git_patch_id env) s)
       | None \<Rightarrow> remote (\<lambda>n. env_fetch_series env n message_id))"

definition load_series :: "prereq_env \<Rightarrow> string \<Rightarrow> prereq_series resolving" where
  "load_series env message_id0 st =
     (let message_id = clean_message_id message_id0
      in case map_of (rv_series_cache st) message_id of
           Some series \<Rightarrow> (st, Inr series)
         | None \<Rightarrow>
             if length (rv_series_cache st) = max_prerequisite_series then (st, Inl Too_many_series)
             else and_then (fetch_or_load env message_id) (\<lambda>series st'.
               if clean_message_id (sr_message_id series) \<noteq> message_id then (st', Inl (Wrong_series (sr_message_id series)))
               else (st'\<lparr>rv_series_cache := rv_series_cache st' @ [(message_id, series)]\<rparr>, Inr series)) st)"

definition cache_patch :: "prereq_patch \<Rightarrow> resolver \<Rightarrow> resolver" where
  "cache_patch patch st =
     (if pp_git_patch_id patch \<in> dom (rv_patch_cache st) then st
      else st\<lparr>rv_patch_cache := (rv_patch_cache st)(pp_git_patch_id patch \<mapsto> patch)\<rparr>)"

definition cache_local_patch :: "prereq_env \<Rightarrow> string \<Rightarrow> unit resolving" where
  "cache_local_patch env i st =
     (if i \<in> dom (rv_patch_cache st) then (st, Inr ())
      else and_then (read_db env (\<lambda>db. Inr (get_patch_by_git_patch_id db i)))
             (\<lambda>found st'. (case found of Some patch \<Rightarrow> cache_patch patch st' | None \<Rightarrow> st', Inr ())) st)"

fun cache_required_patches :: "string list \<Rightarrow> prereq_patch list \<Rightarrow> unit resolving" where
  "cache_required_patches wanted [] = yield ()"
| "cache_required_patches wanted (patch # patches) =
     and_then (lift_error (normalize_patch_id (pp_git_patch_id patch))) (\<lambda>i st.
       cache_required_patches wanted patches (if List.member wanted i then cache_patch (patch\<lparr>pp_git_patch_id := i\<rparr>) st else st))"

fun cache_hinted_patches :: "prereq_env \<Rightarrow> string list \<Rightarrow> string list \<Rightarrow> unit resolving" where
  "cache_hinted_patches env wanted [] = yield ()"
| "cache_hinted_patches env wanted (message_id # message_ids) = (\<lambda>st.
     if list_all (\<lambda>i. i \<in> dom (rv_patch_cache st)) wanted then (st, Inr ())
     else and_then count_remote_operation (\<lambda>_ st'.
            case env_fetch_thread_patches env (rv_remote_operations st') message_id of
              Inr patches \<Rightarrow> and_then (cache_required_patches wanted patches) (\<lambda>_. cache_hinted_patches env wanted message_ids) st'
            | Inl _ \<Rightarrow> cache_hinted_patches env wanted message_ids st') st)"

definition append_patch :: "prereq_patch \<Rightarrow> unit resolving" where
  "append_patch patch0 =
     and_then (lift_error (normalize_patch_id (pp_git_patch_id patch0))) (\<lambda>i st0.
       let patch = patch0\<lparr>pp_git_patch_id := i\<rparr>; st = cache_patch patch st0
       in if i \<in> rv_seen_patch_ids st then (st, Inr ())
          else let st' = st\<lparr>rv_seen_patch_ids := insert i (rv_seen_patch_ids st)\<rparr>
               in if length (rv_resolved st') = max_prerequisite_patch_ids then (st', Inl Too_many_patches)
                  else (st'\<lparr>rv_resolved := rv_resolved st' @ [patch]\<rparr>, Inr ()))"

definition resolve_patch_id :: "prereq_env \<Rightarrow> string list \<Rightarrow> string \<Rightarrow> unit resolving" where
  "resolve_patch_id env wanted i =
     and_then (\<lambda>st. if i \<in> dom (rv_patch_cache st) then (st, Inr ())
                    else and_then (remote (\<lambda>n. env_search_patch_id env n i)) (cache_required_patches wanted) st)
       (\<lambda>_ st. case rv_patch_cache st i of None \<Rightarrow> (st, Inl (Patch_not_returned i)) | Some patch \<Rightarrow> append_patch patch st)"

fun normalize_all :: "string list \<Rightarrow> prereq_error + string list" where
  "normalize_all [] = Inr []"
| "normalize_all (i # is) =
     (case normalize_patch_id i of
        Inl e \<Rightarrow> Inl e
      | Inr j \<Rightarrow> (case normalize_all is of Inl e \<Rightarrow> Inl e | Inr js \<Rightarrow> Inr (j # js)))"

definition resolve_patch_ids :: "prereq_env \<Rightarrow> string list \<Rightarrow> string list \<Rightarrow> unit resolving" where
  "resolve_patch_ids env patch_ids message_ids =
     (if length patch_ids > max_prerequisite_patch_ids then lift_error (Inl Too_many_patch_ids)
      else and_then (lift_error (normalize_all patch_ids)) (\<lambda>ids.
           and_then (for_each (cache_local_patch env) ids) (\<lambda>_.
           and_then (cache_hinted_patches env ids message_ids) (\<lambda>_.
           for_each (resolve_patch_id env ids) ids))))"

definition resolve_metadata :: "(string \<Rightarrow> unit resolving) \<Rightarrow> prereq_env \<Rightarrow> prerequisite_metadata \<Rightarrow> unit resolving" where
  "resolve_metadata resolve env metadata =
     (case metadata of
        Patch_ids patch_ids message_ids \<Rightarrow> resolve_patch_ids env patch_ids message_ids
      | Message_ids message_ids \<Rightarrow> for_each resolve message_ids
      | Based_on message_id \<Rightarrow> resolve message_id)"

definition enter_series :: "string \<Rightarrow> prereq_series \<Rightarrow> resolver \<Rightarrow> resolver" where
  "enter_series requested series st = st\<lparr>
     rv_active_message_ids := insert (clean_message_id (sr_message_id series)) (insert requested (rv_active_message_ids st)),
     rv_active_patchset_ids := set_option (sr_local_patchset_id series) \<union> rv_active_patchset_ids st\<rparr>"

definition leave_series :: "string \<Rightarrow> prereq_series \<Rightarrow> resolver \<Rightarrow> resolver" where
  "leave_series requested series st = st\<lparr>
     rv_active_message_ids := rv_active_message_ids st - {requested, clean_message_id (sr_message_id series)},
     rv_active_patchset_ids := rv_active_patchset_ids st - set_option (sr_local_patchset_id series)\<rparr>"

text \<open>The number of levels that are left counts down from \<open>MAX_PREREQUISITE_DEPTH + 1 - depth\<close>; at none the chain is too deep.\<close>

fun resolve_series :: "nat \<Rightarrow> prereq_env \<Rightarrow> string \<Rightarrow> unit resolving" where
  "resolve_series 0 env message_id st = (st, Inl Chain_too_deep)"
| "resolve_series (Suc left) env message_id st =
     (let requested = clean_message_id message_id
      in if requested \<in> rv_active_message_ids st then (st, Inl (Dependency_cycle requested))
         else if requested \<in> rv_resolved_series st then (st, Inr ())
         else and_then (load_series env requested) (\<lambda>series st1.
           let actual = clean_message_id (sr_message_id series)
           in if actual \<in> rv_active_message_ids st1 \<or> set_option (sr_local_patchset_id series) \<inter> rv_active_patchset_ids st1 \<noteq> {}
              then (st1, Inl (Dependency_cycle actual))
              else let (st2, r) =
                     and_then (and_then (lift_error (parse_prerequisite_metadata (sr_body series))) (\<lambda>metadata.
                                 case metadata of None \<Rightarrow> yield () | Some md \<Rightarrow> resolve_metadata (resolve_series left env) env md))
                       (\<lambda>_. for_each append_patch (sr_patches series)) (enter_series requested series st1);
                       st3 = leave_series requested series st2
                   in (case r of Inl _ \<Rightarrow> st3 | Inr _ \<Rightarrow> st3\<lparr>rv_resolved_series := insert actual (rv_resolved_series st3)\<rparr>, r)) st)"

definition resolve_target :: "prereq_env \<Rightarrow> int \<Rightarrow> string option \<Rightarrow> prerequisite_metadata \<Rightarrow> prereq_patch list resolving" where
  "resolve_target env patchset_id message_id metadata st0 =
     (let st = st0\<lparr>rv_active_patchset_ids := insert patchset_id (rv_active_patchset_ids st0),
                   rv_active_message_ids := clean_message_id ` set_option message_id \<union> rv_active_message_ids st0\<rparr>
      in and_then (resolve_metadata (resolve_series max_prerequisite_depth env) env metadata) (\<lambda>_ st'. (st', Inr (rv_resolved st'))) st)"

definition resolve_prerequisites :: "prereq_env \<Rightarrow> int \<Rightarrow> string option \<Rightarrow> string \<Rightarrow> prereq_patch list resolving" where
  "resolve_prerequisites env patchset_id message_id body st =
     (case parse_prerequisite_metadata body of
        Inl e \<Rightarrow> (st, Inl e)
      | Inr None \<Rightarrow> (st, Inr [])
      | Inr (Some metadata) \<Rightarrow> resolve_target env patchset_id message_id metadata st)"

end
