(* ===== verification/PrereqOrder.thy ===== *)
theory PrereqOrder
  imports PrereqResolver
begin

text \<open>
  What the resolution of prerequisites (\<open>src/src/prerequisites.rs\<close>) returns: the patches of a plain expansion of the metadata, without caches, limits or
  bookkeeping, each patch ID once and where it comes first; and what it never exceeds.
\<close>

section \<open>The expansion of metadata\<close>

text \<open>The first patch of each ID, in order.\<close>

fun add_new :: "prereq_patch list \<Rightarrow> prereq_patch list \<Rightarrow> prereq_patch list" where
  "add_new acc [] = acc"
| "add_new acc (p # ps) = add_new (if pp_git_patch_id p \<in> pp_git_patch_id ` set acc then acc else acc @ [p]) ps"

definition normalized :: "prereq_patch \<Rightarrow> prereq_patch \<Rightarrow> bool" where
  "normalized p q \<longleftrightarrow> (\<exists>i. normalize_patch_id (pp_git_patch_id p) = Inr i \<and> q = p\<lparr>pp_git_patch_id := i\<rparr>)"

fun needs :: "prerequisite_metadata \<Rightarrow> string list" where
  "needs (Patch_ids ids hints) = []"
| "needs (Message_ids ms) = ms"
| "needs (Based_on m) = [m]"

text \<open>
  Over the series \<open>S\<close> and the patches \<open>P\<close> that are known: a series expands to what its metadata expands to, and then its own patches; named
  patches expand to themselves.
\<close>

inductive expands_series :: "(string \<rightharpoonup> prereq_series) \<Rightarrow> (string \<rightharpoonup> prereq_patch) \<Rightarrow> string \<Rightarrow> prereq_patch list \<Rightarrow> bool"
  and expands_metadata :: "(string \<rightharpoonup> prereq_series) \<Rightarrow> (string \<rightharpoonup> prereq_patch) \<Rightarrow> prerequisite_metadata \<Rightarrow> prereq_patch list \<Rightarrow> bool"
  and expands_all :: "(string \<rightharpoonup> prereq_series) \<Rightarrow> (string \<rightharpoonup> prereq_patch) \<Rightarrow> string list \<Rightarrow> prereq_patch list \<Rightarrow> bool"
  for S P where
  independent: "S m = Some series \<Longrightarrow> parse_prerequisite_metadata (sr_body series) = Inr None \<Longrightarrow> list_all2 normalized (sr_patches series) qs
     \<Longrightarrow> expands_series S P m qs"
| dependent: "S m = Some series \<Longrightarrow> parse_prerequisite_metadata (sr_body series) = Inr (Some md) \<Longrightarrow> expands_metadata S P md xs
     \<Longrightarrow> list_all2 normalized (sr_patches series) qs \<Longrightarrow> expands_series S P m (xs @ qs)"
| patch_ids: "normalize_all ids = Inr js \<Longrightarrow> list_all2 (\<lambda>j q. P j = Some q) js qs \<Longrightarrow> expands_metadata S P (Patch_ids ids hints) qs"
| message_ids: "expands_all S P ms xs \<Longrightarrow> expands_metadata S P (Message_ids ms) xs"
| based_on: "expands_series S P m xs \<Longrightarrow> expands_metadata S P (Based_on m) xs"
| all_nil: "expands_all S P [] []"
| all_cons: "expands_series S P m xs \<Longrightarrow> expands_all S P ms ys \<Longrightarrow> expands_all S P (m # ms) (xs @ ys)"

definition depends :: "(string \<rightharpoonup> prereq_series) \<Rightarrow> string \<Rightarrow> string \<Rightarrow> bool" where
  "depends S m d \<longleftrightarrow> (\<exists>series md. S m = Some series \<and> parse_prerequisite_metadata (sr_body series) = Inr (Some md) \<and> d \<in> set (needs md))"

lemma expands_mono:
  assumes "S \<subseteq>\<^sub>m S'" and "P \<subseteq>\<^sub>m P'"
  shows "expands_series S P m xs \<Longrightarrow> expands_series S' P' m xs"
    and "expands_metadata S P md xs \<Longrightarrow> expands_metadata S' P' md xs"
    and "expands_all S P ms xs \<Longrightarrow> expands_all S' P' ms xs"
proof (induction rule: expands_series_expands_metadata_expands_all.inducts)
  case (patch_ids ids js qs hints)
  have "list_all2 (\<lambda>j q. P' j = Some q) js qs"
    by (rule list_all2_mono [OF patch_ids(2)]) (use assms(2) in \<open>auto simp: map_le_def dom_def\<close>)
  with patch_ids(1) show ?case by (rule expands_series_expands_metadata_expands_all.patch_ids)
qed (use assms in \<open>auto intro: expands_series_expands_metadata_expands_all.intros simp: map_le_def dom_def\<close>)

lemma expands_acyclic:
  shows "expands_series S P m xs \<Longrightarrow> Wellfounded.accp (\<lambda>d m. depends S m d) m"
    and "expands_metadata S P md xs \<Longrightarrow> \<forall>d \<in> set (needs md). Wellfounded.accp (\<lambda>d m. depends S m d) d"
    and "expands_all S P ms xs \<Longrightarrow> \<forall>d \<in> set ms. Wellfounded.accp (\<lambda>d m. depends S m d) d"
  by (induction rule: expands_series_expands_metadata_expands_all.inducts)
    (auto intro: Wellfounded.accp.intros simp: depends_def)

lemma add_new_append: "add_new acc (xs @ ys) = add_new (add_new acc xs) ys"
  by (induction xs arbitrary: acc) auto

lemma add_new_known: "pp_git_patch_id ` set xs \<subseteq> pp_git_patch_id ` set acc \<Longrightarrow> add_new acc xs = acc"
  by (induction xs arbitrary: acc) auto

lemma add_new_ids: "pp_git_patch_id ` set (add_new acc xs) = pp_git_patch_id ` set acc \<union> pp_git_patch_id ` set xs"
  by (induction xs arbitrary: acc) auto

section \<open>The limits\<close>

definition bounded :: "resolver \<Rightarrow> bool" where
  "bounded st \<longleftrightarrow> rv_remote_operations st \<le> max_lore_operations \<and> length (rv_series_cache st) \<le> max_prerequisite_series
     \<and> length (rv_resolved st) \<le> max_prerequisite_patch_ids \<and> distinct (map pp_git_patch_id (rv_resolved st))
     \<and> pp_git_patch_id ` set (rv_resolved st) \<subseteq> rv_seen_patch_ids st"

definition keeps_bounds :: "'a resolving \<Rightarrow> bool" where
  "keeps_bounds m \<longleftrightarrow> (\<forall>st. bounded st \<longrightarrow> bounded (fst (m st)))"

named_theorems bound_intros

lemma keeps_boundsI: "(\<And>st. bounded st \<Longrightarrow> bounded (fst (m st))) \<Longrightarrow> keeps_bounds m"
  by (simp add: keeps_bounds_def)

lemma bounded_fields [simp]:
  "bounded (st\<lparr>rv_reads := n\<rparr>) = bounded st" "bounded (st\<lparr>rv_patch_cache := c\<rparr>) = bounded st"
  "bounded (st\<lparr>rv_resolved_series := r\<rparr>) = bounded st"
  "bounded (st\<lparr>rv_active_message_ids := a\<rparr>) = bounded st" "bounded (st\<lparr>rv_active_patchset_ids := b\<rparr>) = bounded st"
  by (simp_all add: bounded_def)

lemma bounded_cache_patch [simp]: "bounded (cache_patch p st) = bounded st"
  by (simp add: cache_patch_def)

lemma keeps_pure [bound_intros]: "keeps_bounds (yield a)" "keeps_bounds (lift_error r)" "keeps_bounds (read_db env q)"
  by (auto simp: keeps_bounds_def yield_def lift_error_def read_db_def)

lemma keeps_and_then [bound_intros]: "keeps_bounds m \<Longrightarrow> (\<And>a. keeps_bounds (k a)) \<Longrightarrow> keeps_bounds (and_then m k)"
proof (rule keeps_boundsI)
  fix st
  assume kept: "keeps_bounds m" "\<And>a. keeps_bounds (k a)" and st: "bounded st"
  obtain st' r where m: "m st = (st', r)" by fastforce
  have "bounded st'" using kept(1) st m unfolding keeps_bounds_def by (metis fst_conv)
  then show "bounded (fst (and_then m k st))" using kept(2) m by (auto simp: and_then_def keeps_bounds_def split: sum.split)
qed

lemma keeps_for_each [bound_intros]: "(\<And>x. keeps_bounds (f x)) \<Longrightarrow> keeps_bounds (for_each f xs)"
  by (induction xs) (auto intro: bound_intros)

lemma keeps_count [bound_intros]: "keeps_bounds count_remote_operation"
  by (auto simp: keeps_bounds_def count_remote_operation_def bounded_def)

lemma keeps_remote [bound_intros]: "keeps_bounds (remote ask)"
  unfolding remote_def by (intro bound_intros keeps_boundsI) simp

lemma keeps_fetch [bound_intros]: "keeps_bounds (fetch_or_load env message_id)"
  unfolding fetch_or_load_def by (intro bound_intros) (auto split: option.split intro!: bound_intros)

lemma fetch_keeps_cache: "fetch_or_load env m st = (st', r) \<Longrightarrow> rv_series_cache st' = rv_series_cache st"
  by (auto simp: fetch_or_load_def read_db_def and_then_def lift_error_def remote_def count_remote_operation_def
      split: option.splits sum.splits if_splits prod.splits)

lemma keeps_load [bound_intros]: "keeps_bounds (load_series env message_id)"
proof (rule keeps_boundsI)
  fix st
  assume st: "bounded st"
  let ?m = "clean_message_id message_id"
  obtain st' r where fetched: "fetch_or_load env ?m st = (st', r)" by fastforce
  have same: "rv_series_cache st' = rv_series_cache st" using fetch_keeps_cache [OF fetched] .
  have "bounded st'" using keeps_fetch st fetched by (metis fst_conv keeps_bounds_def)
  then show "bounded (fst (load_series env message_id st))"
    using st fetched same by (auto simp: load_series_def Let_def and_then_def bounded_def split: option.split sum.split)
qed

lemma keeps_cache [bound_intros]:
  "keeps_bounds (cache_local_patch env i)" "keeps_bounds (cache_required_patches wanted ps)" "keeps_bounds (cache_hinted_patches env wanted ms)"
proof -
  show "keeps_bounds (cache_local_patch env i)"
    by (auto simp: keeps_bounds_def cache_local_patch_def and_then_def read_db_def split: option.split sum.split)
  show required: "keeps_bounds (cache_required_patches wanted ps)" for ps
    by (induction ps) (auto simp: keeps_bounds_def yield_def and_then_def lift_error_def split: sum.split)
  show "keeps_bounds (cache_hinted_patches env wanted ms)"
  proof (induction ms)
    case (Cons m ms)
    have "keeps_bounds (\<lambda>st. case env_fetch_thread_patches env (rv_remote_operations st) m of
        Inr patches \<Rightarrow> and_then (cache_required_patches wanted patches) (\<lambda>_. cache_hinted_patches env wanted ms) st
      | Inl _ \<Rightarrow> cache_hinted_patches env wanted ms st)"
      using keeps_and_then [OF required Cons.IH] Cons.IH by (auto simp: keeps_bounds_def split: sum.split)
    then have "keeps_bounds (and_then count_remote_operation (\<lambda>_ st. case env_fetch_thread_patches env (rv_remote_operations st) m of
        Inr patches \<Rightarrow> and_then (cache_required_patches wanted patches) (\<lambda>_. cache_hinted_patches env wanted ms) st
      | Inl _ \<Rightarrow> cache_hinted_patches env wanted ms st))" by (intro bound_intros)
    then show ?case by (auto simp: keeps_bounds_def)
  qed (simp add: bound_intros)
qed

lemma keeps_append [bound_intros]: "keeps_bounds (append_patch p)"
proof (rule keeps_boundsI)
  fix st
  assume "bounded st"
  then have cached: "bounded (cache_patch q st)" for q by simp
  have seen: "rv_seen_patch_ids (cache_patch q st) = rv_seen_patch_ids st" "rv_resolved (cache_patch q st) = rv_resolved st" for q
    by (simp_all add: cache_patch_def)
  show "bounded (fst (append_patch p st))"
  proof (cases "normalize_patch_id (pp_git_patch_id p)")
    case (Inr i)
    let ?st = "cache_patch (p\<lparr>pp_git_patch_id := i\<rparr>) st"
    have "bounded (?st\<lparr>rv_seen_patch_ids := insert i (rv_seen_patch_ids ?st)\<rparr>)"
      using cached [of "p\<lparr>pp_git_patch_id := i\<rparr>"] by (auto simp: bounded_def)
    moreover have "bounded (?st\<lparr>rv_seen_patch_ids := insert i (rv_seen_patch_ids ?st), rv_resolved := rv_resolved ?st @ [p\<lparr>pp_git_patch_id := i\<rparr>]\<rparr>)"
      if "i \<notin> rv_seen_patch_ids ?st" "length (rv_resolved ?st) \<noteq> max_prerequisite_patch_ids"
      using cached [of "p\<lparr>pp_git_patch_id := i\<rparr>"] that by (auto simp: bounded_def)
    ultimately show ?thesis
      using cached [of "p\<lparr>pp_git_patch_id := i\<rparr>"] Inr by (simp add: append_patch_def and_then_def lift_error_def Let_def)
  qed (simp add: append_patch_def and_then_def lift_error_def \<open>bounded st\<close>)
qed

lemma keeps_patch_ids [bound_intros]: "keeps_bounds (resolve_patch_ids env ids hints)"
proof -
  have "keeps_bounds (resolve_patch_id env wanted i)" for wanted i
  proof -
    have "keeps_bounds (and_then (remote (\<lambda>n. env_search_patch_id env n i)) (cache_required_patches wanted))"
      by (intro bound_intros)
    then show ?thesis
      unfolding resolve_patch_id_def using keeps_append
      by (intro keeps_and_then) (auto simp: keeps_bounds_def split: option.split)
  qed
  then show ?thesis unfolding resolve_patch_ids_def by (auto intro!: bound_intros)
qed

lemma keeps_series: "keeps_bounds (resolve_series left env m)"
proof (induction left arbitrary: m)
  case (Suc left)
  let ?body = "\<lambda>series. and_then (and_then (lift_error (parse_prerequisite_metadata (sr_body series))) (\<lambda>metadata.
      case metadata of None \<Rightarrow> yield () | Some md \<Rightarrow> resolve_metadata (resolve_series left env) env md)) (\<lambda>_. for_each append_patch (sr_patches series))"
  have body: "keeps_bounds (?body series)" for series
    unfolding resolve_metadata_def
    by (intro bound_intros) (auto split: option.split prerequisite_metadata.split intro!: bound_intros Suc.IH)
  have "keeps_bounds (\<lambda>st1. let (st2, r) = ?body series (enter_series q series st1); st3 = leave_series q series st2
      in (case r of Inl _ \<Rightarrow> st3 | Inr _ \<Rightarrow> st3\<lparr>rv_resolved_series := insert a (rv_resolved_series st3)\<rparr>, r))" for series q a
  proof (rule keeps_boundsI)
    fix st
    assume "bounded st"
    then have "bounded (enter_series q series st)" by (simp add: enter_series_def)
    then have "bounded (fst (?body series (enter_series q series st)))" using body [of series] unfolding keeps_bounds_def by blast
    then show "bounded (fst (let (st2, r) = ?body series (enter_series q series st); st3 = leave_series q series st2
      in (case r of Inl _ \<Rightarrow> st3 | Inr _ \<Rightarrow> st3\<lparr>rv_resolved_series := insert a (rv_resolved_series st3)\<rparr>, r)))"
      by (cases "?body series (enter_series q series st)") (auto simp: leave_series_def Let_def split: sum.split)
  qed
  then have "keeps_bounds (and_then (load_series env q) (\<lambda>series st1. if c series st1 then (st1, Inl (e series))
      else let (st2, r) = ?body series (enter_series q series st1); st3 = leave_series q series st2
      in (case r of Inl _ \<Rightarrow> st3 | Inr _ \<Rightarrow> st3\<lparr>rv_resolved_series := insert (a series) (rv_resolved_series st3)\<rparr>, r)))" for q c e a
    by (intro keeps_and_then keeps_load) (simp add: keeps_bounds_def)
  then show ?case by (simp add: keeps_bounds_def Let_def)
qed (simp add: keeps_bounds_def)

lemma bounded_new: "bounded resolver_new"
  by (simp add: bounded_def resolver_new_def)

text \<open>
  C21. Whatever the database and the archive answer, and however the metadata of the series refer to each other, the resolution of prerequisites
  returns, after at most 8 operations on the archive, with at most 128 series loaded and at most 128 patches, no patch ID among them twice.
\<close>

theorem resolution_bounded:
  "\<exists>st r. resolve_prerequisites env patchset_id message_id body resolver_new = (st, r)
     \<and> rv_remote_operations st \<le> 8 \<and> length (rv_series_cache st) \<le> 128 \<and> length (rv_resolved st) \<le> 128
     \<and> distinct (map pp_git_patch_id (rv_resolved st)) \<and> (r = Inr (rv_resolved st) \<or> (\<exists>e. r = Inl e) \<or> r = Inr [])"
proof -
  let ?st = "resolver_new\<lparr>rv_active_patchset_ids := insert patchset_id (rv_active_patchset_ids resolver_new),
     rv_active_message_ids := clean_message_id ` set_option message_id \<union> rv_active_message_ids resolver_new\<rparr>"
  have "keeps_bounds (resolve_metadata (resolve_series max_prerequisite_depth env) env md)" for md
    unfolding resolve_metadata_def by (auto split: prerequisite_metadata.split intro!: bound_intros keeps_series)
  then have "bounded (fst (resolve_metadata (resolve_series max_prerequisite_depth env) env md ?st))" for md
    using bounded_new by (simp add: keeps_bounds_def)
  then have "bounded (fst (resolve_prerequisites env patchset_id message_id body resolver_new))"
    using bounded_new
    by (auto simp: resolve_prerequisites_def resolve_target_def Let_def and_then_def split: sum.split option.split prod.split) (metis fst_conv)+
  moreover have "snd (resolve_prerequisites env patchset_id message_id body resolver_new) = Inr ps \<Longrightarrow>
      ps = rv_resolved (fst (resolve_prerequisites env patchset_id message_id body resolver_new)) \<or> ps = []" for ps
    by (auto simp: resolve_prerequisites_def resolve_target_def Let_def and_then_def split: sum.splits option.splits prod.splits)
  ultimately show ?thesis
    by (cases "resolve_prerequisites env patchset_id message_id body resolver_new"; cases "snd (resolve_prerequisites env patchset_id message_id body resolver_new)")
      (auto simp: bounded_def max_lore_operations_def max_prerequisite_series_def max_prerequisite_patch_ids_def)
qed

section \<open>What is resolved\<close>

abbreviation known_series :: "resolver \<Rightarrow> string \<rightharpoonup> prereq_series" where
  "known_series st \<equiv> map_of (rv_series_cache st)"

definition consistent :: "resolver \<Rightarrow> bool" where
  "consistent st \<longleftrightarrow> rv_seen_patch_ids st = pp_git_patch_id ` set (rv_resolved st)
     \<and> (\<forall>i q. rv_patch_cache st i = Some q \<longrightarrow> pp_git_patch_id q = i \<and> normalize_patch_id i = Inr i)
     \<and> (\<forall>m series. known_series st m = Some series \<longrightarrow> clean_message_id (sr_message_id series) = m)
     \<and> (\<forall>m \<in> rv_resolved_series st. \<exists>xs. expands_series (known_series st) (rv_patch_cache st) m xs
          \<and> pp_git_patch_id ` set xs \<subseteq> rv_seen_patch_ids st)"

lemma consistentI:
  assumes "rv_seen_patch_ids st = pp_git_patch_id ` set (rv_resolved st)"
    and "\<forall>i q. rv_patch_cache st i = Some q \<longrightarrow> pp_git_patch_id q = i \<and> normalize_patch_id i = Inr i"
    and "\<forall>m series. known_series st m = Some series \<longrightarrow> clean_message_id (sr_message_id series) = m"
    and "\<forall>m \<in> rv_resolved_series st. \<exists>xs. expands_series (known_series st) (rv_patch_cache st) m xs
       \<and> pp_git_patch_id ` set xs \<subseteq> rv_seen_patch_ids st"
  shows "consistent st"
  using assms unfolding consistent_def by blast

lemma consistentD:
  assumes "consistent st"
  shows "rv_seen_patch_ids st = pp_git_patch_id ` set (rv_resolved st)"
    and "rv_patch_cache st i = Some q \<Longrightarrow> pp_git_patch_id q = i \<and> normalize_patch_id i = Inr i"
    and "known_series st m = Some series \<Longrightarrow> clean_message_id (sr_message_id series) = m"
    and "m \<in> rv_resolved_series st \<Longrightarrow> \<exists>xs. expands_series (known_series st) (rv_patch_cache st) m xs
       \<and> pp_git_patch_id ` set xs \<subseteq> rv_seen_patch_ids st"
  using assms unfolding consistent_def by blast+

lemma consistent_extend:
  assumes "consistent st"
  shows "consistent (st\<lparr>rv_seen_patch_ids := insert (pp_git_patch_id q) (rv_seen_patch_ids st), rv_resolved := rv_resolved st @ [q]\<rparr>)"
proof (rule consistentI, goal_cases)
  case 1
  show ?case using consistentD(1) [OF assms] by simp
next
  case 2
  show ?case by simp (blast dest: consistentD(2) [OF assms])
next
  case 3
  show ?case by simp (blast dest: consistentD(3) [OF assms])
next
  case 4
  show ?case by simp (blast dest: consistentD(4) [OF assms])
qed

definition learns :: "resolver \<Rightarrow> resolver \<Rightarrow> bool" where
  "learns st st' \<longleftrightarrow> known_series st \<subseteq>\<^sub>m known_series st' \<and> rv_patch_cache st \<subseteq>\<^sub>m rv_patch_cache st'"

text \<open>
  A step that succeeds keeps the state consistent, forgets nothing, and adds the new ones of some patches to the result, for which \<open>R\<close> holds;
  \<open>R\<close> must not be lost when more becomes known.
\<close>

definition adds :: "'a resolving \<Rightarrow> ('a \<Rightarrow> resolver \<Rightarrow> prereq_patch list \<Rightarrow> bool) \<Rightarrow> bool" where
  "adds m R \<longleftrightarrow> (\<forall>st st' a. consistent st \<longrightarrow> m st = (st', Inr a) \<longrightarrow>
     consistent st' \<and> learns st st' \<and> (\<exists>xs. rv_resolved st' = add_new (rv_resolved st) xs \<and> R a st' xs))"

definition lasting :: "(resolver \<Rightarrow> 'b \<Rightarrow> bool) \<Rightarrow> bool" where
  "lasting R \<longleftrightarrow> (\<forall>st st' b. learns st st' \<longrightarrow> R st b \<longrightarrow> R st' b)"

lemma learns_refl [simp]: "learns st st"
  by (simp add: learns_def)

lemma learns_trans: "learns a b \<Longrightarrow> learns b c \<Longrightarrow> learns a c"
  unfolding learns_def by (meson map_le_trans)

lemma addsI:
  assumes "\<And>st st' a. consistent st \<Longrightarrow> m st = (st', Inr a) \<Longrightarrow>
     consistent st' \<and> learns st st' \<and> (\<exists>xs. rv_resolved st' = add_new (rv_resolved st) xs \<and> R a st' xs)"
  shows "adds m R"
  using assms by (simp add: adds_def)

lemma addsD:
  assumes "adds m R" and "consistent st" and "m st = (st', Inr a)"
  obtains xs where "consistent st'" and "learns st st'" and "rv_resolved st' = add_new (rv_resolved st) xs" and "R a st' xs"
  using assms unfolding adds_def by blast

lemma adds_result:
  "adds m R \<Longrightarrow> consistent st \<Longrightarrow> m st = (st', Inr a) \<Longrightarrow>
   consistent st' \<and> learns st st' \<and> (\<exists>xs. rv_resolved st' = add_new (rv_resolved st) xs \<and> R a st' xs)"
  unfolding adds_def by blast

lemma adds_mono: "adds m R \<Longrightarrow> (\<And>a st xs. R a st xs \<Longrightarrow> Q a st xs) \<Longrightarrow> adds m Q"
  unfolding adds_def by blast

text \<open>A step that changes neither the result nor what is resolved.\<close>

definition silent :: "'a resolving \<Rightarrow> ('a \<Rightarrow> resolver \<Rightarrow> bool) \<Rightarrow> bool" where
  "silent m R \<longleftrightarrow> (\<forall>st st' a. consistent st \<longrightarrow> m st = (st', Inr a) \<longrightarrow>
     consistent st' \<and> learns st st' \<and> rv_resolved st' = rv_resolved st \<and> R a st')"

lemma silentD:
  "silent m R \<Longrightarrow> consistent st \<Longrightarrow> m st = (st', Inr a) \<Longrightarrow> consistent st' \<and> learns st st' \<and> rv_resolved st' = rv_resolved st \<and> R a st'"
  unfolding silent_def by blast

lemma adds_silent:
  assumes "silent m R" and "\<And>a. adds (\<lambda>st. if R a st then k a st else (st, Inl e)) Q"
  shows "adds (and_then m k) Q"
proof (rule addsI)
  fix st st' b
  assume st: "consistent st" and run: "and_then m k st = (st', Inr b)"
  then obtain st1 a where m: "m st = (st1, Inr a)" and k: "k a st1 = (st', Inr b)"
    by (auto simp: and_then_def split: prod.splits sum.splits)
  from silentD [OF assms(1) st m] have s: "consistent st1" "learns st st1" "rv_resolved st1 = rv_resolved st" "R a st1" by simp_all
  have "(if R a st1 then k a st1 else (st1, Inl e)) = (st', Inr b)" using s(4) k by simp
  from addsD [OF assms(2) s(1) this] obtain xs where "consistent st'" "learns st1 st'" "rv_resolved st' = add_new (rv_resolved st1) xs" "Q b st' xs"
    by metis
  then show "consistent st' \<and> learns st st' \<and> (\<exists>xs. rv_resolved st' = add_new (rv_resolved st) xs \<and> Q b st' xs)"
    using s learns_trans by metis
qed

lemma silent_and_then:
  assumes "silent m R" and "\<And>a. silent (k a) Q"
  shows "silent (and_then m k) Q"
  unfolding silent_def
proof (intro allI impI)
  fix st st' b
  assume st: "consistent st" and run: "and_then m k st = (st', Inr b)"
  then obtain st1 a where m: "m st = (st1, Inr a)" and k: "k a st1 = (st', Inr b)"
    by (auto simp: and_then_def split: prod.splits sum.splits)
  from silentD [OF assms(1) st m] silentD [OF assms(2) _ k]
  show "consistent st' \<and> learns st st' \<and> rv_resolved st' = rv_resolved st \<and> Q b st'" using learns_trans by metis
qed

lemma adds_for_each:
  assumes "\<And>x. x \<in> set xs \<Longrightarrow> adds (f x) (\<lambda>_ st zs. E st (x, zs))" and "lasting E"
  shows "adds (for_each f xs) (\<lambda>_ st zs. \<exists>zss. zs = concat zss \<and> list_all2 (\<lambda>x ys. E st (x, ys)) xs zss)"
  using assms(1)
proof (induction xs)
  case Nil
  show ?case by (rule addsI) (auto simp: yield_def intro!: exI [of _ "[]"])
next
  case (Cons x xs)
  show ?case
  proof (rule addsI)
    fix st st' a
    assume st: "consistent st" and run: "for_each f (x # xs) st = (st', Inr a)"
    then obtain st1 b where m: "f x st = (st1, Inr b)" and k: "for_each f xs st1 = (st', Inr a)"
      by (auto simp: and_then_def split: prod.splits sum.splits)
    from Cons.prems [of x] st m obtain ys where 1: "consistent st1" "learns st st1" "rv_resolved st1 = add_new (rv_resolved st) ys" "E st1 (x, ys)"
      by (auto elim: addsD)
    from Cons.IH Cons.prems 1(1) k obtain zss where 2: "consistent st'" "learns st1 st'" "rv_resolved st' = add_new (rv_resolved st1) (concat zss)"
      "list_all2 (\<lambda>x ys. E st' (x, ys)) xs zss" by (auto elim!: addsD)
    have "E st' (x, ys)" using assms(2) 1(4) 2(2) by (auto simp: lasting_def)
    with 1 2 have "rv_resolved st' = add_new (rv_resolved st) (concat (ys # zss)) \<and> list_all2 (\<lambda>x ys. E st' (x, ys)) (x # xs) (ys # zss)"
      by (simp add: add_new_append)
    with 1 2 learns_trans show "consistent st' \<and> learns st st'
        \<and> (\<exists>zs. rv_resolved st' = add_new (rv_resolved st) zs \<and> (\<exists>zss. zs = concat zss \<and> list_all2 (\<lambda>x ys. E st' (x, ys)) (x # xs) zss))"
      by blast
  qed
qed

subsection \<open>The operations\<close>

lemma consistent_grow:
  assumes "consistent st" and "learns st st'" and "rv_resolved st' = rv_resolved st" and "rv_seen_patch_ids st' = rv_seen_patch_ids st"
    and "rv_resolved_series st' = rv_resolved_series st"
    and "\<And>i q. rv_patch_cache st' i = Some q \<Longrightarrow> pp_git_patch_id q = i \<and> normalize_patch_id i = Inr i"
    and "\<And>m series. known_series st' m = Some series \<Longrightarrow> clean_message_id (sr_message_id series) = m"
  shows "consistent st'"
proof -
  have "\<forall>m \<in> rv_resolved_series st'. \<exists>xs. expands_series (known_series st') (rv_patch_cache st') m xs
      \<and> pp_git_patch_id ` set xs \<subseteq> rv_seen_patch_ids st'"
    using assms(1,2,4,5) expands_mono(1) unfolding consistent_def learns_def by metis
  with assms show ?thesis by (simp add: consistent_def)
qed

lemma consistent_bookkeeping:
  assumes "rv_series_cache st' = rv_series_cache st" and "rv_patch_cache st' = rv_patch_cache st" and "rv_resolved st' = rv_resolved st"
    and "rv_seen_patch_ids st' = rv_seen_patch_ids st" and "rv_resolved_series st' = rv_resolved_series st"
  shows "consistent st' \<longleftrightarrow> consistent st" and "learns st st'"
  using assms by (simp_all add: consistent_def learns_def)

lemma normalized_idem: "normalize_patch_id i = Inr j \<Longrightarrow> normalize_patch_id j = Inr j"
proof -
  assume "normalize_patch_id i = Inr j"
  then have i: "is_patch_id i" and j: "j = to_ascii_lower i" by (auto simp: normalize_patch_id_def split: if_splits)
  have hex: "is_hexdigit c \<Longrightarrow> is_hexdigit (ascii_lower c) \<and> len_utf8 (ascii_lower c) = len_utf8 c" for c
    by (auto simp: is_hexdigit_def ascii_lower_def is_ascii_upper_def len_utf8_def)
  have "list_all is_hexdigit s \<Longrightarrow> list_all is_hexdigit (to_ascii_lower s) \<and> str_len (to_ascii_lower s) = str_len s" for s
    by (induction s) (use hex in auto)
  with i j show ?thesis by (simp add: normalize_patch_id_def is_patch_id_def)
qed

lemma cache_patch_learns:
  assumes "consistent st" and "normalize_patch_id (pp_git_patch_id p) = Inr (pp_git_patch_id p)"
  shows "consistent (cache_patch p st)" and "learns st (cache_patch p st)" and "rv_resolved (cache_patch p st) = rv_resolved st"
    and "pp_git_patch_id p \<in> dom (rv_patch_cache (cache_patch p st))"
proof -
  show g: "learns st (cache_patch p st)" and r: "rv_resolved (cache_patch p st) = rv_resolved st"
    by (auto simp: cache_patch_def learns_def map_le_def)
  show "consistent (cache_patch p st)"
    by (rule consistent_grow [OF assms(1) g r]) (use assms in \<open>auto simp: cache_patch_def consistent_def split: if_splits\<close>)
qed (auto simp: cache_patch_def)

lemma silent_required: "silent (cache_required_patches wanted ps) (\<lambda>_ _. True)"
proof (induction ps)
  case (Cons p ps)
  show ?case
    unfolding silent_def
  proof (intro allI impI)
    fix st st' a
    assume st: "consistent st" and run: "cache_required_patches wanted (p # ps) st = (st', Inr a)"
    then obtain i where i: "normalize_patch_id (pp_git_patch_id p) = Inr i"
      and k: "cache_required_patches wanted ps (if List.member wanted i then cache_patch (p\<lparr>pp_git_patch_id := i\<rparr>) st else st) = (st', Inr a)"
      by (auto simp: and_then_def lift_error_def split: sum.splits)
    let ?st = "if List.member wanted i then cache_patch (p\<lparr>pp_git_patch_id := i\<rparr>) st else st"
    have "consistent ?st \<and> learns st ?st \<and> rv_resolved ?st = rv_resolved st"
      using cache_patch_learns [OF st, of "p\<lparr>pp_git_patch_id := i\<rparr>"] normalized_idem [OF i] st by simp
    with silentD [OF Cons.IH _ k] learns_trans show "consistent st' \<and> learns st st' \<and> rv_resolved st' = rv_resolved st \<and> True" by metis
  qed
qed (simp add: silent_def yield_def)

lemma silent_count: "silent count_remote_operation (\<lambda>_ _. True)"
  by (auto simp: silent_def count_remote_operation_def consistent_def learns_def split: if_splits)

lemma silent_remote: "silent (remote ask) (\<lambda>_ _. True)"
  unfolding remote_def by (rule silent_and_then [OF silent_count]) (simp add: silent_def)

lemma found_patch_id: "get_patch_by_git_patch_id db i = Some p \<Longrightarrow> pp_git_patch_id p = i"
  by (auto simp: get_patch_by_git_patch_id_def)

lemma silent_local:
  assumes "normalize_patch_id i = Inr i"
  shows "silent (cache_local_patch env i) (\<lambda>_ _. True)"
  unfolding silent_def
proof (intro allI impI)
  fix st st' a
  assume st: "consistent st" and run: "cache_local_patch env i st = (st', Inr a)"
  have read: "consistent (st\<lparr>rv_reads := n\<rparr>)" "learns st (st\<lparr>rv_reads := n\<rparr>)" for n
    using st consistent_bookkeeping [of "st\<lparr>rv_reads := n\<rparr>" st] by simp_all
  show "consistent st' \<and> learns st st' \<and> rv_resolved st' = rv_resolved st \<and> True"
  proof (cases "i \<in> dom (rv_patch_cache st)")
    case True
    with run st show ?thesis by (simp add: cache_local_patch_def)
  next
    case False
    then obtain db where "env_db env (rv_reads st) = Some db"
      and st': "st' = (case get_patch_by_git_patch_id db i of Some patch \<Rightarrow> cache_patch patch (st\<lparr>rv_reads := rv_reads st + 1\<rparr>)
                     | None \<Rightarrow> st\<lparr>rv_reads := rv_reads st + 1\<rparr>)"
      using run by (auto simp: cache_local_patch_def and_then_def read_db_def split: option.splits)
    define found where "found = get_patch_by_git_patch_id db i"
    have found: "st' = (case found of Some patch \<Rightarrow> cache_patch patch (st\<lparr>rv_reads := rv_reads st + 1\<rparr>) | None \<Rightarrow> st\<lparr>rv_reads := rv_reads st + 1\<rparr>)"
      "\<forall>patch. found = Some patch \<longrightarrow> pp_git_patch_id patch = i"
      using st' found_patch_id by (auto simp: found_def)
    show ?thesis
    proof (cases found)
      case (Some patch)
      then have "normalize_patch_id (pp_git_patch_id patch) = Inr (pp_git_patch_id patch)" using found(2) assms by simp
      from cache_patch_learns(1-3) [OF read(1) this] Some found(1) read(2) learns_trans show ?thesis by (simp, metis)
    qed (use found(1) read in simp)
  qed
qed

lemma silent_yield: "silent (yield a) (\<lambda>_ _. True)"
  by (simp add: silent_def yield_def)

lemma silent_cases: "(\<And>st. m st = m1 st \<or> m st = m2 st) \<Longrightarrow> silent m1 R \<Longrightarrow> silent m2 R \<Longrightarrow> silent m R"
  unfolding silent_def by metis

lemma silent_for_each: "(\<And>x. x \<in> set xs \<Longrightarrow> silent (f x) (\<lambda>_ _. True)) \<Longrightarrow> silent (for_each f xs) (\<lambda>_ _. True)"
proof (induction xs)
  case (Cons x xs)
  then show ?case unfolding for_each.simps by (intro silent_and_then [of "f x" "\<lambda>_ _. True"]) simp_all
qed (simp add: silent_yield)

lemma silent_hinted: "silent (cache_hinted_patches env wanted ms) (\<lambda>_ _. True)"
proof (induction ms)
  case (Cons m ms)
  let ?k = "\<lambda>st. case env_fetch_thread_patches env (rv_remote_operations st) m of
      Inr patches \<Rightarrow> and_then (cache_required_patches wanted patches) (\<lambda>_. cache_hinted_patches env wanted ms) st
    | Inl _ \<Rightarrow> cache_hinted_patches env wanted ms st"
  have "silent ?k (\<lambda>_ _. True)"
    unfolding silent_def
  proof (intro allI impI)
    fix st st' a
    assume st: "consistent st" and run: "?k st = (st', Inr a)"
    show "consistent st' \<and> learns st st' \<and> rv_resolved st' = rv_resolved st \<and> True"
      using silentD [OF silent_and_then [OF silent_required Cons.IH] st] silentD [OF Cons.IH st] run by (auto split: sum.splits)
  qed
  then have counted: "silent (and_then count_remote_operation (\<lambda>_. ?k)) (\<lambda>_ _. True)" by (rule silent_and_then [OF silent_count])
  have "cache_hinted_patches env wanted (m # ms) st = yield () st \<or>
      cache_hinted_patches env wanted (m # ms) st = and_then count_remote_operation (\<lambda>_. ?k) st" for st
    unfolding cache_hinted_patches.simps yield_def by simp
  then show ?case by (rule silent_cases [OF _ silent_yield counted])
qed (simp add: silent_yield)

lemma adds_append: "adds (append_patch p) (\<lambda>_ st xs. \<exists>q. normalized p q \<and> xs = [q])"
proof (rule addsI)
  fix st st' a
  assume st: "consistent st" and run: "append_patch p st = (st', Inr a)"
  then obtain i where i: "normalize_patch_id (pp_git_patch_id p) = Inr i"
    by (auto simp: append_patch_def and_then_def lift_error_def split: sum.splits)
  let ?q = "p\<lparr>pp_git_patch_id := i\<rparr>"
  let ?st = "cache_patch ?q st"
  have q: "normalized p ?q" using i by (auto simp: normalized_def)
  have c: "consistent ?st" "learns st ?st" "rv_resolved ?st = rv_resolved st"
    using cache_patch_learns [OF st, of ?q] normalized_idem [OF i] by simp_all
  have seen: "rv_seen_patch_ids ?st = pp_git_patch_id ` set (rv_resolved ?st)" using c(1) by (simp add: consistent_def)
  show "consistent st' \<and> learns st st' \<and> (\<exists>xs. rv_resolved st' = add_new (rv_resolved st) xs \<and> (\<exists>q. normalized p q \<and> xs = [q]))"
  proof (cases "i \<in> rv_seen_patch_ids ?st")
    case True
    then have "st' = ?st" using run i by (auto simp: append_patch_def and_then_def lift_error_def Let_def)
    moreover have "rv_resolved ?st = add_new (rv_resolved st) [?q]" using True seen c(3) by simp
    ultimately show ?thesis using c q by blast
  next
    case False
    then have st': "st' = ?st\<lparr>rv_seen_patch_ids := insert i (rv_seen_patch_ids ?st), rv_resolved := rv_resolved ?st @ [?q]\<rparr>"
      using run i by (auto simp: append_patch_def and_then_def lift_error_def Let_def split: if_splits)
    have "consistent st'" unfolding st' using consistent_extend [OF c(1), of ?q] by simp
    moreover have "learns st st'" using c(2) unfolding st' learns_def by simp
    moreover have "rv_resolved st' = add_new (rv_resolved st) [?q]" using False seen c(3) by (simp add: st')
    ultimately show ?thesis using q by blast
  qed
qed

lemma resolve_patch_id_adds:
  assumes "normalize_patch_id i = Inr i"
  shows "adds (resolve_patch_id env wanted i) (\<lambda>_ st xs. \<exists>q. rv_patch_cache st i = Some q \<and> xs = [q])"
proof (rule addsI)
  fix st st' a
  assume st: "consistent st" and run: "resolve_patch_id env wanted i st = (st', Inr a)"
  let ?look = "\<lambda>st. if i \<in> dom (rv_patch_cache st) then (st, Inr ())
      else and_then (remote (\<lambda>n. env_search_patch_id env n i)) (cache_required_patches wanted) st"
  have "?look st = yield () st \<or> ?look st = and_then (remote (\<lambda>n. env_search_patch_id env n i)) (cache_required_patches wanted) st" for st
    by (simp add: yield_def)
  then have look: "silent ?look (\<lambda>_ _. True)"
    by (rule silent_cases [OF _ silent_yield silent_and_then [OF silent_remote silent_required]])
  obtain st1 patch where 1: "?look st = (st1, Inr ())" "rv_patch_cache st1 i = Some patch" "append_patch patch st1 = (st', Inr a)"
    using run by (auto simp: resolve_patch_id_def and_then_def split: prod.splits sum.splits option.splits)
  from silentD [OF look st 1(1)] have s1: "consistent st1" "learns st st1" "rv_resolved st1 = rv_resolved st" by simp_all
  from addsD [OF adds_append s1(1) 1(3)] obtain q where 2: "consistent st'" "learns st1 st'" "rv_resolved st' = add_new (rv_resolved st1) [q]" "normalized patch q"
    by metis
  have "pp_git_patch_id patch = i" using s1(1) 1(2) by (simp add: consistent_def)
  then have "q = patch" using 2(4) assms by (auto simp: normalized_def)
  moreover have "rv_patch_cache st' i = Some patch" using 1(2) 2(2) by (auto simp: learns_def map_le_def dom_def)
  ultimately show "consistent st' \<and> learns st st'
      \<and> (\<exists>xs. rv_resolved st' = add_new (rv_resolved st) xs \<and> (\<exists>q. rv_patch_cache st' i = Some q \<and> xs = [q]))"
    using 2 s1 learns_trans by metis
qed

lemma normalize_all_normal: "normalize_all ids = Inr js \<Longrightarrow> j \<in> set js \<Longrightarrow> normalize_patch_id j = Inr j"
  by (induction ids arbitrary: js) (auto split: sum.splits dest: normalized_idem)

definition expansion :: "resolver \<Rightarrow> prerequisite_metadata \<Rightarrow> prereq_patch list \<Rightarrow> bool" where
  "expansion st md xs \<longleftrightarrow> expands_metadata (known_series st) (rv_patch_cache st) md xs"

lemma resolve_patch_ids_adds: "adds (resolve_patch_ids env ids hints) (\<lambda>_ st xs. expansion st (Patch_ids ids hints) xs)"
proof (rule addsI)
  fix st st' a
  assume st: "consistent st" and run: "resolve_patch_ids env ids hints st = (st', Inr a)"
  let ?E = "\<lambda>st (i, ys). \<exists>q. rv_patch_cache st i = Some q \<and> ys = [q]"
  obtain js st1 st2 where js: "normalize_all ids = Inr js"
    and 1: "for_each (cache_local_patch env) js st = (st1, Inr ())" and 2: "cache_hinted_patches env js hints st1 = (st2, Inr ())"
    and 3: "for_each (resolve_patch_id env js) js st2 = (st', Inr a)"
    using run by (auto simp: resolve_patch_ids_def and_then_def lift_error_def split: if_splits sum.splits prod.splits)
  note normal = normalize_all_normal [OF js]
  from silentD [OF silent_for_each [OF silent_local [OF normal]] st 1] have s1: "consistent st1" "learns st st1" "rv_resolved st1 = rv_resolved st" by simp_all
  from silentD [OF silent_hinted s1(1) 2] have s2: "consistent st2" "learns st1 st2" "rv_resolved st2 = rv_resolved st1" by simp_all
  have "lasting ?E" by (auto simp: lasting_def learns_def map_le_def dom_def)
  from adds_for_each [OF _ this, of js "resolve_patch_id env js"] resolve_patch_id_adds normal
  have "adds (for_each (resolve_patch_id env js) js) (\<lambda>_ st zs. \<exists>zss. zs = concat zss \<and> list_all2 (\<lambda>i ys. ?E st (i, ys)) js zss)" by simp
  from adds_result [OF this s2(1) 3] obtain zss where 4: "consistent st'" "learns st2 st'" "rv_resolved st' = add_new (rv_resolved st2) (concat zss)"
    "list_all2 (\<lambda>i ys. ?E st' (i, ys)) js zss" by blast
  have "list_all2 (\<lambda>j q. P j = Some q) js (concat zss)" if "list_all2 (\<lambda>i ys. \<exists>q. P i = Some q \<and> ys = [q]) js zss" for P js zss
    using that by (induction js arbitrary: zss) (auto simp: list_all2_Cons1)
  with 4(4) have "list_all2 (\<lambda>j q. rv_patch_cache st' j = Some q) js (concat zss)" by simp
  with js have "expansion st' (Patch_ids ids hints) (concat zss)"
    unfolding expansion_def by (rule expands_series_expands_metadata_expands_all.patch_ids)
  moreover have "learns st st'" using s1(2) s2(2) 4(2) by (meson learns_trans)
  moreover have "rv_resolved st' = add_new (rv_resolved st) (concat zss)" using s1(3) s2(3) 4(3) by simp
  ultimately show "consistent st' \<and> learns st st' \<and> (\<exists>xs. rv_resolved st' = add_new (rv_resolved st) xs \<and> expansion st' (Patch_ids ids hints) xs)"
    using 4(1) by blast
qed

subsection \<open>Series\<close>

text \<open>A message ID that was read from metadata is clean.\<close>

lemma dropWhile_none: "list_all (\<lambda>c. \<not> P c) s \<Longrightarrow> dropWhile P s = s"
  by (induction s) auto

lemma message_id_chars_clean: "list_all message_id_char s \<Longrightarrow> clean_message_id s = s"
proof -
  assume s: "list_all message_id_char s"
  have "message_id_char c \<Longrightarrow> \<not> is_ws c \<and> c \<noteq> CHR ''<'' \<and> c \<noteq> CHR ''>''" for c
    by (auto simp: message_id_char_def is_ws_def is_ascii_ws_def is_ascii_control_def)
  then have plain: "list_all (\<lambda>c. \<not> is_ws c) s" "list_all (\<lambda>c. \<not> (c = CHR ''<'' \<or> c = CHR ''>'')) s"
    using s by (auto simp: list_all_iff)
  then have "list_all (\<lambda>c. \<not> is_ws c) (rev s)" "list_all (\<lambda>c. \<not> (c = CHR ''<'' \<or> c = CHR ''>'')) (rev s)"
    by (simp_all add: list_all_iff)
  with plain have "trim s = s" by (simp add: trim_def trim_start_def trim_end_def dropWhile_none)
  with plain \<open>list_all (\<lambda>c. \<not> (c = CHR ''<'' \<or> c = CHR ''>'')) (rev s)\<close> show ?thesis
    by (simp add: clean_message_id_def dropWhile_none)
qed

lemma parsed_id_clean: "parse_message_id v = Inr m \<Longrightarrow> clean_message_id m = m"
  by (auto simp: parse_message_id_def Let_def split: if_splits option.splits intro!: message_id_chars_clean)

lemma series_ids_clean: "series_ids_step ids vs = Inr ms \<Longrightarrow> \<forall>m \<in> set ids. clean_message_id m = m \<Longrightarrow> \<forall>m \<in> set ms. clean_message_id m = m"
  by (induction ids vs rule: series_ids_step.induct) (auto split: sum.splits if_splits dest: parsed_id_clean)

lemma based_on_clean: "based_on_step base vs = Inr (Some m) \<Longrightarrow> (\<And>b. base = Some b \<Longrightarrow> clean_message_id b = b) \<Longrightarrow> clean_message_id m = m"
  by (induction base vs rule: based_on_step.induct) (auto split: sum.splits option.splits if_splits dest: parsed_id_clean)

lemma needs_clean: "parse_prerequisite_metadata body = Inr (Some md) \<Longrightarrow> d \<in> set (needs md) \<Longrightarrow> clean_message_id d = d"
  using series_ids_clean [of "[]"] based_on_clean [of None]
  by (auto simp: parse_prerequisite_metadata_def parse_prerequisite_series_ids_def parse_based_on_message_id_def
      split: sum.splits if_splits option.splits)

lemma silent_pure: "silent (lift_error r) (\<lambda>_ _. True)" "silent (read_db env q) (\<lambda>_ _. True)"
proof -
  show "silent (lift_error r) (\<lambda>_ _. True)" by (simp add: silent_def lift_error_def)
  have "consistent (st\<lparr>rv_reads := n\<rparr>) = consistent st" "learns st (st\<lparr>rv_reads := n\<rparr>)" for st n
    by (rule consistent_bookkeeping; simp)+
  then show "silent (read_db env q) (\<lambda>_ _. True)" by (simp add: silent_def read_db_def)
qed

lemma silent_fetch: "silent (fetch_or_load env m) (\<lambda>_ _. True)"
  unfolding fetch_or_load_def
  by (rule silent_and_then [OF silent_pure(2)]) (auto split: option.split intro: silent_pure silent_remote)

lemma load_series_known:
  assumes "clean_message_id m = m"
  shows "silent (load_series env m) (\<lambda>series st. known_series st m = Some series)"
  unfolding silent_def
proof (intro allI impI)
  fix st st' series
  assume st: "consistent st" and run: "load_series env m st = (st', Inr series)"
  show "consistent st' \<and> learns st st' \<and> rv_resolved st' = rv_resolved st \<and> known_series st' m = Some series"
  proof (cases "known_series st m")
    case (Some s)
    with run st assms show ?thesis by (simp add: load_series_def)
  next
    case None
    then obtain st1 where fetched: "fetch_or_load env m st = (st1, Inr series)" and id: "clean_message_id (sr_message_id series) = m"
      and st': "st' = st1\<lparr>rv_series_cache := rv_series_cache st1 @ [(m, series)]\<rparr>"
      using run assms by (auto simp: load_series_def Let_def and_then_def split: if_splits prod.splits sum.splits)
    from silentD [OF silent_fetch st fetched] have s1: "consistent st1" "learns st st1" "rv_resolved st1 = rv_resolved st" by simp_all
    have new: "known_series st1 m = None" using None fetch_keeps_cache [OF fetched] by simp
    then have known: "known_series st' = (known_series st1)(m \<mapsto> series)" by (auto simp: st' fun_eq_iff map_add_def split: option.split)
    have g: "learns st1 st'" using new by (auto simp: learns_def known map_le_def st')
    have "consistent st'"
    proof (rule consistent_grow [OF s1(1) g])
      show "clean_message_id (sr_message_id s) = n" if "known_series st' n = Some s" for n s
        using that id consistentD(3) [OF s1(1)] by (auto simp: known split: if_splits)
      show "pp_git_patch_id q = i \<and> normalize_patch_id i = Inr i" if "rv_patch_cache st' i = Some q" for i q
        using that consistentD(2) [OF s1(1)] by (simp add: st')
    qed (simp_all add: st')
    with g s1 learns_trans [OF s1(2) g] known show ?thesis by (simp add: st')
  qed
qed

lemma expands_all_concat: "list_all2 (\<lambda>m ys. expands_series S P m ys) ms yss \<Longrightarrow> expands_all S P ms (concat yss)"
  by (induction ms yss rule: list_all2_induct) (auto intro: expands_series_expands_metadata_expands_all.intros)

abbreviation series_expansion :: "resolver \<Rightarrow> string \<times> prereq_patch list \<Rightarrow> bool" where
  "series_expansion st \<equiv> (\<lambda>(m, xs). expands_series (known_series st) (rv_patch_cache st) m xs)"

lemma lasting_series: "lasting series_expansion"
  by (auto simp: lasting_def learns_def intro: expands_mono(1))

lemma resolve_metadata_adds:
  assumes "\<And>m. clean_message_id m = m \<Longrightarrow> adds (resolve m) (\<lambda>_ st xs. series_expansion st (m, xs))" and "\<And>d. d \<in> set (needs md) \<Longrightarrow> clean_message_id d = d"
  shows "adds (resolve_metadata resolve env md) (\<lambda>_ st xs. expansion st md xs)"
proof (cases md)
  case (Patch_ids ids hints)
  then show ?thesis using resolve_patch_ids_adds by (simp add: resolve_metadata_def)
next
  case (Message_ids ms)
  have "adds (for_each resolve ms) (\<lambda>_ st zs. \<exists>zss. zs = concat zss \<and> list_all2 (\<lambda>m ys. series_expansion st (m, ys)) ms zss)"
    by (rule adds_for_each [OF _ lasting_series]) (use assms Message_ids in auto)
  then show ?thesis
    unfolding Message_ids resolve_metadata_def prerequisite_metadata.case
    by (rule adds_mono) (auto simp: expansion_def intro!: expands_series_expands_metadata_expands_all.message_ids expands_all_concat)
next
  case (Based_on m)
  have "adds (resolve m) (\<lambda>_ st xs. series_expansion st (m, xs))" using assms Based_on by simp
  then show ?thesis
    unfolding Based_on resolve_metadata_def prerequisite_metadata.case
    by (rule adds_mono) (auto simp: expansion_def intro: expands_series_expands_metadata_expands_all.based_on)
qed

lemma own_patches_add: "adds (for_each append_patch ps) (\<lambda>_ st xs. list_all2 normalized ps xs)"
proof -
  have "adds (for_each append_patch ps) (\<lambda>_ st zs. \<exists>zss. zs = concat zss \<and> list_all2 (\<lambda>p ys. \<exists>q. normalized p q \<and> ys = [q]) ps zss)"
    using adds_for_each [of ps append_patch "\<lambda>_ (p, ys). \<exists>q. normalized p q \<and> ys = [q]"] adds_append by (simp add: lasting_def)
  moreover have "list_all2 (\<lambda>p ys. \<exists>q. normalized p q \<and> ys = [q]) ps zss \<Longrightarrow> list_all2 normalized ps (concat zss)" for zss
    by (induction ps arbitrary: zss) (auto simp: list_all2_Cons1)
  ultimately show ?thesis by (auto intro: adds_mono)
qed

lemma consistent_resolve:
  assumes "consistent st" and "expands_series (known_series st) (rv_patch_cache st) m xs"
    and "pp_git_patch_id ` set xs \<subseteq> pp_git_patch_id ` set (rv_resolved st)"
  shows "consistent (st\<lparr>rv_resolved_series := insert m (rv_resolved_series st)\<rparr>)"
proof (rule consistentI, goal_cases)
  case 1
  show ?case using consistentD(1) [OF assms(1)] by simp
next
  case 2
  show ?case by simp (blast dest: consistentD(2) [OF assms(1)])
next
  case 3
  show ?case by simp (blast dest: consistentD(3) [OF assms(1)])
next
  case 4
  have "pp_git_patch_id ` set xs \<subseteq> rv_seen_patch_ids st" using assms(3) consistentD(1) [OF assms(1)] by simp
  then show ?case using assms(2) by simp (blast dest: consistentD(4) [OF assms(1)])
qed

text \<open>The patches of a series, after those it needs.\<close>

lemma series_body_adds:
  assumes "\<And>d. clean_message_id d = d \<Longrightarrow> adds (resolve d) (\<lambda>_ st xs. series_expansion st (d, xs))"
    and "consistent st" and "known_series st m = Some series"
    and "and_then (and_then (lift_error (parse_prerequisite_metadata (sr_body series))) (\<lambda>metadata.
           case metadata of None \<Rightarrow> yield () | Some md \<Rightarrow> resolve_metadata resolve env md)) (\<lambda>_. for_each append_patch (sr_patches series)) st = (st', Inr a)"
  shows "consistent st' \<and> learns st st' \<and> (\<exists>xs. rv_resolved st' = add_new (rv_resolved st) xs \<and> series_expansion st' (m, xs))"
proof -
  obtain metadata st1 where parsed: "parse_prerequisite_metadata (sr_body series) = Inr metadata"
    and 1: "(case metadata of None \<Rightarrow> yield () | Some md \<Rightarrow> resolve_metadata resolve env md) st = (st1, Inr ())"
    and 2: "for_each append_patch (sr_patches series) st1 = (st', Inr a)"
    using assms(4) by (auto simp: and_then_def lift_error_def split: sum.splits prod.splits)
  show ?thesis
  proof (cases metadata)
    case None
    with 1 have "st1 = st" by (simp add: yield_def)
    with adds_result [OF own_patches_add assms(2)] 2 obtain qs where qs: "consistent st'" "learns st st'"
      "rv_resolved st' = add_new (rv_resolved st) qs" "list_all2 normalized (sr_patches series) qs" by metis
    have "known_series st' m = Some series" using assms(3) qs(2) by (auto simp: learns_def map_le_def dom_def)
    with parsed None qs(4) have "series_expansion st' (m, qs)"
      by (auto intro: expands_series_expands_metadata_expands_all.independent)
    with qs show ?thesis by blast
  next
    case (Some md)
    have clean: "clean_message_id d = d" if "d \<in> set (needs md)" for d using needs_clean parsed Some that by metis
    have "resolve_metadata resolve env md st = (st1, Inr ())" using 1 Some by simp
    from adds_result [OF resolve_metadata_adds [OF assms(1) clean] assms(2) this] obtain ys where ys: "consistent st1" "learns st st1"
      "rv_resolved st1 = add_new (rv_resolved st) ys" "expansion st1 md ys" by blast
    from adds_result [OF own_patches_add ys(1) 2] obtain qs where qs: "consistent st'" "learns st1 st'"
      "rv_resolved st' = add_new (rv_resolved st1) qs" "list_all2 normalized (sr_patches series) qs" by blast
    have g: "learns st st'" using ys(2) qs(2) by (rule learns_trans)
    then have "known_series st' m = Some series" using assms(3) by (auto simp: learns_def map_le_def dom_def)
    moreover have "expands_metadata (known_series st') (rv_patch_cache st') md ys"
      using ys(4) qs(2) expands_mono(2) unfolding expansion_def learns_def by blast
    ultimately have "series_expansion st' (m, ys @ qs)"
      using parsed Some qs(4) by (auto intro: expands_series_expands_metadata_expands_all.dependent)
    moreover have "rv_resolved st' = add_new (rv_resolved st) (ys @ qs)" using ys(3) qs(3) by (simp add: add_new_append)
    ultimately show ?thesis using qs(1) g by blast
  qed
qed

lemma resolve_series_adds: "clean_message_id m = m \<Longrightarrow> adds (resolve_series left env m) (\<lambda>_ st xs. series_expansion st (m, xs))"
proof (induction left arbitrary: m)
  case 0
  show ?case by (rule addsI) simp
next
  case (Suc left)
  note clean = Suc.prems
  show ?case
  proof (rule addsI)
    fix st st' a
    assume st: "consistent st" and run: "resolve_series (Suc left) env m st = (st', Inr a)"
    show "consistent st' \<and> learns st st' \<and> (\<exists>xs. rv_resolved st' = add_new (rv_resolved st) xs \<and> series_expansion st' (m, xs))"
    proof (cases "m \<in> rv_resolved_series st")
      case True
      then have "st' = st" using run clean by (simp add: Let_def split: if_splits)
      moreover obtain xs where xs: "series_expansion st (m, xs)" "pp_git_patch_id ` set xs \<subseteq> rv_seen_patch_ids st"
        using consistentD(4) [OF st True] by auto
      moreover have "add_new (rv_resolved st) xs = rv_resolved st"
        using xs(2) consistentD(1) [OF st] by (simp add: add_new_known)
      ultimately show ?thesis using st by (metis learns_refl)
    next
      case False
      let ?body = "\<lambda>series. and_then (and_then (lift_error (parse_prerequisite_metadata (sr_body series))) (\<lambda>metadata.
          case metadata of None \<Rightarrow> yield () | Some md \<Rightarrow> resolve_metadata (resolve_series left env) env md)) (\<lambda>_. for_each append_patch (sr_patches series))"
      obtain st1 series where load: "load_series env m st = (st1, Inr series)"
        and rest: "(let (st2, r) = ?body series (enter_series m series st1); st3 = leave_series m series st2
           in (case r of Inl _ \<Rightarrow> st3 | Inr _ \<Rightarrow> st3\<lparr>rv_resolved_series := insert (clean_message_id (sr_message_id series)) (rv_resolved_series st3)\<rparr>, r)) = (st', Inr a)"
        using run clean False by (auto simp: Let_def and_then_def split: if_splits prod.splits sum.splits)
      from silentD [OF load_series_known [OF clean] st load]
      have s1: "consistent st1" "learns st st1" "rv_resolved st1 = rv_resolved st" "known_series st1 m = Some series" by simp_all
      have id: "clean_message_id (sr_message_id series) = m" using consistentD(3) [OF s1(1,4)] .
      obtain st2 where body: "?body series (enter_series m series st1) = (st2, Inr a)"
        and st': "st' = (leave_series m series st2)\<lparr>rv_resolved_series := insert m (rv_resolved_series (leave_series m series st2))\<rparr>"
        using rest id by (auto simp: Let_def split: prod.splits sum.splits)
      have e: "consistent (enter_series m series st1)" "learns st1 (enter_series m series st1)"
        "rv_resolved (enter_series m series st1) = rv_resolved st1" "known_series (enter_series m series st1) m = Some series"
        using consistent_bookkeeping [of "enter_series m series st1" st1] s1 by (simp_all add: enter_series_def)
      from series_body_adds [OF Suc.IH e(1,4) body] obtain xs where 2: "consistent st2" "learns (enter_series m series st1) st2"
        "rv_resolved st2 = add_new (rv_resolved st) xs" "series_expansion st2 (m, xs)" using e(3) s1(3) by auto
      let ?l = "leave_series m series st2"
      have l: "consistent ?l" "learns st2 ?l" "rv_resolved ?l = rv_resolved st2"
          "expands_series (known_series ?l) (rv_patch_cache ?l) m xs"
        using consistent_bookkeeping [of ?l st2] 2(1,4) by (simp_all add: leave_series_def)
      have "pp_git_patch_id ` set xs \<subseteq> pp_git_patch_id ` set (rv_resolved ?l)" using 2(3) l(3) add_new_ids by simp
      from consistent_resolve [OF l(1,4) this] have "consistent st'" by (simp add: st')
      moreover have "learns st st'" using s1(2) e(2) 2(2) l(2) by (simp add: st' learns_def) (meson map_le_trans)
      moreover have "rv_resolved st' = add_new (rv_resolved st) xs" "series_expansion st' (m, xs)" using 2(3) l(3,4) by (simp_all add: st')
      ultimately show ?thesis by blast
    qed
  qed
qed

lemma accp_no_cycle: "Wellfounded.accp r x \<Longrightarrow> \<not> r\<^sup>+\<^sup>+ x x"
proof (induction rule: accp_induct_rule)
  case (1 x)
  show ?case
  proof
    assume cycle: "r\<^sup>+\<^sup>+ x x"
    then have "\<exists>y. r\<^sup>*\<^sup>* x y \<and> r y x"
      by (cases rule: tranclp.cases) (blast intro: tranclp_into_rtranclp)+
    then obtain y where "r\<^sup>*\<^sup>* x y" "r y x" by blast
    then have "r\<^sup>+\<^sup>+ y y" by (rule rtranclp_into_tranclp2 [rotated])
    with 1 \<open>r y x\<close> show False by blast
  qed
qed

text \<open>
  C20. What is resolved is the plain expansion of the metadata over the series and patches that were found, each series after all that it needs,
  reduced to the first patch of each ID; and no series that is needed, directly or through others, needs itself.
\<close>

theorem resolution_is_expansion:
  assumes "resolve_prerequisites env patchset_id message_id body resolver_new = (st, Inr ps)"
    and "parse_prerequisite_metadata body = Inr (Some md)"
  shows "(\<exists>xs. expands_metadata (known_series st) (rv_patch_cache st) md xs \<and> ps = add_new [] xs)
     \<and> (\<forall>d \<in> set (needs md). \<forall>m. (depends (known_series st))\<^sup>*\<^sup>* d m \<longrightarrow> \<not> (depends (known_series st))\<^sup>+\<^sup>+ m m)"
proof -
  let ?st = "resolver_new\<lparr>rv_active_patchset_ids := insert patchset_id (rv_active_patchset_ids resolver_new),
     rv_active_message_ids := clean_message_id ` set_option message_id \<union> rv_active_message_ids resolver_new\<rparr>"
  have run: "resolve_metadata (resolve_series max_prerequisite_depth env) env md ?st = (st, Inr ())" "ps = rv_resolved st"
    using assms by (auto simp: resolve_prerequisites_def resolve_target_def Let_def and_then_def split: prod.splits sum.splits)
  have "consistent ?st" by (simp add: consistent_def resolver_new_def)
  from adds_result [OF resolve_metadata_adds [OF resolve_series_adds needs_clean [OF assms(2)]] this run(1)]
  obtain xs where xs: "rv_resolved st = add_new [] xs" "expansion st md xs" by (auto simp: resolver_new_def)
  let ?r = "(depends (known_series st))\<inverse>\<inverse>"
  have "\<not> (depends (known_series st))\<^sup>+\<^sup>+ m m" if "d \<in> set (needs md)" and reach: "(depends (known_series st))\<^sup>*\<^sup>* d m" for d m
  proof -
    have "Wellfounded.accp (\<lambda>d m. depends (known_series st) m d) d" using expands_acyclic(2) xs(2) that(1) unfolding expansion_def by blast
    then have "Wellfounded.accp ?r d" by (simp add: conversep.simps [abs_def])
    moreover have "?r\<^sup>*\<^sup>* m d" using reach by (rule rtranclp_converseI)
    ultimately have "Wellfounded.accp ?r m" by (rule accp_downwards)
    then have "\<not> ?r\<^sup>+\<^sup>+ m m" by (rule accp_no_cycle)
    then show ?thesis by (simp add: tranclp_converse)
  qed
  then show ?thesis using run(2) xs by (auto simp: expansion_def)
qed

text \<open>Two series in the archive, of which one rests on the other, and a third that rests on itself.\<close>

definition example_patch :: "char \<Rightarrow> prereq_patch" where
  "example_patch c = \<lparr>pp_git_patch_id = replicate 40 c, pp_message_id = [c], pp_subject = '''', pp_author = '''', pp_date = 0, pp_diff = ''d''\<rparr>"

definition example_series :: "string \<Rightarrow> string \<Rightarrow> prereq_patch list \<Rightarrow> prereq_series" where
  "example_series m body ps = \<lparr>sr_local_patchset_id = None, sr_message_id = m, sr_body = body, sr_patches = ps\<rparr>"

definition example_env :: prereq_env where
  "example_env = \<lparr>env_db = (\<lambda>_. Some \<lparr>qd_heads = [], qd_parts = []\<rparr>), env_git_patch_id = (\<lambda>_. Inr None),
     env_fetch_series = (\<lambda>_ m. if m = ''a@x'' then Inr (example_series ''a@x'' ''Based-on: <b@x>'' [example_patch CHR ''A'', example_patch CHR ''b''])
        else if m = ''b@x'' then Inr (example_series ''b@x'' '''' [example_patch CHR ''b''])
        else Inr (example_series m (''Based-on: '' @ m) [])),
     env_fetch_thread_patches = (\<lambda>_ _. Inr []), env_search_patch_id = (\<lambda>_ _. Inr [])\<rparr>"

definition example_body :: string where
  "example_body = ''prerequisite-message-id: a@x'' @ [CHR 0x0A] @ ''prerequisite-message-id: <b@x>''"

theorem resolution_is_expansion_witness:
  "\<exists>st ps xs. resolve_prerequisites example_env 1 None example_body resolver_new = (st, Inr ps)
     \<and> expands_metadata (known_series st) (rv_patch_cache st) (Message_ids [''a@x'', ''b@x'']) xs \<and> ps = add_new [] xs"
proof -
  have "case resolve_prerequisites example_env 1 None example_body resolver_new of (_, Inl _) \<Rightarrow> False | (_, Inr _) \<Rightarrow> True" by code_simp
  then obtain st ps where run: "resolve_prerequisites example_env 1 None example_body resolver_new = (st, Inr ps)"
    by (cases "resolve_prerequisites example_env 1 None example_body resolver_new") (auto split: sum.splits)
  moreover have "parse_prerequisite_metadata example_body = Inr (Some (Message_ids [''a@x'', ''b@x'']))" by code_simp
  ultimately show ?thesis using resolution_is_expansion [OF run] by blast
qed

lemma example_resolution:
  "map_sum id (map pp_git_patch_id) (snd (resolve_prerequisites example_env 1 None example_body resolver_new))
     = Inr [replicate 40 (CHR ''b''), replicate 40 (CHR ''a'')]"
  "rv_remote_operations (fst (resolve_prerequisites example_env 1 None example_body resolver_new)) = 2"
  "snd (resolve_prerequisites example_env 1 None ''Based-on: c@x'' resolver_new) = Inl (Dependency_cycle ''c@x'')"
  "snd (resolve_prerequisites example_env 1 (Some ''<t@x>'') ''Based-on: t@x'' resolver_new) = Inl (Dependency_cycle ''t@x'')"
  by code_simp+

end
