(* ===== verification/Spec2Isabelle.thy ===== *)
theory Spec2Isabelle
  imports Severity MaintParser Access Patchwork Quota Truncator PatchLineage BugLease Workflow Budget Guard Delivery SeriesVerdict PrereqOrder
begin

text \<open>
  The core of sashiko, a server that reviews Linux kernel patches with language models, as definitions that follow its Rust sources and
  theorems about them. Paths are relative to \<open>src/src\<close>.

  The program. Mail and merge requests become patchsets with patches in a database (\<open>db.rs\<close>). A scheduler claims a patchset, and for each
  patch a workflow runs: a graph of stages, each a conversation with a model that may call tools (\<open>workflows/engine\<close>, \<open>ai/session.rs\<close>),
  under a limiter of requests and tokens (\<open>ai/quota.rs\<close>) and a budget of time (\<open>ai/backoff_provider.rs\<close>). Results go out as mail, checks and
  comments through queues (\<open>worker/\<close>), to recipients that a policy and the MAINTAINERS file decide (\<open>email_policy.rs\<close>, \<open>email_router.rs\<close>,
  \<open>maintainers.rs\<close>). Bugs found in passing have a life of their own: workers lease them, and readers see them as far as their identity
  allows (\<open>access.rs\<close>, \<open>auth.rs\<close>).

  Theories and sources, in the order of the imports:
  \<^item> \<open>Prelude\<close>: strings as Rust's \<open>str\<close> methods see them, decimal numbers, list and map lemmas, and the collections of hints the others share.
  \<^item> \<open>Severity\<close> (enums of \<open>db.rs\<close>), \<open>Acl\<close> (\<open>settings.rs\<close>): the vocabulary of findings, and who holds which capability.
  \<^item> \<open>MaintPatterns\<close>, \<open>FileMatcher\<close>, \<open>MaintIndex\<close>, \<open>MaintParser\<close> (\<open>maintainers.rs\<close>, \<open>upstream_grants.rs\<close>): patterns of MAINTAINERS, the
    bucketed matcher and its equivalence with matching section by section, the index with its grants, and the parser.
  \<^item> \<open>Access\<close> (\<open>access.rs\<close>, \<open>auth.rs\<close>, parts of \<open>server.rs\<close>): from the headers of a request to a principal, and from that to the bugs,
    embargoes and transcripts it may see; the listing filter of the database agrees with the single decision.
  \<^item> \<open>EmailPolicy\<close>, \<open>EmailRouter\<close>, \<open>Patchwork\<close>: policies of mailing lists, the recipients of a review, and the state of a check.
  \<^item> \<open>PatchLineage\<close> (\<open>patch_lineage.rs\<close>): which patch of an earlier version a patch continues.
  \<^item> \<open>ReviewTable\<close>, \<open>ReviewClaim\<close> (\<open>db.rs\<close>): the tables of the reviews and every transaction on them; the steps of workers, cancellation and
    reruns. A worker holds a generation: once another has been given out, or the patchset was cancelled, nothing it writes arrives.
  \<^item> \<open>Outbox\<close>, \<open>Delivery\<close> (\<open>db.rs\<close>, \<open>worker/email.rs\<close>, \<open>worker/patchwork.rs\<close>): the queues and the workers that empty them; the locale
    \<open>delivery_queue\<close> states what such a worker relies on and is interpreted on mail and on checks.
  \<^item> \<open>PatchReview\<close>, \<open>SeriesReview\<close>, \<open>SeriesVerdict\<close> (\<open>reviewer.rs\<close>): the review of a patch with its attempts, and of the patches of a
    series, as a worker runs them against a database that others change and that may fail between any two of its statements; what they leave behind
    undisturbed, and how often the review tool runs at most.
  \<^item> \<open>Prereq\<close>, \<open>PrereqThread\<close>, \<open>PrereqResolver\<close>, \<open>PrereqOrder\<close> (\<open>prerequisites.rs\<close>, \<open>mbox.rs\<close>): the patches a series says it is
    built on: its metadata, the mailbox of a thread and the series in it, and the resolver with its caches, its limits and its search for
    cycles, which returns what a plain expansion of the metadata gives.
  \<^item> \<open>BugTable\<close>, \<open>BugLease\<close> (\<open>db.rs\<close>, \<open>worker/bug_worker.rs\<close>): the rows of bugs and the protocol of leases on them, refined from a lock per bug.
  \<^item> \<open>Quota\<close> (\<open>ai/quota.rs\<close>), \<open>Budget\<close> (\<open>ai/backoff_provider.rs\<close>): spacing of requests, the ceiling of tokens, the accounting of a deadline.
  \<^item> \<open>AiTypes\<close>, \<open>Conversation\<close>, \<open>Session\<close>, \<open>ModelOutput\<close>, \<open>Truncator\<close>, \<open>Prompt\<close>, \<open>Guard\<close>, \<open>Stage\<close>, \<open>Workflow\<close> (\<open>ai/session.rs\<close>,
    \<open>ai/truncator.rs\<close>, \<open>workflows/engine/\<close>, \<open>workflows/guard.rs\<close>): messages, the loop of a session, repair and validation of answers, prompt
    layout, one stage with its tools, and the graph of stages with its error policies.

  What the lemmas show. Each component has an invariant that its operations keep and the behaviour of its branches, errors included; the
  properties that span components are the confinement of access (request to listing), the refinement of the lock by the leases, the
  verdict of a series over the transactions on its rows, the delivery of a queue while reviews are cancelled and rerun, and the outcome of a workflow of stages of sessions.

  Interfaces. The locales (a regular expression engine, the lock of a bug, a queue that is delivered, the task of a session, and others) hold what
  a client needs; each is interpreted on the definitions that provide it, and the properties rest on these interpretations.

  Bounds and termination. The loop of a session is a partial function, and it is proved to return for every model and every clock; loops
  with a counter are functions with a measure. Nothing runs on fuel. Sizes and clocks are integers or naturals; where the code
  saturates or clamps, so do the definitions.

  Abstractions. Characters are those up to U+00FF. A table is the list of its rows, a statement or transaction one step, as
  SQLite serialises them; audit, telemetry and payload columns are left out or collected in one. The clock of the program and of the database
  is one. Hash maps are functions or association lists, and no result depends on their order except where the theory says so.
  Parameters of the definitions are: the regular expression engine, the verification of tokens and digests, the models, the tools, the parser
  of JSON, the file system, the transports of mail and checks, and, for prerequisites, the parser of one mail, \<open>git patch-id\<close> and the archive.

  Not modelled: wire formats of the model providers, git and other subprocesses, the HTTP routes and pages, migrations and listing queries, MIME and
  NNTP, prompts of particular projects, and the command line programs; they are input and output, text, or calls of libraries. Merging two
  copies of a series, which rewrites rows of the queues, is not a step of the runs.
\<close>

end
